(* ===== verification/Dc_Prelude.thy ===== *)
theory Dc_Prelude
  imports Main "HOL-Library.Word"
begin

text \<open>
  Shared vocabulary of the development: the integer types of the sources, the
  return codes of \<^verbatim>\<open>utils/src/swartz_types.h\<close>, the byte view of a
  \<^verbatim>\<open>std::string\<close>, the list idioms the C++ code uses (erasing the first match
  of a vector or a list, updating the first match in place), and the collections of
  rules the component theories add to.
\<close>

unbundle bit_operations_syntax

section \<open>Rule collections\<close>

named_theorems reader_ok \<open>closure rules: a reader consumes what it counts\<close>
named_theorems writer_ok \<open>closure rules: a writer counts what it appends\<close>
named_theorems reader_fin \<open>closure rules: a reader never exhausts its loop budget\<close>
named_theorems wire_simps \<open>what a reader does on the bytes of the matching writer\<close>

section \<open>Integer types and return codes\<close>

type_synonym byte = "8 word"
type_synonym int8 = "8 word"
type_synonym int16 = "16 word"
type_synonym int32 = "32 word"
type_synonym uint32 = "32 word"
type_synonym int64 = "64 word"

definition SWARTZ_OK :: int where
  "SWARTZ_OK = 0"

definition SWARTZ_ERR :: int where
  "SWARTZ_ERR = -1"

definition SWARTZ_INFINITE :: int where
  "SWARTZ_INFINITE = -1"

lemmas swartz_codes [simp] = SWARTZ_OK_def SWARTZ_ERR_def SWARTZ_INFINITE_def

text \<open>Division and remainder of C++11: truncation towards zero.\<close>

definition cdiv :: "int \<Rightarrow> int \<Rightarrow> int" where
  "cdiv a b = sgn a * sgn b * (\<bar>a\<bar> div \<bar>b\<bar>)"

definition cmod :: "int \<Rightarrow> int \<Rightarrow> int" where
  "cmod a b = a - b * cdiv a b"

lemma cdiv_nonneg [simp]: "0 \<le> a \<Longrightarrow> 0 < b \<Longrightarrow> cdiv a b = a div b"
  by (cases "a = 0") (simp_all add: cdiv_def)

lemma cmod_nonneg [simp]: "0 \<le> a \<Longrightarrow> 0 < b \<Longrightarrow> cmod a b = a mod b"
  by (simp add: cmod_def minus_mult_div_eq_mod)

text \<open>The clock structures of \<^verbatim>\<open>time.h\<close> and \<^verbatim>\<open>sys/time.h\<close>.\<close>

record timespec =
  tv_sec :: int
  tv_nsec :: int

record timeval =
  tvl_sec :: int
  tv_usec :: int

section \<open>Strings as bytes\<close>

definition byte_of_char :: "char \<Rightarrow> byte" where
  "byte_of_char c = word_of_nat (of_char c)"

definition char_of_byte :: "byte \<Rightarrow> char" where
  "char_of_byte b = char_of (unat b)"

lemma char_of_byte_of_char [simp]: "char_of_byte (byte_of_char c) = c"
  by (simp add: char_of_byte_def byte_of_char_def unat_of_nat)

lemma map_char_of_byte [simp]: "map char_of_byte (map byte_of_char s) = s"
  by (induction s) simp_all

lemma map_char_of_byte_comp [simp]: "map (char_of_byte \<circ> byte_of_char) s = s"
  by (induction s) simp_all

text \<open>A C string read from a character array stops at the first NUL.\<close>

definition c_str :: "string \<Rightarrow> string" where
  "c_str s = takeWhile (\<lambda>c. c \<noteq> CHR 0x00) s"

lemma c_str_idem [simp]: "c_str (c_str s) = c_str s"
  by (simp add: c_str_def)

lemma c_str_no_nul: "CHR 0x00 \<notin> set (c_str s)"
  by (auto simp: c_str_def dest: set_takeWhileD)

lemma c_str_id [simp]: "CHR 0x00 \<notin> set s \<Longrightarrow> c_str s = s"
  by (auto simp: c_str_def takeWhile_eq_all_conv)

section \<open>First-match idioms over vectors and lists\<close>

text \<open>
  \<open>erase_first\<close> is the loop that erases the first element that satisfies a test and
  breaks; \<open>update_first\<close> is the loop that modifies it in place and breaks.
\<close>

fun erase_first :: "('a \<Rightarrow> bool) \<Rightarrow> 'a list \<Rightarrow> 'a list" where
  "erase_first P [] = []"
| "erase_first P (x # xs) = (if P x then xs else x # erase_first P xs)"

fun update_first :: "('a \<Rightarrow> bool) \<Rightarrow> ('a \<Rightarrow> 'a) \<Rightarrow> 'a list \<Rightarrow> 'a list" where
  "update_first P f [] = []"
| "update_first P f (x # xs) = (if P x then f x # xs else x # update_first P f xs)"

lemma erase_first_id [simp]: "\<forall>x \<in> set xs. \<not> P x \<Longrightarrow> erase_first P xs = xs"
  by (induction xs) auto

lemma update_first_id [simp]: "\<forall>x \<in> set xs. \<not> P x \<Longrightarrow> update_first P f xs = xs"
  by (induction xs) auto

lemma length_update_first [simp]: "length (update_first P f xs) = length xs"
  by (induction xs) auto

lemma set_erase_first_subset: "set (erase_first P xs) \<subseteq> set xs"
  by (induction xs) auto

lemma set_erase_firstD [dest]: "x \<in> set (erase_first P xs) \<Longrightarrow> x \<in> set xs"
  using set_erase_first_subset by fast

lemma map_update_first [simp]:
  "(\<And>x. g (f x) = g x) \<Longrightarrow> map g (update_first P f xs) = map g xs"
  by (induction xs) auto

lemma map_erase_first_key:
  "map g (erase_first (\<lambda>x. g x = k) xs) = erase_first (\<lambda>y. y = k) (map g xs)"
  by (induction xs) auto

lemma distinct_map_erase_first:
  "distinct (map g xs) \<Longrightarrow> distinct (map g (erase_first P xs))"
  by (induction xs) auto

lemma length_erase_first:
  "length (erase_first P xs) = (if \<exists>x \<in> set xs. P x then length xs - 1 else length xs)"
  by (induction xs) (auto simp: neq_Nil_conv dest: length_pos_if_in_set)

text \<open>With distinct keys the first match is the only one, so erasing it is filtering.\<close>

lemma erase_first_key_filter:
  "distinct (map g xs) \<Longrightarrow> erase_first (\<lambda>x. g x = k) xs = filter (\<lambda>x. g x \<noteq> k) xs"
proof (induction xs)
  case Nil
  show ?case by simp
next
  case (Cons a xs)
  show ?case
  proof (cases "g a = k")
    case True
    with Cons.prems have "\<forall>x \<in> set xs. g x \<noteq> k" by (auto simp: image_iff)
    then have "filter (\<lambda>x. g x \<noteq> k) xs = xs" by (simp add: filter_id_conv)
    with True show ?thesis by simp
  next
    case False
    with Cons show ?thesis by simp
  qed
qed

lemma erase_first_mem:
  "x \<in> set xs \<Longrightarrow> \<not> P x \<Longrightarrow> x \<in> set (erase_first P xs)"
  by (induction xs) auto

lemma count_erase_first_other: "Q \<noteq> k \<Longrightarrow> Q \<in> set xs \<Longrightarrow> Q \<in> set (erase_first (\<lambda>y. y = k) xs)"
  by (induction xs) auto

section \<open>Decimal output of integers\<close>

text \<open>What \<^verbatim>\<open>operator<<\<close> and \<^verbatim>\<open>std::to_string\<close> print for an integer.\<close>

definition digit_char :: "nat \<Rightarrow> char" where
  "digit_char d = ''0123456789'' ! d"

definition decimal_digits :: "char set" where
  "decimal_digits = set ''0123456789''"

fun show_nat :: "nat \<Rightarrow> string" where
  "show_nat n = (if n < 10 then [digit_char n] else show_nat (n div 10) @ [digit_char (n mod 10)])"

declare show_nat.simps [simp del]

definition show_int :: "int \<Rightarrow> string" where
  "show_int i = (if i < 0 then CHR ''-'' # show_nat (nat (- i)) else show_nat (nat i))"

lemma digit_char_decimal: "d < 10 \<Longrightarrow> digit_char d \<in> decimal_digits"
  unfolding digit_char_def decimal_digits_def by (rule nth_mem) simp

lemma set_show_nat: "set (show_nat n) \<subseteq> decimal_digits"
proof (induction n rule: show_nat.induct)
  case (1 n)
  show ?case
    using 1 digit_char_decimal [of n] digit_char_decimal [of "n mod 10"]
    by (subst show_nat.simps) auto
qed

lemma set_show_int: "set (show_int i) \<subseteq> insert (CHR ''-'') decimal_digits"
  using set_show_nat [of "nat (- i)"] set_show_nat [of "nat i"] by (auto simp: show_int_def)

lemma not_in_show_int: "c \<notin> decimal_digits \<Longrightarrow> c \<noteq> CHR ''-'' \<Longrightarrow> c \<notin> set (show_int i)"
  using set_show_int by blast

text \<open>Reading the digits back, as a left fold over the text.\<close>

definition digit_val :: "char \<Rightarrow> nat" where
  "digit_val c = of_char c - 48"

definition read_nat :: "string \<Rightarrow> nat" where
  "read_nat s = foldl (\<lambda>a c. 10 * a + digit_val c) 0 s"

lemma digit_val_char [simp]:
  assumes "d < 10"
  shows "digit_val (digit_char d) = d"
proof -
  have "list_all (\<lambda>d. digit_val (digit_char d) = d) [0..<10]" by code_simp
  with assms show ?thesis by (simp add: list_all_iff)
qed

lemma read_show_nat [simp]: "read_nat (show_nat n) = n"
proof (induction n rule: show_nat.induct)
  case (1 n)
  show ?case
  proof (cases "n < 10")
    case True
    then show ?thesis by (subst show_nat.simps) (simp add: read_nat_def)
  next
    case False
    with 1 show ?thesis by (subst show_nat.simps) (simp add: read_nat_def)
  qed
qed

lemma show_nat_inj: "show_nat m = show_nat n \<Longrightarrow> m = n"
  using read_show_nat by metis

text \<open>The digit test the parsers make, and what it says of printed numbers.\<close>

definition is_digit :: "char \<Rightarrow> bool" where
  "is_digit c \<longleftrightarrow> (48 \<le> (of_char c :: nat) \<and> of_char c \<le> (57 :: nat))"

lemma digit_char_is_digit: "d < 10 \<Longrightarrow> is_digit (digit_char d)"
proof -
  have "list_all (\<lambda>d. is_digit (digit_char d)) [0..<10]" by code_simp
  then show "d < 10 \<Longrightarrow> is_digit (digit_char d)" by (simp add: list_all_iff)
qed

lemma show_nat_digits: "list_all is_digit (show_nat n)"
proof (induction n rule: show_nat.induct)
  case (1 n)
  then show ?case by (subst show_nat.simps) (auto simp: digit_char_is_digit)
qed

lemma show_nat_nonempty: "show_nat n \<noteq> []"
  by (subst show_nat.simps) simp

lemma digit_val_less: "is_digit c \<Longrightarrow> digit_val c < 10"
  by (auto simp: is_digit_def digit_val_def)

lemma read_nat_snoc: "read_nat (s @ [c]) = 10 * read_nat s + digit_val c"
  by (simp add: read_nat_def)

text \<open>A printed number starts with \<^verbatim>\<open>0\<close> only when it is zero.\<close>

lemma show_nat_hd: "0 < n \<Longrightarrow> hd (show_nat n) \<noteq> CHR ''0''"
proof (induction n rule: show_nat.induct)
  case (1 n)
  have "list_all (\<lambda>d. digit_char d \<noteq> CHR ''0'') [1..<10]" by code_simp
  then have d: "0 < d \<Longrightarrow> d < 10 \<Longrightarrow> digit_char d \<noteq> CHR ''0''" for d by (simp add: list_all_iff)
  show ?case
  proof (cases "n < 10")
    case True
    with 1 d show ?thesis by (subst show_nat.simps) simp
  next
    case False
    with 1 show ?thesis by (subst show_nat.simps) (simp add: hd_append show_nat_nonempty)
  qed
qed

end
