(* ===== verification/Thrift_Binary.thy ===== *)
theory Thrift_Binary
  imports Dc_Prelude
begin

text \<open>
  The wire layer both programs talk through: \<^verbatim>\<open>TBinaryProtocolT\<close> with the network
  byte order (\<^verbatim>\<open>TBinaryProtocol.tcc\<close>), and the \<^verbatim>\<open>skip\<close> routine and recursion
  limit of \<^verbatim>\<open>TProtocol.h\<close>.

  A reader maps the bytes the transport still delivers to an exception, or to a value,
  the byte count it returns and the bytes left over. A writer is an exception or the
  byte count it returns with the bytes it appends. Both sequence the way the code writes
  \<^verbatim>\<open>xfer += ...\<close>: counts add up as \<^verbatim>\<open>uint32_t\<close>, exceptions propagate.
\<close>

section \<open>Exceptions\<close>

datatype protocol_error =
    INVALID_DATA
  | NEGATIVE_SIZE
  | SIZE_LIMIT
  | BAD_VERSION
  | DEPTH_LIMIT

datatype app_error =
    UNKNOWN
  | UNKNOWN_METHOD
  | MISSING_RESULT

datatype texception =
    TTransportException
  | TProtocolException protocol_error
  | TApplicationException app_error string
  | Loop_Budget_Exhausted

text \<open>
  \<open>Loop_Budget_Exhausted\<close> is no exception of the code: it is what a \<^verbatim>\<open>while (true)\<close>
  loop of the model yields if its iteration budget runs out. The budget is one more than
  the bytes available, every iteration reads at least one byte, and the lemmas of the
  collection \<open>reader_fin\<close> show that the value never appears.
\<close>

section \<open>Readers\<close>

type_synonym 'a reader = "byte list \<Rightarrow> texception + ('a \<times> uint32 \<times> byte list)"

definition rreturn :: "'a \<Rightarrow> 'a reader" where
  "rreturn a = (\<lambda>s. Inr (a, 0, s))"

definition rthrow :: "texception \<Rightarrow> 'a reader" where
  "rthrow e = (\<lambda>s. Inl e)"

definition rbind :: "'a reader \<Rightarrow> ('a \<Rightarrow> 'b reader) \<Rightarrow> 'b reader" where
  "rbind m k = (\<lambda>s. case m s of Inl e \<Rightarrow> Inl e
     | Inr (a, n, s') \<Rightarrow> (case k a s' of Inl e \<Rightarrow> Inl e
         | Inr (b, n', s'') \<Rightarrow> Inr (b, n + n', s'')))"

text \<open>\<open>readAll\<close> of the transport: \<open>n\<close> bytes, or an exception when fewer are left.\<close>

definition readAll :: "nat \<Rightarrow> byte list reader" where
  "readAll n = (\<lambda>s. if n \<le> length s then Inr (take n s, of_nat n, drop n s)
                    else Inl TTransportException)"

section \<open>Writers\<close>

type_synonym writer = "texception + (uint32 \<times> byte list)"

definition wreturn :: "uint32 \<Rightarrow> byte list \<Rightarrow> writer" where
  "wreturn n bs = Inr (n, bs)"

definition wseq :: "writer \<Rightarrow> writer \<Rightarrow> writer" where
  "wseq a b = (case a of Inl e \<Rightarrow> Inl e
     | Inr (n, bs) \<Rightarrow> (case b of Inl e \<Rightarrow> Inl e | Inr (m, cs) \<Rightarrow> Inr (n + m, bs @ cs)))"

primrec wseqs :: "writer list \<Rightarrow> writer" where
  "wseqs [] = Inr (0, [])"
| "wseqs (w # ws) = wseq w (wseqs ws)"

section \<open>Protocol object and type codes\<close>

record tproto =
  string_limit :: int32
  container_limit :: int32
  strict_read :: bool
  strict_write :: bool
  recursion_limit :: nat

text \<open>\<^verbatim>\<open>TBinaryProtocol(trans)\<close>, the constructor every endpoint of the cluster uses.\<close>

definition TBinaryProtocol :: tproto where
  "TBinaryProtocol = \<lparr>string_limit = 0, container_limit = 0, strict_read = False,
     strict_write = True, recursion_limit = 64\<rparr>"

type_synonym TType = int8

definition T_STOP :: TType where "T_STOP = 0"
definition T_VOID :: TType where "T_VOID = 1"
definition T_BOOL :: TType where "T_BOOL = 2"
definition T_BYTE :: TType where "T_BYTE = 3"
definition T_DOUBLE :: TType where "T_DOUBLE = 4"
definition T_I16 :: TType where "T_I16 = 6"
definition T_I32 :: TType where "T_I32 = 8"
definition T_I64 :: TType where "T_I64 = 10"
definition T_STRING :: TType where "T_STRING = 11"
definition T_STRUCT :: TType where "T_STRUCT = 12"
definition T_MAP :: TType where "T_MAP = 13"
definition T_SET :: TType where "T_SET = 14"
definition T_LIST :: TType where "T_LIST = 15"

lemmas ttype_defs = T_STOP_def T_VOID_def T_BOOL_def T_BYTE_def T_DOUBLE_def T_I16_def
  T_I32_def T_I64_def T_STRING_def T_STRUCT_def T_MAP_def T_SET_def T_LIST_def

type_synonym TMessageType = int32

definition T_CALL :: TMessageType where "T_CALL = 1"
definition T_REPLY :: TMessageType where "T_REPLY = 2"
definition T_EXCEPTION :: TMessageType where "T_EXCEPTION = 3"
definition T_ONEWAY :: TMessageType where "T_ONEWAY = 4"

lemmas tmessage_defs = T_CALL_def T_REPLY_def T_EXCEPTION_def T_ONEWAY_def

definition VERSION_MASK :: int32 where "VERSION_MASK = 0xffff0000"
definition VERSION_1 :: int32 where "VERSION_1 = 0x80010000"

section \<open>Network byte order\<close>

definition toWire16 :: "int16 \<Rightarrow> byte list" where
  "toWire16 w = [ucast (drop_bit 8 w), ucast w]"

definition toWire32 :: "int32 \<Rightarrow> byte list" where
  "toWire32 w = [ucast (drop_bit 24 w), ucast (drop_bit 16 w), ucast (drop_bit 8 w), ucast w]"

fun fromWire :: "byte list \<Rightarrow> 'a::len word \<Rightarrow> 'a word" where
  "fromWire [] acc = acc"
| "fromWire (b # bs) acc = fromWire bs (push_bit 8 acc OR ucast b)"

section \<open>Writing\<close>

definition writeBool :: "bool \<Rightarrow> writer" where
  "writeBool v = wreturn 1 [if v then 1 else 0]"

definition writeByte :: "int8 \<Rightarrow> writer" where
  "writeByte b = wreturn 1 [b]"

definition writeI16 :: "int16 \<Rightarrow> writer" where
  "writeI16 i = wreturn 2 (toWire16 i)"

definition writeI32 :: "int32 \<Rightarrow> writer" where
  "writeI32 i = wreturn 4 (toWire32 i)"

definition writeString :: "string \<Rightarrow> writer" where
  "writeString str = (if length str > 2147483647 then Inl (TProtocolException SIZE_LIMIT)
     else wseq (writeI32 (of_nat (length str)))
               (wreturn (of_nat (length str)) (map byte_of_char str)))"

definition writeFieldBegin :: "TType \<Rightarrow> int16 \<Rightarrow> writer" where
  "writeFieldBegin fieldType fieldId = wseq (writeByte fieldType) (writeI16 fieldId)"

definition writeFieldStop :: writer where
  "writeFieldStop = writeByte T_STOP"

definition writeMessageBegin :: "tproto \<Rightarrow> string \<Rightarrow> TMessageType \<Rightarrow> int32 \<Rightarrow> writer" where
  "writeMessageBegin p name messageType seqid =
     (if strict_write p
      then wseqs [writeI32 (VERSION_1 OR messageType), writeString name, writeI32 seqid]
      else wseqs [writeString name, writeByte (ucast messageType), writeI32 seqid])"

section \<open>Reading\<close>

definition readBool :: "bool reader" where
  "readBool = rbind (readAll 1) (\<lambda>b. rreturn (hd b \<noteq> 0))"

definition readByte :: "int8 reader" where
  "readByte = rbind (readAll 1) (\<lambda>b. rreturn (hd b))"

definition readI16 :: "int16 reader" where
  "readI16 = rbind (readAll 2) (\<lambda>b. rreturn (fromWire b 0))"

definition readI32 :: "int32 reader" where
  "readI32 = rbind (readAll 4) (\<lambda>b. rreturn (fromWire b 0))"

definition readI64 :: "int64 reader" where
  "readI64 = rbind (readAll 8) (\<lambda>b. rreturn (fromWire b 0))"

text \<open>\<^verbatim>\<open>readDouble\<close>: the model keeps the 64 bits the code casts to a double.\<close>

definition readDouble :: "int64 reader" where
  "readDouble = rbind (readAll 8) (\<lambda>b. rreturn (fromWire b 0))"

text \<open>
  \<^verbatim>\<open>readStringBody\<close>: a buffer that holds the whole string lends it
  (\<^verbatim>\<open>borrow\<close>, then \<^verbatim>\<open>consume\<close>), otherwise the code falls back to \<open>readAll\<close>;
  both deliver the next \<open>sz\<close> bytes or throw.
\<close>

definition readStringBody :: "tproto \<Rightarrow> int32 \<Rightarrow> string reader" where
  "readStringBody p sz =
     (if sint sz < 0 then rthrow (TProtocolException NEGATIVE_SIZE)
      else if sint (string_limit p) > 0 \<and> sint sz > sint (string_limit p)
        then rthrow (TProtocolException SIZE_LIMIT)
      else if sz = 0 then rreturn []
      else rbind (readAll (unat sz)) (\<lambda>b. rreturn (map char_of_byte b)))"

definition readString :: "tproto \<Rightarrow> string reader" where
  "readString p = rbind readI32 (readStringBody p)"

definition readFieldBegin :: "(TType \<times> int16) reader" where
  "readFieldBegin = rbind readByte (\<lambda>ty.
     if ty = T_STOP then rreturn (ty, 0)
     else rbind readI16 (\<lambda>fid. rreturn (ty, fid)))"

text \<open>The size check that \<^verbatim>\<open>readMapBegin\<close>, \<^verbatim>\<open>readListBegin\<close> and \<^verbatim>\<open>readSetBegin\<close> share.\<close>

definition checkContainerSize :: "tproto \<Rightarrow> int32 \<Rightarrow> uint32 reader" where
  "checkContainerSize p sizei =
     (if sint sizei < 0 then rthrow (TProtocolException NEGATIVE_SIZE)
      else if container_limit p \<noteq> 0 \<and> sint sizei > sint (container_limit p)
        then rthrow (TProtocolException SIZE_LIMIT)
      else rreturn sizei)"

definition readMapBegin :: "tproto \<Rightarrow> (TType \<times> TType \<times> uint32) reader" where
  "readMapBegin p = rbind readByte (\<lambda>k. rbind readByte (\<lambda>v. rbind readI32 (\<lambda>sizei.
     rbind (checkContainerSize p sizei) (\<lambda>n. rreturn (k, v, n)))))"

definition readListBegin :: "tproto \<Rightarrow> (TType \<times> uint32) reader" where
  "readListBegin p = rbind readByte (\<lambda>e. rbind readI32 (\<lambda>sizei.
     rbind (checkContainerSize p sizei) (\<lambda>n. rreturn (e, n))))"

definition readSetBegin :: "tproto \<Rightarrow> (TType \<times> uint32) reader" where
  "readSetBegin p = rbind readByte (\<lambda>e. rbind readI32 (\<lambda>sizei.
     rbind (checkContainerSize p sizei) (\<lambda>n. rreturn (e, n))))"

definition readMessageBegin :: "tproto \<Rightarrow> (string \<times> TMessageType \<times> int32) reader" where
  "readMessageBegin p = rbind readI32 (\<lambda>sz.
     if sint sz < 0 then
       (if sz AND VERSION_MASK \<noteq> VERSION_1 then rthrow (TProtocolException BAD_VERSION)
        else rbind (readString p) (\<lambda>name. rbind readI32 (\<lambda>seqid.
               rreturn (name, sz AND 0xff, seqid))))
     else if strict_read p then rthrow (TProtocolException BAD_VERSION)
     else rbind (readStringBody p sz) (\<lambda>name. rbind readByte (\<lambda>type.
            rbind readI32 (\<lambda>seqid. rreturn (name, scast type, seqid)))))"

section \<open>Field loops and skip\<close>

text \<open>
  \<open>read_fields_loop\<close> is the \<^verbatim>\<open>while (true)\<close> loop of every generated
  \<^verbatim>\<open>read\<close> method: read a field header, stop at \<open>T_STOP\<close>, otherwise run the
  \<^verbatim>\<open>switch (fid)\<close> of the struct.
\<close>

primrec read_fields_loop ::
    "nat \<Rightarrow> (int16 \<Rightarrow> TType \<Rightarrow> 'o \<Rightarrow> 'o reader) \<Rightarrow> 'o \<Rightarrow> 'o reader" where
  "read_fields_loop 0 sw obj = rthrow Loop_Budget_Exhausted"
| "read_fields_loop (Suc f) sw obj = rbind readFieldBegin (\<lambda>(ftype, fid).
     if ftype = T_STOP then rreturn obj
     else rbind (sw fid ftype obj) (\<lambda>obj'. read_fields_loop f sw obj'))"

definition read_fields :: "(int16 \<Rightarrow> TType \<Rightarrow> 'o \<Rightarrow> 'o reader) \<Rightarrow> 'o \<Rightarrow> 'o reader" where
  "read_fields sw obj = (\<lambda>s. read_fields_loop (Suc (length s)) sw obj s)"

primrec repeat_reader :: "nat \<Rightarrow> unit reader \<Rightarrow> unit reader" where
  "repeat_reader 0 m = rreturn ()"
| "repeat_reader (Suc n) m = rbind m (\<lambda>_. repeat_reader n m)"

definition rvoid :: "'a reader \<Rightarrow> unit reader" where
  "rvoid m = rbind m (\<lambda>_. rreturn ())"

text \<open>
  \<open>skip p k type\<close>: \<open>k\<close> is how many more nested calls the recursion limit admits
  (\<open>recursion_limit - input_recursion_depth\<close>), which the tracker object of each call
  uses up by one.
\<close>

primrec skip :: "tproto \<Rightarrow> nat \<Rightarrow> TType \<Rightarrow> unit reader" where
  "skip p 0 = (\<lambda>type. rthrow (TProtocolException DEPTH_LIMIT))"
| "skip p (Suc k) = (\<lambda>type.
     if type = T_BOOL then rvoid readBool
     else if type = T_BYTE then rvoid readByte
     else if type = T_I16 then rvoid readI16
     else if type = T_I32 then rvoid readI32
     else if type = T_I64 then rvoid readI64
     else if type = T_DOUBLE then rvoid readDouble
     else if type = T_STRING then rvoid (readString p)
     else if type = T_STRUCT then read_fields (\<lambda>fid ftype _. skip p k ftype) ()
     else if type = T_MAP then rbind (readMapBegin p) (\<lambda>(keyType, valType, n).
       repeat_reader (unat n) (rbind (skip p k keyType) (\<lambda>_. skip p k valType)))
     else if type = T_SET then rbind (readSetBegin p) (\<lambda>(elemType, n).
       repeat_reader (unat n) (skip p k elemType))
     else if type = T_LIST then rbind (readListBegin p) (\<lambda>(elemType, n).
       repeat_reader (unat n) (skip p k elemType))
     else rreturn ())"

text \<open>
  The recursion tracker a generated \<^verbatim>\<open>read\<close> method opens: with no level left it
  throws, otherwise the body runs with one level less.
\<close>

definition tracked_read :: "nat \<Rightarrow> (nat \<Rightarrow> 'a reader) \<Rightarrow> 'a reader" where
  "tracked_read k body = (case k of 0 \<Rightarrow> rthrow (TProtocolException DEPTH_LIMIT)
     | Suc k' \<Rightarrow> body k')"

definition tracked_write :: "nat \<Rightarrow> (nat \<Rightarrow> writer) \<Rightarrow> writer" where
  "tracked_write k body = (case k of 0 \<Rightarrow> Inl (TProtocolException DEPTH_LIMIT)
     | Suc k' \<Rightarrow> body k')"

section \<open>Byte counts\<close>

text \<open>
  A reader is exact when the count it returns is, as a \<^verbatim>\<open>uint32_t\<close>, the number of
  bytes it took from the front of the input. A writer is exact when the count it returns
  is the number of bytes it appended.
\<close>

definition reader_exact :: "'a reader \<Rightarrow> bool" where
  "reader_exact m \<longleftrightarrow> (\<forall>s a n s'. m s = Inr (a, n, s') \<longrightarrow>
     (\<exists>bs. s = bs @ s' \<and> n = of_nat (length bs)))"

definition writer_exact :: "writer \<Rightarrow> bool" where
  "writer_exact w \<longleftrightarrow> (\<forall>n bs. w = Inr (n, bs) \<longrightarrow> n = of_nat (length bs))"

lemma reader_exactI:
  "(\<And>s a n s'. m s = Inr (a, n, s') \<Longrightarrow> \<exists>bs. s = bs @ s' \<and> n = of_nat (length bs)) \<Longrightarrow> reader_exact m"
  by (auto simp: reader_exact_def)

lemma reader_exactD: "reader_exact m \<Longrightarrow> m s = Inr (a, n, s') \<Longrightarrow>
    \<exists>bs. s = bs @ s' \<and> n = of_nat (length bs)"
  by (auto simp: reader_exact_def)

lemma reader_exact_shrinks: "reader_exact m \<Longrightarrow> m s = Inr (a, n, s') \<Longrightarrow> length s' \<le> length s"
  by (auto dest: reader_exactD)

lemma rbind_Inr:
  "rbind m k s = Inr (b, n, t) \<longleftrightarrow>
     (\<exists>a n1 s' n2. m s = Inr (a, n1, s') \<and> k a s' = Inr (b, n2, t) \<and> n = n1 + n2)"
  by (auto simp: rbind_def split: sum.splits prod.splits)

lemma rbind_Inl:
  "rbind m k s = Inl e \<longleftrightarrow>
     m s = Inl e \<or> (\<exists>a n1 s'. m s = Inr (a, n1, s') \<and> k a s' = Inl e)"
  by (auto simp: rbind_def split: sum.splits prod.splits)

lemma reader_exact_rreturn [reader_ok]: "reader_exact (rreturn a)"
  by (auto simp: reader_exact_def rreturn_def)

lemma reader_exact_rthrow [reader_ok]: "reader_exact (rthrow e)"
  by (auto simp: reader_exact_def rthrow_def)

lemma reader_exact_readAll [reader_ok]: "reader_exact (readAll n)"
proof -
  have "\<exists>bs. s = bs @ drop n s \<and> of_nat n = (of_nat (length bs) :: uint32)" if "n \<le> length s" for s :: "byte list"
    using that by (intro exI [of _ "take n s"]) (simp add: min_def)
  then show ?thesis by (auto simp: reader_exact_def readAll_def split: if_splits)
qed

lemma reader_exact_rbind [reader_ok]:
  assumes "reader_exact m" and "\<And>a. reader_exact (k a)"
  shows "reader_exact (rbind m k)"
proof (unfold reader_exact_def, intro allI impI)
  fix s b n t assume "rbind m k s = Inr (b, n, t)"
  then obtain a n1 s' n2 where m: "m s = Inr (a, n1, s')" and k: "k a s' = Inr (b, n2, t)"
    and n: "n = n1 + n2" by (auto simp: rbind_Inr)
  from assms m k obtain bs cs where "s = bs @ s'" "n1 = of_nat (length bs)"
    and "s' = cs @ t" "n2 = of_nat (length cs)" by (meson reader_exactD)
  then show "\<exists>bs. s = bs @ t \<and> n = of_nat (length bs)"
    by (intro exI [of _ "bs @ cs"]) (simp add: n)
qed

lemma reader_exact_if [reader_ok]:
  "reader_exact a \<Longrightarrow> reader_exact b \<Longrightarrow> reader_exact (if c then a else b)"
  by simp

lemma reader_exact_case_prod [reader_ok]:
  "(\<And>a b. reader_exact (f a b)) \<Longrightarrow> reader_exact (case x of (a, b) \<Rightarrow> f a b)"
  by (cases x) simp

lemma reader_exact_rvoid [reader_ok]: "reader_exact m \<Longrightarrow> reader_exact (rvoid m)"
  unfolding rvoid_def by (intro reader_ok)

lemma reader_exact_prims [reader_ok]:
  "reader_exact readBool" "reader_exact readByte" "reader_exact readI16"
  "reader_exact readI32" "reader_exact readI64" "reader_exact readDouble"
  unfolding readBool_def readByte_def readI16_def readI32_def readI64_def readDouble_def
  by (intro reader_ok)+

lemma reader_exact_compounds [reader_ok]:
  "reader_exact (readStringBody p n)" "reader_exact (checkContainerSize p n)"
  unfolding readStringBody_def checkContainerSize_def by (intro reader_ok)+

lemma reader_exact_readString [reader_ok]: "reader_exact (readString p)"
  unfolding readString_def by (intro reader_ok)

lemma reader_exact_begins [reader_ok]:
  "reader_exact readFieldBegin" "reader_exact (readMapBegin p)"
  "reader_exact (readListBegin p)" "reader_exact (readSetBegin p)"
  "reader_exact (readMessageBegin p)"
  unfolding readFieldBegin_def readMapBegin_def readListBegin_def readSetBegin_def
    readMessageBegin_def
  by (intro reader_ok)+

lemma reader_exact_read_fields_loop:
  "(\<And>fid ty o'. reader_exact (sw fid ty o')) \<Longrightarrow> reader_exact (read_fields_loop f sw obj)"
proof (induction f arbitrary: obj)
  case 0
  show ?case by (simp, intro reader_ok)
next
  case (Suc f)
  show ?case by (simp, intro reader_ok) (use Suc in auto)
qed

lemma reader_exact_read_fields [reader_ok]:
  "(\<And>fid ty o'. reader_exact (sw fid ty o')) \<Longrightarrow> reader_exact (read_fields sw obj)"
  by (rule reader_exactI, unfold read_fields_def)
    (erule reader_exactD [OF reader_exact_read_fields_loop, rotated], blast)

lemma reader_exact_repeat [reader_ok]: "reader_exact m \<Longrightarrow> reader_exact (repeat_reader n m)"
  by (induction n) (auto intro!: reader_ok)

lemma reader_exact_skip [reader_ok]: "reader_exact (skip p k ty)"
proof (induction k arbitrary: ty)
  case 0
  show ?case by (simp, intro reader_ok)
next
  case (Suc k)
  show ?case by (simp only: skip.simps, intro reader_ok Suc)
qed

lemma reader_exact_tracked [reader_ok]:
  "(\<And>k'. reader_exact (body k')) \<Longrightarrow> reader_exact (tracked_read k body)"
  unfolding tracked_read_def by (cases k) (auto intro!: reader_ok)

section \<open>Loops end\<close>

definition reader_total :: "'a reader \<Rightarrow> bool" where
  "reader_total m \<longleftrightarrow> (\<forall>s. m s \<noteq> Inl Loop_Budget_Exhausted)"

lemma reader_totalI: "(\<And>s. m s \<noteq> Inl Loop_Budget_Exhausted) \<Longrightarrow> reader_total m"
  by (auto simp: reader_total_def)

lemma reader_total_base [reader_fin]:
  "reader_total (rreturn a)" "reader_total (readAll n)"
  "reader_total (rthrow TTransportException)" "reader_total (rthrow (TProtocolException x))"
  "reader_total (rthrow (TApplicationException y z))"
  by (auto simp: reader_total_def rreturn_def readAll_def rthrow_def)

lemma reader_total_rbind [reader_fin]:
  "reader_total m \<Longrightarrow> (\<And>a. reader_total (k a)) \<Longrightarrow> reader_total (rbind m k)"
  by (auto simp: reader_total_def rbind_Inl)

lemma reader_total_if [reader_fin]:
  "reader_total a \<Longrightarrow> reader_total b \<Longrightarrow> reader_total (if c then a else b)"
  by simp

lemma reader_total_case_prod [reader_fin]:
  "(\<And>a b. reader_total (f a b)) \<Longrightarrow> reader_total (case x of (a, b) \<Rightarrow> f a b)"
  by (cases x) simp

lemma reader_total_prims [reader_fin]:
  "reader_total readBool" "reader_total readByte" "reader_total readI16"
  "reader_total readI32" "reader_total readI64" "reader_total readDouble"
  "reader_total (readStringBody p n)" "reader_total (checkContainerSize p n)"
  unfolding readBool_def readByte_def readI16_def readI32_def readI64_def readDouble_def
    readStringBody_def checkContainerSize_def
  by (intro reader_fin)+

lemma reader_total_readString [reader_fin]: "reader_total (readString p)"
  unfolding readString_def by (intro reader_fin)

lemma reader_total_begins [reader_fin]:
  "reader_total readFieldBegin" "reader_total (readMapBegin p)"
  "reader_total (readListBegin p)" "reader_total (readSetBegin p)"
  "reader_total (readMessageBegin p)"
  unfolding readFieldBegin_def readMapBegin_def readListBegin_def readSetBegin_def
    readMessageBegin_def
  by (intro reader_fin)+

lemma reader_total_rvoid [reader_fin]: "reader_total m \<Longrightarrow> reader_total (rvoid m)"
  unfolding rvoid_def by (intro reader_fin)

lemma readFieldBegin_progress:
  "readFieldBegin s = Inr (x, n, s') \<Longrightarrow> length s' < length s"
  by (auto simp: readFieldBegin_def readByte_def readAll_def rbind_Inr rreturn_def
      split: if_splits dest: reader_exact_shrinks [OF reader_exact_prims(3)])

text \<open>Every iteration takes a field header, so a budget above the input length is enough.\<close>

lemma read_fields_loop_total:
  assumes ex: "\<And>fid ty o'. reader_exact (sw fid ty o')"
    and tot: "\<And>fid ty o'. reader_total (sw fid ty o')"
  shows "length s < f \<Longrightarrow> read_fields_loop f sw obj s \<noteq> Inl Loop_Budget_Exhausted"
proof (induction f arbitrary: obj s)
  case 0
  then show ?case by simp
next
  case (Suc f)
  have "rbind (sw fid ty obj) (\<lambda>obj'. read_fields_loop f sw obj') s' \<noteq> Inl Loop_Budget_Exhausted"
    if "readFieldBegin s = Inr ((ty, fid), n, s')" for ty fid n s'
  proof -
    from that have "length s' < f" using readFieldBegin_progress Suc.prems by fastforce
    then show ?thesis
      using tot [of fid ty obj] ex [of fid ty obj]
      by (auto simp: rbind_Inl reader_total_def dest!: reader_exact_shrinks intro!: Suc.IH)
  qed
  then show ?case
    using reader_total_begins(1)
    by (auto simp: rbind_Inl [of readFieldBegin] reader_total_def rreturn_def split: if_splits)
qed

lemma reader_total_read_fields [reader_fin]:
  "(\<And>fid ty o'. reader_exact (sw fid ty o')) \<Longrightarrow> (\<And>fid ty o'. reader_total (sw fid ty o')) \<Longrightarrow>
     reader_total (read_fields sw obj)"
  by (rule reader_totalI, unfold read_fields_def) (rule read_fields_loop_total, auto)

lemma reader_total_repeat [reader_fin]: "reader_total m \<Longrightarrow> reader_total (repeat_reader n m)"
  by (induction n) (auto intro!: reader_fin)

lemma reader_total_skip [reader_fin]: "reader_total (skip p k ty)"
proof (induction k arbitrary: ty)
  case 0
  show ?case by (simp, intro reader_fin)
next
  case (Suc k)
  show ?case by (simp only: skip.simps, intro reader_fin reader_ok Suc)
qed

lemma reader_total_tracked [reader_fin]:
  "(\<And>k'. reader_total (body k')) \<Longrightarrow> reader_total (tracked_read k body)"
  unfolding tracked_read_def by (cases k) (auto intro!: reader_fin)

section \<open>Exact writers\<close>

lemma writer_exact_wseq [writer_ok]:
  "writer_exact a \<Longrightarrow> writer_exact b \<Longrightarrow> writer_exact (wseq a b)"
  by (auto simp: writer_exact_def wseq_def split: sum.splits)

lemma writer_exact_nothing [writer_ok]: "writer_exact (Inr (0, []))"
  by (simp add: writer_exact_def)

lemma writer_exact_wseqs [writer_ok]:
  "\<forall>w \<in> set ws. writer_exact w \<Longrightarrow> writer_exact (wseqs ws)"
  by (induction ws) (auto simp: writer_exact_def [of "Inr _"] intro: writer_ok)

lemma writer_exact_prims [writer_ok]:
  "writer_exact (writeBool v)" "writer_exact (writeByte b)" "writer_exact (writeI16 i)"
  "writer_exact (writeI32 j)"
  by (auto simp: writer_exact_def writeBool_def writeByte_def writeI16_def writeI32_def
      wreturn_def toWire16_def toWire32_def)

lemma writer_exact_writeString [writer_ok]: "writer_exact (writeString str)"
proof -
  have "writer_exact (wreturn (of_nat (length str)) (map byte_of_char str))"
    by (simp add: writer_exact_def wreturn_def)
  then have "writer_exact (wseq (writeI32 (of_nat (length str)))
      (wreturn (of_nat (length str)) (map byte_of_char str)))"
    by (intro writer_ok)
  then show ?thesis by (auto simp: writeString_def writer_exact_def)
qed

lemma writer_exact_begins [writer_ok]:
  "writer_exact (writeFieldBegin ty fid)" "writer_exact writeFieldStop"
  "writer_exact (writeMessageBegin p name mt seqid)"
  unfolding writeFieldBegin_def writeFieldStop_def writeMessageBegin_def
  by (auto intro!: writer_ok simp del: wseqs.simps)

lemma writer_exact_tracked [writer_ok]:
  "(\<And>k'. writer_exact (body k')) \<Longrightarrow> writer_exact (tracked_write k body)"
  by (cases k) (auto simp: tracked_write_def writer_exact_def)

section \<open>Reading back what was written\<close>

lemma fromWire_toWire16 [wire_simps]: "fromWire (toWire16 w) 0 = w"
proof (rule bit_word_eqI)
  fix n assume "n < LENGTH(16)"
  then show "bit (fromWire (toWire16 w) (0 :: int16)) n = bit w n"
    by (cases "n < 8") (auto simp: toWire16_def bit_simps)
qed

lemma fromWire_toWire32 [wire_simps]: "fromWire (toWire32 w) 0 = w"
proof (rule bit_word_eqI)
  fix n assume "n < LENGTH(32)"
  then consider "n < 8" | "8 \<le> n" "n < 16" | "16 \<le> n" "n < 24" | "24 \<le> n" "n < 32"
    by fastforce
  then show "bit (fromWire (toWire32 w) (0 :: int32)) n = bit w n"
    by cases (auto simp: toWire32_def bit_simps)
qed

lemma length_toWire [simp]: "length (toWire16 i) = 2" "length (toWire32 j) = 4"
  by (simp_all add: toWire16_def toWire32_def)

lemma readAll_append [wire_simps]:
  "length bs = n \<Longrightarrow> readAll n (bs @ s) = Inr (bs, of_nat n, s)"
  by (auto simp: readAll_def)

lemma rbind_step [wire_simps]:
  "m s = Inr (a, n, s') \<Longrightarrow> rbind m k s =
     (case k a s' of Inl e \<Rightarrow> Inl e | Inr (b, n', t) \<Rightarrow> Inr (b, n + n', t))"
  by (simp add: rbind_def)

lemma rreturn_apply [wire_simps]: "rreturn a s = Inr (a, 0, s)"
  by (simp add: rreturn_def)

lemma readByte_wire [wire_simps]: "readByte (b # s) = Inr (b, 1, s)"
  using readAll_append [of "[b]" 1 s] by (simp add: readByte_def rbind_step rreturn_def)

lemma readBool_wire [wire_simps]:
  "readBool ((if v then 1 else 0) # s) = Inr (v, 1, s)"
  using readAll_append [of "[if v then 1 else 0]" 1 s]
  by (simp add: readBool_def rbind_step rreturn_def)

lemma readI16_wire [wire_simps]: "readI16 (toWire16 i @ s) = Inr (i, 2, s)"
  by (simp add: readI16_def rbind_step readAll_append rreturn_def wire_simps)

lemma readI32_wire [wire_simps]: "readI32 (toWire32 i @ s) = Inr (i, 4, s)"
  by (simp add: readI32_def rbind_step readAll_append rreturn_def wire_simps)

lemma of_nat_int32_bound:
  assumes "n \<le> 2147483647"
  shows "sint (of_nat n :: int32) = int n" and "unat (of_nat n :: int32) = n"
proof -
  from assms have "n < 2 ^ 31" by simp
  then show "sint (of_nat n :: int32) = int n"
    by (simp add: sint_uint signed_take_bit_int_eq_self uint_nat unat_of_nat)
  from assms show "unat (of_nat n :: int32) = n" by (simp add: unat_of_nat)
qed

text \<open>A string within the protocol's limit is read back, whatever follows it.\<close>

definition fits :: "tproto \<Rightarrow> string \<Rightarrow> bool" where
  "fits p str \<longleftrightarrow> length str \<le> 2147483647 \<and>
     (sint (string_limit p) > 0 \<longrightarrow> int (length str) \<le> sint (string_limit p))"

lemma readStringBody_wire [wire_simps]:
  assumes "fits p str"
  shows "readStringBody p (of_nat (length str)) (map byte_of_char str @ s) =
    Inr (str, of_nat (length str), s)"
proof -
  from assms have b: "length str \<le> 2147483647" by (simp add: fits_def)
  note n = of_nat_int32_bound [OF b]
  have z: "(of_nat (length str) :: int32) = 0 \<longleftrightarrow> str = []"
    using n(2) by (cases str) (auto simp: unat_eq_0 [symmetric] simp del: unat_eq_0)
  show ?thesis
  proof (cases "str = []")
    case True
    then show ?thesis by (auto simp: readStringBody_def rreturn_def)
  next
    case False
    have "readAll (length str) (map byte_of_char str @ s) =
        Inr (map byte_of_char str, of_nat (length str), s)"
      by (rule readAll_append) simp
    with assms False n show ?thesis
      by (auto simp: readStringBody_def fits_def z rbind_step rreturn_def)
  qed
qed

lemma writeString_eq:
  "length str \<le> 2147483647 \<Longrightarrow> writeString str =
     Inr (4 + of_nat (length str), toWire32 (of_nat (length str)) @ map byte_of_char str)"
  by (simp add: writeString_def wseq_def writeI32_def wreturn_def)

lemma writeString_Inr:
  "writeString str = Inr (n, bs) \<longleftrightarrow> length str \<le> 2147483647 \<and> n = 4 + of_nat (length str) \<and>
     bs = toWire32 (of_nat (length str)) @ map byte_of_char str"
  by (auto simp: writeString_def wseq_def writeI32_def wreturn_def)

lemma readString_wire [wire_simps]:
  "fits p str \<Longrightarrow> readString p (toWire32 (of_nat (length str)) @ map byte_of_char str @ s) =
     Inr (str, 4 + of_nat (length str), s)"
  by (simp add: readString_def rbind_step readI32_wire readStringBody_wire)

lemma fits_default [simp]: "fits TBinaryProtocol str \<longleftrightarrow> length str \<le> 2147483647"
  by (simp add: fits_def TBinaryProtocol_def)

text \<open>The versioned message header of the strict writer.\<close>

lemma message_word:
  assumes "mt \<in> {T_CALL, T_REPLY, T_EXCEPTION, T_ONEWAY}"
  shows "sint (VERSION_1 OR mt) < 0" and "(VERSION_1 OR mt) AND VERSION_MASK = VERSION_1"
    and "(VERSION_1 OR mt) AND 0xff = mt"
  using assms by (auto simp: tmessage_defs VERSION_1_def VERSION_MASK_def)

lemma writeMessageBegin_Inr:
  "strict_write p \<Longrightarrow> writeMessageBegin p name mt seqid = Inr (n, bs) \<longleftrightarrow>
     length name \<le> 2147483647 \<and> n = 12 + of_nat (length name) \<and>
     bs = toWire32 (VERSION_1 OR mt) @ toWire32 (of_nat (length name)) @ map byte_of_char name
          @ toWire32 seqid"
  by (auto simp: writeMessageBegin_def wseq_def writeI32_def wreturn_def writeString_def)

lemma readMessageBegin_wire [wire_simps]:
  assumes "fits p name" and "mt \<in> {T_CALL, T_REPLY, T_EXCEPTION, T_ONEWAY}"
  shows "readMessageBegin p (toWire32 (VERSION_1 OR mt) @ toWire32 (of_nat (length name)) @
      map byte_of_char name @ toWire32 seqid @ s) =
    Inr ((name, mt, seqid), 12 + of_nat (length name), s)"
  using message_word [OF assms(2)] readString_wire [OF assms(1)]
  by (simp add: readMessageBegin_def rbind_step [where m = readI32] rbind_step readI32_wire rreturn_def)

section \<open>Stepping through the fields of a struct\<close>

lemma read_fields_loop_budget:
  assumes ex: "\<And>fid ty o'. reader_exact (sw fid ty o')"
  shows "length s < f \<Longrightarrow> length s < g \<Longrightarrow>
    read_fields_loop f sw obj s = read_fields_loop g sw obj s"
proof (induction f arbitrary: g obj s)
  case 0
  then show ?case by simp
next
  case (Suc f)
  then obtain h where g: "g = Suc h" by (cases g) auto
  have "rbind (sw fid ty obj) (\<lambda>obj'. read_fields_loop f sw obj') s'
      = rbind (sw fid ty obj) (\<lambda>obj'. read_fields_loop h sw obj') s'"
    if "readFieldBegin s = Inr ((ty, fid), n, s')" for ty fid n s'
  proof -
    from that have "length s' < f" "length s' < h"
      using readFieldBegin_progress Suc.prems g by fastforce+
    then show ?thesis
      using reader_exact_shrinks [OF ex [of fid ty obj]] Suc.IH [of _ h]
      by (fastforce simp: rbind_def split: sum.splits)
  qed
  then show ?case
    by (auto simp: g rbind_def [of readFieldBegin] split: sum.splits prod.splits)
qed

lemma read_fields_stop [wire_simps]: "read_fields sw obj (T_STOP # s) = Inr (obj, 1, s)"
  by (simp add: read_fields_def rbind_step readFieldBegin_def readByte_wire rreturn_def)

lemma readFieldBegin_wire [wire_simps]:
  "ty \<noteq> T_STOP \<Longrightarrow> readFieldBegin (ty # toWire16 fid @ s) = Inr ((ty, fid), 3, s)"
  by (simp add: readFieldBegin_def rbind_step readByte_wire readI16_wire rreturn_def)

definition switch_exact :: "(int16 \<Rightarrow> TType \<Rightarrow> 'o \<Rightarrow> 'o reader) \<Rightarrow> bool" where
  "switch_exact sw \<longleftrightarrow> (\<forall>fid ty o'. reader_exact (sw fid ty o'))"

lemma read_fields_step:
  assumes sx: "switch_exact sw" and ty: "ty \<noteq> T_STOP"
    and sw: "sw fid ty obj rest = Inr (obj', n, rest')"
  shows "read_fields sw obj (ty # toWire16 fid @ rest) =
    (case read_fields sw obj' rest' of Inl e \<Rightarrow> Inl e | Inr (b, m, t) \<Rightarrow> Inr (b, 3 + (n + m), t))"
proof -
  have ex: "reader_exact (sw fid ty o')" for fid ty o' using sx by (simp add: switch_exact_def)
  have "length rest' \<le> length rest" using reader_exact_shrinks [OF ex sw] .
  then have "read_fields_loop (Suc (Suc (Suc (length rest)))) sw obj' rest'
      = read_fields_loop (Suc (length rest')) sw obj' rest'"
    by (intro read_fields_loop_budget ex) auto
  then show ?thesis
    using ty sw
    by (simp add: read_fields_def rbind_step [where m = readFieldBegin] readFieldBegin_wire rbind_step [where m = "sw fid ty obj"]
        split: sum.splits prod.splits del: read_fields_loop.simps(2)
        add: read_fields_loop.simps(2) [of "Suc (Suc (Suc (length rest)))"])
qed

lemma read_fields_stepI:
  assumes "switch_exact sw" and "ty \<noteq> T_STOP"
    and "sw fid ty obj rest = Inr (obj', n, rest')"
    and "\<exists>m. read_fields sw obj' rest' = Inr (v, m, t)"
  shows "\<exists>m. read_fields sw obj (ty # toWire16 fid @ rest) = Inr (v, m, t)"
  using read_fields_step [OF assms(1-3)] assms(4) by auto

text \<open>Counts need no separate argument: exactness on both sides determines them.\<close>

lemma exact_read_written:
  assumes "reader_exact rd" and "writer_exact w" and "w = Inr (n, bs)"
    and "\<exists>m. rd (bs @ s) = Inr (v, m, s)"
  shows "rd (bs @ s) = Inr (v, n, s)"
proof -
  from assms(4) obtain m where m: "rd (bs @ s) = Inr (v, m, s)" by blast
  from reader_exactD [OF assms(1) m] have "m = of_nat (length bs)" by auto
  moreover from assms(2,3) have "n = of_nat (length bs)" by (auto simp: writer_exact_def)
  ultimately show ?thesis using m by simp
qed

section \<open>Readers under a change of representation\<close>

definition map_reader :: "('a \<Rightarrow> 'b) \<Rightarrow> 'a reader \<Rightarrow> 'b reader" where
  "map_reader f m = (\<lambda>s. case m s of Inl e \<Rightarrow> Inl e | Inr (a, n, t) \<Rightarrow> Inr (f a, n, t))"

lemma map_reader_rbind:
  "map_reader f (rbind m k) = rbind m (\<lambda>a. map_reader f (k a))"
  by (rule ext) (simp add: map_reader_def rbind_def split: sum.splits prod.splits)

lemma map_reader_rreturn: "map_reader f (rreturn a) = rreturn (f a)"
  by (rule ext) (simp add: map_reader_def rreturn_def)

lemma map_reader_rthrow: "map_reader f (rthrow e) = rthrow e"
  by (rule ext) (simp add: map_reader_def rthrow_def)

lemma map_reader_if: "map_reader f (if b then m else m') = (if b then map_reader f m else map_reader f m')"
  by simp

lemmas map_reader_simps = map_reader_rbind map_reader_rreturn map_reader_rthrow map_reader_if

lemma rbind_map_reader: "rbind (map_reader f m) k = rbind m (\<lambda>a. k (f a))"
  by (rule ext) (simp add: map_reader_def rbind_def split: sum.splits prod.splits)

lemma read_fields_loop_map:
  assumes "\<And>fid ty o'. sw' fid ty (f o') = map_reader f (sw fid ty o')"
  shows "read_fields_loop n sw' (f o') = map_reader f (read_fields_loop n sw o')"
proof (induction n arbitrary: o')
  case 0
  show ?case by (simp add: map_reader_rthrow)
next
  case (Suc n)
  have "(\<lambda>(ftype, fid). if ftype = T_STOP then rreturn (f o')
          else rbind (sw' fid ftype (f o')) (read_fields_loop n sw'))
      = (\<lambda>(ftype, fid). map_reader f (if ftype = T_STOP then rreturn o'
          else rbind (sw fid ftype o') (read_fields_loop n sw)))"
    by (auto simp: fun_eq_iff assms rbind_map_reader Suc map_reader_simps)
  then show ?case by (simp add: map_reader_rbind case_prod_beta' cong: if_cong)
qed

lemma read_fields_map:
  assumes "\<forall>fid ty o'. sw' fid ty (f o') = map_reader f (sw fid ty o')"
  shows "read_fields sw' (f o') = map_reader f (read_fields sw o')"
  by (rule ext) (simp add: read_fields_def map_reader_def [of f "read_fields sw o'"] map_reader_def [of f "\<lambda>s. _ s"]
      read_fields_loop_map [of sw' f sw, OF assms [rule_format]] map_reader_def del: read_fields_loop.simps)

section \<open>The codec interface\<close>

text \<open>
  What the RPC layer relies on for every struct that crosses the wire: a writer and a
  reader that agree. \<open>nf\<close> is what the reader turns a written value into (it sets the
  \<^verbatim>\<open>__isset\<close> flags of the fields it has seen).
\<close>

locale wire_codec =
  fixes wr :: "'a \<Rightarrow> writer" and rd :: "'b reader" and nf :: "'a \<Rightarrow> 'b"
  assumes read_written: "wr a = Inr (n, bs) \<Longrightarrow> rd (bs @ s) = Inr (nf a, n, s)"
    and rd_exact: "reader_exact rd"
    and wr_exact: "writer_exact (wr a)"
begin

lemma written_injective: "wr a = Inr (n, bs) \<Longrightarrow> wr b = Inr (m, bs) \<Longrightarrow> nf a = nf b"
  using read_written [of a n bs "[]"] read_written [of b m bs "[]"] by simp

lemma self_delimiting:
  assumes "wr a = Inr (n, bs)" and "wr b = Inr (m, cs)" and "bs @ s = cs @ t"
  shows "nf a = nf b \<and> bs = cs \<and> s = t"
  using read_written [OF assms(1), of s] read_written [OF assms(2), of t] assms(3) by simp

lemma written_length: "wr a = Inr (n, bs) \<Longrightarrow> n = of_nat (length bs)"
  using wr_exact [of a] by (auto simp: writer_exact_def)

end

interpretation i16: wire_codec writeI16 readI16 "\<lambda>i. i"
  by unfold_locales (auto simp: writeI16_def wreturn_def writer_exact_def wire_simps intro: reader_ok)

interpretation i32: wire_codec writeI32 readI32 "\<lambda>i. i"
  by unfold_locales (auto simp: writeI32_def wreturn_def writer_exact_def wire_simps intro: reader_ok)

interpretation bool: wire_codec writeBool readBool "\<lambda>v. v"
  using readBool_wire
  by unfold_locales (fastforce simp: writeBool_def wreturn_def intro: reader_ok writer_ok)+

interpretation str: wire_codec writeString "readString TBinaryProtocol" "\<lambda>v. v"
  by unfold_locales
    (auto simp: writeString_Inr readString_wire intro: reader_ok writer_ok)

end
