(* ===== verification/Thrift_Common.thy ===== *)
theory Thrift_Common
  imports Thrift_Binary
begin

text \<open>
  The structs of \<^verbatim>\<open>common_types.h\<close> and \<^verbatim>\<open>common_types.cpp\<close>: what a node
  sends to register and to report that it is alive. The node writes them (the copy under
  \<^verbatim>\<open>DcNode/src\<close>), the server reads them (the copy under \<^verbatim>\<open>DcServer/src\<close>; the
  two copies are the same file).
\<close>

section \<open>RegistResult\<close>

type_synonym RegistResult = int32

definition RegistResult_SUCCESS :: RegistResult where "RegistResult_SUCCESS = 0"
definition RegistResult_INVALIE_PARA :: RegistResult where "RegistResult_INVALIE_PARA = 1"
definition RegistResult_UNDEFINE_ERR :: RegistResult where "RegistResult_UNDEFINE_ERR = 2"

lemmas regist_result_defs = RegistResult_SUCCESS_def RegistResult_INVALIE_PARA_def
  RegistResult_UNDEFINE_ERR_def

definition RegistResult_VALUES_TO_NAMES :: "RegistResult \<rightharpoonup> string" where
  "RegistResult_VALUES_TO_NAMES = [RegistResult_SUCCESS \<mapsto> ''SUCCESS'',
     RegistResult_INVALIE_PARA \<mapsto> ''INVALIE_PARA'', RegistResult_UNDEFINE_ERR \<mapsto> ''UNDEFINE_ERR'']"

section \<open>ClientInfo\<close>

record ClientInfo =
  ci_Ip :: string
  ci_Port :: int32
  ci_msg :: string
  ci_isset_Ip :: bool
  ci_isset_Port :: bool
  ci_isset_msg :: bool

definition ClientInfo_new :: ClientInfo where
  "ClientInfo_new = \<lparr>ci_Ip = [], ci_Port = 0, ci_msg = [],
     ci_isset_Ip = False, ci_isset_Port = False, ci_isset_msg = False\<rparr>"

definition ClientInfo_set_Ip :: "string \<Rightarrow> ClientInfo \<Rightarrow> ClientInfo" where
  "ClientInfo_set_Ip val o' = o'\<lparr>ci_Ip := val\<rparr>"

definition ClientInfo_set_Port :: "int32 \<Rightarrow> ClientInfo \<Rightarrow> ClientInfo" where
  "ClientInfo_set_Port val o' = o'\<lparr>ci_Port := val\<rparr>"

definition ClientInfo_set_msg :: "string \<Rightarrow> ClientInfo \<Rightarrow> ClientInfo" where
  "ClientInfo_set_msg val o' = o'\<lparr>ci_msg := val, ci_isset_msg := True\<rparr>"

text \<open>\<^verbatim>\<open>operator==\<close> compares the optional \<^verbatim>\<open>msg\<close> only when both sides have it set.\<close>

definition ClientInfo_eq :: "ClientInfo \<Rightarrow> ClientInfo \<Rightarrow> bool" where
  "ClientInfo_eq a rhs =
     (if ci_Ip a \<noteq> ci_Ip rhs then False
      else if ci_Port a \<noteq> ci_Port rhs then False
      else if ci_isset_msg a \<noteq> ci_isset_msg rhs then False
      else if ci_isset_msg a \<and> ci_msg a \<noteq> ci_msg rhs then False
      else True)"

definition ClientInfo_field ::
    "tproto \<Rightarrow> nat \<Rightarrow> int16 \<Rightarrow> TType \<Rightarrow> ClientInfo \<Rightarrow> ClientInfo reader" where
  "ClientInfo_field p k fid ftype o' =
     (if fid = 1 then
        (if ftype = T_STRING then rbind (readString p) (\<lambda>v. rreturn (o'\<lparr>ci_Ip := v, ci_isset_Ip := True\<rparr>))
         else rbind (skip p k ftype) (\<lambda>_. rreturn o'))
      else if fid = 2 then
        (if ftype = T_I32 then rbind readI32 (\<lambda>v. rreturn (o'\<lparr>ci_Port := v, ci_isset_Port := True\<rparr>))
         else rbind (skip p k ftype) (\<lambda>_. rreturn o'))
      else if fid = 3 then
        (if ftype = T_STRING then rbind (readString p) (\<lambda>v. rreturn (o'\<lparr>ci_msg := v, ci_isset_msg := True\<rparr>))
         else rbind (skip p k ftype) (\<lambda>_. rreturn o'))
      else rbind (skip p k ftype) (\<lambda>_. rreturn o'))"

definition ClientInfo_read :: "tproto \<Rightarrow> nat \<Rightarrow> ClientInfo \<Rightarrow> ClientInfo reader" where
  "ClientInfo_read p k o' = tracked_read k (\<lambda>k'. read_fields (ClientInfo_field p k') o')"

definition ClientInfo_write :: "nat \<Rightarrow> ClientInfo \<Rightarrow> writer" where
  "ClientInfo_write k o' = tracked_write k (\<lambda>_. wseqs
     ([writeFieldBegin T_STRING 1, writeString (ci_Ip o'),
       writeFieldBegin T_I32 2, writeI32 (ci_Port o')]
      @ (if ci_isset_msg o' then [writeFieldBegin T_STRING 3, writeString (ci_msg o')] else [])
      @ [writeFieldStop]))"

definition ClientInfo_swap :: "ClientInfo \<times> ClientInfo \<Rightarrow> ClientInfo \<times> ClientInfo" where
  "ClientInfo_swap = (\<lambda>(a, b). (b, a))"

text \<open>The copy constructor and \<^verbatim>\<open>operator=\<close>, field by field.\<close>

definition ClientInfo_assign :: "ClientInfo \<Rightarrow> ClientInfo \<Rightarrow> ClientInfo" where
  "ClientInfo_assign self other = self\<lparr>ci_Ip := ci_Ip other, ci_Port := ci_Port other, ci_msg := ci_msg other,
     ci_isset_Ip := ci_isset_Ip other, ci_isset_Port := ci_isset_Port other, ci_isset_msg := ci_isset_msg other\<rparr>"

definition ClientInfo_printTo :: "ClientInfo \<Rightarrow> string" where
  "ClientInfo_printTo o' = ''ClientInfo('' @ ''Ip='' @ ci_Ip o' @ '', '' @ ''Port='' @
     show_int (sint (ci_Port o')) @ '', '' @ ''msg='' @
     (if ci_isset_msg o' then ci_msg o' else ''<null>'') @ '')''"

section \<open>HeartBeatInfo\<close>

record HeartBeatInfo =
  hb_Ip :: string
  hb_Port :: int32
  hb_msg :: string
  hb_isset_Ip :: bool
  hb_isset_Port :: bool
  hb_isset_msg :: bool

definition HeartBeatInfo_new :: HeartBeatInfo where
  "HeartBeatInfo_new = \<lparr>hb_Ip = [], hb_Port = 0, hb_msg = [],
     hb_isset_Ip = False, hb_isset_Port = False, hb_isset_msg = False\<rparr>"

definition HeartBeatInfo_set_Ip :: "string \<Rightarrow> HeartBeatInfo \<Rightarrow> HeartBeatInfo" where
  "HeartBeatInfo_set_Ip val o' = o'\<lparr>hb_Ip := val\<rparr>"

definition HeartBeatInfo_set_Port :: "int32 \<Rightarrow> HeartBeatInfo \<Rightarrow> HeartBeatInfo" where
  "HeartBeatInfo_set_Port val o' = o'\<lparr>hb_Port := val\<rparr>"

definition HeartBeatInfo_set_msg :: "string \<Rightarrow> HeartBeatInfo \<Rightarrow> HeartBeatInfo" where
  "HeartBeatInfo_set_msg val o' = o'\<lparr>hb_msg := val, hb_isset_msg := True\<rparr>"

definition HeartBeatInfo_eq :: "HeartBeatInfo \<Rightarrow> HeartBeatInfo \<Rightarrow> bool" where
  "HeartBeatInfo_eq a rhs =
     (if hb_Ip a \<noteq> hb_Ip rhs then False
      else if hb_Port a \<noteq> hb_Port rhs then False
      else if hb_isset_msg a \<noteq> hb_isset_msg rhs then False
      else if hb_isset_msg a \<and> hb_msg a \<noteq> hb_msg rhs then False
      else True)"

definition HeartBeatInfo_field ::
    "tproto \<Rightarrow> nat \<Rightarrow> int16 \<Rightarrow> TType \<Rightarrow> HeartBeatInfo \<Rightarrow> HeartBeatInfo reader" where
  "HeartBeatInfo_field p k fid ftype o' =
     (if fid = 1 then
        (if ftype = T_STRING then rbind (readString p) (\<lambda>v. rreturn (o'\<lparr>hb_Ip := v, hb_isset_Ip := True\<rparr>))
         else rbind (skip p k ftype) (\<lambda>_. rreturn o'))
      else if fid = 2 then
        (if ftype = T_I32 then rbind readI32 (\<lambda>v. rreturn (o'\<lparr>hb_Port := v, hb_isset_Port := True\<rparr>))
         else rbind (skip p k ftype) (\<lambda>_. rreturn o'))
      else if fid = 3 then
        (if ftype = T_STRING then rbind (readString p) (\<lambda>v. rreturn (o'\<lparr>hb_msg := v, hb_isset_msg := True\<rparr>))
         else rbind (skip p k ftype) (\<lambda>_. rreturn o'))
      else rbind (skip p k ftype) (\<lambda>_. rreturn o'))"

definition HeartBeatInfo_read :: "tproto \<Rightarrow> nat \<Rightarrow> HeartBeatInfo \<Rightarrow> HeartBeatInfo reader" where
  "HeartBeatInfo_read p k o' = tracked_read k (\<lambda>k'. read_fields (HeartBeatInfo_field p k') o')"

definition HeartBeatInfo_write :: "nat \<Rightarrow> HeartBeatInfo \<Rightarrow> writer" where
  "HeartBeatInfo_write k o' = tracked_write k (\<lambda>_. wseqs
     ([writeFieldBegin T_STRING 1, writeString (hb_Ip o'),
       writeFieldBegin T_I32 2, writeI32 (hb_Port o')]
      @ (if hb_isset_msg o' then [writeFieldBegin T_STRING 3, writeString (hb_msg o')] else [])
      @ [writeFieldStop]))"

definition HeartBeatInfo_swap :: "HeartBeatInfo \<times> HeartBeatInfo \<Rightarrow> HeartBeatInfo \<times> HeartBeatInfo" where
  "HeartBeatInfo_swap = (\<lambda>(a, b). (b, a))"

definition HeartBeatInfo_assign :: "HeartBeatInfo \<Rightarrow> HeartBeatInfo \<Rightarrow> HeartBeatInfo" where
  "HeartBeatInfo_assign self other = self\<lparr>hb_Ip := hb_Ip other, hb_Port := hb_Port other, hb_msg := hb_msg other,
     hb_isset_Ip := hb_isset_Ip other, hb_isset_Port := hb_isset_Port other, hb_isset_msg := hb_isset_msg other\<rparr>"

definition HeartBeatInfo_printTo :: "HeartBeatInfo \<Rightarrow> string" where
  "HeartBeatInfo_printTo o' = ''HeartBeatInfo('' @ ''Ip='' @ hb_Ip o' @ '', '' @ ''Port='' @
     show_int (sint (hb_Port o')) @ '', '' @ ''msg='' @
     (if hb_isset_msg o' then hb_msg o' else ''<null>'') @ '')''"

section \<open>Reading back a written struct\<close>

lemma ClientInfo_field_exact [reader_ok]: "reader_exact (ClientInfo_field p k fid ty o')"
  unfolding ClientInfo_field_def by (intro reader_ok)

lemma ClientInfo_switch_exact: "switch_exact (ClientInfo_field p k)"
  by (simp add: switch_exact_def ClientInfo_field_exact)

lemma ClientInfo_read_exact [reader_ok]: "reader_exact (ClientInfo_read p k o')"
  unfolding ClientInfo_read_def by (intro reader_ok)

lemma ClientInfo_field_total [reader_fin]: "reader_total (ClientInfo_field p k fid ty o')"
  unfolding ClientInfo_field_def by (intro reader_fin)

lemma ClientInfo_read_total [reader_fin]: "reader_total (ClientInfo_read p k o')"
  unfolding ClientInfo_read_def by (intro reader_fin reader_ok)

lemma ClientInfo_write_exact [writer_ok]: "writer_exact (ClientInfo_write k o')"
  unfolding ClientInfo_write_def by (intro writer_ok) (auto intro: writer_ok)

text \<open>What the reader makes of a written object: the flags of the fields it saw are set.\<close>

definition ClientInfo_received :: "ClientInfo \<Rightarrow> ClientInfo" where
  "ClientInfo_received a = a\<lparr>ci_isset_Ip := True, ci_isset_Port := True,
     ci_msg := (if ci_isset_msg a then ci_msg a else [])\<rparr>"

lemma ClientInfo_write_Inr:
  "ClientInfo_write (Suc k) a = Inr (n, bs) \<Longrightarrow>
     length (ci_Ip a) \<le> 2147483647 \<and> (ci_isset_msg a \<longrightarrow> length (ci_msg a) \<le> 2147483647) \<and>
     bs = T_STRING # toWire16 1 @ toWire32 (of_nat (length (ci_Ip a))) @ map byte_of_char (ci_Ip a)
       @ T_I32 # toWire16 2 @ toWire32 (ci_Port a)
       @ (if ci_isset_msg a then T_STRING # toWire16 3 @ toWire32 (of_nat (length (ci_msg a)))
            @ map byte_of_char (ci_msg a) else []) @ [T_STOP]"
  by (auto simp: ClientInfo_write_def tracked_write_def wseq_def writeFieldBegin_def writeByte_def
      writeI16_def writeI32_def wreturn_def writeString_def writeFieldStop_def
      split: if_splits sum.splits)

lemma ClientInfo_field_wire [wire_simps]:
  "fits p v \<Longrightarrow> ClientInfo_field p k 1 T_STRING o' (toWire32 (of_nat (length v)) @ map byte_of_char v @ s)
     = Inr (o'\<lparr>ci_Ip := v, ci_isset_Ip := True\<rparr>, 4 + of_nat (length v), s)"
  "ClientInfo_field p k 2 T_I32 o' (toWire32 i @ s)
     = Inr (o'\<lparr>ci_Port := i, ci_isset_Port := True\<rparr>, 4, s)"
  "fits p v \<Longrightarrow> ClientInfo_field p k 3 T_STRING o' (toWire32 (of_nat (length v)) @ map byte_of_char v @ s)
     = Inr (o'\<lparr>ci_msg := v, ci_isset_msg := True\<rparr>, 4 + of_nat (length v), s)"
  by (simp_all add: ClientInfo_field_def rbind_step readString_wire readI32_wire rreturn_def)

lemma ttype_distinct [simp]:
  "T_STRING \<noteq> T_STOP" "T_I32 \<noteq> T_STOP" "T_STRUCT \<noteq> T_STOP" "T_BOOL \<noteq> T_STOP"
  by (simp_all add: ttype_defs)

lemma ClientInfo_read_written:
  assumes "ClientInfo_write (Suc j) a = Inr (n, bs)"
  shows "\<exists>m. ClientInfo_read TBinaryProtocol (Suc k) ClientInfo_new (bs @ s)
    = Inr (ClientInfo_received a, m, s)"
proof -
  note w = ClientInfo_write_Inr [OF assms]
  let ?rf = "read_fields (ClientInfo_field TBinaryProtocol k)"
  let ?o1 = "ClientInfo_new\<lparr>ci_Ip := ci_Ip a, ci_isset_Ip := True\<rparr>"
  let ?o2 = "?o1\<lparr>ci_Port := ci_Port a, ci_isset_Port := True\<rparr>"
  let ?tl = "if ci_isset_msg a then T_STRING # toWire16 3 @ toWire32 (of_nat (length (ci_msg a)))
            @ map byte_of_char (ci_msg a) else []"
  have 3: "\<exists>m. ?rf ?o2 (?tl @ T_STOP # s) = Inr (ClientInfo_received a, m, s)"
  proof (cases "ci_isset_msg a")
    case True
    have "\<exists>m. ?rf ?o2 (T_STRING # toWire16 3 @ toWire32 (of_nat (length (ci_msg a)))
            @ map byte_of_char (ci_msg a) @ T_STOP # s) = Inr (ClientInfo_received a, m, s)"
      by (rule read_fields_stepI [OF ClientInfo_switch_exact _ ClientInfo_field_wire(3)])
        (use w True in \<open>auto simp: read_fields_stop ClientInfo_received_def ClientInfo_new_def\<close>)
    with True show ?thesis by simp
  next
    case False
    then show ?thesis by (simp add: read_fields_stop ClientInfo_received_def ClientInfo_new_def)
  qed
  have 2: "\<exists>m. ?rf ?o1 (T_I32 # toWire16 2 @ toWire32 (ci_Port a) @ ?tl @ T_STOP # s)
      = Inr (ClientInfo_received a, m, s)"
    by (rule read_fields_stepI [OF ClientInfo_switch_exact _ ClientInfo_field_wire(2) 3]) simp
  have "\<exists>m. ?rf ClientInfo_new (T_STRING # toWire16 1 @ toWire32 (of_nat (length (ci_Ip a))) @ map byte_of_char (ci_Ip a)
       @ T_I32 # toWire16 2 @ toWire32 (ci_Port a) @ ?tl @ T_STOP # s) = Inr (ClientInfo_received a, m, s)"
    by (rule read_fields_stepI [OF ClientInfo_switch_exact _ ClientInfo_field_wire(1) 2]) (use w in auto)
  with w show ?thesis by (simp add: ClientInfo_read_def tracked_read_def)
qed

interpretation client_info: wire_codec "ClientInfo_write (Suc j)"
  "ClientInfo_read TBinaryProtocol (Suc k) ClientInfo_new" ClientInfo_received for j k
  by unfold_locales
    (auto intro: exact_read_written [OF ClientInfo_read_exact ClientInfo_write_exact _ ClientInfo_read_written]
      reader_ok writer_ok)

text \<open>
  \<^verbatim>\<open>HeartBeatInfo\<close> has the fields of \<^verbatim>\<open>ClientInfo\<close>, and its generated code
  differs in names only: reading and writing commute with the renaming, so its laws are
  those of \<^verbatim>\<open>ClientInfo\<close>.
\<close>

definition hb_of_ci :: "ClientInfo \<Rightarrow> HeartBeatInfo" where
  "hb_of_ci c = \<lparr>hb_Ip = ci_Ip c, hb_Port = ci_Port c, hb_msg = ci_msg c,
     hb_isset_Ip = ci_isset_Ip c, hb_isset_Port = ci_isset_Port c, hb_isset_msg = ci_isset_msg c\<rparr>"

definition ci_of_hb :: "HeartBeatInfo \<Rightarrow> ClientInfo" where
  "ci_of_hb h = \<lparr>ci_Ip = hb_Ip h, ci_Port = hb_Port h, ci_msg = hb_msg h,
     ci_isset_Ip = hb_isset_Ip h, ci_isset_Port = hb_isset_Port h, ci_isset_msg = hb_isset_msg h\<rparr>"

lemma hb_of_ci_inv [simp]: "hb_of_ci (ci_of_hb h) = h" "ci_of_hb (hb_of_ci c) = c"
  by (simp_all add: hb_of_ci_def ci_of_hb_def)

lemma HeartBeatInfo_field_iso:
  "HeartBeatInfo_field p k fid ty (hb_of_ci c) = map_reader hb_of_ci (ClientInfo_field p k fid ty c)"
  by (simp add: HeartBeatInfo_field_def ClientInfo_field_def map_reader_simps hb_of_ci_def)

lemma HeartBeatInfo_read_iso:
  "HeartBeatInfo_read p k (hb_of_ci c) = map_reader hb_of_ci (ClientInfo_read p k c)"
  by (cases k) (simp_all add: HeartBeatInfo_read_def ClientInfo_read_def tracked_read_def
      map_reader_rthrow read_fields_map HeartBeatInfo_field_iso)

lemma HeartBeatInfo_write_iso: "HeartBeatInfo_write k (hb_of_ci c) = ClientInfo_write k c"
  by (simp add: HeartBeatInfo_write_def ClientInfo_write_def hb_of_ci_def)

lemma HeartBeatInfo_new_iso: "HeartBeatInfo_new = hb_of_ci ClientInfo_new"
  by (simp add: HeartBeatInfo_new_def ClientInfo_new_def hb_of_ci_def)

definition HeartBeatInfo_received :: "HeartBeatInfo \<Rightarrow> HeartBeatInfo" where
  "HeartBeatInfo_received a = a\<lparr>hb_isset_Ip := True, hb_isset_Port := True,
     hb_msg := (if hb_isset_msg a then hb_msg a else [])\<rparr>"

lemma HeartBeatInfo_received_iso: "HeartBeatInfo_received (hb_of_ci c) = hb_of_ci (ClientInfo_received c)"
  by (simp add: HeartBeatInfo_received_def ClientInfo_received_def hb_of_ci_def)

lemma map_reader_exact [reader_ok]: "reader_exact m \<Longrightarrow> reader_exact (map_reader f m)"
  by (auto simp: reader_exact_def map_reader_def split: sum.splits prod.splits)

lemma HeartBeatInfo_read_exact [reader_ok]: "reader_exact (HeartBeatInfo_read p k h)"
  using HeartBeatInfo_read_iso [of p k "ci_of_hb h"] by (simp add: reader_ok)

lemma HeartBeatInfo_write_exact [writer_ok]: "writer_exact (HeartBeatInfo_write k h)"
  using HeartBeatInfo_write_iso [of k "ci_of_hb h"] by (simp add: writer_ok)

lemma HeartBeatInfo_read_total [reader_fin]: "reader_total (HeartBeatInfo_read p k h)"
  using ClientInfo_read_total [of p k "ci_of_hb h"] HeartBeatInfo_read_iso [of p k "ci_of_hb h"]
  by (auto simp: reader_total_def map_reader_def split: sum.splits prod.splits)

interpretation heart_beat_info: wire_codec "HeartBeatInfo_write (Suc j)"
  "HeartBeatInfo_read TBinaryProtocol (Suc k) HeartBeatInfo_new" HeartBeatInfo_received for j k
proof (unfold_locales)
  fix h n bs s assume "HeartBeatInfo_write (Suc j) h = Inr (n, bs)"
  then have "ClientInfo_write (Suc j) (ci_of_hb h) = Inr (n, bs)"
    using HeartBeatInfo_write_iso [of "Suc j" "ci_of_hb h"] by simp
  from client_info.read_written [OF this]
  show "HeartBeatInfo_read TBinaryProtocol (Suc k) HeartBeatInfo_new (bs @ s)
      = Inr (HeartBeatInfo_received h, n, s)"
    using HeartBeatInfo_received_iso [of "ci_of_hb h"]
    by (simp add: HeartBeatInfo_new_iso HeartBeatInfo_read_iso map_reader_def)
qed (auto intro: reader_ok writer_ok)

section \<open>Properties\<close>

text \<open>\<^verbatim>\<open>operator==\<close> is an equivalence although it does not compare every field, and an assigned object equals its source.\<close>

lemma ClientInfo_eq_equivp: "equivp ClientInfo_eq" "ClientInfo_eq (ClientInfo_assign a b) b"
  by (auto simp: ClientInfo_eq_def ClientInfo_assign_def intro!: equivpI reflpI sympI transpI split: if_splits)

lemma HeartBeatInfo_eq_equivp: "equivp HeartBeatInfo_eq" "HeartBeatInfo_eq (HeartBeatInfo_assign c d) d"
  by (auto simp: HeartBeatInfo_eq_def HeartBeatInfo_assign_def intro!: equivpI reflpI sympI transpI split: if_splits)

text \<open>The registration record survives the wire: whatever a node writes, followed by any other
  bytes, the server reads back as a record that is equal in the sense of the generated operator,
  with the flags of the fields that arrived set, having consumed exactly the bytes written; two
  records with the same encoding are equal in that sense.\<close>

lemma ClientInfo_wire_roundtrip:
  assumes "ClientInfo_write (Suc j) a = Inr (n, bs)"
  shows "ClientInfo_read TBinaryProtocol (Suc k) ClientInfo_new (bs @ s) = Inr (ClientInfo_received a, n, s) \<and>
    ClientInfo_eq (ClientInfo_received a) a \<and>
    (\<forall>b. ClientInfo_write (Suc j) b = Inr (n, bs) \<longrightarrow> ClientInfo_eq a b)"
proof (intro conjI allI impI)
  show r: "ClientInfo_read TBinaryProtocol (Suc k) ClientInfo_new (bs @ s) = Inr (ClientInfo_received a, n, s)"
    by (rule client_info.read_written [OF assms])
  show "ClientInfo_eq (ClientInfo_received a) a" by (simp add: ClientInfo_eq_def ClientInfo_received_def)
  fix b assume "ClientInfo_write (Suc j) b = Inr (n, bs)"
  with r have eq: "ClientInfo_received a = ClientInfo_received b" using client_info.read_written [of j b n bs k s] by simp
  from arg_cong [OF eq, of ci_Ip] arg_cong [OF eq, of ci_Port] arg_cong [OF eq, of ci_isset_msg] arg_cong [OF eq, of ci_msg]
  have "ci_Ip a = ci_Ip b" "ci_Port a = ci_Port b" "ci_isset_msg a = ci_isset_msg b" "ci_isset_msg a \<longrightarrow> ci_msg a = ci_msg b"
    by (auto simp: ClientInfo_received_def split: if_splits)
  then show "ClientInfo_eq a b" by (simp add: ClientInfo_eq_def)
qed

definition sample_info :: ClientInfo where
  "sample_info = ClientInfo_set_msg ''hi'' (ClientInfo_set_Port 6001 (ClientInfo_set_Ip ''10.0.0.1'' ClientInfo_new))"

theorem ClientInfo_wire_roundtrip_witness:
  "\<exists>n bs. ClientInfo_write 64 sample_info = Inr (n, bs) \<and>
     ClientInfo_read TBinaryProtocol 64 ClientInfo_new (bs @ [7]) = Inr (ClientInfo_received sample_info, n, [7])"
proof -
  have "\<exists>n bs. ClientInfo_write (Suc 63) sample_info = Inr (n, bs)"
    by (simp add: ClientInfo_write_def tracked_write_def sample_info_def ClientInfo_set_msg_def ClientInfo_set_Port_def
        ClientInfo_set_Ip_def ClientInfo_new_def wseq_def writeFieldBegin_def writeByte_def writeI16_def writeI32_def
        writeString_def writeFieldStop_def wreturn_def)
  then obtain n bs where w: "ClientInfo_write (Suc 63) sample_info = Inr (n, bs)" by blast
  from ClientInfo_wire_roundtrip [OF w, of 63 "[7]"] w show ?thesis by auto
qed

end
