(* ===== verification/Thrift_Rpc.thy ===== *)
theory Thrift_Rpc
  imports Thrift_Common
begin

text \<open>
  The call path of the generated services. The generated code of the three methods
  (\<^verbatim>\<open>registClient\<close>, \<^verbatim>\<open>heartbeat\<close>, \<^verbatim>\<open>ClusterWork\<close>) differs in names and
  struct types only; \<open>rpc_send\<close>, \<open>rpc_recv\<close> and \<open>rpc_process\<close> are its common shape,
  and the methods below instantiate them. \<open>dispatch_process\<close> is
  \<^verbatim>\<open>TDispatchProcessor::process\<close> around the method table of a processor.

  \<^verbatim>\<open>TApplicationException\<close>'s own reader and writer live in libthrift and are parameters
  (\<open>xread\<close>, \<open>xwrite\<close>). The optional event handler of a processor is not installed by
  either program and is left out. A result struct is its \<^verbatim>\<open>success\<close> field when
  \<^verbatim>\<open>__isset.success\<close> holds and \<open>None\<close> otherwise.
\<close>

section \<open>Client side\<close>

definition rpc_send :: "tproto \<Rightarrow> string \<Rightarrow> ('a \<Rightarrow> writer) \<Rightarrow> 'a \<Rightarrow> writer" where
  "rpc_send p name pargs_write a =
     wseqs [writeMessageBegin p name T_CALL 0, pargs_write a]"

definition rpc_recv ::
    "tproto \<Rightarrow> (app_error \<times> string) reader \<Rightarrow> string \<Rightarrow> 'r option reader \<Rightarrow> 'r reader" where
  "rpc_recv p xread name presult_read =
     rbind (readMessageBegin p) (\<lambda>(fname, mtype, rseqid).
       if mtype = T_EXCEPTION then rbind xread (\<lambda>(t, m). rthrow (TApplicationException t m))
       else rbind (if mtype \<noteq> T_REPLY then skip p (recursion_limit p) T_STRUCT else rreturn ()) (\<lambda>_.
            rbind (if fname \<noteq> name then skip p (recursion_limit p) T_STRUCT else rreturn ()) (\<lambda>_.
            rbind presult_read (\<lambda>result. case result of
                Some v \<Rightarrow> rreturn v
              | None \<Rightarrow> rthrow (TApplicationException MISSING_RESULT (name @ '' failed: unknown result''))))))"

text \<open>
  A connection to a peer, as its client sees it: whether it opens, what comes back for
  the bytes of a flushed message, whether it closes without an exception.
\<close>

record peer =
  peer_open :: bool
  peer_answer :: "byte list \<Rightarrow> texception + byte list"
  peer_close :: bool

section \<open>Server side\<close>

text \<open>
  A method body: read the arguments, call the handler (which may change the server's
  state and may throw, \<open>Inl what\<close>), and write a reply or an exception message.
  A failed argument read propagates out and leaves the state alone.
\<close>

definition rpc_process ::
    "tproto \<Rightarrow> (app_error \<Rightarrow> string \<Rightarrow> writer) \<Rightarrow> string \<Rightarrow> 'b reader \<Rightarrow> ('r option \<Rightarrow> writer)
     \<Rightarrow> ('b \<Rightarrow> 's \<Rightarrow> (string + 'r) \<times> 's) \<Rightarrow> int32 \<Rightarrow> byte list \<Rightarrow> 's \<Rightarrow> writer \<times> 's" where
  "rpc_process p xwrite name args_read result_write handler seqid inp st =
     (case args_read inp of
        Inl e \<Rightarrow> (Inl e, st)
      | Inr (args, _, _) \<Rightarrow> (case handler args st of
          (Inl what, st') \<Rightarrow>
            (wseqs [writeMessageBegin p name T_EXCEPTION seqid, xwrite UNKNOWN what], st')
        | (Inr r, st') \<Rightarrow>
            (wseqs [writeMessageBegin p name T_REPLY seqid, result_write (Some r)], st')))"

type_synonym 's method_body = "int32 \<Rightarrow> byte list \<Rightarrow> 's \<Rightarrow> writer \<times> 's"

text \<open>The branch of \<^verbatim>\<open>dispatchCall\<close> for a name that is not in the method table.\<close>

definition unknown_method ::
    "tproto \<Rightarrow> (app_error \<Rightarrow> string \<Rightarrow> writer) \<Rightarrow> string \<Rightarrow> 's method_body" where
  "unknown_method p xwrite fname seqid inp st =
     (case skip p (recursion_limit p) T_STRUCT inp of
        Inl e \<Rightarrow> (Inl e, st)
      | Inr _ \<Rightarrow> (wseqs [writeMessageBegin p fname T_EXCEPTION seqid,
                   xwrite UNKNOWN_METHOD (''Invalid method name: '' @ [CHR 0x27] @ fname @ [CHR 0x27])], st))"

definition dispatchCall ::
    "tproto \<Rightarrow> (app_error \<Rightarrow> string \<Rightarrow> writer) \<Rightarrow> (string \<rightharpoonup> 's method_body) \<Rightarrow> string \<Rightarrow> 's method_body" where
  "dispatchCall p xwrite processMap fname =
     (case processMap fname of
        None \<Rightarrow> unknown_method p xwrite fname
      | Some body \<Rightarrow> body)"

text \<open>
  \<^verbatim>\<open>TDispatchProcessor::process\<close>: \<open>Inr None\<close> is the return value \<^verbatim>\<open>false\<close>
  (the server closes the connection), \<open>Inr (Some out)\<close> is \<^verbatim>\<open>true\<close> with the bytes
  flushed to the client.
\<close>

definition dispatch_process ::
    "tproto \<Rightarrow> (app_error \<Rightarrow> string \<Rightarrow> writer) \<Rightarrow> (string \<rightharpoonup> 's method_body) \<Rightarrow> byte list \<Rightarrow> 's
     \<Rightarrow> (texception + byte list option) \<times> 's" where
  "dispatch_process p xwrite processMap inp st =
     (case readMessageBegin p inp of
        Inl e \<Rightarrow> (Inl e, st)
      | Inr ((fname, mtype, seqid), _, rest) \<Rightarrow>
          if mtype \<noteq> T_CALL \<and> mtype \<noteq> T_ONEWAY then (Inr None, st)
          else (case dispatchCall p xwrite processMap fname seqid rest st of
              (Inl e, st') \<Rightarrow> (Inl e, st')
            | (Inr (_, out), st') \<Rightarrow> (Inr (Some out), st')))"

section \<open>One call, end to end\<close>

text \<open>
  The contract of a remote method: its argument struct and its result struct are codecs,
  and its name fits into a message header.
\<close>

locale rpc_method =
  args: wire_codec pargs_write args_read received +
  res: wire_codec result_write presult_read "\<lambda>r. r"
  for pargs_write :: "'a \<Rightarrow> writer" and args_read :: "'b reader" and received :: "'a \<Rightarrow> 'b"
    and result_write :: "'r option \<Rightarrow> writer" and presult_read :: "'r option reader" +
  fixes name :: string
  assumes name_fits: "length name \<le> 2147483647"
begin

abbreviation proto :: tproto where
  "proto \<equiv> TBinaryProtocol"

lemma strict: "strict_write proto"
  by (simp add: TBinaryProtocol_def)

lemma send_bytes:
  assumes "rpc_send proto name pargs_write a = Inr (n, bs)"
  obtains m cs where "pargs_write a = Inr (m, cs)"
    and "\<And>s. readMessageBegin proto (bs @ s) = Inr ((name, T_CALL, 0), 12 + of_nat (length name), cs @ s)"
proof -
  from assms obtain h m cs where b: "writeMessageBegin proto name T_CALL 0 = Inr h"
    and c: "pargs_write a = Inr (m, cs)" and bs: "bs = snd h @ cs"
    by (auto simp: rpc_send_def wseq_def split: sum.splits)
  obtain k hs where h: "h = (k, hs)" by (cases h)
  from b h have hs: "hs = toWire32 (VERSION_1 OR T_CALL) @ toWire32 (of_nat (length name)) @ map byte_of_char name
          @ toWire32 0" by (simp add: writeMessageBegin_Inr [OF strict])
  have "readMessageBegin proto (bs @ s) = Inr ((name, T_CALL, 0), 12 + of_nat (length name), cs @ s)" for s
    using readMessageBegin_wire [of proto name T_CALL 0 "cs @ s"] name_fits
    by (simp add: bs h hs)
  with c show thesis by (rule that)
qed

lemma recv_reply:
  assumes "wseqs [writeMessageBegin proto name T_REPLY seqid, result_write (Some r)] = Inr (n, out)"
  shows "\<exists>m. rpc_recv proto xread name presult_read (out @ s) = Inr (r, m, s)"
proof -
  from assms obtain h m cs where b: "writeMessageBegin proto name T_REPLY seqid = Inr h"
    and c: "result_write (Some r) = Inr (m, cs)" and out: "out = snd h @ cs"
    by (auto simp: wseq_def split: sum.splits)
  obtain k hs where h: "h = (k, hs)" by (cases h)
  from b h have hs: "hs = toWire32 (VERSION_1 OR T_REPLY) @ toWire32 (of_nat (length name)) @ map byte_of_char name
          @ toWire32 seqid" by (simp add: writeMessageBegin_Inr [OF strict])
  have rd: "readMessageBegin proto (out @ s) = Inr ((name, T_REPLY, seqid), 12 + of_nat (length name), cs @ s)"
    using readMessageBegin_wire [of proto name T_REPLY seqid "cs @ s"] name_fits
    by (simp add: out h hs)
  from res.read_written [OF c] have "presult_read (cs @ s) = Inr (Some r, m, s)" .
  then show ?thesis
    by (simp add: rpc_recv_def rbind_step rd rreturn_def tmessage_defs)
qed

text \<open>
  The message a client writes, handed to a processor whose table holds the method, runs
  the handler on the received argument; the reply it writes, read by the client, is the
  handler's value.
\<close>

theorem call_roundtrip:
  assumes send: "rpc_send proto name pargs_write a = Inr (n, bs)"
    and tab: "processMap name = Some (rpc_process proto xwrite name args_read result_write handler)"
    and run: "handler (received a) st = (Inr r, st')"
    and res: "result_write (Some r) = Inr (m, cs)"
  shows "\<exists>out k. dispatch_process proto xwrite processMap bs st = (Inr (Some out), st') \<and>
    rpc_recv proto xread name presult_read out = Inr (r, k, [])"
proof -
  from send obtain m' as where a: "pargs_write a = Inr (m', as)"
    and hd: "\<And>s. readMessageBegin proto (bs @ s) = Inr ((name, T_CALL, 0), 12 + of_nat (length name), as @ s)"
    using send_bytes by blast
  from args.read_written [OF a, of "[]"] have rd: "args_read as = Inr (received a, m', [])" by simp
  obtain k out where out: "wseqs [writeMessageBegin proto name T_REPLY 0, result_write (Some r)] = Inr (k, out)"
    using res name_fits iffD2 [OF writeMessageBegin_Inr [OF strict, of name T_REPLY 0]]
    by (simp add: wseq_def)
  have "dispatch_process proto xwrite processMap bs st = (Inr (Some out), st')"
    using hd [of "[]"] tab rd run out
    by (simp add: dispatch_process_def dispatchCall_def rpc_process_def tmessage_defs del: wseqs.simps)
  moreover have "\<exists>k. rpc_recv proto xread name presult_read (out @ []) = Inr (r, k, [])"
    by (rule recv_reply [OF out])
  ultimately show ?thesis by auto
qed

end

section \<open>Regist: registClient and heartbeat\<close>

text \<open>
  \<^verbatim>\<open>Regist.cpp\<close>: the argument and result structs of the two methods, the client
  stubs the node calls and the processor the server runs.
\<close>

record Regist_registClient_args =
  rca_clientInfo :: ClientInfo
  rca_isset_clientInfo :: bool

definition Regist_registClient_args_new :: Regist_registClient_args where
  "Regist_registClient_args_new = \<lparr>rca_clientInfo = ClientInfo_new, rca_isset_clientInfo = False\<rparr>"

definition Regist_registClient_args_field ::
    "tproto \<Rightarrow> nat \<Rightarrow> int16 \<Rightarrow> TType \<Rightarrow> Regist_registClient_args \<Rightarrow> Regist_registClient_args reader" where
  "Regist_registClient_args_field p k fid ftype a =
     (if fid = 1 then
        (if ftype = T_STRUCT then rbind (ClientInfo_read p k (rca_clientInfo a))
           (\<lambda>v. rreturn (a\<lparr>rca_clientInfo := v, rca_isset_clientInfo := True\<rparr>))
         else rbind (skip p k ftype) (\<lambda>_. rreturn a))
      else rbind (skip p k ftype) (\<lambda>_. rreturn a))"

definition Regist_registClient_args_read :: "tproto \<Rightarrow> Regist_registClient_args reader" where
  "Regist_registClient_args_read p = tracked_read (recursion_limit p)
     (\<lambda>k. read_fields (Regist_registClient_args_field p k) Regist_registClient_args_new)"

definition Regist_registClient_pargs_write :: "tproto \<Rightarrow> ClientInfo \<Rightarrow> writer" where
  "Regist_registClient_pargs_write p ci = tracked_write (recursion_limit p) (\<lambda>k.
     wseqs [writeFieldBegin T_STRUCT 1, ClientInfo_write k ci, writeFieldStop])"

definition Regist_registClient_result_write :: "RegistResult option \<Rightarrow> writer" where
  "Regist_registClient_result_write r = wseqs
     ((case r of Some v \<Rightarrow> [writeFieldBegin T_I32 0, writeI32 v] | None \<Rightarrow> []) @ [writeFieldStop])"

definition Regist_registClient_presult_field ::
    "tproto \<Rightarrow> nat \<Rightarrow> int16 \<Rightarrow> TType \<Rightarrow> RegistResult option \<Rightarrow> RegistResult option reader" where
  "Regist_registClient_presult_field p k fid ftype r =
     (if fid = 0 then
        (if ftype = T_I32 then rbind readI32 (\<lambda>v. rreturn (Some v))
         else rbind (skip p k ftype) (\<lambda>_. rreturn r))
      else rbind (skip p k ftype) (\<lambda>_. rreturn r))"

definition Regist_registClient_presult_read :: "tproto \<Rightarrow> RegistResult option reader" where
  "Regist_registClient_presult_read p = tracked_read (recursion_limit p)
     (\<lambda>k. read_fields (Regist_registClient_presult_field p k) None)"

record Regist_heartbeat_args =
  rha_heartbeatInfo :: HeartBeatInfo
  rha_isset_heartbeatInfo :: bool

definition Regist_heartbeat_args_new :: Regist_heartbeat_args where
  "Regist_heartbeat_args_new =
     \<lparr>rha_heartbeatInfo = HeartBeatInfo_new, rha_isset_heartbeatInfo = False\<rparr>"

definition Regist_heartbeat_args_field ::
    "tproto \<Rightarrow> nat \<Rightarrow> int16 \<Rightarrow> TType \<Rightarrow> Regist_heartbeat_args \<Rightarrow> Regist_heartbeat_args reader" where
  "Regist_heartbeat_args_field p k fid ftype a =
     (if fid = 1 then
        (if ftype = T_STRUCT then rbind (HeartBeatInfo_read p k (rha_heartbeatInfo a))
           (\<lambda>v. rreturn (a\<lparr>rha_heartbeatInfo := v, rha_isset_heartbeatInfo := True\<rparr>))
         else rbind (skip p k ftype) (\<lambda>_. rreturn a))
      else rbind (skip p k ftype) (\<lambda>_. rreturn a))"

definition Regist_heartbeat_args_read :: "tproto \<Rightarrow> Regist_heartbeat_args reader" where
  "Regist_heartbeat_args_read p = tracked_read (recursion_limit p)
     (\<lambda>k. read_fields (Regist_heartbeat_args_field p k) Regist_heartbeat_args_new)"

definition Regist_heartbeat_pargs_write :: "tproto \<Rightarrow> HeartBeatInfo \<Rightarrow> writer" where
  "Regist_heartbeat_pargs_write p hb = tracked_write (recursion_limit p) (\<lambda>k.
     wseqs [writeFieldBegin T_STRUCT 1, HeartBeatInfo_write k hb, writeFieldStop])"

definition Regist_heartbeat_result_write :: "bool option \<Rightarrow> writer" where
  "Regist_heartbeat_result_write r = wseqs
     ((case r of Some v \<Rightarrow> [writeFieldBegin T_BOOL 0, writeBool v] | None \<Rightarrow> []) @ [writeFieldStop])"

definition Regist_heartbeat_presult_field ::
    "tproto \<Rightarrow> nat \<Rightarrow> int16 \<Rightarrow> TType \<Rightarrow> bool option \<Rightarrow> bool option reader" where
  "Regist_heartbeat_presult_field p k fid ftype r =
     (if fid = 0 then
        (if ftype = T_BOOL then rbind readBool (\<lambda>v. rreturn (Some v))
         else rbind (skip p k ftype) (\<lambda>_. rreturn r))
      else rbind (skip p k ftype) (\<lambda>_. rreturn r))"

definition Regist_heartbeat_presult_read :: "tproto \<Rightarrow> bool option reader" where
  "Regist_heartbeat_presult_read p = tracked_read (recursion_limit p)
     (\<lambda>k. read_fields (Regist_heartbeat_presult_field p k) None)"

subsection \<open>The client stubs\<close>

definition RegistClient_send_registClient :: "tproto \<Rightarrow> ClientInfo \<Rightarrow> writer" where
  "RegistClient_send_registClient p = rpc_send p ''registClient'' (Regist_registClient_pargs_write p)"

definition RegistClient_recv_registClient ::
    "tproto \<Rightarrow> (app_error \<times> string) reader \<Rightarrow> RegistResult reader" where
  "RegistClient_recv_registClient p xread =
     rpc_recv p xread ''registClient'' (Regist_registClient_presult_read p)"

definition RegistClient_send_heartbeat :: "tproto \<Rightarrow> HeartBeatInfo \<Rightarrow> writer" where
  "RegistClient_send_heartbeat p = rpc_send p ''heartbeat'' (Regist_heartbeat_pargs_write p)"

definition RegistClient_recv_heartbeat ::
    "tproto \<Rightarrow> (app_error \<times> string) reader \<Rightarrow> bool reader" where
  "RegistClient_recv_heartbeat p xread =
     rpc_recv p xread ''heartbeat'' (Regist_heartbeat_presult_read p)"

subsection \<open>The processor\<close>

record 's RegistIf =
  if_registClient :: "ClientInfo \<Rightarrow> 's \<Rightarrow> (string + RegistResult) \<times> 's"
  if_heartbeat :: "HeartBeatInfo \<Rightarrow> 's \<Rightarrow> (string + bool) \<times> 's"

definition RegistProcessor_process_registClient ::
    "tproto \<Rightarrow> (app_error \<Rightarrow> string \<Rightarrow> writer) \<Rightarrow> 's RegistIf \<Rightarrow> 's method_body" where
  "RegistProcessor_process_registClient p xwrite iface =
     rpc_process p xwrite ''registClient'' (Regist_registClient_args_read p)
       Regist_registClient_result_write (\<lambda>args. if_registClient iface (rca_clientInfo args))"

definition RegistProcessor_process_heartbeat ::
    "tproto \<Rightarrow> (app_error \<Rightarrow> string \<Rightarrow> writer) \<Rightarrow> 's RegistIf \<Rightarrow> 's method_body" where
  "RegistProcessor_process_heartbeat p xwrite iface =
     rpc_process p xwrite ''heartbeat'' (Regist_heartbeat_args_read p)
       Regist_heartbeat_result_write (\<lambda>args. if_heartbeat iface (rha_heartbeatInfo args))"

definition RegistProcessor_processMap ::
    "tproto \<Rightarrow> (app_error \<Rightarrow> string \<Rightarrow> writer) \<Rightarrow> 's RegistIf \<Rightarrow> string \<rightharpoonup> 's method_body" where
  "RegistProcessor_processMap p xwrite iface =
     [''registClient'' \<mapsto> RegistProcessor_process_registClient p xwrite iface,
      ''heartbeat'' \<mapsto> RegistProcessor_process_heartbeat p xwrite iface]"

definition RegistProcessor_process ::
    "tproto \<Rightarrow> (app_error \<Rightarrow> string \<Rightarrow> writer) \<Rightarrow> 's RegistIf \<Rightarrow> byte list \<Rightarrow> 's
     \<Rightarrow> (texception + byte list option) \<times> 's" where
  "RegistProcessor_process p xwrite iface =
     dispatch_process p xwrite (RegistProcessor_processMap p xwrite iface)"

section \<open>Request: ClusterWork\<close>

record Request_ClusterWork_args =
  rcw_msg :: string
  rcw_isset_msg :: bool

definition Request_ClusterWork_args_new :: Request_ClusterWork_args where
  "Request_ClusterWork_args_new = \<lparr>rcw_msg = [], rcw_isset_msg = False\<rparr>"

definition Request_ClusterWork_args_field ::
    "tproto \<Rightarrow> nat \<Rightarrow> int16 \<Rightarrow> TType \<Rightarrow> Request_ClusterWork_args \<Rightarrow> Request_ClusterWork_args reader" where
  "Request_ClusterWork_args_field p k fid ftype a =
     (if fid = 1 then
        (if ftype = T_STRING then rbind (readString p) (\<lambda>v. rreturn (a\<lparr>rcw_msg := v, rcw_isset_msg := True\<rparr>))
         else rbind (skip p k ftype) (\<lambda>_. rreturn a))
      else rbind (skip p k ftype) (\<lambda>_. rreturn a))"

definition Request_ClusterWork_args_read :: "tproto \<Rightarrow> Request_ClusterWork_args reader" where
  "Request_ClusterWork_args_read p = tracked_read (recursion_limit p)
     (\<lambda>k. read_fields (Request_ClusterWork_args_field p k) Request_ClusterWork_args_new)"

definition Request_ClusterWork_pargs_write :: "tproto \<Rightarrow> string \<Rightarrow> writer" where
  "Request_ClusterWork_pargs_write p msg = tracked_write (recursion_limit p) (\<lambda>_.
     wseqs [writeFieldBegin T_STRING 1, writeString msg, writeFieldStop])"

definition Request_ClusterWork_result_write :: "bool option \<Rightarrow> writer" where
  "Request_ClusterWork_result_write r = wseqs
     ((case r of Some v \<Rightarrow> [writeFieldBegin T_BOOL 0, writeBool v] | None \<Rightarrow> []) @ [writeFieldStop])"

definition Request_ClusterWork_presult_field ::
    "tproto \<Rightarrow> nat \<Rightarrow> int16 \<Rightarrow> TType \<Rightarrow> bool option \<Rightarrow> bool option reader" where
  "Request_ClusterWork_presult_field p k fid ftype r =
     (if fid = 0 then
        (if ftype = T_BOOL then rbind readBool (\<lambda>v. rreturn (Some v))
         else rbind (skip p k ftype) (\<lambda>_. rreturn r))
      else rbind (skip p k ftype) (\<lambda>_. rreturn r))"

definition Request_ClusterWork_presult_read :: "tproto \<Rightarrow> bool option reader" where
  "Request_ClusterWork_presult_read p = tracked_read (recursion_limit p)
     (\<lambda>k. read_fields (Request_ClusterWork_presult_field p k) None)"

definition RequestClient_send_ClusterWork :: "tproto \<Rightarrow> string \<Rightarrow> writer" where
  "RequestClient_send_ClusterWork p = rpc_send p ''ClusterWork'' (Request_ClusterWork_pargs_write p)"

definition RequestClient_recv_ClusterWork ::
    "tproto \<Rightarrow> (app_error \<times> string) reader \<Rightarrow> bool reader" where
  "RequestClient_recv_ClusterWork p xread =
     rpc_recv p xread ''ClusterWork'' (Request_ClusterWork_presult_read p)"

definition RequestProcessor_process_ClusterWork ::
    "tproto \<Rightarrow> (app_error \<Rightarrow> string \<Rightarrow> writer) \<Rightarrow> (string \<Rightarrow> 's \<Rightarrow> (string + bool) \<times> 's) \<Rightarrow> 's method_body" where
  "RequestProcessor_process_ClusterWork p xwrite iface =
     rpc_process p xwrite ''ClusterWork'' (Request_ClusterWork_args_read p)
       Request_ClusterWork_result_write (\<lambda>args. iface (rcw_msg args))"

definition RequestProcessor_process ::
    "tproto \<Rightarrow> (app_error \<Rightarrow> string \<Rightarrow> writer) \<Rightarrow> (string \<Rightarrow> 's \<Rightarrow> (string + bool) \<times> 's) \<Rightarrow> byte list \<Rightarrow> 's
     \<Rightarrow> (texception + byte list option) \<times> 's" where
  "RequestProcessor_process p xwrite iface = dispatch_process p xwrite
     [''ClusterWork'' \<mapsto> RequestProcessor_process_ClusterWork p xwrite iface]"

section \<open>Codec laws of the method structs\<close>

lemma rl [simp]: "recursion_limit TBinaryProtocol = Suc 63"
  by (simp add: TBinaryProtocol_def)

lemma method_switches_exact [reader_ok]:
  "reader_exact (Regist_registClient_args_field p k fid ty a)"
  "reader_exact (Regist_registClient_presult_field p k fid ty r)"
  "reader_exact (Regist_heartbeat_args_field p k fid ty b)"
  "reader_exact (Regist_heartbeat_presult_field p k fid ty h)"
  "reader_exact (Request_ClusterWork_args_field p k fid ty c)"
  "reader_exact (Request_ClusterWork_presult_field p k fid ty h)"
  unfolding Regist_registClient_args_field_def Regist_registClient_presult_field_def
    Regist_heartbeat_args_field_def Regist_heartbeat_presult_field_def
    Request_ClusterWork_args_field_def Request_ClusterWork_presult_field_def
  by (intro reader_ok)+

lemma method_switches_total [reader_fin]:
  "reader_total (Regist_registClient_args_field p k fid ty a)"
  "reader_total (Regist_registClient_presult_field p k fid ty r)"
  "reader_total (Regist_heartbeat_args_field p k fid ty b)"
  "reader_total (Regist_heartbeat_presult_field p k fid ty h)"
  "reader_total (Request_ClusterWork_args_field p k fid ty c)"
  "reader_total (Request_ClusterWork_presult_field p k fid ty h)"
  unfolding Regist_registClient_args_field_def Regist_registClient_presult_field_def
    Regist_heartbeat_args_field_def Regist_heartbeat_presult_field_def
    Request_ClusterWork_args_field_def Request_ClusterWork_presult_field_def
  by (intro reader_fin)+

lemma method_switches [simp]:
  "switch_exact (Regist_registClient_args_field p k)" "switch_exact (Regist_registClient_presult_field p k)"
  "switch_exact (Regist_heartbeat_args_field p k)" "switch_exact (Regist_heartbeat_presult_field p k)"
  "switch_exact (Request_ClusterWork_args_field p k)" "switch_exact (Request_ClusterWork_presult_field p k)"
  by (auto simp: switch_exact_def intro: reader_ok)

lemma method_readers_exact [reader_ok]:
  "reader_exact (Regist_registClient_args_read p)" "reader_exact (Regist_registClient_presult_read p)"
  "reader_exact (Regist_heartbeat_args_read p)" "reader_exact (Regist_heartbeat_presult_read p)"
  "reader_exact (Request_ClusterWork_args_read p)" "reader_exact (Request_ClusterWork_presult_read p)"
  unfolding Regist_registClient_args_read_def Regist_registClient_presult_read_def
    Regist_heartbeat_args_read_def Regist_heartbeat_presult_read_def
    Request_ClusterWork_args_read_def Request_ClusterWork_presult_read_def
  by (intro reader_ok)+

lemma method_readers_total [reader_fin]:
  "reader_total (Regist_registClient_args_read p)" "reader_total (Regist_registClient_presult_read p)"
  "reader_total (Regist_heartbeat_args_read p)" "reader_total (Regist_heartbeat_presult_read p)"
  "reader_total (Request_ClusterWork_args_read p)" "reader_total (Request_ClusterWork_presult_read p)"
  unfolding Regist_registClient_args_read_def Regist_registClient_presult_read_def
    Regist_heartbeat_args_read_def Regist_heartbeat_presult_read_def
    Request_ClusterWork_args_read_def Request_ClusterWork_presult_read_def
  by (intro reader_fin reader_ok)+

lemma method_writers_exact [writer_ok]:
  "writer_exact (Regist_registClient_pargs_write p ci)" "writer_exact (Regist_registClient_result_write r)"
  "writer_exact (Regist_heartbeat_pargs_write p hb)" "writer_exact (Regist_heartbeat_result_write b)"
  "writer_exact (Request_ClusterWork_pargs_write p msg)" "writer_exact (Request_ClusterWork_result_write b)"
  unfolding Regist_registClient_pargs_write_def Regist_registClient_result_write_def
    Regist_heartbeat_pargs_write_def Regist_heartbeat_result_write_def
    Request_ClusterWork_pargs_write_def Request_ClusterWork_result_write_def
  by (auto intro!: writer_ok split: option.splits)

text \<open>
  A struct with one field: header, payload, stop byte. If the switch reads the payload
  back, the struct reader reads the struct back.
\<close>

lemma single_field_roundtrip:
  assumes sx: "switch_exact sw" and ty: "ty \<noteq> T_STOP"
    and w: "wseqs [writeFieldBegin ty fid, pay, writeFieldStop] = Inr (n, bs)"
    and sw: "\<And>m cs t. pay = Inr (m, cs) \<Longrightarrow> sw fid ty obj (cs @ t) = Inr (obj', m, t)"
  shows "\<exists>m. read_fields sw obj (bs @ s) = Inr (obj', m, s)"
proof -
  from w obtain m cs where pay: "pay = Inr (m, cs)" and bs: "bs = ty # toWire16 fid @ cs @ [T_STOP]"
    by (auto simp: wseq_def writeFieldBegin_def writeByte_def writeI16_def wreturn_def writeFieldStop_def
        split: sum.splits)
  have "\<exists>k. read_fields sw obj (ty # toWire16 fid @ cs @ T_STOP # s) = Inr (obj', k, s)"
    by (rule read_fields_stepI [OF sx ty sw [OF pay]]) (simp add: read_fields_stop)
  with bs show ?thesis by simp
qed

lemma empty_struct_roundtrip:
  "wseqs [writeFieldStop] = Inr (n, bs) \<Longrightarrow> \<exists>m. read_fields sw obj (bs @ s) = Inr (obj, m, s)"
  by (auto simp: wseq_def writeFieldStop_def writeByte_def wreturn_def read_fields_stop)

definition registClient_received :: "ClientInfo \<Rightarrow> Regist_registClient_args" where
  "registClient_received ci = \<lparr>rca_clientInfo = ClientInfo_received ci, rca_isset_clientInfo = True\<rparr>"

definition heartbeat_received :: "HeartBeatInfo \<Rightarrow> Regist_heartbeat_args" where
  "heartbeat_received hb = \<lparr>rha_heartbeatInfo = HeartBeatInfo_received hb, rha_isset_heartbeatInfo = True\<rparr>"

definition ClusterWork_received :: "string \<Rightarrow> Request_ClusterWork_args" where
  "ClusterWork_received m = \<lparr>rcw_msg = m, rcw_isset_msg = True\<rparr>"

lemma registClient_args_read_written:
  assumes "Regist_registClient_pargs_write TBinaryProtocol ci = Inr (n, bs)"
  shows "\<exists>m. Regist_registClient_args_read TBinaryProtocol (bs @ s) = Inr (registClient_received ci, m, s)"
proof -
  from assms have w: "wseqs [writeFieldBegin T_STRUCT 1, ClientInfo_write (Suc 62) ci, writeFieldStop] = Inr (n, bs)"
    by (simp add: Regist_registClient_pargs_write_def tracked_write_def del: wseqs.simps)
  have "\<exists>m. read_fields (Regist_registClient_args_field TBinaryProtocol (Suc 62)) Regist_registClient_args_new (bs @ s)
      = Inr (registClient_received ci, m, s)"
    by (rule single_field_roundtrip [OF _ _ w])
      (auto simp: Regist_registClient_args_field_def Regist_registClient_args_new_def rbind_step
        client_info.read_written [where j = 62 and k = 62, simplified] rreturn_def registClient_received_def)
  then show ?thesis by (simp add: Regist_registClient_args_read_def tracked_read_def)
qed

lemma heartbeat_args_read_written:
  assumes "Regist_heartbeat_pargs_write TBinaryProtocol hb = Inr (n, bs)"
  shows "\<exists>m. Regist_heartbeat_args_read TBinaryProtocol (bs @ s) = Inr (heartbeat_received hb, m, s)"
proof -
  from assms have w: "wseqs [writeFieldBegin T_STRUCT 1, HeartBeatInfo_write (Suc 62) hb, writeFieldStop] = Inr (n, bs)"
    by (simp add: Regist_heartbeat_pargs_write_def tracked_write_def del: wseqs.simps)
  have "\<exists>m. read_fields (Regist_heartbeat_args_field TBinaryProtocol (Suc 62)) Regist_heartbeat_args_new (bs @ s)
      = Inr (heartbeat_received hb, m, s)"
    by (rule single_field_roundtrip [OF _ _ w])
      (auto simp: Regist_heartbeat_args_field_def Regist_heartbeat_args_new_def rbind_step
        heart_beat_info.read_written [where j = 62 and k = 62, simplified] rreturn_def heartbeat_received_def)
  then show ?thesis by (simp add: Regist_heartbeat_args_read_def tracked_read_def)
qed

lemma ClusterWork_args_read_written:
  assumes "Request_ClusterWork_pargs_write TBinaryProtocol msg = Inr (n, bs)"
  shows "\<exists>m. Request_ClusterWork_args_read TBinaryProtocol (bs @ s) = Inr (ClusterWork_received msg, m, s)"
proof -
  from assms have w: "wseqs [writeFieldBegin T_STRING 1, writeString msg, writeFieldStop] = Inr (n, bs)"
    by (simp add: Request_ClusterWork_pargs_write_def tracked_write_def del: wseqs.simps)
  have "\<exists>m. read_fields (Request_ClusterWork_args_field TBinaryProtocol 63) Request_ClusterWork_args_new (bs @ s)
      = Inr (ClusterWork_received msg, m, s)"
    by (rule single_field_roundtrip [OF _ _ w])
      (auto simp: Request_ClusterWork_args_field_def Request_ClusterWork_args_new_def rbind_step
        str.read_written rreturn_def ClusterWork_received_def)
  then show ?thesis by (simp add: Request_ClusterWork_args_read_def tracked_read_def)
qed

lemma registClient_result_read_written:
  assumes "Regist_registClient_result_write r = Inr (n, bs)"
  shows "\<exists>m. Regist_registClient_presult_read TBinaryProtocol (bs @ s) = Inr (r, m, s)"
proof (cases r)
  case None
  with assms show ?thesis
    by (simp add: Regist_registClient_result_write_def Regist_registClient_presult_read_def tracked_read_def
        empty_struct_roundtrip del: wseqs.simps)
next
  case (Some v)
  with assms have w: "wseqs [writeFieldBegin T_I32 0, writeI32 v, writeFieldStop] = Inr (n, bs)"
    by (simp add: Regist_registClient_result_write_def del: wseqs.simps)
  have "\<exists>m. read_fields (Regist_registClient_presult_field TBinaryProtocol 63) None (bs @ s) = Inr (Some v, m, s)"
    by (rule single_field_roundtrip [OF _ _ w])
      (auto simp: Regist_registClient_presult_field_def rbind_step
        i32.read_written rreturn_def)
  with Some show ?thesis by (simp add: Regist_registClient_presult_read_def tracked_read_def)
qed

lemma heartbeat_result_read_written:
  assumes "Regist_heartbeat_result_write r = Inr (n, bs)"
  shows "\<exists>m. Regist_heartbeat_presult_read TBinaryProtocol (bs @ s) = Inr (r, m, s)"
proof (cases r)
  case None
  with assms show ?thesis
    by (simp add: Regist_heartbeat_result_write_def Regist_heartbeat_presult_read_def tracked_read_def
        empty_struct_roundtrip del: wseqs.simps)
next
  case (Some v)
  with assms have w: "wseqs [writeFieldBegin T_BOOL 0, writeBool v, writeFieldStop] = Inr (n, bs)"
    by (simp add: Regist_heartbeat_result_write_def del: wseqs.simps)
  have "\<exists>m. read_fields (Regist_heartbeat_presult_field TBinaryProtocol 63) None (bs @ s) = Inr (Some v, m, s)"
    by (rule single_field_roundtrip [OF _ _ w])
      (auto simp: Regist_heartbeat_presult_field_def rbind_step
        bool.read_written rreturn_def)
  with Some show ?thesis by (simp add: Regist_heartbeat_presult_read_def tracked_read_def)
qed

lemma ClusterWork_result_as_heartbeat:
  "Request_ClusterWork_result_write = Regist_heartbeat_result_write"
  "Request_ClusterWork_presult_read = Regist_heartbeat_presult_read"
  by (simp_all add: fun_eq_iff Request_ClusterWork_result_write_def Regist_heartbeat_result_write_def
      Request_ClusterWork_presult_read_def Regist_heartbeat_presult_read_def
      Request_ClusterWork_presult_field_def [abs_def] Regist_heartbeat_presult_field_def [abs_def])

section \<open>The three remote methods\<close>

lemma result_writable:
  "\<exists>m cs. Regist_registClient_result_write (Some r) = Inr (m, cs)"
  "\<exists>m cs. Regist_heartbeat_result_write (Some b) = Inr (m, cs)"
  by (auto simp: Regist_registClient_result_write_def Regist_heartbeat_result_write_def wseq_def
      writeFieldBegin_def writeByte_def writeI16_def writeI32_def writeBool_def writeFieldStop_def wreturn_def)

interpretation registClient_rpc: rpc_method "Regist_registClient_pargs_write TBinaryProtocol"
  "Regist_registClient_args_read TBinaryProtocol" registClient_received
  Regist_registClient_result_write "Regist_registClient_presult_read TBinaryProtocol" "''registClient''"
  by unfold_locales
    (auto intro: reader_ok writer_ok
      exact_read_written [OF method_readers_exact(1) method_writers_exact(1) _ registClient_args_read_written]
      exact_read_written [OF method_readers_exact(2) method_writers_exact(2) _ registClient_result_read_written])

interpretation heartbeat_rpc: rpc_method "Regist_heartbeat_pargs_write TBinaryProtocol"
  "Regist_heartbeat_args_read TBinaryProtocol" heartbeat_received
  Regist_heartbeat_result_write "Regist_heartbeat_presult_read TBinaryProtocol" "''heartbeat''"
  by unfold_locales
    (auto intro: reader_ok writer_ok
      exact_read_written [OF method_readers_exact(3) method_writers_exact(3) _ heartbeat_args_read_written]
      exact_read_written [OF method_readers_exact(4) method_writers_exact(4) _ heartbeat_result_read_written])

interpretation cluster_work_rpc: rpc_method "Request_ClusterWork_pargs_write TBinaryProtocol"
  "Request_ClusterWork_args_read TBinaryProtocol" ClusterWork_received
  Request_ClusterWork_result_write "Request_ClusterWork_presult_read TBinaryProtocol" "''ClusterWork''"
  unfolding ClusterWork_result_as_heartbeat
  by unfold_locales
    (auto intro: reader_ok writer_ok
      exact_read_written [OF method_readers_exact(5) method_writers_exact(5) _ ClusterWork_args_read_written]
      exact_read_written [OF method_readers_exact(4) method_writers_exact(4) _ heartbeat_result_read_written])

lemmas registClient_stub_defs = RegistClient_send_registClient_def RegistClient_recv_registClient_def
  RegistProcessor_process_def RegistProcessor_processMap_def RegistProcessor_process_registClient_def
lemmas heartbeat_stub_defs = RegistClient_send_heartbeat_def RegistClient_recv_heartbeat_def
  RegistProcessor_process_def RegistProcessor_processMap_def RegistProcessor_process_heartbeat_def
lemmas ClusterWork_stub_defs = RequestClient_send_ClusterWork_def RequestClient_recv_ClusterWork_def
  RequestProcessor_process_def RequestProcessor_process_ClusterWork_def

lemma registClient_call_roundtrip:
  assumes "RegistClient_send_registClient TBinaryProtocol ci = Inr (n, bs)"
    and "if_registClient iface (ClientInfo_received ci) st = (Inr r, st')"
  shows "\<exists>out k. RegistProcessor_process TBinaryProtocol xwrite iface bs st = (Inr (Some out), st') \<and>
    RegistClient_recv_registClient TBinaryProtocol xread out = Inr (r, k, [])"
proof -
  obtain m cs where w: "Regist_registClient_result_write (Some r) = Inr (m, cs)"
    using result_writable(1) by blast
  show ?thesis
    using registClient_rpc.call_roundtrip [where xwrite = xwrite and xread = xread and st = st
        and handler = "\<lambda>args. if_registClient iface (rca_clientInfo args)"
        and processMap = "RegistProcessor_processMap TBinaryProtocol xwrite iface", OF _ _ _ w] assms
    by (simp add: registClient_stub_defs registClient_received_def)
qed

lemma heartbeat_call_roundtrip:
  assumes "RegistClient_send_heartbeat TBinaryProtocol hb = Inr (n, bs)"
    and "if_heartbeat iface (HeartBeatInfo_received hb) st = (Inr r, st')"
  shows "\<exists>out k. RegistProcessor_process TBinaryProtocol xwrite iface bs st = (Inr (Some out), st') \<and>
    RegistClient_recv_heartbeat TBinaryProtocol xread out = Inr (r, k, [])"
proof -
  obtain m cs where w: "Regist_heartbeat_result_write (Some r) = Inr (m, cs)"
    using result_writable(2) by blast
  show ?thesis
    using heartbeat_rpc.call_roundtrip [where xwrite = xwrite and xread = xread and st = st
        and handler = "\<lambda>args. if_heartbeat iface (rha_heartbeatInfo args)"
        and processMap = "RegistProcessor_processMap TBinaryProtocol xwrite iface", OF _ _ _ w] assms
    by (simp add: heartbeat_stub_defs heartbeat_received_def)
qed

lemma ClusterWork_call_roundtrip:
  assumes "RequestClient_send_ClusterWork TBinaryProtocol msg = Inr (n, bs)"
    and "iface msg st = (Inr r, st')"
  shows "\<exists>out k. RequestProcessor_process TBinaryProtocol xwrite iface bs st = (Inr (Some out), st') \<and>
    RequestClient_recv_ClusterWork TBinaryProtocol xread out = Inr (r, k, [])"
proof -
  obtain m cs where w: "Request_ClusterWork_result_write (Some r) = Inr (m, cs)"
    using result_writable(2) unfolding ClusterWork_result_as_heartbeat by blast
  show ?thesis
    using cluster_work_rpc.call_roundtrip [where xwrite = xwrite and xread = xread and st = st
        and handler = "\<lambda>args. iface (rcw_msg args)"
        and processMap = "[''ClusterWork'' \<mapsto> RequestProcessor_process_ClusterWork TBinaryProtocol xwrite iface]",
        OF _ _ _ w] assms
    by (simp add: ClusterWork_stub_defs ClusterWork_received_def)
qed

end
