(* ===== verification/Rapid_Json.thy ===== *)
theory Rapid_Json
  imports Dc_Prelude
begin

text \<open>
  The parts of rapidjson the server relies on: the DOM lookups of \<^verbatim>\<open>document.h\<close>
  that \<^verbatim>\<open>CollectWorkProc\<close> applies to a parsed body, and the \<^verbatim>\<open>Writer\<close> of
  \<^verbatim>\<open>writer.h\<close> that \<^verbatim>\<open>SendReply\<close> drives. \<^verbatim>\<open>RAPIDJSON_ASSERT\<close> is
  \<^verbatim>\<open>assert\<close>, and no makefile defines \<^verbatim>\<open>NDEBUG\<close>, so a failed assertion ends the
  process: it is \<open>None\<close> here.
\<close>

section \<open>Values and lookups\<close>

text \<open>
  Numbers keep the type the reader chose for them; the type of doubles is a parameter.
\<close>

datatype 'd number = NInt int32 | NUint uint32 | NInt64 int64 | NUint64 "64 word" | NDouble 'd

datatype 'd json =
    JNull
  | JBool bool
  | JNumber "'d number"
  | JString string
  | JArray "'d json list"
  | JObject "(string \<times> 'd json) list"

definition FindMember :: "string \<Rightarrow> 'd json \<Rightarrow> 'd json option option" where
  "FindMember name v = (case v of JObject ms \<Rightarrow> Some (map_of ms name) | _ \<Rightarrow> None)"

text \<open>\<^verbatim>\<open>operator[]\<close>: the first member of that name; asserts an object and a match.\<close>

definition json_index :: "'d json \<Rightarrow> string \<Rightarrow> 'd json option" where
  "json_index v name = (case FindMember name v of Some (Some m) \<Rightarrow> Some m | _ \<Rightarrow> None)"

text \<open>
  \<^verbatim>\<open>GetString\<close> asserts a string and returns a character pointer, never \<^verbatim>\<open>NULL\<close>;
  the inner option is that pointer.
\<close>

definition GetString :: "'d json \<Rightarrow> string option option" where
  "GetString v = (case v of JString s \<Rightarrow> Some (Some (c_str s)) | _ \<Rightarrow> None)"

section \<open>The writer\<close>

record level =
  valueCount :: nat
  inArray :: bool

record jwriter =
  os :: string
  level_stack :: "level list"
  hasRoot :: bool

definition Writer_new :: jwriter where
  "Writer_new = \<lparr>os = [], level_stack = [], hasRoot = False\<rparr>"

definition hexDigits :: string where
  "hexDigits = ''0123456789ABCDEF''"

text \<open>The table \<^verbatim>\<open>escape\<close>: \<open>None\<close> is the entry 0.\<close>

definition escape :: "char \<Rightarrow> char option" where
  "escape c = (if c = CHR 0x08 then Some (CHR ''b'')
     else if c = CHR 0x09 then Some (CHR ''t'')
     else if c = CHR 0x0A then Some (CHR ''n'')
     else if c = CHR 0x0C then Some (CHR ''f'')
     else if c = CHR 0x0D then Some (CHR ''r'')
     else if of_char c < (32 :: nat) then Some (CHR ''u'')
     else if c = CHR 0x22 then Some (CHR 0x22)
     else if c = CHR 0x5C then Some (CHR 0x5C)
     else None)"

definition write_char :: "char \<Rightarrow> string" where
  "write_char c = (case escape c of
     None \<Rightarrow> [c]
   | Some e \<Rightarrow> CHR 0x5C # e # (if e = CHR ''u''
       then [CHR ''0'', CHR ''0'', hexDigits ! (of_char c div 16), hexDigits ! (of_char c mod 16)] else []))"

definition WriteString :: "string \<Rightarrow> string" where
  "WriteString str = CHR 0x22 # concat (map write_char str) @ [CHR 0x22]"

text \<open>\<^verbatim>\<open>Prefix\<close>; \<open>is_str\<close> says that the type is \<^verbatim>\<open>kStringType\<close>.\<close>

definition Prefix :: "bool \<Rightarrow> jwriter \<Rightarrow> jwriter option" where
  "Prefix is_str w = (case level_stack w of
     l # ls \<Rightarrow>
       let out = (if valueCount l > 0
            then os w @ (if inArray l then '','' else if even (valueCount l) then '','' else '':'')
            else os w)
       in if \<not> inArray l \<and> even (valueCount l) \<and> \<not> is_str then None
          else Some (w\<lparr>os := out, level_stack := l\<lparr>valueCount := Suc (valueCount l)\<rparr> # ls\<rparr>)
   | [] \<Rightarrow> if hasRoot w then None else Some (w\<lparr>hasRoot := True\<rparr>))"

definition jw_String :: "string \<Rightarrow> jwriter \<Rightarrow> jwriter option" where
  "jw_String str w = (case Prefix True w of None \<Rightarrow> None
     | Some w' \<Rightarrow> Some (w'\<lparr>os := os w' @ WriteString (c_str str)\<rparr>))"

definition jw_Key :: "string \<Rightarrow> jwriter \<Rightarrow> jwriter option" where
  "jw_Key str w = jw_String str w"

definition jw_StartObject :: "jwriter \<Rightarrow> jwriter option" where
  "jw_StartObject w = (case Prefix False w of None \<Rightarrow> None
     | Some w' \<Rightarrow> Some (w'\<lparr>os := os w' @ ''{'',
          level_stack := \<lparr>valueCount = 0, inArray = False\<rparr> # level_stack w'\<rparr>))"

definition jw_EndObject :: "jwriter \<Rightarrow> jwriter option" where
  "jw_EndObject w = (case level_stack w of [] \<Rightarrow> None
     | l # ls \<Rightarrow> if inArray l \<or> odd (valueCount l) then None
         else Some (w\<lparr>os := os w @ ''}'', level_stack := ls\<rparr>))"

lemmas jw_defs = Writer_new_def Prefix_def jw_String_def jw_Key_def jw_StartObject_def jw_EndObject_def

end
