(* ===== verification/Json_Reader.thy ===== *)
theory Json_Reader
  imports Rapid_Json "HOL-Library.Sublist"
begin

unbundle bit_operations_syntax

text \<open>
  The rapidjson reader (\<^verbatim>\<open>reader.h\<close>) with the flags \<^verbatim>\<open>Document::Parse\<close> uses
  (\<^verbatim>\<open>kParseNoFlags\<close>) on a null-terminated UTF-8 text. It sends events to a handler, which
  never ends the parsing. The stream is the rest of the text, and \<^verbatim>\<open>Peek\<close> past its end is the null
  character. A parse error carries the rest of the text at its position; a failed
  \<^verbatim>\<open>RAPIDJSON_ASSERT\<close> ends the process and is a failure of its own.

  Doubles are a parameter: \<open>fpu\<close> holds the operations of the type \<^verbatim>\<open>double\<close> the code
  uses, \<open>fp_dec m e\<close> being the literal with value \<open>m * 10 ^ e\<close>. The nesting of the
  recursive descent is bounded by fuel; \<open>Fuel_Exhausted\<close> is no outcome of the code.
\<close>

section \<open>Streams, errors, events\<close>

datatype ParseErrorCode =
    kParseErrorNone | kParseErrorDocumentEmpty | kParseErrorDocumentRootNotSingular | kParseErrorValueInvalid
  | kParseErrorObjectMissName | kParseErrorObjectMissColon | kParseErrorObjectMissCommaOrCurlyBracket
  | kParseErrorArrayMissCommaOrSquareBracket | kParseErrorStringUnicodeEscapeInvalidHex
  | kParseErrorStringUnicodeSurrogateInvalid | kParseErrorStringEscapeInvalid
  | kParseErrorStringMissQuotationMark | kParseErrorStringInvalidEncoding | kParseErrorNumberTooBig
  | kParseErrorNumberMissFraction | kParseErrorNumberMissExponent | kParseErrorTermination
  | kParseErrorUnspecificSyntaxError

datatype jfail = Parse_Error ParseErrorCode string | Assertion_Failed | Fuel_Exhausted

datatype 'd event =
    Ev_Null | Ev_Bool bool | Ev_Number "'d number" | Ev_String string | Ev_StartObject | Ev_Key string
  | Ev_EndObject nat | Ev_StartArray | Ev_EndArray nat

record 'd fpu =
  fp_of_uint64 :: "64 word \<Rightarrow> 'd"
  fp_dec :: "int \<Rightarrow> int \<Rightarrow> 'd"
  fp_add :: "'d \<Rightarrow> 'd \<Rightarrow> 'd"
  fp_mul :: "'d \<Rightarrow> 'd \<Rightarrow> 'd"
  fp_div :: "'d \<Rightarrow> 'd \<Rightarrow> 'd"
  fp_neg :: "'d \<Rightarrow> 'd"
  fp_ge :: "'d \<Rightarrow> 'd \<Rightarrow> bool"
  fp_gt :: "'d \<Rightarrow> 'd \<Rightarrow> bool"

definition Peek :: "string \<Rightarrow> char" where
  "Peek s = (case s of [] \<Rightarrow> CHR 0x00 | c # _ \<Rightarrow> c)"

lemma Peek_simps [simp]: "Peek [] = CHR 0x00" "Peek (c # s) = c"
  by (simp_all add: Peek_def)

fun SkipWhitespace :: "string \<Rightarrow> string" where
  "SkipWhitespace [] = []"
| "SkipWhitespace (c # s) =
     (if c = CHR '' '' \<or> c = CHR 0x0A \<or> c = CHR 0x0D \<or> c = CHR 0x09 then SkipWhitespace s else c # s)"

definition Consume :: "char \<Rightarrow> string \<Rightarrow> bool \<times> string" where
  "Consume expect s = (if Peek s = expect then (True, tl s) else (False, s))"

text \<open>The successive \<^verbatim>\<open>Consume\<close> calls of the literals: the rest where the first one fails.\<close>

fun consume_all :: "string \<Rightarrow> string \<Rightarrow> bool \<times> string" where
  "consume_all [] s = (True, s)"
| "consume_all (e # es) s = (case Consume e s of (True, s') \<Rightarrow> consume_all es s' | (False, s') \<Rightarrow> (False, s'))"

definition ParseNull :: "string \<Rightarrow> jfail + 'd event list \<times> string" where
  "ParseNull s = (case consume_all ''ull'' (tl s) of
     (True, s') \<Rightarrow> Inr ([Ev_Null], s') | (False, s') \<Rightarrow> Inl (Parse_Error kParseErrorValueInvalid s'))"

definition ParseTrue :: "string \<Rightarrow> jfail + 'd event list \<times> string" where
  "ParseTrue s = (case consume_all ''rue'' (tl s) of
     (True, s') \<Rightarrow> Inr ([Ev_Bool True], s') | (False, s') \<Rightarrow> Inl (Parse_Error kParseErrorValueInvalid s'))"

definition ParseFalse :: "string \<Rightarrow> jfail + 'd event list \<times> string" where
  "ParseFalse s = (case consume_all ''alse'' (tl s) of
     (True, s') \<Rightarrow> Inr ([Ev_Bool False], s') | (False, s') \<Rightarrow> Inl (Parse_Error kParseErrorValueInvalid s'))"

section \<open>Strings\<close>

definition hex_digit :: "char \<Rightarrow> nat option" where
  "hex_digit c = (let n = of_char c :: nat in
     if 48 \<le> n \<and> n \<le> 57 then Some (n - 48)
     else if 65 \<le> n \<and> n \<le> 70 then Some (n - 55)
     else if 97 \<le> n \<and> n \<le> 102 then Some (n - 87) else None)"

fun ParseHex4_loop :: "nat \<Rightarrow> nat \<Rightarrow> string \<Rightarrow> string \<Rightarrow> jfail + nat \<times> string" where
  "ParseHex4_loop 0 codepoint escapeOffset s = Inr (codepoint, s)"
| "ParseHex4_loop (Suc i) codepoint escapeOffset s = (case hex_digit (Peek s) of
     None \<Rightarrow> Inl (Parse_Error kParseErrorStringUnicodeEscapeInvalidHex escapeOffset)
   | Some h \<Rightarrow> ParseHex4_loop i (16 * codepoint + h) escapeOffset (tl s))"

definition ParseHex4 :: "string \<Rightarrow> string \<Rightarrow> jfail + nat \<times> string" where
  "ParseHex4 escapeOffset s = ParseHex4_loop 4 0 escapeOffset s"

text \<open>\<^verbatim>\<open>UTF8::Encode\<close>; \<open>None\<close> is its failed assertion.\<close>

definition UTF8_Encode :: "nat \<Rightarrow> string option" where
  "UTF8_Encode codepoint =
     (if codepoint \<le> 0x7F then Some [char_of (codepoint AND 0xFF)]
      else if codepoint \<le> 0x7FF then Some [char_of (0xC0 OR (drop_bit 6 codepoint AND 0xFF)), char_of (0x80 OR (codepoint AND 0x3F))]
      else if codepoint \<le> 0xFFFF then Some [char_of (0xE0 OR (drop_bit 12 codepoint AND 0xFF)),
        char_of (0x80 OR (drop_bit 6 codepoint AND 0x3F)), char_of (0x80 OR (codepoint AND 0x3F))]
      else if codepoint \<le> 0x10FFFF then Some [char_of (0xF0 OR (drop_bit 18 codepoint AND 0xFF)),
        char_of (0x80 OR (drop_bit 12 codepoint AND 0x3F)), char_of (0x80 OR (drop_bit 6 codepoint AND 0x3F)),
        char_of (0x80 OR (codepoint AND 0x3F))]
      else None)"

text \<open>The table \<^verbatim>\<open>escape\<close> of \<^verbatim>\<open>ParseStringToStream\<close>.\<close>

definition escape_read :: "char \<Rightarrow> char option" where
  "escape_read e = (if e = CHR 0x22 \<or> e = CHR ''/'' \<or> e = CHR 0x5C then Some e
     else if e = CHR ''b'' then Some (CHR 0x08)
     else if e = CHR ''f'' then Some (CHR 0x0C)
     else if e = CHR ''n'' then Some (CHR 0x0A)
     else if e = CHR ''r'' then Some (CHR 0x0D)
     else if e = CHR ''t'' then Some (CHR 0x09)
     else None)"

definition encode_to :: "nat \<Rightarrow> string \<Rightarrow> jfail + string \<times> string" where
  "encode_to codepoint s = (case UTF8_Encode codepoint of None \<Rightarrow> Inl Assertion_Failed | Some bs \<Rightarrow> Inr (bs, s))"

text \<open>
  The escape branch of the loop, with the stream at the backslash: the characters put out
  and the rest.
\<close>

definition parse_unicode :: "string \<Rightarrow> string \<Rightarrow> jfail + string \<times> string" where
  "parse_unicode escapeOffset s = (case ParseHex4 escapeOffset s of
     Inl e \<Rightarrow> Inl e
   | Inr (codepoint, s1) \<Rightarrow>
       if codepoint \<ge> 0xD800 \<and> codepoint \<le> 0xDBFF then
         (case consume_all [CHR 0x5C, CHR ''u''] s1 of
            (False, _) \<Rightarrow> Inl (Parse_Error kParseErrorStringUnicodeSurrogateInvalid escapeOffset)
          | (True, s2) \<Rightarrow> (case ParseHex4 escapeOffset s2 of
              Inl e \<Rightarrow> Inl e
            | Inr (codepoint2, s3) \<Rightarrow>
                if codepoint2 < 0xDC00 \<or> codepoint2 > 0xDFFF
                then Inl (Parse_Error kParseErrorStringUnicodeSurrogateInvalid escapeOffset)
                else encode_to ((push_bit 10 (codepoint - 0xD800) OR (codepoint2 - 0xDC00)) + 0x10000) s3))
       else encode_to codepoint s1)"

definition parse_escape :: "string \<Rightarrow> jfail + string \<times> string" where
  "parse_escape escapeOffset = (let s1 = tl escapeOffset; e = Peek s1 in
     case escape_read e of
       Some c \<Rightarrow> Inr ([c], tl s1)
     | None \<Rightarrow> if e = CHR ''u'' then parse_unicode escapeOffset (tl s1)
         else Inl (Parse_Error kParseErrorStringEscapeInvalid escapeOffset))"

lemma consume_all_length: "consume_all es s = (b, s') \<Longrightarrow> length s' \<le> length s"
  by (induction es arbitrary: s) (fastforce simp: Consume_def split: if_splits prod.splits bool.splits)+

lemma ParseHex4_loop_length: "ParseHex4_loop i cp off s = Inr (cp', s') \<Longrightarrow> length s' \<le> length s"
  by (induction i arbitrary: cp s) (fastforce split: option.splits)+

lemma parse_unicode_length: "parse_unicode off s = Inr (bs, s') \<Longrightarrow> length s' \<le> length s"
  by (auto simp: parse_unicode_def ParseHex4_def encode_to_def split: sum.splits if_splits option.splits prod.splits bool.splits
      dest!: consume_all_length ParseHex4_loop_length simp del: consume_all.simps)

lemma parse_escape_shorter: "parse_escape s = Inr (bs, s') \<Longrightarrow> s \<noteq> [] \<Longrightarrow> length s' < length s"
  by (cases s) (auto simp: parse_escape_def Let_def split: option.splits if_splits dest!: parse_unicode_length)

function ParseStringToStream :: "string \<Rightarrow> string \<Rightarrow> jfail + string \<times> string" where
  "ParseStringToStream out s =
     (if Peek s = CHR 0x5C then (case parse_escape s of
          Inl e \<Rightarrow> Inl e | Inr (bs, s') \<Rightarrow> ParseStringToStream (out @ bs) s')
      else if Peek s = CHR 0x22 then Inr (out, tl s)
      else if of_char (Peek s) < (0x20 :: nat) then
        (if Peek s = CHR 0x00 then Inl (Parse_Error kParseErrorStringMissQuotationMark s)
         else Inl (Parse_Error kParseErrorStringInvalidEncoding s))
      else ParseStringToStream (out @ [Peek s]) (tl s))"
  by pat_completeness auto
termination
proof (relation "measure (\<lambda>(out, s). length s)")
  fix out s x a b assume "Peek s = CHR 0x5C" "parse_escape s = Inr x" "(a, b) = x"
  then show "((out @ a, b), out, s) \<in> measure (\<lambda>(out, s). length s)"
    using parse_escape_shorter [of s a b] by (cases s) auto
next
  fix out s assume "\<not> of_char (Peek s) < (0x20 :: nat)"
  then show "((out @ [Peek s], tl s), out, s) \<in> measure (\<lambda>(out, s). length s)"
    by (cases s) auto
qed simp

declare ParseStringToStream.simps [simp del]

definition ParseString :: "string \<Rightarrow> jfail + string \<times> string" where
  "ParseString s = ParseStringToStream [] (tl s)"

section \<open>Numbers\<close>

text \<open>
  The digit loops over an unsigned accumulator: it stops when the next digit would leave the
  range given by the limit and the greatest digit allowed at it (the flag), or at the first
  character that is no digit.
\<close>

fun digit_loop :: "'a::len word \<Rightarrow> char \<Rightarrow> 'a word \<Rightarrow> nat \<Rightarrow> string \<Rightarrow> 'a word \<times> bool \<times> nat \<times> string" where
  "digit_loop lim lastd i sig [] = (i, False, sig, [])"
| "digit_loop lim lastd i sig (c # s) =
     (if \<not> is_digit c then (i, False, sig, c # s)
      else if lim \<le> i \<and> (i \<noteq> lim \<or> (of_char c :: nat) > of_char lastd) then (i, True, sig, c # s)
      else digit_loop lim lastd (i * 10 + of_nat (digit_val c)) (Suc sig) s)"

text \<open>The integer part: \<open>None\<close> when there is no digit.\<close>

definition ParseNumber_int :: "bool \<Rightarrow> string \<Rightarrow> (uint32 \<times> bool \<times> nat \<times> string) option" where
  "ParseNumber_int isneg s =
     (if Peek s = CHR ''0'' then Some (0, False, 0, tl s)
      else if is_digit (Peek s) then
        (let i = of_nat (digit_val (Peek s)) in
         if isneg then Some (digit_loop 214748364 (CHR ''8'') i 0 (tl s))
         else Some (digit_loop 429496729 (CHR ''5'') i 0 (tl s)))
      else None)"

definition ParseNumber_int64 :: "bool \<Rightarrow> 64 word \<Rightarrow> nat \<Rightarrow> string \<Rightarrow> 64 word \<times> bool \<times> nat \<times> string" where
  "ParseNumber_int64 isneg i64 sig s =
     (if isneg then digit_loop 0x0CCCCCCCCCCCCCCC (CHR ''8'') i64 sig s
      else digit_loop 0x1999999999999999 (CHR ''5'') i64 sig s)"

definition fp_digit :: "'d fpu \<Rightarrow> 'd \<Rightarrow> char \<Rightarrow> 'd" where
  "fp_digit fp d c = fp_add fp (fp_mul fp d (fp_dec fp 10 0)) (fp_dec fp (int (digit_val c)) 0)"

fun bigint_loop :: "'d fpu \<Rightarrow> string \<Rightarrow> 'd \<Rightarrow> string \<Rightarrow> jfail + 'd \<times> string" where
  "bigint_loop fp start d [] = Inr (d, [])"
| "bigint_loop fp start d (c # s) =
     (if \<not> is_digit c then Inr (d, c # s)
      else if fp_ge fp d (fp_dec fp 17976931348623157 291) then Inl (Parse_Error kParseErrorNumberTooBig start)
      else bigint_loop fp start (fp_digit fp d c) s)"

text \<open>The fraction digits, first in the integer accumulator, then in the double.\<close>

fun frac_int_loop :: "64 word \<Rightarrow> int \<Rightarrow> nat \<Rightarrow> string \<Rightarrow> 64 word \<times> int \<times> nat \<times> string" where
  "frac_int_loop i64 expFrac sig [] = (i64, expFrac, sig, [])"
| "frac_int_loop i64 expFrac sig (c # s) =
     (if \<not> is_digit c \<or> i64 > 0x1FFFFFFFFFFFFF then (i64, expFrac, sig, c # s)
      else let i64' = i64 * 10 + of_nat (digit_val c) in
        frac_int_loop i64' (expFrac - 1) (if i64' \<noteq> 0 then Suc sig else sig) s)"

fun frac_double_loop :: "'d fpu \<Rightarrow> 'd \<Rightarrow> int \<Rightarrow> nat \<Rightarrow> string \<Rightarrow> 'd \<times> int \<times> string" where
  "frac_double_loop fp d expFrac sig [] = (d, expFrac, [])"
| "frac_double_loop fp d expFrac sig (c # s) =
     (if \<not> is_digit c then (d, expFrac, c # s)
      else if sig < 17 then
        (let d' = fp_digit fp d c in
         frac_double_loop fp d' (expFrac - 1) (if fp_gt fp d' (fp_dec fp 0 0) then Suc sig else sig) s)
      else frac_double_loop fp d expFrac sig s)"

text \<open>The state of a number after its integer part: the double when there is one, else the integer.\<close>

definition ParseNumber_frac ::
    "'d fpu \<Rightarrow> 'd option \<Rightarrow> 64 word \<Rightarrow> nat \<Rightarrow> string \<Rightarrow> jfail + ('d option \<times> int) \<times> string" where
  "ParseNumber_frac fp dbl i64 sig s =
     (if Peek s = CHR ''.'' then
        (let s1 = tl s in
         if \<not> is_digit (Peek s1) then Inl (Parse_Error kParseErrorNumberMissFraction s1)
         else (let (d, expFrac, sig', s2) = (case dbl of
                  Some d \<Rightarrow> (d, 0, sig, s1)
                | None \<Rightarrow> (let (i, e, g, s2) = frac_int_loop i64 0 sig s1 in (fp_of_uint64 fp i, e, g, s2)));
                (d', expFrac', s3) = frac_double_loop fp d expFrac sig' s2
               in Inr ((Some d', expFrac'), s3)))
      else Inr ((dbl, 0), s))"

fun skip_digits :: "string \<Rightarrow> string" where
  "skip_digits [] = []"
| "skip_digits (c # s) = (if is_digit c then skip_digits s else c # s)"

fun exp_minus_loop :: "int \<Rightarrow> string \<Rightarrow> int \<times> string" where
  "exp_minus_loop ex [] = (ex, [])"
| "exp_minus_loop ex (c # s) =
     (if \<not> is_digit c then (ex, c # s)
      else let ex' = ex * 10 + int (digit_val c) in
        if ex' \<ge> 214748364 then (ex', skip_digits s) else exp_minus_loop ex' s)"

fun exp_plus_loop :: "string \<Rightarrow> int \<Rightarrow> int \<Rightarrow> string \<Rightarrow> jfail + int \<times> string" where
  "exp_plus_loop start maxExp ex [] = Inr (ex, [])"
| "exp_plus_loop start maxExp ex (c # s) =
     (if \<not> is_digit c then Inr (ex, c # s)
      else let ex' = ex * 10 + int (digit_val c) in
        if ex' > maxExp then Inl (Parse_Error kParseErrorNumberTooBig start) else exp_plus_loop start maxExp ex' s)"

definition ParseNumber_exp_digits :: "string \<Rightarrow> bool \<Rightarrow> int \<Rightarrow> string \<Rightarrow> jfail + int \<times> string" where
  "ParseNumber_exp_digits start expMinus expFrac s =
     (if is_digit (Peek s) then
        (let ex = int (digit_val (Peek s)) in
         if expMinus then (case exp_minus_loop ex (tl s) of (ex', s') \<Rightarrow> Inr (- ex', s'))
         else exp_plus_loop start (308 - expFrac) ex (tl s))
      else Inl (Parse_Error kParseErrorNumberMissExponent s))"

definition ParseNumber_exp ::
    "'d fpu \<Rightarrow> string \<Rightarrow> 'd option \<Rightarrow> 64 word \<Rightarrow> int \<Rightarrow> string \<Rightarrow> jfail + ('d option \<times> int) \<times> string" where
  "ParseNumber_exp fp start dbl i64 expFrac s =
     (if Peek s = CHR ''e'' \<or> Peek s = CHR ''E'' then
        (let d = (case dbl of Some d \<Rightarrow> d | None \<Rightarrow> fp_of_uint64 fp i64); s1 = tl s in
         map_sum id (\<lambda>(ex, s'). ((Some d, ex), s'))
           (if Peek s1 = CHR ''+'' then ParseNumber_exp_digits start False expFrac (tl s1)
            else if Peek s1 = CHR ''-'' then ParseNumber_exp_digits start True expFrac (tl s1)
            else ParseNumber_exp_digits start False expFrac s1))
      else Inr ((dbl, 0), s))"

text \<open>\<^verbatim>\<open>strtod.h\<close> and \<^verbatim>\<open>pow10.h\<close>; \<open>None\<close> is the failed assertion of \<^verbatim>\<open>Pow10\<close>.\<close>

definition Pow10 :: "'d fpu \<Rightarrow> int \<Rightarrow> 'd option" where
  "Pow10 fp n = (if 0 \<le> n \<and> n \<le> 308 then Some (fp_dec fp 1 n) else None)"

definition FastPath :: "'d fpu \<Rightarrow> 'd \<Rightarrow> int \<Rightarrow> 'd option" where
  "FastPath fp significand ex =
     (if ex < -308 then Some (fp_dec fp 0 0)
      else if ex \<ge> 0 then map_option (fp_mul fp significand) (Pow10 fp ex)
      else map_option (fp_div fp significand) (Pow10 fp (- ex)))"

definition StrtodNormalPrecision :: "'d fpu \<Rightarrow> 'd \<Rightarrow> int \<Rightarrow> 'd option" where
  "StrtodNormalPrecision fp d p =
     (if p < -308 then Option.bind (FastPath fp d (-308)) (\<lambda>d'. FastPath fp d' (p + 308)) else FastPath fp d p)"

text \<open>The end of \<^verbatim>\<open>ParseNumber\<close>: the event for the number read, of the type it fits.\<close>

definition ParseNumber_event ::
    "'d fpu \<Rightarrow> bool \<Rightarrow> bool \<Rightarrow> uint32 \<Rightarrow> 64 word \<Rightarrow> 'd option \<Rightarrow> int \<Rightarrow> jfail + 'd event list" where
  "ParseNumber_event fp isneg use64bit i i64 dbl p = (case dbl of
     Some d \<Rightarrow> (case StrtodNormalPrecision fp d p of
         None \<Rightarrow> Inl Assertion_Failed
       | Some r \<Rightarrow> Inr [Ev_Number (NDouble (if isneg then fp_neg fp r else r))])
   | None \<Rightarrow> Inr [Ev_Number (if use64bit then (if isneg then NInt64 (ucast (NOT i64 + 1)) else NUint64 i64)
       else (if isneg then NInt (ucast (NOT i + 1)) else NUint i))])"

definition ParseNumber_rest ::
    "'d fpu \<Rightarrow> string \<Rightarrow> bool \<Rightarrow> bool \<Rightarrow> uint32 \<Rightarrow> 64 word \<Rightarrow> nat \<Rightarrow> 'd option \<Rightarrow> string \<Rightarrow> jfail + 'd event list \<times> string" where
  "ParseNumber_rest fp start isneg use64bit i i64 significandDigit dbl s =
     (case ParseNumber_frac fp dbl i64 significandDigit s of
        Inl e \<Rightarrow> Inl e
      | Inr ((dbl', expFrac), s1) \<Rightarrow> (case ParseNumber_exp fp start dbl' i64 expFrac s1 of
          Inl e \<Rightarrow> Inl e
        | Inr ((dbl'', ex), s2) \<Rightarrow>
            map_sum id (\<lambda>es. (es, s2)) (ParseNumber_event fp isneg use64bit i i64 dbl'' (ex + expFrac))))"

definition ParseNumber :: "'d fpu \<Rightarrow> string \<Rightarrow> jfail + 'd event list \<times> string" where
  "ParseNumber fp start =
     (let (isneg, s1) = Consume (CHR ''-'') start in
      case ParseNumber_int isneg s1 of
        None \<Rightarrow> Inl (Parse_Error kParseErrorValueInvalid s1)
      | Some (i, use64bit, significandDigit, s2) \<Rightarrow>
          (if \<not> use64bit then ParseNumber_rest fp start isneg False i (ucast i) significandDigit None s2
           else let (i64, useDouble, significandDigit', s3) = ParseNumber_int64 isneg (ucast i) significandDigit s2 in
             if \<not> useDouble then ParseNumber_rest fp start isneg True i i64 significandDigit' None s3
             else (case bigint_loop fp start (fp_of_uint64 fp i64) s3 of
                 Inl e \<Rightarrow> Inl e
               | Inr (d, s4) \<Rightarrow> ParseNumber_rest fp start isneg True i i64 significandDigit' (Some d) s4)))"

section \<open>Values\<close>

text \<open>
  The loops of \<^verbatim>\<open>ParseObject\<close> and \<^verbatim>\<open>ParseArray\<close> over their members and elements; the
  first argument is \<^verbatim>\<open>ParseValue\<close>, the second bounds the iterations.
\<close>

primrec ParseObject_members ::
    "(string \<Rightarrow> jfail + 'd event list \<times> string) \<Rightarrow> nat \<Rightarrow> nat \<Rightarrow> string \<Rightarrow> jfail + 'd event list \<times> string" where
  "ParseObject_members pv 0 memberCount s = Inl Fuel_Exhausted"
| "ParseObject_members pv (Suc n) memberCount s =
     (if Peek s \<noteq> CHR 0x22 then Inl (Parse_Error kParseErrorObjectMissName s)
      else (case ParseString s of
          Inl e \<Rightarrow> Inl e
        | Inr (key, s1) \<Rightarrow>
            (let s2 = SkipWhitespace s1 in
             if Peek s2 \<noteq> CHR '':'' then Inl (Parse_Error kParseErrorObjectMissColon s2)
             else (case pv (SkipWhitespace (tl s2)) of
                 Inl e \<Rightarrow> Inl e
               | Inr (es, s4) \<Rightarrow>
                   (let s5 = SkipWhitespace s4 in
                    if Peek s5 = CHR '','' then
                      map_sum id (\<lambda>(es', s'). (Ev_Key key # es @ es', s'))
                        (ParseObject_members pv n (Suc memberCount) (SkipWhitespace (tl s5)))
                    else if Peek s5 = CHR ''}'' then Inr (Ev_Key key # es @ [Ev_EndObject (Suc memberCount)], tl s5)
                    else Inl (Parse_Error kParseErrorObjectMissCommaOrCurlyBracket s5))))))"

primrec ParseArray_elements ::
    "(string \<Rightarrow> jfail + 'd event list \<times> string) \<Rightarrow> nat \<Rightarrow> nat \<Rightarrow> string \<Rightarrow> jfail + 'd event list \<times> string" where
  "ParseArray_elements pv 0 elementCount s = Inl Fuel_Exhausted"
| "ParseArray_elements pv (Suc n) elementCount s =
     (case pv s of
        Inl e \<Rightarrow> Inl e
      | Inr (es, s1) \<Rightarrow>
          (let s2 = SkipWhitespace s1 in
           if Peek s2 = CHR '','' then
             map_sum id (\<lambda>(es', s'). (es @ es', s')) (ParseArray_elements pv n (Suc elementCount) (SkipWhitespace (tl s2)))
           else if Peek s2 = CHR '']'' then Inr (es @ [Ev_EndArray (Suc elementCount)], tl s2)
           else Inl (Parse_Error kParseErrorArrayMissCommaOrSquareBracket s2)))"

definition ParseObject :: "(string \<Rightarrow> jfail + 'd event list \<times> string) \<Rightarrow> string \<Rightarrow> jfail + 'd event list \<times> string" where
  "ParseObject pv s =
     (let s1 = SkipWhitespace (tl s) in
      if Peek s1 = CHR ''}'' then Inr ([Ev_StartObject, Ev_EndObject 0], tl s1)
      else map_sum id (\<lambda>(es, s'). (Ev_StartObject # es, s')) (ParseObject_members pv (Suc (length s1)) 0 s1))"

definition ParseArray :: "(string \<Rightarrow> jfail + 'd event list \<times> string) \<Rightarrow> string \<Rightarrow> jfail + 'd event list \<times> string" where
  "ParseArray pv s =
     (let s1 = SkipWhitespace (tl s) in
      if Peek s1 = CHR '']'' then Inr ([Ev_StartArray, Ev_EndArray 0], tl s1)
      else map_sum id (\<lambda>(es, s'). (Ev_StartArray # es, s')) (ParseArray_elements pv (Suc (length s1)) 0 s1))"

text \<open>\<^verbatim>\<open>ParseValue\<close>; the number bounds the nesting of values.\<close>

primrec ParseValue :: "'d fpu \<Rightarrow> nat \<Rightarrow> string \<Rightarrow> jfail + 'd event list \<times> string" where
  "ParseValue fp 0 = (\<lambda>s. Inl Fuel_Exhausted)"
| "ParseValue fp (Suc k) = (\<lambda>s.
     if Peek s = CHR ''n'' then ParseNull s
     else if Peek s = CHR ''t'' then ParseTrue s
     else if Peek s = CHR ''f'' then ParseFalse s
     else if Peek s = CHR 0x22 then map_sum id (\<lambda>(str, s'). ([Ev_String str], s')) (ParseString s)
     else if Peek s = CHR ''{'' then ParseObject (ParseValue fp k) s
     else if Peek s = CHR ''['' then ParseArray (ParseValue fp k) s
     else ParseNumber fp s)"

text \<open>\<^verbatim>\<open>GenericReader::Parse\<close>, with fuel for every nesting a text of its length allows.\<close>

definition Reader_Parse :: "'d fpu \<Rightarrow> string \<Rightarrow> jfail + 'd event list" where
  "Reader_Parse fp src =
     (let s = SkipWhitespace src in
      if Peek s = CHR 0x00 then Inl (Parse_Error kParseErrorDocumentEmpty s)
      else (case ParseValue fp (Suc (length s)) s of
          Inl e \<Rightarrow> Inl e
        | Inr (es, s1) \<Rightarrow>
            (let s2 = SkipWhitespace s1 in
             if Peek s2 \<noteq> CHR 0x00 then Inl (Parse_Error kParseErrorDocumentRootNotSingular s2) else Inr es)))"

section \<open>Where the reader stops\<close>

text \<open>
  A failure the code can have: a parse error whose position lies in the text read. A result
  leaves a suffix of that text.
\<close>

fun fail_ok :: "string \<Rightarrow> jfail \<Rightarrow> bool" where
  "fail_ok s (Parse_Error _ t) = suffix t s"
| "fail_ok s _ = False"

fun read_ok :: "string \<Rightarrow> jfail + 'a \<times> string \<Rightarrow> bool" where
  "read_ok s (Inl e) = fail_ok s e"
| "read_ok s (Inr (_, t)) = suffix t s"

lemma fail_ok_mono: "fail_ok t e \<Longrightarrow> suffix t s \<Longrightarrow> fail_ok s e"
  by (cases e) (auto intro: suffix_order.trans)

lemma map_sum_Inr_iff: "map_sum f g r = Inr y \<longleftrightarrow> (\<exists>x. r = Inr x \<and> y = g x)"
  by (cases r) auto

lemma read_ok_map [simp]: "read_ok s (map_sum id (\<lambda>(x, t). (f x, t)) r) = read_ok s r"
  by (cases r) auto

lemma read_ok_mono: "read_ok t r \<Longrightarrow> suffix t s \<Longrightarrow> read_ok s r"
  by (cases r) (auto intro: fail_ok_mono suffix_order.trans)

lemma SkipWhitespace_suffix [simp]: "suffix (SkipWhitespace s) s"
  by (induction s) (auto simp: suffix_Cons)

lemma suffix_tl_trans: "suffix s t \<Longrightarrow> suffix (tl s) t"
  by (meson suffix_order.trans suffix_tl)

lemma suffix_skip_trans: "suffix s t \<Longrightarrow> suffix (SkipWhitespace s) t"
  by (meson suffix_order.trans SkipWhitespace_suffix)

lemma consume_all_suffix: "consume_all es s = (b, s') \<Longrightarrow> suffix s' s"
  by (induction es arbitrary: s)
     (auto simp: Consume_def split: if_splits prod.splits bool.splits intro: suffix_order.trans [OF _ suffix_tl])

lemma ParseHex4_loop_ok: "suffix s off \<Longrightarrow> read_ok off (ParseHex4_loop i cp off s)"
  by (induction i arbitrary: cp s) (auto split: option.splits intro: suffix_tl_trans)

lemma hex_digit_less: "hex_digit c = Some h \<Longrightarrow> h < 16"
  by (auto simp: hex_digit_def Let_def split: if_splits)

lemma ParseHex4_loop_bound: "ParseHex4_loop i cp off s = Inr (cp', s') \<Longrightarrow> cp' < 16 ^ i * (cp + 1)"
proof (induction i arbitrary: cp s)
  case (Suc i)
  then obtain h where "hex_digit (Peek s) = Some h"
    and r: "ParseHex4_loop i (16 * cp + h) off (tl s) = Inr (cp', s')" by (auto split: option.splits)
  then have "16 * cp + h + 1 \<le> 16 * (cp + 1)" using hex_digit_less [of "Peek s" h] by simp
  then have "16 ^ i * (16 * cp + h + 1) \<le> 16 ^ i * (16 * (cp + 1))" by (rule mult_le_mono2)
  with Suc.IH [OF r] have "cp' < 16 ^ i * (16 * (cp + 1))" by (rule less_le_trans)
  then show ?case by (simp only: power_Suc2 mult.assoc)
qed simp

lemma surrogate_bound:
  assumes "a < 2 ^ 10" "b < (2 ^ 10 :: nat)"
  shows "push_bit 10 a OR b < 2 ^ 20"
proof -
  have "take_bit 20 (push_bit 10 a OR b) = push_bit 10 a OR b"
    using assms by (simp add: take_bit_nat_eq_self_iff take_bit_nat_eq_self push_bit_eq_mult)
  then show ?thesis by (metis take_bit_nat_less_exp)
qed

lemma UTF8_Encode_some: "cp \<le> 0x10FFFF \<Longrightarrow> \<exists>bs. UTF8_Encode cp = Some bs"
  by (simp add: UTF8_Encode_def)

lemma parse_unicode_ok:
  assumes "suffix s off"
  shows "read_ok off (parse_unicode off s)"
proof (cases "ParseHex4 off s")
  case (Inl e)
  then show ?thesis using ParseHex4_loop_ok [OF assms, of 4 0]
    by (simp add: parse_unicode_def ParseHex4_def)
next
  case (Inr r)
  then obtain cp s1 where r: "ParseHex4 off s = Inr (cp, s1)" by (cases r) simp
  have s1: "suffix s1 off" using ParseHex4_loop_ok [OF assms, of 4 0] r by (simp add: ParseHex4_def)
  have cp: "cp < 65536" using ParseHex4_loop_bound [of 4 0 off s cp s1] r by (simp add: ParseHex4_def)
  show ?thesis
  proof (cases "0xD800 \<le> cp \<and> cp \<le> 0xDBFF")
    case False
    then show ?thesis using r cp s1 UTF8_Encode_some [of cp] by (auto simp: parse_unicode_def encode_to_def)
  next
    case sur: True
    obtain b s2 where c: "consume_all [CHR 0x5C, CHR ''u''] s1 = (b, s2)" by fastforce
    have s2: "suffix s2 off" using consume_all_suffix [OF c] s1 by (meson suffix_order.trans)
    show ?thesis
    proof (cases b)
      case False
      then show ?thesis using r sur c by (simp add: parse_unicode_def)
    next
      case b: True
      show ?thesis
      proof (cases "ParseHex4 off s2")
        case (Inl e)
        then show ?thesis using r sur c b ParseHex4_loop_ok [OF s2, of 4 0]
          by (simp add: parse_unicode_def ParseHex4_def)
      next
        case (Inr r2)
        then obtain cp2 s3 where r2: "ParseHex4 off s2 = Inr (cp2, s3)" by (cases r2) simp
        have s3: "suffix s3 off" using ParseHex4_loop_ok [OF s2, of 4 0] r2 by (simp add: ParseHex4_def)
        have "cp2 \<ge> 0xDC00 \<Longrightarrow> cp2 \<le> 0xDFFF \<Longrightarrow>
            \<exists>bs. UTF8_Encode ((push_bit 10 (cp - 0xD800) OR (cp2 - 0xDC00)) + 0x10000) = Some bs"
          using surrogate_bound [of "cp - 0xD800" "cp2 - 0xDC00"] sur by (intro UTF8_Encode_some) fastforce
        then show ?thesis using r sur c b r2 s3 by (auto simp: parse_unicode_def encode_to_def)
      qed
    qed
  qed
qed

lemma parse_escape_ok: "read_ok s (parse_escape s)"
  using parse_unicode_ok [of "tl (tl s)" s]
  by (auto simp: parse_escape_def Let_def suffix_tl_trans split: option.splits)

lemma ParseStringToStream_ok: "read_ok s (ParseStringToStream out s)"
proof (induction out s rule: ParseStringToStream.induct)
  case (1 out s)
  note esc = parse_escape_ok [of s]
  show ?case
  proof (cases "parse_escape s")
    case (Inl e)
    then show ?thesis using esc 1(2) [THEN read_ok_mono, OF _ _ _ suffix_tl]
      by (subst ParseStringToStream.simps) auto
  next
    case (Inr r)
    then show ?thesis using esc 1(2) [THEN read_ok_mono, OF _ _ _ suffix_tl] 1(1) [THEN read_ok_mono, of r "fst r" "snd r" s]
      by (subst ParseStringToStream.simps) (cases r, auto)
  qed
qed

lemma ParseString_ok: "read_ok s (ParseString s)"
  unfolding ParseString_def by (rule read_ok_mono [OF ParseStringToStream_ok suffix_tl])

text \<open>Numbers: no assertion of the conversions fails, as the exponent stays within \<^verbatim>\<open>Pow10\<close>.\<close>


lemma digit_loop_suffix: "digit_loop lim l i sig s = (i', b, sig', t) \<Longrightarrow> suffix t s"
  by (induction s arbitrary: i sig) (auto split: if_splits intro: suffix_ConsI)

lemma strict_suffix_Cons: "suffix t s \<Longrightarrow> strict_suffix t (c # s)"
  by (auto simp: strict_suffix_def suffix_def)

lemma is_digit_null [simp]: "\<not> is_digit (CHR 0x00)"
  by (simp add: is_digit_def)

lemma ParseNumber_int_suffix: "ParseNumber_int m s = Some (i, b, sig, t) \<Longrightarrow> strict_suffix t s"
  by (cases s) (auto simp: ParseNumber_int_def Let_def split: if_splits dest!: digit_loop_suffix
      intro: strict_suffix_Cons)

lemma bigint_loop_ok: "suffix s start \<Longrightarrow> read_ok start (bigint_loop fp start d s)"
  by (induction s arbitrary: d) (auto dest: suffix_ConsD)

lemma bigint_loop_suffix: "bigint_loop fp start d s = Inr (d', t) \<Longrightarrow> suffix t s"
  by (induction s arbitrary: d) (auto split: if_splits intro: suffix_ConsI)

lemma frac_int_loop_suffix: "frac_int_loop i e sig s = (i', e', sig', t) \<Longrightarrow> suffix t s \<and> e' \<le> e"
  by (induction s arbitrary: i e sig) (auto simp: Let_def split: if_splits dest!: meta_spec intro: suffix_ConsI)

lemma frac_double_loop_suffix: "frac_double_loop fp d e sig s = (d', e', t) \<Longrightarrow> suffix t s \<and> e' \<le> e"
  by (induction s arbitrary: d e sig) (fastforce simp: Let_def split: if_splits intro: suffix_ConsI)+

lemma ParseNumber_frac_ok:
  "read_ok s (ParseNumber_frac fp dbl i sig s)"
  "ParseNumber_frac fp dbl i sig s = Inr ((d, e), t) \<Longrightarrow> e \<le> 0"
  by (auto simp: ParseNumber_frac_def Let_def suffix_tl_trans split: if_splits option.splits prod.splits
        dest!: frac_int_loop_suffix frac_double_loop_suffix intro: suffix_order.trans [OF _ suffix_tl] suffix_order.trans)

lemma skip_digits_suffix: "suffix (skip_digits s) s"
  by (induction s) (auto intro: suffix_ConsI)

lemma exp_minus_loop_suffix: "exp_minus_loop ex s = (ex', t) \<Longrightarrow> suffix t s \<and> (0 \<le> ex \<longrightarrow> 0 \<le> ex')"
proof (induction s arbitrary: ex)
  case (Cons c s)
  then show ?case using Cons.IH [of "ex * 10 + int (digit_val c)"] skip_digits_suffix [of s]
    by (auto simp: Let_def split: if_splits intro: suffix_ConsI)
qed simp

lemma exp_plus_loop_ok:
  assumes "suffix s start"
  shows "read_ok start (exp_plus_loop start m ex s)"
    and "exp_plus_loop start m ex s = Inr (ex', t) \<Longrightarrow> ex \<le> m \<Longrightarrow> ex' \<le> m"
  using assms by (induction s arbitrary: ex) (auto simp: Let_def split: if_splits dest: suffix_ConsD)

lemma ParseNumber_exp_digits_ok:
  assumes "suffix s start" "e \<le> 0"
  shows "read_ok start (ParseNumber_exp_digits start m e s)"
    and "ParseNumber_exp_digits start m e s = Inr (ex, t) \<Longrightarrow> ex + e \<le> 308"
proof -
  have tl: "suffix (tl s) start" using assms(1) by (rule suffix_tl_trans)
  obtain ex' t' where m: "exp_minus_loop (int (digit_val (Peek s))) (tl s) = (ex', t')" by fastforce
  have m': "suffix t' start" "0 \<le> ex'" using exp_minus_loop_suffix [OF m] tl by (auto intro: suffix_order.trans)
  show "read_ok start (ParseNumber_exp_digits start m e s)"
    using assms m m' exp_plus_loop_ok(1) [OF tl] by (simp add: ParseNumber_exp_digits_def Let_def)
  show "ParseNumber_exp_digits start m e s = Inr (ex, t) \<Longrightarrow> ex + e \<le> 308"
    using assms(2) m m' exp_plus_loop_ok(2) [OF tl, of "308 - e" "int (digit_val (Peek s))" ex t] digit_val_less [of "Peek s"]
    by (auto simp: ParseNumber_exp_digits_def Let_def split: if_splits)
qed

lemma ParseNumber_exp_ok:
  assumes "suffix s start" "e \<le> 0"
  shows "read_ok start (ParseNumber_exp fp start dbl i e s)"
    and "ParseNumber_exp fp start dbl i e s = Inr ((d, ex), t) \<Longrightarrow> ex + e \<le> 308"
proof -
  have "suffix (tl s) start" "suffix (tl (tl s)) start" using assms(1) by (simp_all add: suffix_tl_trans)
  note ok = this [THEN ParseNumber_exp_digits_ok(1), OF assms(2)] this [THEN ParseNumber_exp_digits_ok(2), OF assms(2)]
  show "read_ok start (ParseNumber_exp fp start dbl i e s)"
    using assms(1) ok by (simp add: ParseNumber_exp_def Let_def)
  show "ParseNumber_exp fp start dbl i e s = Inr ((d, ex), t) \<Longrightarrow> ex + e \<le> 308"
    using assms(2) ok by (auto simp: ParseNumber_exp_def Let_def map_sum_Inr_iff split: if_splits)
qed

lemma exp_plus_loop_suffix: "exp_plus_loop start m ex s = Inr (ex', t) \<Longrightarrow> suffix t s"
  by (induction s arbitrary: ex) (auto simp: Let_def split: if_splits intro: suffix_ConsI)

lemma ParseNumber_exp_digits_suffix:
  "ParseNumber_exp_digits start m e s = Inr (ex, t) \<Longrightarrow> suffix t s"
  by (auto simp: ParseNumber_exp_digits_def Let_def split: if_splits prod.splits
    dest!: exp_plus_loop_suffix exp_minus_loop_suffix intro: suffix_order.trans [OF _ suffix_tl])

lemma ParseNumber_exp_suffix: "ParseNumber_exp fp start dbl i e s = Inr (r, t) \<Longrightarrow> suffix t s"
  by (auto simp: ParseNumber_exp_def Let_def map_sum_Inr_iff split: if_splits
    dest!: ParseNumber_exp_digits_suffix intro: suffix_order.trans [OF _ suffix_tl])

lemma StrtodNormalPrecision_some: "p \<le> 308 \<Longrightarrow> \<exists>r. StrtodNormalPrecision fp d p = Some r"
  by (auto simp: StrtodNormalPrecision_def FastPath_def Pow10_def)

lemma ParseNumber_event_ok: "p \<le> 308 \<Longrightarrow> \<exists>n. ParseNumber_event fp isneg u i i64 dbl p = Inr [Ev_Number n]"
  by (cases dbl) (use StrtodNormalPrecision_some [of p fp] in \<open>auto simp: ParseNumber_event_def split: option.splits\<close>)

definition number_ok :: "string \<Rightarrow> jfail + 'd event list \<times> string \<Rightarrow> bool" where
  "number_ok s r = (case r of Inl e \<Rightarrow> fail_ok s e | Inr (es, t) \<Rightarrow> strict_suffix t s \<and> (\<exists>n. es = [Ev_Number n]))"

lemma ParseNumber_rest_ok:
  assumes "strict_suffix s start"
  shows "number_ok start (ParseNumber_rest fp start isneg u i i64 sig dbl s)"
proof (cases "ParseNumber_frac fp dbl i64 sig s")
  case (Inl e)
  then show ?thesis using ParseNumber_frac_ok(1) [where fp = fp and s = s and dbl = dbl and i = i64 and sig = sig] fail_ok_mono [of s e start] assms
    by (simp add: ParseNumber_rest_def number_ok_def strict_suffix_def)
next
  case (Inr r)
  then obtain d e s1 where r: "ParseNumber_frac fp dbl i64 sig s = Inr ((d, e), s1)" by (metis surj_pair)
  then have s1: "suffix s1 s" "e \<le> 0" using ParseNumber_frac_ok [where fp = fp and s = s and dbl = dbl and i = i64 and sig = sig] by auto
  have "suffix s1 start" using s1(1) assms by (metis strict_suffix_def suffix_order.trans)
  show ?thesis
  proof (cases "ParseNumber_exp fp start d i64 e s1")
    case (Inl err)
    then show ?thesis using r ParseNumber_exp_ok(1) [OF \<open>suffix s1 start\<close> s1(2), of fp d i64]
      by (simp add: ParseNumber_rest_def number_ok_def)
  next
    case (Inr r2)
    then obtain d' ex s2 where r2: "ParseNumber_exp fp start d i64 e s1 = Inr ((d', ex), s2)" by (metis surj_pair)
    then have "ex + e \<le> 308" using ParseNumber_exp_ok(2) [OF \<open>suffix s1 start\<close> s1(2)] by blast
    then obtain n where n: "ParseNumber_event fp isneg u i i64 d' (ex + e) = Inr [Ev_Number n]"
      using ParseNumber_event_ok by blast
    have "suffix s2 s1" using ParseNumber_exp_suffix [OF r2] .
    then have "strict_suffix s2 start" using s1(1) assms by (meson suffix_order.trans suffix_order.le_less_trans)
    then show ?thesis using r r2 n by (simp add: ParseNumber_rest_def number_ok_def)
  qed
qed

lemma ParseNumber_ok: "number_ok start (ParseNumber fp start)"
proof -
  obtain isneg s1 where c: "Consume (CHR ''-'') start = (isneg, s1)" by fastforce
  then have s1: "suffix s1 start" by (auto simp: Consume_def split: if_splits)
  show ?thesis
  proof (cases "ParseNumber_int isneg s1")
    case None
    with c s1 show ?thesis by (simp add: ParseNumber_def number_ok_def)
  next
    case (Some r)
    then obtain i u sig s2 where i: "ParseNumber_int isneg s1 = Some (i, u, sig, s2)" by (metis surj_pair)
    have s2: "strict_suffix s2 start"
      using ParseNumber_int_suffix [OF i] s1 by (meson suffix_order.less_le_trans)
    obtain i64 b sig' s3 where i64: "ParseNumber_int64 isneg (ucast i) sig s2 = (i64, b, sig', s3)" by (metis surj_pair)
    then have "suffix s3 s2" by (auto simp: ParseNumber_int64_def split: if_splits dest: digit_loop_suffix)
    with s2 have s3: "strict_suffix s3 start" by (meson suffix_order.le_less_trans)
    have big: "read_ok start (bigint_loop fp start (fp_of_uint64 fp i64) s3)"
      using s3 by (intro bigint_loop_ok) (simp add: strict_suffix_def)
    have big': "strict_suffix t start" if "bigint_loop fp start (fp_of_uint64 fp i64) s3 = Inr (d, t)" for d t
      using bigint_loop_suffix [OF that] s3 by (rule suffix_order.le_less_trans)
    show ?thesis using c i i64 s2 s3 big big'
      by (cases "bigint_loop fp start (fp_of_uint64 fp i64) s3")
         (auto simp: ParseNumber_def Let_def ParseNumber_rest_ok, simp add: number_ok_def)
  qed
qed

end
