(* ===== verification/Json_Document.thy ===== *)
theory Json_Document
  imports Json_Reader
begin

text \<open>
  The document's side of parsing (\<^verbatim>\<open>document.h\<close>): the reader sends events, the document
  builds the value on a stack. The events of a successful read are those of one value, the
  stack machine rebuilds it, so \<^verbatim>\<open>Document::Parse\<close> returns a value or an error with its
  position for every text: no assertion fails and the fuel is enough.
\<close>

section \<open>The document\<close>

text \<open>
  The handler of \<^verbatim>\<open>GenericDocument\<close>: a stack of values, its top first. A member is two
  values, its name below its value. \<open>None\<close>: more is popped than there is.
\<close>

fun members_of :: "'d json list \<Rightarrow> (string \<times> 'd json) list option" where
  "members_of [] = Some []"
| "members_of (JString k # v # vs) = map_option (Cons (k, v)) (members_of vs)"
| "members_of _ = None"

fun handle_event :: "'d event \<Rightarrow> 'd json list \<Rightarrow> 'd json list option" where
  "handle_event Ev_Null st = Some (JNull # st)"
| "handle_event (Ev_Bool b) st = Some (JBool b # st)"
| "handle_event (Ev_Number n) st = Some (JNumber n # st)"
| "handle_event (Ev_String str) st = Some (JString str # st)"
| "handle_event (Ev_Key str) st = Some (JString str # st)"
| "handle_event Ev_StartObject st = Some (JObject [] # st)"
| "handle_event (Ev_EndObject memberCount) st =
     (if length st \<le> 2 * memberCount then None
      else map_option (\<lambda>ms. JObject ms # tl (drop (2 * memberCount) st)) (members_of (rev (take (2 * memberCount) st))))"
| "handle_event Ev_StartArray st = Some (JArray [] # st)"
| "handle_event (Ev_EndArray elementCount) st =
     (if length st \<le> elementCount then None
      else Some (JArray (rev (take elementCount st)) # tl (drop elementCount st)))"

fun run_events :: "'d event list \<Rightarrow> 'd json list \<Rightarrow> 'd json list option" where
  "run_events [] st = Some st"
| "run_events (e # es) st = Option.bind (handle_event e st) (run_events es)"

definition Document_Parse :: "'d fpu \<Rightarrow> string \<Rightarrow> jfail + 'd json" where
  "Document_Parse fp str = (case Reader_Parse fp str of
     Inl e \<Rightarrow> Inl e
   | Inr es \<Rightarrow> (case run_events es [] of Some [v] \<Rightarrow> Inr v | _ \<Rightarrow> Inl Assertion_Failed))"

section \<open>What the reader sends\<close>

fun events_of :: "'d json \<Rightarrow> 'd event list"
and member_events :: "string \<times> 'd json \<Rightarrow> 'd event list" where
  "events_of JNull = [Ev_Null]"
| "events_of (JBool b) = [Ev_Bool b]"
| "events_of (JNumber n) = [Ev_Number n]"
| "events_of (JString str) = [Ev_String str]"
| "events_of (JArray vs) = Ev_StartArray # concat (map events_of vs) @ [Ev_EndArray (length vs)]"
| "events_of (JObject ms) = Ev_StartObject # concat (map member_events ms) @ [Ev_EndObject (length ms)]"
| "member_events (k, v) = Ev_Key k # events_of v"

lemma run_events_append: "run_events (es @ es') st = Option.bind (run_events es st) (run_events es')"
  by (induction es arbitrary: st) (auto split: bind_splits)

lemma members_of_flat: "members_of (concat (map (\<lambda>(k, v). [JString k, v]) ms)) = Some ms"
  by (induction ms) auto

lemma run_values:
  "(\<And>v st. v \<in> set vs \<Longrightarrow> run_events (events_of v) st = Some (v # st)) \<Longrightarrow>
   run_events (concat (map events_of vs)) st = Some (rev vs @ st)"
  by (induction vs arbitrary: st) (simp_all add: run_events_append)

lemma run_members:
  "(\<And>m st. m \<in> set ms \<Longrightarrow> run_events (member_events m) st = Some (snd m # JString (fst m) # st)) \<Longrightarrow>
   run_events (concat (map member_events ms)) st = Some (rev (concat (map (\<lambda>(k, v). [JString k, v]) ms)) @ st)"
  by (induction ms arbitrary: st) (simp_all add: run_events_append split: prod.splits)

lemma length_flat: "length (concat (map (\<lambda>(k, v). [f k, v]) ms)) = 2 * length ms"
  by (induction ms) auto

lemma run_events_of:
  "run_events (events_of v) st = Some (v # st)"
  "run_events (member_events m) st = Some (snd m # JString (fst m) # st)"
proof (induction v and m arbitrary: st and st rule: events_of_member_events.induct)
  case (5 vs)
  then show ?case by (simp add: run_events_append run_values)
next
  case (6 ms)
  then have "run_events (concat (map member_events ms)) (JObject [] # st)
      = Some (rev (concat (map (\<lambda>(k, v). [JString k, v]) ms)) @ JObject [] # st)"
    by (rule run_members)
  moreover have "length (rev (concat (map (\<lambda>(k, v). [JString k, v]) ms))) = 2 * length ms"
    by (simp add: length_flat)
  ultimately show ?case by (simp add: run_events_append members_of_flat length_flat)
qed simp_all

definition value_ok :: "string \<Rightarrow> jfail + 'd event list \<times> string \<Rightarrow> bool" where
  "value_ok s r = (case r of
     Inl e \<Rightarrow> fail_ok s e | Inr (es, t) \<Rightarrow> strict_suffix t s \<and> (\<exists>v. es = events_of v))"

locale value_parser =
  fixes pv :: "string \<Rightarrow> jfail + 'd event list \<times> string" and n :: nat
  assumes pv_ok: "length s < n \<Longrightarrow> value_ok s (pv s)"
begin

lemma pv_error: "length s < n \<Longrightarrow> pv s = Inl e \<Longrightarrow> suffix s r \<Longrightarrow> fail_ok r e"
  using pv_ok [of s] fail_ok_mono by (auto simp: value_ok_def)

lemma pv_value:
  assumes "length s < n" "pv s = Inr (es, t)"
  obtains v where "es = events_of v" "strict_suffix t s"
  using pv_ok [of s] assms by (auto simp: value_ok_def)

lemma elements_ok:
  assumes "length s < n" "length s < m"
  shows "case ParseArray_elements pv m c s of
     Inl e \<Rightarrow> fail_ok s e
   | Inr (es, t) \<Rightarrow> suffix t s \<and> (\<exists>vs. es = concat (map events_of vs) @ [Ev_EndArray (c + length vs)])"
  using assms
proof (induction m arbitrary: c s)
  case (Suc m)
  show ?case
  proof (cases "pv s")
    case (Inl e)
    with Suc.prems show ?thesis by (simp add: pv_error)
  next
    case (Inr r)
    then obtain es s1 where r: "pv s = Inr (es, s1)" by (cases r) simp
    with Suc.prems(1) obtain v where v: "es = events_of v" and s1: "strict_suffix s1 s" by (rule pv_value)
    let ?s2 = "SkipWhitespace s1" let ?s3 = "SkipWhitespace (tl ?s2)"
    have s2: "suffix ?s2 s" and s3: "suffix ?s3 s" using s1 by (simp_all add: suffix_skip_trans suffix_tl_trans strict_suffix_def)
    have "length ?s3 \<le> length s1" by (simp add: suffix_length_le suffix_skip_trans suffix_tl_trans)
    then have "length ?s3 < n" "length ?s3 < m" using suffix_length_less [OF s1] Suc.prems by simp_all
    note ih = Suc.IH [OF this, of "Suc c"]
    show ?thesis
    proof (cases "Peek ?s2 = CHR '',''")
      case True
      show ?thesis
      proof (cases "ParseArray_elements pv m (Suc c) ?s3")
        case (Inl e)
        with ih r True s3 show ?thesis by (simp add: Let_def fail_ok_mono)
      next
        case (Inr q)
        then obtain es' t where q: "ParseArray_elements pv m (Suc c) ?s3 = Inr (es', t)" by (cases q) simp
        with ih obtain vs where "es' = concat (map events_of vs) @ [Ev_EndArray (Suc c + length vs)]" "suffix t ?s3" by auto
        with r True q v s3 show ?thesis
          by (auto simp: Let_def intro!: exI [of _ "v # vs"] intro: suffix_order.trans)
      qed
    next
      case False
      with r v s2 show ?thesis by (auto simp: Let_def suffix_tl_trans intro!: exI [of _ "[v]"])
    qed
  qed
qed simp

lemma members_step:
  assumes "length s < n" and key: "ParseString s = Inr (key, s1)" and "Peek s = CHR 0x22"
  shows "case pv (SkipWhitespace (tl (SkipWhitespace s1))) of
     Inl e \<Rightarrow> fail_ok s e
   | Inr (es, s4) \<Rightarrow> strict_suffix s4 s \<and> (\<exists>v. es = events_of v)"
proof -
  let ?s3 = "SkipWhitespace (tl (SkipWhitespace s1))"
  have "suffix s1 s" using ParseString_ok [of s] key by simp
  then have s3: "suffix ?s3 s" by (simp add: suffix_skip_trans suffix_tl_trans)
  then have "length ?s3 < n" using suffix_length_le [OF s3] assms(1) by simp
  from pv_ok [OF this] s3 show ?thesis
    by (auto simp: value_ok_def fail_ok_mono split: sum.splits intro: suffix_order.less_le_trans)
qed

lemma members_ok:
  assumes "length s < n" "length s < m"
  shows "case ParseObject_members pv m c s of
     Inl e \<Rightarrow> fail_ok s e
   | Inr (es, t) \<Rightarrow> suffix t s \<and> (\<exists>ms. es = concat (map member_events ms) @ [Ev_EndObject (c + length ms)])"
  using assms
proof (induction m arbitrary: c s)
  case (Suc m)
  show ?case
  proof (cases "Peek s = CHR 0x22 \<and> (\<exists>key s1. ParseString s = Inr (key, s1))")
    case False
    then show ?thesis using ParseString_ok [of s] by (cases "ParseString s") (auto simp: Let_def)
  next
    case True
    then obtain key s1 where quote: "Peek s = CHR 0x22" and key: "ParseString s = Inr (key, s1)" by blast
    have s1: "suffix s1 s" using ParseString_ok [of s] key by simp
    let ?s3 = "SkipWhitespace (tl (SkipWhitespace s1))"
    note step = members_step [OF Suc.prems(1) key quote]
    show ?thesis
    proof (cases "Peek (SkipWhitespace s1) = CHR '':'' \<and> (\<exists>es s4. pv ?s3 = Inr (es, s4))")
      case False
      with key quote s1 step show ?thesis by (cases "pv ?s3") (auto simp: Let_def suffix_skip_trans)
    next
      case True
      then obtain es s4 where colon: "Peek (SkipWhitespace s1) = CHR '':''" and v4: "pv ?s3 = Inr (es, s4)" by blast
      with step obtain v where v: "es = events_of v" and s4: "strict_suffix s4 s" by auto
      let ?s5 = "SkipWhitespace s4" let ?s6 = "SkipWhitespace (tl ?s5)"
      have s5: "suffix ?s5 s" and s6: "suffix ?s6 s"
        using s4 by (simp_all add: suffix_skip_trans suffix_tl_trans strict_suffix_def)
      have "length ?s6 \<le> length s4" by (simp add: suffix_length_le suffix_skip_trans suffix_tl_trans)
      then have "length ?s6 < n" "length ?s6 < m" using suffix_length_less [OF s4] Suc.prems by simp_all
      note ih = Suc.IH [OF this, of "Suc c"]
      show ?thesis
      proof (cases "Peek ?s5 = CHR '',''")
        case False
        with quote key colon v4 v s5 show ?thesis
          by (auto simp: Let_def suffix_tl_trans intro!: exI [of _ "[(key, v)]"])
      next
        case comma: True
        show ?thesis
        proof (cases "ParseObject_members pv m (Suc c) ?s6")
          case (Inl e)
          with ih quote key colon v4 comma s6 show ?thesis by (simp add: Let_def fail_ok_mono)
        next
          case (Inr q)
          then obtain es' t where q: "ParseObject_members pv m (Suc c) ?s6 = Inr (es', t)" by (cases q) simp
          with ih obtain ms where "es' = concat (map member_events ms) @ [Ev_EndObject (Suc c + length ms)]" "suffix t ?s6"
            by auto
          with quote key colon v4 v comma q s6 show ?thesis
            by (auto simp: Let_def intro!: exI [of _ "(key, v) # ms"] intro: suffix_order.trans)
        qed
      qed
    qed
  qed
qed simp

lemma body_start:
  assumes "length s \<le> n" "s \<noteq> []"
  shows "strict_suffix (SkipWhitespace (tl s)) s" "length (SkipWhitespace (tl s)) < n"
proof -
  show *: "strict_suffix (SkipWhitespace (tl s)) s"
    using assms(2) by (meson SkipWhitespace_suffix strict_suffix_tl suffix_order.le_less_trans)
  show "length (SkipWhitespace (tl s)) < n" using suffix_length_less [OF *] assms(1) by simp
qed

lemma array_ok:
  assumes "length s \<le> n" "s \<noteq> []"
  shows "value_ok s (ParseArray pv s)"
proof -
  let ?s1 = "SkipWhitespace (tl s)"
  note s1 = body_start [OF assms]
  note el = elements_ok [OF s1(2) lessI [of "length ?s1"], of 0]
  have "strict_suffix t s" if "suffix t ?s1" for t using that s1(1) by (rule suffix_order.le_less_trans)
  moreover have "fail_ok ?s1 e \<Longrightarrow> fail_ok s e" for e
    using s1(1) by (simp add: fail_ok_mono strict_suffix_def)
  ultimately show ?thesis using el s1(1)
    by (auto simp: ParseArray_def Let_def value_ok_def intro: exI [of _ "JArray []"] exI [of _ "JArray vs" for vs]
      simp del: ParseArray_elements.simps split: sum.splits)
qed

lemma object_ok:
  assumes "length s \<le> n" "s \<noteq> []"
  shows "value_ok s (ParseObject pv s)"
proof -
  let ?s1 = "SkipWhitespace (tl s)"
  note s1 = body_start [OF assms]
  note el = members_ok [OF s1(2) lessI [of "length ?s1"], of 0]
  have "strict_suffix t s" if "suffix t ?s1" for t using that s1(1) by (rule suffix_order.le_less_trans)
  moreover have "fail_ok ?s1 e \<Longrightarrow> fail_ok s e" for e
    using s1(1) by (simp add: fail_ok_mono strict_suffix_def)
  ultimately show ?thesis using el s1(1)
    by (auto simp: ParseObject_def Let_def value_ok_def intro: exI [of _ "JObject []"] exI [of _ "JObject ms" for ms]
      simp del: ParseObject_members.simps split: sum.splits)
qed

end

lemma literal_value_ok:
  "s \<noteq> [] \<Longrightarrow> value_ok s (case consume_all es (tl s) of (True, s') \<Rightarrow> Inr (events_of v, s') | (False, s') \<Rightarrow> Inl (Parse_Error c s'))"
  by (cases "consume_all es (tl s)")
     (auto simp: value_ok_def split: bool.splits dest!: consume_all_suffix intro: suffix_order.trans [OF _ suffix_tl]
       intro: suffix_order.le_less_trans [OF _ strict_suffix_tl])

lemma literals_value_ok:
  assumes "s \<noteq> []"
  shows "value_ok s (ParseNull s)" "value_ok s (ParseTrue s)" "value_ok s (ParseFalse s)"
  using literal_value_ok [OF assms, where v = JNull] literal_value_ok [OF assms, where v = "JBool b" for b]
  unfolding ParseNull_def ParseTrue_def ParseFalse_def by (simp_all only: events_of.simps)

lemma number_value_ok: "number_ok s r \<Longrightarrow> value_ok s r"
  by (auto simp: number_ok_def value_ok_def split: sum.splits intro: exI [of _ "JNumber m" for m])

lemma string_value_ok: "s \<noteq> [] \<Longrightarrow> value_ok s (map_sum id (\<lambda>(str, s'). ([Ev_String str], s')) (ParseString s))"
  using ParseStringToStream_ok [of "tl s" "[]"] ParseString_ok [of s]
  by (cases "ParseString s")
     (auto simp: value_ok_def ParseString_def intro: exI [of _ "JString m" for m] suffix_order.le_less_trans [OF _ strict_suffix_tl])

lemma Peek_nonempty: "Peek s = c \<Longrightarrow> c \<noteq> CHR 0x00 \<Longrightarrow> s \<noteq> []"
  by auto

lemma value_parser_ParseValue: "value_parser (ParseValue fp k) k"
proof (induction k)
  case 0
  show ?case by unfold_locales simp
next
  case (Suc k)
  show ?case
  proof
    fix s :: string assume "length s < Suc k"
    then have len: "length s \<le> k" by simp
    show "value_ok s (ParseValue fp (Suc k) s)"
    proof (cases "s = []")
      case True
      then show ?thesis by (simp add: number_value_ok ParseNumber_ok)
    next
      case False
      note value_parser.array_ok [OF Suc len False] value_parser.object_ok [OF Suc len False]
        literals_value_ok [OF False]
        string_value_ok [OF False] number_value_ok [OF ParseNumber_ok]
      then show ?thesis by (simp only: ParseValue.simps split: if_split) blast
    qed
  qed
qed

interpretation pv: value_parser "ParseValue fp k" k for fp k
  by (rule value_parser_ParseValue)

lemma Reader_sends_a_value:
  "case Reader_Parse fp src of
     Inl e \<Rightarrow> fail_ok src e
   | Inr es \<Rightarrow> \<exists>v. es = events_of v"
proof -
  let ?s = "SkipWhitespace src"
  have "value_ok ?s (ParseValue fp (Suc (length ?s)) ?s)" by (rule pv.pv_ok) simp
  moreover have "fail_ok ?s e \<Longrightarrow> fail_ok src e" for e by (simp add: fail_ok_mono)
  ultimately show ?thesis
    by (auto simp: Reader_Parse_def Let_def value_ok_def simp del: ParseValue.simps split: sum.splits
      intro: suffix_skip_trans suffix_order.trans simp: strict_suffix_def)
qed

lemma Document_Parse_never_fails: "Document_Parse fp src = Inl e \<Longrightarrow> \<exists>code t. e = Parse_Error code t \<and> suffix t src"
proof (cases "Reader_Parse fp src")
  case (Inl e')
  then show "Document_Parse fp src = Inl e \<Longrightarrow> ?thesis"
    using Reader_sends_a_value [where fp = fp and src = src] by (cases e') (auto simp: Document_Parse_def)
next
  case (Inr es)
  then obtain v where "es = events_of v" using Reader_sends_a_value [where fp = fp and src = src] by auto
  with Inr show "Document_Parse fp src = Inl e \<Longrightarrow> ?thesis" by (simp add: Document_Parse_def run_events_of)
qed

lemma Document_Parse_value: "Document_Parse fp src = Inr v \<Longrightarrow> Reader_Parse fp src = Inr (events_of v)"
  using Reader_sends_a_value [where fp = fp and src = src]
  by (auto simp: Document_Parse_def run_events_of split: sum.splits)


end
