(* ===== verification/Dc_Server.thy ===== *)
theory Dc_Server
  imports Thrift_Rpc Json_Document
begin

text \<open>
  The server's node table and its handlers (\<^verbatim>\<open>DcServer.cpp\<close>): registration,
  heartbeats, the sweep that drops silent nodes, and \<^verbatim>\<open>CollectWorkProc\<close>, which hands a
  request to the next node in turn.

  Every handler runs its accesses to the table under \<^verbatim>\<open>m_Manmutex\<close>, so a critical
  section is one function on the state. \<^verbatim>\<open>CollectWorkProc\<close> has two critical sections
  with a remote call in between; they are separate functions, which \<open>Dc_Threads\<close> interleaves
  them with the other threads.
\<close>

section \<open>State\<close>

record dcnode_t =
  ip :: string
  port :: int32
  lHeartBeatTime :: int

record DcServer =
  m_node_vec :: "dcnode_t list"
  pickNum :: int
  m_hThread :: bool
  m_sem :: bool
  m_bstop :: bool

definition DcServer_new :: DcServer where
  "DcServer_new = \<lparr>m_node_vec = [], pickNum = 0, m_hThread = False, m_sem = False, m_bstop = False\<rparr>"

definition DCGetTickCount :: "timespec \<Rightarrow> int" where
  "DCGetTickCount ts = tv_sec ts * 1000 + cdiv (tv_nsec ts) 1000000"

section \<open>Registration and heartbeats\<close>

text \<open>
  The loop both handlers share: walk the vector, stamp the first entry of that address
  and stop; the flag says whether there was one.
\<close>

fun touch_node :: "string \<Rightarrow> int32 \<Rightarrow> int \<Rightarrow> dcnode_t list \<Rightarrow> dcnode_t list \<times> bool" where
  "touch_node i p now [] = ([], False)"
| "touch_node i p now (n # ns) =
     (if ip n = i \<and> port n = p then (n\<lparr>lHeartBeatTime := now\<rparr> # ns, True)
      else (let (ns', found) = touch_node i p now ns in (n # ns', found)))"

definition RegisterWork :: "ClientInfo \<Rightarrow> int \<Rightarrow> DcServer \<Rightarrow> RegistResult \<times> DcServer" where
  "RegisterWork ci now st =
     (let (vec, nNodeExist) = touch_node (ci_Ip ci) (ci_Port ci) now (m_node_vec st);
          vec' = (if \<not> nNodeExist
            then vec @ [\<lparr>ip = ci_Ip ci, port = ci_Port ci, lHeartBeatTime = now\<rparr>] else vec)
      in (RegistResult_SUCCESS, st\<lparr>m_node_vec := vec'\<rparr>))"

definition HeartBeatWork :: "HeartBeatInfo \<Rightarrow> int \<Rightarrow> DcServer \<Rightarrow> bool \<times> DcServer" where
  "HeartBeatWork hb now st =
     (let (vec, bret) = touch_node (hb_Ip hb) (hb_Port hb) now (m_node_vec st)
      in (bret, st\<lparr>m_node_vec := vec\<rparr>))"

text \<open>\<^verbatim>\<open>RegistHandler\<close>: the service implementation the processor calls; it never throws.\<close>

definition RegistHandler :: "int \<Rightarrow> DcServer RegistIf" where
  "RegistHandler now = \<lparr>
     if_registClient = (\<lambda>ci st. let (r, st') = RegisterWork ci now st in (Inr r, st')),
     if_heartbeat = (\<lambda>hb st. let (b, st') = HeartBeatWork hb now st in (Inr b, st'))\<rparr>"

section \<open>The sweep\<close>

text \<open>
  The iterator loop of \<^verbatim>\<open>StartService\<close>: position \<open>i\<close> either is erased (the iterator
  then points at the next element) or is passed over.
\<close>

function sweep_from :: "int \<Rightarrow> nat \<Rightarrow> dcnode_t list \<Rightarrow> dcnode_t list" where
  "sweep_from lCheckTime i vec =
     (if i < length vec then
        (if lCheckTime - lHeartBeatTime (vec ! i) > 60 * 1000
         then sweep_from lCheckTime i (take i vec @ drop (Suc i) vec)
         else sweep_from lCheckTime (Suc i) vec)
      else vec)"
  by pat_completeness auto
termination
  by (relation "measure (\<lambda>(t, i, vec). length vec - i)") auto

declare sweep_from.simps [simp del]

definition StartService_sweep :: "int \<Rightarrow> DcServer \<Rightarrow> DcServer" where
  "StartService_sweep lCheckTime st = st\<lparr>m_node_vec := sweep_from lCheckTime 0 (m_node_vec st)\<rparr>"

text \<open>
  \<^verbatim>\<open>StartService\<close> on a schedule: for each turn of the loop the tick count it reads and
  the value of \<^verbatim>\<open>m_bstop\<close> after the 45 second wait. The schedule's end is where the
  observation ends, the loop itself only ends on \<^verbatim>\<open>m_bstop\<close>.
\<close>

fun StartService :: "(int \<times> bool) list \<Rightarrow> DcServer \<Rightarrow> DcServer" where
  "StartService [] st = st"
| "StartService ((tick, bstop) # turns) st =
     (let st' = (StartService_sweep tick st)\<lparr>m_bstop := bstop\<rparr>
      in if bstop then st' else StartService turns st')"

section \<open>Choosing and dropping a node\<close>

text \<open>The first critical section of \<^verbatim>\<open>CollectWorkProc\<close>: \<open>None\<close> when no node is known.\<close>

definition pick_node :: "DcServer \<Rightarrow> dcnode_t option \<times> DcServer" where
  "pick_node st =
     (let node_size = int (length (m_node_vec st)) in
      if node_size > 0 then
        (let k = cmod (pickNum st) node_size
         in (Some (m_node_vec st ! nat k), st\<lparr>pickNum := k + 1\<rparr>))
      else (None, st))"

text \<open>The second one, after a failed call: erase the first entry of that address.\<close>

definition drop_node :: "string \<Rightarrow> int32 \<Rightarrow> DcServer \<Rightarrow> DcServer" where
  "drop_node i p st = st\<lparr>m_node_vec := erase_first (\<lambda>n. ip n = i \<and> port n = p) (m_node_vec st)\<rparr>"

section \<open>The call to a node\<close>

definition ClusterWorkProc :: "(app_error \<times> string) reader \<Rightarrow> peer \<Rightarrow> string \<Rightarrow> bool" where
  "ClusterWorkProc xread c msg =
     (if \<not> peer_open c then False
      else (case RequestClient_send_ClusterWork TBinaryProtocol msg of
          Inl _ \<Rightarrow> False
        | Inr (_, bs) \<Rightarrow> (case peer_answer c bs of
            Inl _ \<Rightarrow> False
          | Inr out \<Rightarrow> (case RequestClient_recv_ClusterWork TBinaryProtocol xread out of
              Inl _ \<Rightarrow> False
            | Inr (bsuccess, _, _) \<Rightarrow> if peer_close c then bsuccess else False))))"

section \<open>CollectWorkProc\<close>

datatype DC_HTTP_REPLY = DC_NO_ERR | DC_URL_ERR | DC_BODY_ERR | DC_NO_NODE | DC_NODE_ERR

primrec reply_code :: "DC_HTTP_REPLY \<Rightarrow> int" where
  "reply_code DC_NO_ERR = 0"
| "reply_code DC_URL_ERR = 1"
| "reply_code DC_BODY_ERR = 2"
| "reply_code DC_NO_NODE = 3"
| "reply_code DC_NODE_ERR = 4"

text \<open>
  A request's body: the bytes its buffer holds and how many \<^verbatim>\<open>evbuffer_remove\<close> copied.
\<close>

record http_body =
  body_bytes :: string
  body_removed :: int

text \<open>
  \<open>None\<close> is the end of the process (a failed assertion of rapidjson, or a
  \<^verbatim>\<open>std::string\<close> made from \<^verbatim>\<open>NULL\<close>), otherwise the calls of \<^verbatim>\<open>SendReply\<close>
  in order, with the state. \<open>fp\<close> holds the operations on doubles the JSON reader uses,
  \<open>peer_of\<close> stands for the network.
\<close>

type_synonym replies = "(string \<times> DC_HTTP_REPLY) list"

definition CollectWork_dispatch ::
    "(app_error \<times> string) reader \<Rightarrow> (string \<Rightarrow> int32 \<Rightarrow> peer) \<Rightarrow> string option \<Rightarrow> replies
     \<Rightarrow> DcServer \<Rightarrow> (replies \<times> DcServer) option" where
  "CollectWork_dispatch xread peer_of szIndexCode sent st =
     (case pick_node st of
        (Some node, st1) \<Rightarrow> (case szIndexCode of
            None \<Rightarrow> None
          | Some msg \<Rightarrow>
              if ClusterWorkProc xread (peer_of (ip node) (port node)) msg
              then Some (sent @ [(''200 OK'', DC_NO_ERR)], st1)
              else Some (sent @ [(''DCNODE ERROR'', DC_NODE_ERR)], drop_node (ip node) (port node) st1))
      | (None, st1) \<Rightarrow> Some (sent @ [(''NO AVAILABLE Node'', DC_NO_NODE)], st1))"

definition CollectWorkProc ::
    "'d fpu \<Rightarrow> (app_error \<times> string) reader \<Rightarrow> (string \<Rightarrow> int32 \<Rightarrow> peer)
     \<Rightarrow> http_body \<Rightarrow> DcServer \<Rightarrow> (replies \<times> DcServer) option" where
  "CollectWorkProc fp xread peer_of req st =
     (let req_len = int (length (body_bytes req)) in
      if body_removed req \<noteq> req_len then Some ([(''Body Data Recv Error'', DC_BODY_ERR)], st)
      else (case Document_Parse fp (c_str (body_bytes req)) of
          Inl (Parse_Error _ _) \<Rightarrow> Some ([(''Body Data Error'', DC_BODY_ERR)], st)
        | Inl _ \<Rightarrow> None
        | Inr document \<Rightarrow> (case Option.bind (json_index document ''indexCode'') GetString of
            None \<Rightarrow> None
          | Some szIndexCode \<Rightarrow>
              CollectWork_dispatch xread peer_of szIndexCode
                (if szIndexCode = None then [(''Body Data Error'', DC_BODY_ERR)] else []) st)))"

section \<open>Start and stop\<close>

text \<open>\<^verbatim>\<open>StopServer\<close>: posts and destroys the semaphore, joins the sweeper thread.\<close>

definition StopServer :: "DcServer \<Rightarrow> DcServer" where
  "StopServer st = st\<lparr>m_bstop := True, m_sem := False, m_hThread := False\<rparr>"

section \<open>The sweep is a filter\<close>

lemma sweep_from_filter:
  "sweep_from t i vec = take i vec @ filter (\<lambda>n. t - lHeartBeatTime n \<le> 60000) (drop i vec)"
proof (induction t i vec rule: sweep_from.induct)
  case (1 t i vec)
  show ?case
  proof (cases "i < length vec")
    case False
    then show ?thesis by (subst sweep_from.simps) simp
  next
    case True
    then have d: "drop i vec = vec ! i # drop (Suc i) vec" by (simp add: Cons_nth_drop_Suc)
    show ?thesis
    proof (cases "t - lHeartBeatTime (vec ! i) > 60 * 1000")
      case gone: True
      with True "1.IH"(1) have "sweep_from t i (take i vec @ drop (Suc i) vec)
          = take i vec @ filter (\<lambda>n. t - lHeartBeatTime n \<le> 60000) (drop (Suc i) vec)"
        by simp
      with True gone d show ?thesis by (subst sweep_from.simps) simp
    next
      case kept: False
      with True "1.IH"(2) have "sweep_from t (Suc i) vec
          = take (Suc i) vec @ filter (\<lambda>n. t - lHeartBeatTime n \<le> 60000) (drop (Suc i) vec)"
        by simp
      with True kept d show ?thesis
        by (subst sweep_from.simps) (simp add: take_Suc_conv_app_nth)
    qed
  qed
qed

lemma StartService_sweep_vec [simp]:
  "m_node_vec (StartService_sweep t st) = filter (\<lambda>n. t - lHeartBeatTime n \<le> 60000) (m_node_vec st)"
  by (simp add: StartService_sweep_def sweep_from_filter)

lemma StartService_sweep_pickNum [simp]: "pickNum (StartService_sweep t st) = pickNum st"
  by (simp add: StartService_sweep_def)

section \<open>Keys of the table\<close>

definition node_key :: "dcnode_t \<Rightarrow> string \<times> int32" where
  "node_key n = (ip n, port n)"

abbreviation node_keys :: "DcServer \<Rightarrow> (string \<times> int32) list" where
  "node_keys st \<equiv> map node_key (m_node_vec st)"

lemma touch_node_eq:
  "touch_node i p now vec =
     (update_first (\<lambda>n. node_key n = (i, p)) (\<lambda>n. n\<lparr>lHeartBeatTime := now\<rparr>) vec,
      (i, p) \<in> node_key ` set vec)"
  by (induction vec) (auto simp: node_key_def)

lemma node_key_stamp [simp]: "node_key (n\<lparr>lHeartBeatTime := t\<rparr>) = node_key n"
  by (simp add: node_key_def)

lemma node_key_made [simp]: "node_key \<lparr>ip = i, port = p, lHeartBeatTime = t\<rparr> = (i, p)"
  by (simp add: node_key_def)

lemma node_key_update [simp]:
  "map node_key (update_first P (\<lambda>n. n\<lparr>lHeartBeatTime := t\<rparr>) vec) = map node_key vec"
  by simp

lemma drop_node_vec:
  "m_node_vec (drop_node i p st) = erase_first (\<lambda>n. node_key n = (i, p)) (m_node_vec st)"
  by (simp add: drop_node_def node_key_def)

text \<open>Every address occurs at most once, and the round-robin counter is not negative.\<close>

definition table_ok :: "DcServer \<Rightarrow> bool" where
  "table_ok st \<longleftrightarrow> distinct (node_keys st) \<and> 0 \<le> pickNum st"

lemma table_ok_new: "table_ok DcServer_new"
  by (simp add: table_ok_def DcServer_new_def)

lemma RegisterWork_keys:
  "node_keys (snd (RegisterWork ci now st)) =
     (if (ci_Ip ci, ci_Port ci) \<in> set (node_keys st) then node_keys st
      else node_keys st @ [(ci_Ip ci, ci_Port ci)])"
  by (auto simp: RegisterWork_def touch_node_eq node_key_def)

lemma HeartBeatWork_keys: "node_keys (snd (HeartBeatWork hb now st)) = node_keys st"
  by (simp add: HeartBeatWork_def touch_node_eq)

lemma pick_node_vec [simp]: "m_node_vec (snd (pick_node st)) = m_node_vec st"
  by (simp add: pick_node_def Let_def)

lemma cmod_pick_bounds: "0 \<le> k \<Longrightarrow> 0 < n \<Longrightarrow> 0 \<le> cmod k n \<and> cmod k n < n"
  by simp

lemma table_ok_RegisterWork: "table_ok st \<Longrightarrow> table_ok (snd (RegisterWork ci now st))"
  using RegisterWork_keys [of ci now st]
  by (auto simp: table_ok_def RegisterWork_def touch_node_eq)

lemma table_ok_HeartBeatWork: "table_ok st \<Longrightarrow> table_ok (snd (HeartBeatWork hb now st))"
  using HeartBeatWork_keys [of hb now st]
  by (auto simp: table_ok_def HeartBeatWork_def touch_node_eq)

lemma table_ok_sweep: "table_ok st \<Longrightarrow> table_ok (StartService_sweep t st)"
  by (auto simp: table_ok_def distinct_map_filter)

lemma table_ok_pick: "table_ok st \<Longrightarrow> table_ok (snd (pick_node st))"
  by (auto simp: table_ok_def pick_node_def Let_def)

lemma table_ok_drop: "table_ok st \<Longrightarrow> table_ok (drop_node i p st)"
  by (auto simp: table_ok_def drop_node_vec distinct_map_erase_first) (simp add: drop_node_def)

lemmas table_ok_intros = table_ok_RegisterWork table_ok_HeartBeatWork table_ok_sweep
  table_ok_pick table_ok_drop

section \<open>The table as a finite map\<close>

text \<open>
  The specification of the table: a map from addresses to the time each was last heard
  of. The contract \<open>node_registry\<close> states what the handlers do to that map, and what
  clients of the table can rely on is proved from the contract alone.
\<close>

definition last_seen :: "DcServer \<Rightarrow> (string \<times> int32) \<rightharpoonup> int" where
  "last_seen st = map_of (map (\<lambda>n. (node_key n, lHeartBeatTime n)) (m_node_vec st))"

lemma last_seen_dom: "dom (last_seen st) = set (node_keys st)"
  by (simp add: last_seen_def dom_map_of_conv_image_fst image_image)

lemma map_of_update_first_at:
  "map_of (map (\<lambda>n. (node_key n, lHeartBeatTime n))
       (update_first (\<lambda>n. node_key n = k) (\<lambda>n. n\<lparr>lHeartBeatTime := t\<rparr>) vec)) k' =
     (if k' = k \<and> k \<in> node_key ` set vec then Some t
      else map_of (map (\<lambda>n. (node_key n, lHeartBeatTime n)) vec) k')"
proof (induction vec)
  case (Cons a vec)
  then show ?case by (cases "node_key a = k") auto
qed simp

lemma map_of_update_first:
  "map_of (map (\<lambda>n. (node_key n, lHeartBeatTime n))
       (update_first (\<lambda>n. node_key n = k) (\<lambda>n. n\<lparr>lHeartBeatTime := t\<rparr>) vec)) =
     (if k \<in> node_key ` set vec
      then (map_of (map (\<lambda>n. (node_key n, lHeartBeatTime n)) vec))(k \<mapsto> t)
      else map_of (map (\<lambda>n. (node_key n, lHeartBeatTime n)) vec))"
  by (rule ext) (simp add: map_of_update_first_at)

lemma last_seen_RegisterWork:
  "last_seen (snd (RegisterWork ci now st)) = (last_seen st)((ci_Ip ci, ci_Port ci) \<mapsto> now)"
proof -
  let ?k = "(ci_Ip ci, ci_Port ci)"
  let ?f = "\<lambda>n. (node_key n, lHeartBeatTime n)"
  show ?thesis
  proof (cases "?k \<in> node_key ` set (m_node_vec st)")
    case True
    then show ?thesis by (simp add: last_seen_def RegisterWork_def touch_node_eq map_of_update_first)
  next
    case False
    then have "map_of (map ?f (m_node_vec st)) ?k = None"
      by (auto simp: map_of_eq_None_iff image_iff)
    with False show ?thesis
      by (auto simp: last_seen_def RegisterWork_def touch_node_eq map_of_update_first fun_eq_iff
          map_add_def split: option.splits)
  qed
qed

lemma last_seen_HeartBeatWork:
  "last_seen (snd (HeartBeatWork hb now st)) =
     (if (hb_Ip hb, hb_Port hb) \<in> dom (last_seen st)
      then (last_seen st)((hb_Ip hb, hb_Port hb) \<mapsto> now) else last_seen st)"
  unfolding last_seen_dom
  by (simp add: last_seen_def HeartBeatWork_def touch_node_eq map_of_update_first)

lemma HeartBeatWork_result:
  "fst (HeartBeatWork hb now st) \<longleftrightarrow> (hb_Ip hb, hb_Port hb) \<in> dom (last_seen st)"
  unfolding last_seen_dom by (simp add: HeartBeatWork_def touch_node_eq)

lemma map_of_filter_key:
  "distinct (map g xs) \<Longrightarrow>
     map_of (map (\<lambda>n. (g n, h n)) (filter P xs)) k =
     (case find (\<lambda>n. g n = k) xs of None \<Rightarrow> None | Some n \<Rightarrow> if P n then Some (h n) else None)"
  by (induction xs) (auto simp: map_of_eq_None_iff image_iff find_None_iff split: option.splits
      dest!: find_Some_iff [THEN iffD1])

lemma map_of_find:
  "map_of (map (\<lambda>n. (g n, h n)) xs) k = map_option h (find (\<lambda>n. g n = k) xs)"
  by (induction xs) auto

lemma last_seen_find: "last_seen st k = map_option lHeartBeatTime (find (\<lambda>n. node_key n = k) (m_node_vec st))"
  unfolding last_seen_def by (rule map_of_find)

lemma last_seen_filter:
  assumes "table_ok st" and "m_node_vec st' = filter P (m_node_vec st)"
  shows "last_seen st' k = (case find (\<lambda>n. node_key n = k) (m_node_vec st) of
      None \<Rightarrow> None | Some n \<Rightarrow> if P n then Some (lHeartBeatTime n) else None)"
  using assms map_of_filter_key [of node_key "m_node_vec st" lHeartBeatTime P k]
  by (simp only: last_seen_def table_ok_def simp_thms)

lemma last_seen_sweep:
  assumes "table_ok st"
  shows "last_seen (StartService_sweep t st) =
    (\<lambda>k. case last_seen st k of None \<Rightarrow> None | Some h \<Rightarrow> if t - h \<le> 60000 then Some h else None)"
  by (rule ext) (simp only: last_seen_filter [OF assms StartService_sweep_vec],
      simp add: last_seen_find split: option.splits)

lemma last_seen_drop:
  assumes "table_ok st"
  shows "last_seen (drop_node i p st) = (last_seen st)((i, p) := None)"
proof (rule ext)
  fix k
  have "m_node_vec (drop_node i p st) = filter (\<lambda>n. node_key n \<noteq> (i, p)) (m_node_vec st)"
    using assms by (simp add: drop_node_vec table_ok_def erase_first_key_filter)
  from last_seen_filter [OF assms this, of k]
  show "last_seen (drop_node i p st) k = ((last_seen st)((i, p) := None)) k"
    by (auto simp: last_seen_find split: option.splits dest!: find_Some_iff [THEN iffD1])
qed

section \<open>The contract of the node table\<close>

text \<open>What an operation of the table does, as seen from outside.\<close>

datatype 'k table_op = Register 'k int | Beat 'k int | Sweep int | Drop 'k

fun table_spec :: "'k table_op \<Rightarrow> ('k \<rightharpoonup> int) \<Rightarrow> ('k \<rightharpoonup> int)" where
  "table_spec (Register k t) m = m(k \<mapsto> t)"
| "table_spec (Beat k t) m = (if k \<in> dom m then m(k \<mapsto> t) else m)"
| "table_spec (Sweep t) m =
     (\<lambda>k. case m k of None \<Rightarrow> None | Some h \<Rightarrow> if t - h \<le> 60000 then Some h else None)"
| "table_spec (Drop k) m = m(k := None)"

text \<open>
  An operation that leaves an address alone: it neither drops it nor sweeps it more than
  a minute after \<open>h\<close>.
\<close>

fun spares :: "'k \<Rightarrow> int \<Rightarrow> 'k table_op \<Rightarrow> bool" where
  "spares k h (Sweep t) = (t - h \<le> 60000)"
| "spares k h (Drop k') = (k' \<noteq> k)"
| "spares k h (Register k' t) = (k' = k \<longrightarrow> h \<le> t)"
| "spares k h (Beat k' t) = (k' = k \<longrightarrow> h \<le> t)"

locale node_registry =
  fixes init :: 's and seen :: "'s \<Rightarrow> 'k \<rightharpoonup> int" and ok :: "'s \<Rightarrow> bool"
    and register :: "'k \<Rightarrow> int \<Rightarrow> 's \<Rightarrow> 's" and beat :: "'k \<Rightarrow> int \<Rightarrow> 's \<Rightarrow> bool \<times> 's"
    and sweep :: "int \<Rightarrow> 's \<Rightarrow> 's" and discard :: "'k \<Rightarrow> 's \<Rightarrow> 's"
  assumes ok_init: "ok init" and seen_init: "seen init = Map.empty"
    and ok_register: "ok s \<Longrightarrow> ok (register k t s)"
    and ok_beat: "ok s \<Longrightarrow> ok (snd (beat k t s))"
    and ok_sweep: "ok s \<Longrightarrow> ok (sweep t s)"
    and ok_discard: "ok s \<Longrightarrow> ok (discard k s)"
    and seen_register: "seen (register k t s) = table_spec (Register k t) (seen s)"
    and seen_beat: "seen (snd (beat k t s)) = table_spec (Beat k t) (seen s)"
    and beat_answer: "fst (beat k t s) \<longleftrightarrow> k \<in> dom (seen s)"
    and seen_sweep: "ok s \<Longrightarrow> seen (sweep t s) = table_spec (Sweep t) (seen s)"
    and seen_discard: "ok s \<Longrightarrow> seen (discard k s) = table_spec (Drop k) (seen s)"
begin

fun exec :: "'k table_op \<Rightarrow> 's \<Rightarrow> 's" where
  "exec (Register k t) s = register k t s"
| "exec (Beat k t) s = snd (beat k t s)"
| "exec (Sweep t) s = sweep t s"
| "exec (Drop k) s = discard k s"

lemma exec_ok: "ok s \<Longrightarrow> ok (exec e s)"
  by (cases e) (auto intro: ok_register ok_beat ok_sweep ok_discard)

lemma exec_seen: "ok s \<Longrightarrow> seen (exec e s) = table_spec e (seen s)"
  by (cases e) (simp_all only: exec.simps seen_register seen_beat seen_sweep seen_discard)

lemma run_refines: "ok s \<Longrightarrow> ok (fold exec es s) \<and> seen (fold exec es s) = fold table_spec es (seen s)"
  by (induction es arbitrary: s) (simp_all add: exec_ok exec_seen)

lemma step_spares:
  assumes "ok s" and "seen s k = Some h" and "h0 \<le> h" and "spares k h0 e"
  shows "\<exists>h'. seen (exec e s) k = Some h' \<and> h0 \<le> h'"
  unfolding exec_seen [OF assms(1)] using assms by (cases e) auto

lemma run_spares:
  assumes "ok s" and "seen s k = Some h" and "h0 \<le> h" and "\<forall>e \<in> set es. spares k h0 e"
  shows "\<exists>h'. seen (fold exec es s) k = Some h' \<and> h0 \<le> h'"
  using assms
proof (induction es arbitrary: s h)
  case (Cons e es)
  then obtain h' where "seen (exec e s) k = Some h'" "h0 \<le> h'" using step_spares [of s k h h0 e] by auto
  with Cons.IH [of "exec e s" h'] Cons.prems exec_ok show ?case by simp
qed auto

theorem registered_is_heard:
  assumes "ok s" and "\<forall>e \<in> set es. spares k t e"
  shows "fst (beat k t' (fold exec es (register k t s)))"
proof -
  have "seen (register k t s) k = Some t" by (simp add: seen_register)
  from run_spares [OF ok_register [OF assms(1)] this order_refl assms(2)]
  show ?thesis by (auto simp: beat_answer)
qed

theorem unregistered_beat:
  "k \<notin> dom (seen s) \<Longrightarrow> \<not> fst (beat k t s) \<and> seen (snd (beat k t s)) = seen s"
  by (simp add: beat_answer seen_beat)

end

definition reg_op :: "string \<times> int32 \<Rightarrow> int \<Rightarrow> DcServer \<Rightarrow> DcServer" where
  "reg_op k t st = snd (RegisterWork (ClientInfo_new\<lparr>ci_Ip := fst k, ci_Port := snd k\<rparr>) t st)"

definition beat_op :: "string \<times> int32 \<Rightarrow> int \<Rightarrow> DcServer \<Rightarrow> bool \<times> DcServer" where
  "beat_op k t st = HeartBeatWork (HeartBeatInfo_new\<lparr>hb_Ip := fst k, hb_Port := snd k\<rparr>) t st"

definition drop_op :: "string \<times> int32 \<Rightarrow> DcServer \<Rightarrow> DcServer" where
  "drop_op k st = drop_node (fst k) (snd k) st"

lemma last_seen_new: "last_seen DcServer_new = Map.empty"
  by (simp add: last_seen_def DcServer_new_def)

interpretation dc_table: node_registry DcServer_new last_seen table_ok reg_op beat_op StartService_sweep drop_op
  by unfold_locales
    (auto simp: reg_op_def beat_op_def drop_op_def last_seen_RegisterWork last_seen_HeartBeatWork
      HeartBeatWork_result last_seen_sweep last_seen_drop last_seen_new
      intro: table_ok_intros table_ok_new)

section \<open>Round robin\<close>

fun pick_seq :: "nat \<Rightarrow> DcServer \<Rightarrow> dcnode_t list \<times> DcServer" where
  "pick_seq 0 st = ([], st)"
| "pick_seq (Suc n) st = (case pick_node st of
     (None, st') \<Rightarrow> ([], st')
   | (Some d, st') \<Rightarrow> let (ds, st'') = pick_seq n st' in (d # ds, st''))"

lemma pick_node_nth:
  assumes "table_ok st" and "m_node_vec st \<noteq> []"
  shows "pick_node st = (Some (m_node_vec st ! (nat (pickNum st) mod length (m_node_vec st))),
    st\<lparr>pickNum := int (nat (pickNum st) mod length (m_node_vec st)) + 1\<rparr>)"
  using assms by (simp add: pick_node_def Let_def table_ok_def zmod_int nat_mod_distrib)

lemma Suc_mod_left: "Suc (a mod n + i) mod n = Suc (a + i) mod n"
  by (metis add_Suc_right mod_add_left_eq)

lemma pick_seq_nth:
  assumes "table_ok st" and "m_node_vec st \<noteq> []"
  shows "fst (pick_seq m st) =
    map (\<lambda>i. m_node_vec st ! ((nat (pickNum st) + i) mod length (m_node_vec st))) [0..<m]"
  using assms
proof (induction m arbitrary: st)
  case (Suc m)
  let ?st' = "snd (pick_node st)"
  from Suc.prems have ok: "table_ok ?st'" and ne: "m_node_vec ?st' \<noteq> []"
    by (simp_all add: table_ok_pick)
  have num: "nat (pickNum ?st') = nat (pickNum st) mod length (m_node_vec st) + 1"
    using pick_node_nth [OF Suc.prems] by simp
  have "fst (pick_seq m ?st') = map (\<lambda>i. m_node_vec st ! ((nat (pickNum st) + Suc i) mod length (m_node_vec st))) [0..<m]"
    using Suc.IH [OF ok ne] by (simp add: num Suc_mod_left)
  then show ?case
    using pick_node_nth [OF Suc.prems]
    by (simp add: case_prod_beta map_Suc_upt [symmetric] upt_conv_Cons comp_def del: upt_Suc map_Suc_upt)
qed simp

lemma pick_seq_rotate:
  assumes "table_ok st"
  shows "fst (pick_seq (length (m_node_vec st)) st) = rotate (nat (pickNum st)) (m_node_vec st)"
proof (cases "m_node_vec st = []")
  case False
  then show ?thesis
    by (auto simp: pick_seq_nth [OF assms] nth_rotate intro!: nth_equalityI)
qed simp

end
