(* ===== verification/Json_Text.thy ===== *)
theory Json_Text
  imports Json_Document
begin

text \<open>
  Reading back what was printed. The reader returns every value whose compact JSON text it is
  given: strings as the writer escapes them, and each integer from \<open>- (2 ^ 63)\<close> to
  \<open>2 ^ 64 - 1\<close> exactly, in the narrowest of its four integer types; the two overflow tests of
  its digit loops are shown to be right for that.
\<close>

unbundle bit_operations_syntax

section \<open>Integers\<close>

definition read_from :: "nat \<Rightarrow> string \<Rightarrow> nat" where
  "read_from v s = foldl (\<lambda>a c. 10 * a + digit_val c) v s"

lemma read_from_simps [simp]: "read_from v [] = v" "read_from v (c # s) = read_from (10 * v + digit_val c) s"
  by (simp_all add: read_from_def)

lemma read_from_append: "read_from v (s @ t) = read_from (read_from v s) t"
  by (simp add: read_from_def)

lemma read_from_ge: "v \<le> read_from v s"
proof (induction s arbitrary: v)
  case (Cons c s)
  have "v \<le> 10 * v + digit_val c" by simp
  also have "\<dots> \<le> read_from \<dots> s" by (rule Cons)
  finally show ?case by simp
qed simp

lemma digit_loop_reads:
  fixes lim :: "'a::len word"
  assumes "10 * unat lim + digit_val l < 2 ^ LENGTH('a)" "is_digit l" "list_all is_digit ds" "\<not> is_digit (Peek rest)"
    and "v \<le> 10 * unat lim + digit_val l"
  shows "\<exists>ds1 ds2. ds = ds1 @ ds2 \<and> read_from v ds1 \<le> 10 * unat lim + digit_val l
    \<and> digit_loop lim l (of_nat v) sig (ds @ rest) = (of_nat (read_from v ds1), ds2 \<noteq> [], sig + length ds1, ds2 @ rest)
    \<and> (ds2 \<noteq> [] \<longrightarrow> 10 * unat lim + digit_val l < read_from v ds)"
  using assms(3,5)
proof (induction ds arbitrary: v sig)
  case Nil
  then show ?case using assms(4) by (cases rest) auto
next
  case (Cons c ds)
  let ?M = "10 * unat lim + digit_val l"
  have c: "is_digit c" "digit_val c < 10" and l: "digit_val l < 10"
    using Cons.prems assms(2) by (simp_all add: digit_val_less)
  have v: "unat (of_nat v :: 'a word) = v"
    using Cons.prems(2) assms(1) by (simp add: unat_of_nat take_bit_nat_eq_self_iff)
  have gt: "(of_char c :: nat) > of_char l \<longleftrightarrow> digit_val c > digit_val l"
    using c(1) assms(2) by (auto simp: is_digit_def digit_val_def)
  have "(lim \<le> of_nat v \<and> (of_nat v \<noteq> lim \<or> (of_char c :: nat) > of_char l)) \<longleftrightarrow> ?M < 10 * v + digit_val c"
    using v c(2) l unfolding gt word_le_nat_alt word_unat_eq_iff by auto
  then have step: "digit_loop lim l (of_nat v) sig ((c # ds) @ rest) =
     (if ?M < 10 * v + digit_val c then (of_nat v, True, sig, c # ds @ rest)
      else digit_loop lim l (of_nat (10 * v + digit_val c)) (Suc sig) (ds @ rest))"
    using c(1) by (simp add: algebra_simps)
  show ?case
  proof (cases "?M < 10 * v + digit_val c")
    case True
    moreover have "?M < read_from v (c # ds)"
      using True read_from_ge [of "10 * v + digit_val c" ds] by simp
    ultimately show ?thesis using step Cons.prems by (intro exI [of _ "[]"] exI [of _ "c # ds"]) simp
  next
    case False
    then have le: "10 * v + digit_val c \<le> ?M" by simp
    have "list_all is_digit ds" using Cons.prems by simp
    then obtain ds1 ds2 where
      "ds = ds1 @ ds2" "read_from (10 * v + digit_val c) ds1 \<le> ?M"
      "digit_loop lim l (of_nat (10 * v + digit_val c)) (Suc sig) (ds @ rest)
         = (of_nat (read_from (10 * v + digit_val c) ds1), ds2 \<noteq> [], Suc sig + length ds1, ds2 @ rest)"
      "ds2 \<noteq> [] \<longrightarrow> ?M < read_from (10 * v + digit_val c) ds"
      using Cons.IH [OF _ le, of "Suc sig"] by blast
    with step False show ?thesis by (intro exI [of _ "c # ds1"] exI [of _ ds2]) simp
  qed
qed

lemma digit_loop_fits:
  fixes lim :: "'a::len word"
  assumes "10 * unat lim + digit_val l < 2 ^ LENGTH('a)" "is_digit l" "list_all is_digit ds" "\<not> is_digit (Peek rest)"
    and "read_from v ds \<le> 10 * unat lim + digit_val l"
  shows "digit_loop lim l (of_nat v) sig (ds @ rest) = (of_nat (read_from v ds), False, sig + length ds, rest)"
  using digit_loop_reads [OF assms(1-4), of v sig] assms(5) read_from_ge [of v ds] by fastforce

lemma digit_loop_overflows:
  fixes lim :: "'a::len word"
  assumes "10 * unat lim + digit_val l < 2 ^ LENGTH('a)" "is_digit l" "list_all is_digit ds" "\<not> is_digit (Peek rest)"
    and "v \<le> 10 * unat lim + digit_val l" "10 * unat lim + digit_val l < read_from v ds"
  obtains w ds2 k where "digit_loop lim l (of_nat v) sig (ds @ rest) = (of_nat w, True, k, ds2 @ rest)"
    "w \<le> 10 * unat lim + digit_val l" "list_all is_digit ds2" "read_from w ds2 = read_from v ds"
proof -
  obtain ds1 ds2 where "ds = ds1 @ ds2" "read_from v ds1 \<le> 10 * unat lim + digit_val l"
    "digit_loop lim l (of_nat v) sig (ds @ rest) = (of_nat (read_from v ds1), ds2 \<noteq> [], sig + length ds1, ds2 @ rest)"
    using digit_loop_reads [OF assms(1-5), of sig] by blast
  moreover from this assms(6) have "ds2 \<noteq> []" by auto
  ultimately show ?thesis using assms(3) by (intro that) (simp_all add: read_from_append)
qed

text \<open>The printed digits of a positive number: the first one, and what the rest adds.\<close>

lemma show_nat_cons:
  assumes "0 < n"
  obtains c ds where "show_nat n = c # ds" "is_digit c" "c \<noteq> CHR ''0''" "list_all is_digit ds" "read_from (digit_val c) ds = n"
proof -
  obtain c ds where s: "show_nat n = c # ds" using show_nat_nonempty [of n] by (cases "show_nat n") auto
  then have "list_all is_digit (c # ds)" using show_nat_digits [of n] by simp
  moreover have "c \<noteq> CHR ''0''" using show_nat_hd [OF assms] s by simp
  moreover have "read_from (digit_val c) ds = n" using read_show_nat [of n] s by (simp add: read_nat_def read_from_def)
  ultimately show ?thesis using s by (intro that) simp_all
qed

definition int_limit :: "bool \<Rightarrow> nat" where
  "int_limit isneg = (if isneg then 2 ^ 31 else 2 ^ 32 - 1)"

definition int64_limit :: "bool \<Rightarrow> nat" where
  "int64_limit isneg = (if isneg then 2 ^ 63 else 2 ^ 64 - 1)"

lemma digit_constants: "is_digit (CHR ''8'')" "is_digit (CHR ''5'')" "digit_val (CHR ''8'') = 8" "digit_val (CHR ''5'') = 5"
  by (simp_all add: is_digit_def digit_val_def)

lemma ParseNumber_int_fits:
  assumes "0 < n" "n \<le> int_limit isneg" "\<not> is_digit (Peek rest)"
  shows "\<exists>k. ParseNumber_int isneg (show_nat n @ rest) = Some (of_nat n, False, k, rest)"
proof -
  obtain c ds where s: "show_nat n = c # ds" "is_digit c" "c \<noteq> CHR ''0''" "list_all is_digit ds" "read_from (digit_val c) ds = n"
    using assms(1) by (rule show_nat_cons)
  show ?thesis
    using s assms(2,3) digit_loop_fits [of "214748364 :: uint32" "CHR ''8''" ds rest "digit_val c" 0]
      digit_loop_fits [of "429496729 :: uint32" "CHR ''5''" ds rest "digit_val c" 0]
    by (cases isneg) (simp_all add: ParseNumber_int_def int_limit_def digit_constants Let_def)
qed

lemma ParseNumber_int_overflows:
  assumes "0 < n" "int_limit isneg < n" "\<not> is_digit (Peek rest)"
  obtains v ds k where "ParseNumber_int isneg (show_nat n @ rest) = Some (of_nat v, True, k, ds @ rest)"
    "v \<le> int_limit isneg" "list_all is_digit ds" "read_from v ds = n"
proof -
  obtain c ds where s: "show_nat n = c # ds" "is_digit c" "c \<noteq> CHR ''0''" "list_all is_digit ds" "read_from (digit_val c) ds = n"
    using assms(1) by (rule show_nat_cons)
  define lim :: uint32 where "lim = (if isneg then 214748364 else 429496729)"
  define l where "l = (if isneg then CHR ''8'' else CHR ''5'')"
  have lim: "10 * unat lim + digit_val l = int_limit isneg" "int_limit isneg < 2 ^ LENGTH(32)" "is_digit l" "9 < int_limit isneg"
    by (cases isneg; simp add: lim_def l_def int_limit_def digit_constants)+
  have "digit_val c \<le> int_limit isneg" using digit_val_less [OF s(2)] lim(4) by simp
  then obtain w ds2 k where "digit_loop lim l (of_nat (digit_val c)) 0 (ds @ rest) = (of_nat w, True, k, ds2 @ rest)"
    "w \<le> int_limit isneg" "list_all is_digit ds2" "read_from w ds2 = n"
    using digit_loop_overflows [where lim = lim and l = l and ds = ds and rest = rest and v = "digit_val c" and sig = 0, unfolded lim(1)]
      assms(2,3) s lim(2,3) by metis
  with s show ?thesis by (intro that [of w k ds2]) (simp_all add: ParseNumber_int_def Let_def lim_def l_def split: if_splits)
qed

lemma ParseNumber_int64_fits:
  assumes "read_from v ds \<le> int64_limit isneg" "list_all is_digit ds" "\<not> is_digit (Peek rest)"
  shows "ParseNumber_int64 isneg (of_nat v) k (ds @ rest) = (of_nat (read_from v ds), False, k + length ds, rest)"
  using assms digit_loop_fits [of "0x0CCCCCCCCCCCCCCC :: 64 word" "CHR ''8''" ds rest v k]
    digit_loop_fits [of "0x1999999999999999 :: 64 word" "CHR ''5''" ds rest v k]
  by (cases isneg) (simp_all add: ParseNumber_int64_def int64_limit_def digit_constants)

text \<open>The type the reader gives to an integer.\<close>

definition number_of_int :: "int \<Rightarrow> 'd number" where
  "number_of_int n =
     (if - (2 ^ 31) \<le> n \<and> n < 0 then NInt (of_int n)
      else if n < 0 then NInt64 (of_int n)
      else if n < 2 ^ 32 then NUint (of_int n)
      else NUint64 (of_int n))"

definition ends_number :: "string \<Rightarrow> bool" where
  "ends_number rest \<longleftrightarrow> \<not> is_digit (Peek rest) \<and> Peek rest \<notin> {CHR ''.'', CHR ''e'', CHR ''E''}"

lemma ParseNumber_rest_int:
  "ends_number rest \<Longrightarrow> ParseNumber_rest fp start isneg u i i64 sig None rest =
     Inr ([Ev_Number (if u then (if isneg then NInt64 (- i64) else NUint64 i64)
       else (if isneg then NInt (- i) else NUint i))], rest)"
  by (simp add: ParseNumber_rest_def ParseNumber_frac_def ParseNumber_exp_def ParseNumber_event_def ends_number_def
      minus_eq_not_plus_1)

lemma ParseNumber_digits:
  assumes "0 < n" "n \<le> int64_limit isneg" "ends_number rest"
    and "Consume (CHR ''-'') start = (isneg, show_nat n @ rest)"
  shows "ParseNumber fp start = Inr ([Ev_Number (number_of_int (if isneg then - int n else int n))], rest)"
proof (cases "n \<le> int_limit isneg")
  case True
  obtain k where "ParseNumber_int isneg (show_nat n @ rest) = Some (of_nat n, False, k, rest)"
    using ParseNumber_int_fits [OF assms(1) True, of rest] assms(3) by (auto simp: ends_number_def)
  with True assms show ?thesis
    by (cases isneg) (auto simp: ParseNumber_def ParseNumber_rest_int number_of_int_def int_limit_def)
next
  case False
  then obtain v ds k where v: "ParseNumber_int isneg (show_nat n @ rest) = Some (of_nat v, True, k, ds @ rest)"
    "v \<le> int_limit isneg" "list_all is_digit ds" "read_from v ds = n"
    using ParseNumber_int_overflows [OF assms(1), of isneg rest] assms(3) unfolding ends_number_def by (metis not_le)
  have "unat (of_nat v :: uint32) = v" using v(2) by (simp add: unat_of_nat take_bit_nat_eq_self_iff int_limit_def split: if_splits)
  then have "ucast (of_nat v :: uint32) = (of_nat v :: 64 word)" by (metis of_nat_unat)
  moreover have "ParseNumber_int64 isneg (of_nat v) k (ds @ rest) = (of_nat n, False, k + length ds, rest)"
    using ParseNumber_int64_fits [of v ds isneg rest k] v assms(2,3) by (simp add: ends_number_def)
  ultimately show ?thesis using False v(1) assms(3,4)
    by (cases isneg) (auto simp: ParseNumber_def ParseNumber_rest_int number_of_int_def int_limit_def)
qed

lemma ParseNumber_show_int:
  assumes "- (2 ^ 63) \<le> n" "n < 2 ^ 64" "ends_number rest"
  shows "ParseNumber fp (show_int n @ rest) = Inr ([Ev_Number (number_of_int n)], rest)"
proof -
  consider "n < 0" | "n = 0" | "0 < n" by linarith
  then show ?thesis
  proof cases
    case 1
    then show ?thesis using ParseNumber_digits [of "nat (- n)" True rest "show_int n @ rest" fp] assms
      by (simp add: show_int_def Consume_def int64_limit_def nat_le_iff)
  next
    case 2
    then show ?thesis using assms(3)
      by (simp add: show_int_def show_nat.simps digit_char_def ParseNumber_def Consume_def ParseNumber_int_def
          ParseNumber_rest_int number_of_int_def)
  next
    case 3
    moreover have "Peek (show_int n @ rest) \<noteq> CHR ''-''"
      using 3 show_nat_digits [of "nat n"] show_nat_nonempty [of "nat n"]
      by (cases "show_nat (nat n)") (auto simp: show_int_def is_digit_def)
    ultimately show ?thesis using ParseNumber_digits [of "nat n" False rest "show_int n @ rest" fp] assms
      by (simp add: show_int_def Consume_def int64_limit_def nat_le_iff)
  qed
qed

section \<open>Strings\<close>

lemma hex_digit_hexDigits: "i < 16 \<Longrightarrow> hex_digit (hexDigits ! i) = Some i"
proof -
  have "list_all (\<lambda>i. hex_digit (hexDigits ! i) = Some i) [0..<16]" by code_simp
  then show "i < 16 \<Longrightarrow> hex_digit (hexDigits ! i) = Some i" by (simp add: list_all_iff)
qed

lemma hex_digit_0 [simp]: "hex_digit (CHR ''0'') = Some 0"
  by (simp add: hex_digit_def)

lemma parse_escape_control:
  assumes "of_char c < (32 :: nat)"
  shows "parse_escape (CHR 0x5C # CHR ''u'' # CHR ''0'' # CHR ''0'' # hexDigits ! (of_char c div 16)
    # hexDigits ! (of_char c mod 16) # rest) = Inr ([c], rest)"
proof -
  have four: "4 = Suc (Suc (Suc (Suc 0)))" by simp
  have "of_char c div (16 :: nat) < 16" using assms by (simp add: less_mult_imp_div_less)
  then have "ParseHex4 off (CHR ''0'' # CHR ''0'' # hexDigits ! (of_char c div 16) # hexDigits ! (of_char c mod 16) # rest)
      = Inr (of_char c, rest)" for off
    unfolding ParseHex4_def four by (simp add: hex_digit_hexDigits)
  moreover have "UTF8_Encode (of_char c) = Some [c]"
  proof -
    have "of_char c AND (255 :: nat) = of_char c"
      using assms take_bit_eq_mask [of 8 "of_char c :: nat"] take_bit_nat_eq_self [of "of_char c" 8]
      by (simp add: mask_eq_exp_minus_1)
    then show ?thesis using assms by (simp add: UTF8_Encode_def)
  qed
  ultimately show ?thesis using assms
    by (simp add: parse_escape_def Let_def escape_read_def parse_unicode_def encode_to_def)
qed

lemma read_write_char: "ParseStringToStream out (write_char c @ rest) = ParseStringToStream (out @ [c]) rest"
proof -
  consider "escape c = None" | "escape c = Some (CHR ''u'')" "of_char c < (32 :: nat)"
    | "c \<in> {CHR 0x08, CHR 0x09, CHR 0x0A, CHR 0x0C, CHR 0x0D, CHR 0x22, CHR 0x5C}"
    by (cases "c \<in> {CHR 0x08, CHR 0x09, CHR 0x0A, CHR 0x0C, CHR 0x0D, CHR 0x22, CHR 0x5C}";
        cases "of_char c < (32 :: nat)") (simp_all add: escape_def)
  then show ?thesis
  proof cases
    case 1
    then have "c \<noteq> CHR 0x22" "c \<noteq> CHR 0x5C" "\<not> of_char c < (32 :: nat)"
      by (auto simp: escape_def split: if_splits)
    with 1 show ?thesis by (subst ParseStringToStream.simps) (simp add: write_char_def)
  next
    case 2
    then show ?thesis
      by (subst ParseStringToStream.simps) (simp add: write_char_def parse_escape_control)
  next
    case 3
    then show ?thesis
      by (subst ParseStringToStream.simps) (auto simp: write_char_def escape_def parse_escape_def escape_read_def)
  qed
qed

lemma read_written: "ParseStringToStream out (concat (map write_char str) @ CHR 0x22 # rest) = Inr (out @ str, rest)"
proof (induction str arbitrary: out)
  case Nil
  show ?case by (subst ParseStringToStream.simps) simp
next
  case (Cons c str)
  then show ?case by (simp add: read_write_char)
qed

lemma ParseString_WriteString: "ParseString (WriteString str @ rest) = Inr (str, rest)"
  using read_written [of "[]" str rest] by (simp add: ParseString_def WriteString_def)

section \<open>Values\<close>

text \<open>The compact text of a value; numbers are printed in decimal.\<close>

fun int_of_number :: "'d number \<Rightarrow> int" where
  "int_of_number (NInt w) = sint w"
| "int_of_number (NUint w) = uint w"
| "int_of_number (NInt64 w) = sint w"
| "int_of_number (NUint64 w) = uint w"
| "int_of_number (NDouble d) = 0"

fun commas :: "string list \<Rightarrow> string" where
  "commas [] = []"
| "commas [t] = t"
| "commas (t # ts) = t @ CHR '','' # commas ts"

fun json_text :: "'d json \<Rightarrow> string" and member_text :: "string \<times> 'd json \<Rightarrow> string" where
  "json_text JNull = ''null''"
| "json_text (JBool b) = (if b then ''true'' else ''false'')"
| "json_text (JNumber n) = show_int (int_of_number n)"
| "json_text (JString str) = WriteString str"
| "json_text (JArray vs) = CHR ''['' # commas (map json_text vs) @ '']''"
| "json_text (JObject ms) = CHR ''{'' # commas (map member_text ms) @ ''}''"
| "member_text (key, v) = WriteString key @ CHR '':'' # json_text v"

text \<open>The values without doubles whose integers have the type the reader would give them.\<close>

fun reader_number :: "'d number \<Rightarrow> bool" where
  "reader_number (NInt w) = (sint w < 0)"
| "reader_number (NUint w) = True"
| "reader_number (NInt64 w) = (sint w < - (2 ^ 31))"
| "reader_number (NUint64 w) = (2 ^ 32 \<le> uint w)"
| "reader_number (NDouble d) = False"

fun printable :: "'d json \<Rightarrow> bool" and printable_member :: "string \<times> 'd json \<Rightarrow> bool" where
  "printable (JNumber n) = reader_number n"
| "printable (JArray vs) = list_all printable vs"
| "printable (JObject ms) = list_all printable_member ms"
| "printable JNull = True"
| "printable (JBool b) = True"
| "printable (JString str) = True"
| "printable_member (key, v) = printable v"

lemma number_of_int_of_number: "reader_number n \<Longrightarrow> number_of_int (int_of_number n) = n"
  using sint_greater_eq [where 'a = 32] uint_bounded [where 'a = 32]
  by (cases n) (auto simp: number_of_int_def not_le)

lemma int_of_number_of_int:
  assumes "- (2 ^ 63) \<le> n" "n < 2 ^ 64"
  shows "int_of_number (number_of_int n :: 'd number) = n"
proof -
  have "sint (of_int n :: 32 word) = n" if "- (2 ^ 31) \<le> n" "n < 2 ^ 31"
    using that by (simp add: sint_sbintrunc' signed_take_bit_int_eq_self)
  moreover have "sint (of_int n :: 64 word) = n" if "n < 2 ^ 63"
    using that assms(1) by (simp add: sint_sbintrunc' signed_take_bit_int_eq_self)
  moreover have "uint (of_int n :: 32 word) = n" if "0 \<le> n" "n < 2 ^ 32"
    using that by (simp add: uint_word_of_int take_bit_int_eq_self)
  moreover have "uint (of_int n :: 64 word) = n" if "0 \<le> n"
    using that assms(2) by (simp add: uint_word_of_int take_bit_int_eq_self)
  ultimately show ?thesis by (simp add: number_of_int_def)
qed

lemma int_of_number_range:
  "reader_number n \<Longrightarrow> - (2 ^ 63) \<le> int_of_number n"
  "reader_number n \<Longrightarrow> int_of_number n < 2 ^ 64"
proof -
  have w: "- 2147483648 \<le> sint w" "0 \<le> uint w" "uint w < 4294967296" for w :: "32 word"
    using sint_greater_eq [of w] uint_bounded [of w] by simp_all
  have d: "- 9223372036854775808 \<le> sint w" "uint w < 18446744073709551616" for w :: "64 word"
    using sint_greater_eq [of w] uint_bounded [of w] by simp_all
  show "reader_number n \<Longrightarrow> - (2 ^ 63) \<le> int_of_number n"
    using w d by (cases n) (simp_all add: order.trans [OF _ w(1)] order.trans [OF _ w(2)])
  show "reader_number n \<Longrightarrow> int_of_number n < 2 ^ 64"
    using w d by (cases n) (simp_all add: order.strict_trans [OF w(3)])
qed

definition value_start :: "char \<Rightarrow> bool" where
  "value_start c \<longleftrightarrow> c \<in> set ''ntf{[-'' \<or> c = CHR 0x22 \<or> is_digit c"

lemma show_int_start: "show_int n \<noteq> []" "Peek (show_int n) = CHR ''-'' \<or> is_digit (Peek (show_int n))"
  using show_nat_digits [of "nat n"] show_nat_nonempty [of "nat n"]
  by (cases "show_nat (nat n)"; simp add: show_int_def)+

lemma json_text_start: "json_text v \<noteq> []" "value_start (Peek (json_text v))"
  using show_int_start by (cases v; auto simp: value_start_def WriteString_def)+

lemma SkipWhitespace_value: "value_start (Peek s) \<Longrightarrow> SkipWhitespace s = s"
  by (cases s) (auto simp: value_start_def is_digit_def)

lemma Peek_append: "t \<noteq> [] \<Longrightarrow> Peek (t @ r) = Peek t"
  by (cases t) simp_all

lemma Peek_commas: "t \<noteq> [] \<Longrightarrow> Peek (commas (t # ts) @ r) = Peek t"
  by (cases ts) (simp_all add: Peek_append)

lemma ends_number_simps [simp]:
  "ends_number (CHR '','' # r)" "ends_number (CHR '']'' # r)" "ends_number (CHR ''}'' # r)" "ends_number []"
  by (simp_all add: ends_number_def is_digit_def)

lemma read_elements:
  assumes "vs \<noteq> []" "length vs \<le> m"
    and pv: "\<And>v rest. v \<in> set vs \<Longrightarrow> ends_number rest \<Longrightarrow> pv (json_text v @ rest) = Inr (events_of v, rest)"
  shows "ParseArray_elements pv m c (commas (map json_text vs) @ CHR '']'' # rest)
    = Inr (concat (map events_of vs) @ [Ev_EndArray (c + length vs)], rest)"
  using assms
proof (induction vs arbitrary: m c rule: induct_list012)
  case (2 v)
  then show ?case by (cases m) (simp_all add: ends_number_def is_digit_def)
next
  case (3 v w vs)
  obtain m' where m: "m = Suc m'" using 3(4) by (cases m) simp_all
  have "ends_number (CHR '','' # commas (map json_text (w # vs)) @ CHR '']'' # rest)"
    by (simp add: ends_number_def is_digit_def)
  then have "pv (json_text v @ CHR '','' # commas (map json_text (w # vs)) @ CHR '']'' # rest)
      = Inr (events_of v, CHR '','' # commas (map json_text (w # vs)) @ CHR '']'' # rest)"
    using 3(5) by simp
  moreover have "SkipWhitespace (commas (map json_text (w # vs)) @ CHR '']'' # rest)
      = commas (map json_text (w # vs)) @ CHR '']'' # rest"
    by (simp add: SkipWhitespace_value Peek_commas json_text_start)
  moreover have "ParseArray_elements pv m' (Suc c) (commas (map json_text (w # vs)) @ CHR '']'' # rest)
      = Inr (concat (map events_of (w # vs)) @ [Ev_EndArray (Suc c + length (w # vs))], rest)"
    using 3 m by simp
  ultimately show ?case using m by (simp add: Let_def)
qed simp

lemma Peek_member_text: "member_text m \<noteq> []" "Peek (member_text m) = CHR 0x22"
  by (cases m; simp add: WriteString_def)+

lemma member_text_value:
  "printable_member m = printable (snd m)" "length (json_text (snd m)) \<le> length (member_text m)"
  by (cases m; simp)+

lemma read_member:
  assumes "\<And>rest. ends_number rest \<Longrightarrow> pv (json_text v @ rest) = Inr (events_of v, rest)"
    and "ends_number rest" "SkipWhitespace rest = rest"
  shows "ParseObject_members pv (Suc n) c (member_text (key, v) @ rest) =
    (if Peek rest = CHR '','' then map_sum id (\<lambda>(es', s'). (Ev_Key key # events_of v @ es', s'))
         (ParseObject_members pv n (Suc c) (SkipWhitespace (tl rest)))
     else if Peek rest = CHR ''}'' then Inr (Ev_Key key # events_of v @ [Ev_EndObject (Suc c)], tl rest)
     else Inl (Parse_Error kParseErrorObjectMissCommaOrCurlyBracket rest))"
proof -
  have "ParseString (member_text (key, v) @ rest) = Inr (key, CHR '':'' # json_text v @ rest)"
    using ParseString_WriteString [of key "CHR '':'' # json_text v @ rest"] by simp
  moreover have "SkipWhitespace (json_text v @ rest) = json_text v @ rest"
    by (simp add: SkipWhitespace_value Peek_append json_text_start)
  moreover have "Peek (member_text (key, v) @ rest) = CHR 0x22"
    by (simp only: Peek_append Peek_member_text not_False_eq_True)
  ultimately show ?thesis using assms by (simp add: Let_def del: member_text.simps)
qed

lemma read_members:
  assumes "ms \<noteq> []" "length ms \<le> n"
    and pv: "\<And>m rest. m \<in> set ms \<Longrightarrow> ends_number rest \<Longrightarrow> pv (json_text (snd m) @ rest) = Inr (events_of (snd m), rest)"
  shows "ParseObject_members pv n c (commas (map member_text ms) @ CHR ''}'' # rest)
    = Inr (concat (map member_events ms) @ [Ev_EndObject (c + length ms)], rest)"
  using assms
proof (induction ms arbitrary: n c rule: induct_list012)
  case (2 m)
  obtain key v where "m = (key, v)" by fastforce
  then show ?case using 2 read_member [of pv v "CHR ''}'' # rest" "n - 1" c key]
    by (cases n) (simp_all add: ends_number_def is_digit_def del: member_text.simps ParseObject_members.simps(2))
next
  case (3 m m' ms)
  obtain n' where n: "n = Suc n'" using 3(4) by (cases n) simp_all
  obtain key v where m: "m = (key, v)" by fastforce
  then have pv': "\<And>r. ends_number r \<Longrightarrow> pv (json_text v @ r) = Inr (events_of v, r)" using 3(5) [of m] by simp
  let ?r = "commas (map member_text (m' # ms)) @ CHR ''}'' # rest"
  have "ParseObject_members pv (Suc n') c (member_text (key, v) @ CHR '','' # ?r)
     = map_sum id (\<lambda>(es', s'). (Ev_Key key # events_of v @ es', s')) (ParseObject_members pv n' (Suc c) (SkipWhitespace ?r))"
    using read_member [OF pv', of "CHR '','' # ?r" n' c key] by (simp del: member_text.simps ParseObject_members.simps(2))
  moreover have "SkipWhitespace ?r = ?r"
    by (rule SkipWhitespace_value) (simp add: Peek_commas Peek_member_text value_start_def)
  moreover have "ParseObject_members pv n' (Suc c) ?r
      = Inr (concat (map member_events (m' # ms)) @ [Ev_EndObject (Suc c + length (m' # ms))], rest)"
    using 3 n by (simp del: member_text.simps ParseObject_members.simps(2))
  ultimately show ?case using m n by (simp del: member_text.simps ParseObject_members.simps(2))
qed simp

lemma commas_length: "t \<in> set ts \<Longrightarrow> length t \<le> length (commas ts)"
  by (induction ts rule: commas.induct) auto

lemma commas_count: "list_all (\<lambda>t. t \<noteq> []) ts \<Longrightarrow> length ts \<le> length (commas ts)"
proof (induction ts rule: commas.induct)
  case (2 t)
  then show ?case by (cases t) simp_all
qed auto

lemma read_array:
  assumes pv: "\<And>v rest. v \<in> set vs \<Longrightarrow> ends_number rest \<Longrightarrow> pv (json_text v @ rest) = Inr (events_of v, rest)"
  shows "ParseArray pv (json_text (JArray vs) @ rest) = Inr (events_of (JArray vs), rest)"
proof (cases vs)
  case (Cons v ws)
  let ?t = "commas (map json_text vs) @ CHR '']'' # rest"
  have start: "Peek ?t = Peek (json_text v)" using Cons by (simp add: Peek_commas json_text_start)
  then have "SkipWhitespace ?t = ?t" by (simp add: SkipWhitespace_value json_text_start)
  moreover have "Peek ?t \<noteq> CHR '']''" using start json_text_start(2) [of v] by (auto simp: value_start_def is_digit_def)
  moreover have "length vs \<le> Suc (length ?t)"
    using commas_count [of "map json_text vs"] by (simp add: list_all_iff json_text_start)
  ultimately show ?thesis using read_elements [of vs "Suc (length ?t)" pv 0 rest] pv Cons
    by (simp add: ParseArray_def Let_def del: ParseArray_elements.simps)
qed (simp add: ParseArray_def)

lemma read_object:
  assumes pv: "\<And>m rest. m \<in> set ms \<Longrightarrow> ends_number rest \<Longrightarrow> pv (json_text (snd m) @ rest) = Inr (events_of (snd m), rest)"
  shows "ParseObject pv (json_text (JObject ms) @ rest) = Inr (events_of (JObject ms), rest)"
proof (cases ms)
  case (Cons m ms')
  let ?t = "commas (map member_text ms) @ CHR ''}'' # rest"
  have start: "Peek ?t = CHR 0x22" using Cons by (simp add: Peek_commas Peek_member_text)
  then have "SkipWhitespace ?t = ?t" by (simp add: SkipWhitespace_value value_start_def)
  moreover have "length ms \<le> Suc (length ?t)"
    using commas_count [of "map member_text ms"] by (simp add: list_all_iff Peek_member_text)
  ultimately show ?thesis using read_members [of ms "Suc (length ?t)" pv 0 rest] pv Cons start
    by (simp add: ParseObject_def Let_def del: ParseObject_members.simps)
qed (simp add: ParseObject_def)

lemma read_scalars:
  "ParseNull (''null'' @ rest) = Inr ([Ev_Null], rest)" "ParseTrue (''true'' @ rest) = Inr ([Ev_Bool True], rest)"
  "ParseFalse (''false'' @ rest) = Inr ([Ev_Bool False], rest)"
  by (simp_all add: ParseNull_def ParseTrue_def ParseFalse_def Consume_def)

lemma ParseValue_json_text:
  "printable v \<Longrightarrow> length (json_text v) \<le> k \<Longrightarrow> ends_number rest \<Longrightarrow>
    ParseValue fp k (json_text v @ rest) = Inr (events_of v, rest)"
proof (induction k arbitrary: v rest)
  case 0
  then show ?case using json_text_start(1) [of v] by simp
next
  case (Suc k)
  show ?case
  proof (cases v)
    case (JNumber n)
    have "value_start (Peek (json_text v @ rest))" "Peek (json_text v @ rest) \<notin> set ''ntf{['' \<union> {CHR 0x22}"
      using show_int_start [of "int_of_number n"] JNumber by (auto simp: value_start_def Peek_append is_digit_def)
    then show ?thesis
      using JNumber Suc.prems ParseNumber_show_int [of "int_of_number n" rest fp] int_of_number_range [of n]
      by (simp add: number_of_int_of_number)
  next
    case (JString str)
    then show ?thesis using ParseString_WriteString [of str rest] by (simp add: WriteString_def)
  next
    case (JArray vs)
    have "ParseValue fp k (json_text w @ r) = Inr (events_of w, r)" if "w \<in> set vs" "ends_number r" for w r
      using that JArray Suc.prems commas_length [of "json_text w" "map json_text vs"]
      by (intro Suc.IH) (auto simp: list_all_iff)
    then show ?thesis using read_array [of vs "ParseValue fp k" rest] JArray by simp
  next
    case (JObject ms)
    have "ParseValue fp k (json_text (snd m) @ r) = Inr (events_of (snd m), r)" if "m \<in> set ms" "ends_number r" for m r
      using that JObject Suc.prems commas_length [of "member_text m" "map member_text ms"] member_text_value [of m]
      by (intro Suc.IH) (auto simp: list_all_iff)
    then show ?thesis using read_object [of ms "ParseValue fp k" rest] JObject by simp
  qed (simp_all add: read_scalars [simplified])
qed

text \<open>The white space the reader skips.\<close>

definition json_ws :: "char \<Rightarrow> bool" where
  "json_ws c \<longleftrightarrow> c = CHR '' '' \<or> c = CHR 0x0A \<or> c = CHR 0x0D \<or> c = CHR 0x09"

lemma SkipWhitespace_ws: "list_all json_ws ws \<Longrightarrow> SkipWhitespace (ws @ s) = SkipWhitespace s"
  by (induction ws) (auto simp: json_ws_def)

lemma ends_number_ws: "list_all json_ws ws \<Longrightarrow> ends_number ws"
  by (cases ws) (auto simp: json_ws_def ends_number_def is_digit_def)

lemma document_text_parses:
  assumes "printable v" "list_all json_ws ws" "list_all json_ws ws'"
  shows "Document_Parse fp (ws @ json_text v @ ws') = Inr v"
proof -
  let ?s = "json_text v @ ws'"
  have "ParseValue fp (Suc (length ?s)) ?s = Inr (events_of v, ws')"
    using assms by (intro ParseValue_json_text) (simp_all add: ends_number_ws)
  moreover have "SkipWhitespace (ws @ ?s) = ?s"
    using assms(2) by (simp add: SkipWhitespace_ws SkipWhitespace_value Peek_append json_text_start)
  moreover have "Peek ?s \<noteq> CHR 0x00"
    using json_text_start [of v] by (auto simp: Peek_append value_start_def)
  moreover have "SkipWhitespace ws' = []" using SkipWhitespace_ws [OF assms(3), of "[]"] by simp
  ultimately have "Reader_Parse fp (ws @ ?s) = Inr (events_of v)"
    by (simp add: Reader_Parse_def Let_def del: ParseValue.simps)
  then show ?thesis by (simp add: Document_Parse_def run_events_of)
qed

definition demo_fpu :: "unit fpu" where
  "demo_fpu = \<lparr>fp_of_uint64 = (\<lambda>_. ()), fp_dec = (\<lambda>_ _. ()), fp_add = (\<lambda>_ _. ()), fp_mul = (\<lambda>_ _. ()),
     fp_div = (\<lambda>_ _. ()), fp_neg = (\<lambda>_. ()), fp_ge = (\<lambda>_ _. True), fp_gt = (\<lambda>_ _. False)\<rparr>"

text \<open>Every integer from the least signed to the greatest unsigned number of 64 bits is read
  without loss, whatever follows it that is not part of a number, and gets the first of the types
  int, unsigned, int64 and uint64 that holds it with its sign.\<close>

lemma integers_are_read_exactly:
  assumes "- (2 ^ 63) \<le> n" "n < 2 ^ 64" "ends_number rest"
  shows "ParseNumber fp (show_int n @ rest) = Inr ([Ev_Number (number_of_int n)], rest)
    \<and> int_of_number (number_of_int n :: 'd number) = n"
  using ParseNumber_show_int [OF assms] int_of_number_of_int [OF assms(1,2)] by blast

theorem integers_are_read_exactly_witness:
  "ParseNumber demo_fpu (show_int (- (2 ^ 63)) @ '']'') = Inr ([Ev_Number (NInt64 (of_int (- (2 ^ 63))))], '']'')"
  using integers_are_read_exactly [of "- (2 ^ 63)" "'']''" demo_fpu] by (simp add: number_of_int_def)

end
