(* ===== verification/Dc_Threads.thy ===== *)
theory Dc_Threads
  imports Dc_Server Json_Text
begin

text \<open>
  The server's threads against each other (\<open>dc_step\<close>, one step per critical section of
  \<^verbatim>\<open>m_Manmutex\<close>), and the properties of the table, the scheduler, the request handler
  and the sweeper.
\<close>

section \<open>The threads of the server\<close>

text \<open>
  Thrift workers run \<open>RegisterWork\<close> and \<open>HeartBeatWork\<close>, the sweeper samples the clock
  before it takes the lock (\<^verbatim>\<open>lCheckTime\<close>), HTTP workers pick a node, call it without the
  lock and, when the call fails, erase it. A step is one critical section, or the sweeper's
  sample, or time passing. \<open>inflight\<close> holds each HTTP worker's copy of the node it picked.
\<close>

record dcsys =
  srv :: DcServer
  clock :: int
  sampled :: "int option"
  inflight :: "nat \<rightharpoonup> dcnode_t"

datatype dc_event =
    EvTick int
  | EvRegister ClientInfo
  | EvHeartBeat HeartBeatInfo
  | EvSample
  | EvSweep
  | EvPick nat
  | EvOk nat
  | EvFail nat "string \<times> int32"

definition dcsys_new :: "int \<Rightarrow> dcsys" where
  "dcsys_new t = \<lparr>srv = DcServer_new, clock = t, sampled = None, inflight = Map.empty\<rparr>"

inductive dc_step :: "dcsys \<Rightarrow> dc_event \<Rightarrow> dcsys \<Rightarrow> bool" where
  tick: "0 \<le> d \<Longrightarrow> dc_step s (EvTick d) (s\<lparr>clock := clock s + d\<rparr>)"
| register: "dc_step s (EvRegister ci) (s\<lparr>srv := snd (RegisterWork ci (clock s) (srv s))\<rparr>)"
| heartbeat: "dc_step s (EvHeartBeat hb) (s\<lparr>srv := snd (HeartBeatWork hb (clock s) (srv s))\<rparr>)"
| sample: "sampled s = None \<Longrightarrow> dc_step s EvSample (s\<lparr>sampled := Some (clock s)\<rparr>)"
| sweep: "sampled s = Some t \<Longrightarrow>
    dc_step s EvSweep (s\<lparr>srv := StartService_sweep t (srv s), sampled := None\<rparr>)"
| pick: "inflight s r = None \<Longrightarrow> pick_node (srv s) = (Some d, st') \<Longrightarrow>
    dc_step s (EvPick r) (s\<lparr>srv := st', inflight := (inflight s)(r \<mapsto> d)\<rparr>)"
| rpc_ok: "inflight s r = Some d \<Longrightarrow> dc_step s (EvOk r) (s\<lparr>inflight := (inflight s)(r := None)\<rparr>)"
| rpc_fail: "inflight s r = Some d \<Longrightarrow>
    dc_step s (EvFail r (node_key d)) (s\<lparr>srv := drop_node (ip d) (port d) (srv s), inflight := (inflight s)(r := None)\<rparr>)"

inductive_cases dc_stepE: "dc_step s e s'"

inductive_simps dc_step_simps:
  "dc_step s (EvTick d) s'" "dc_step s (EvRegister ci) s'" "dc_step s (EvHeartBeat hb) s'"
  "dc_step s EvSample s'" "dc_step s EvSweep s'" "dc_step s (EvPick r) s'" "dc_step s (EvOk r) s'"
  "dc_step s (EvFail r k) s'"

inductive dc_run :: "dcsys \<Rightarrow> dc_event list \<Rightarrow> dcsys \<Rightarrow> bool" where
  nil: "dc_run s [] s"
| cons: "dc_step s e s' \<Longrightarrow> dc_run s' es s'' \<Longrightarrow> dc_run s (e # es) s''"

inductive_simps dc_run_simps: "dc_run s [] s'" "dc_run s (e # es) s'"

definition dcsys_ok :: "dcsys \<Rightarrow> bool" where
  "dcsys_ok s \<longleftrightarrow> table_ok (srv s) \<and> (\<forall>n \<in> set (m_node_vec (srv s)). lHeartBeatTime n \<le> clock s)
     \<and> (\<forall>t. sampled s = Some t \<longrightarrow> t \<le> clock s)"

lemma dcsys_ok_new: "dcsys_ok (dcsys_new t)"
  by (simp add: dcsys_ok_def dcsys_new_def table_ok_new) (simp add: DcServer_new_def)

lemma stamps_touched:
  "n \<in> set (update_first P (\<lambda>n. n\<lparr>lHeartBeatTime := now\<rparr>) vec) \<Longrightarrow> n \<in> set vec \<or> lHeartBeatTime n = now"
  by (induction vec) (auto split: if_splits)

lemma stamps_RegisterWork:
  "n \<in> set (m_node_vec (snd (RegisterWork ci now st))) \<Longrightarrow> n \<in> set (m_node_vec st) \<or> lHeartBeatTime n = now"
  by (auto simp: RegisterWork_def touch_node_eq split: if_splits dest: stamps_touched)

lemma stamps_HeartBeatWork:
  "n \<in> set (m_node_vec (snd (HeartBeatWork hb now st))) \<Longrightarrow> n \<in> set (m_node_vec st) \<or> lHeartBeatTime n = now"
  by (auto simp: HeartBeatWork_def touch_node_eq dest: stamps_touched)

lemma stamps_drop: "n \<in> set (m_node_vec (drop_node i p st)) \<Longrightarrow> n \<in> set (m_node_vec st)"
  by (auto simp: drop_node_vec dest: set_erase_first_subset [THEN subsetD])

lemma pick_node_table:
  assumes "pick_node st = (Some d, st')" and "table_ok st"
  shows "m_node_vec st' = m_node_vec st" and "table_ok st'" and "d \<in> set (m_node_vec st)"
proof -
  show "m_node_vec st' = m_node_vec st" and "table_ok st'"
    using pick_node_vec [of st] table_ok_pick [OF assms(2)] assms(1) by simp_all
  from assms have "m_node_vec st \<noteq> []" by (auto simp: pick_node_def Let_def)
  with pick_node_nth [OF assms(2)] assms(1) show "d \<in> set (m_node_vec st)" by auto
qed

lemma dc_step_ok: "dc_step s e s' \<Longrightarrow> dcsys_ok s \<Longrightarrow> dcsys_ok s'"
proof (induction rule: dc_step.induct)
  case (register s ci)
  then show ?case by (auto simp: dcsys_ok_def table_ok_intros dest: stamps_RegisterWork)
next
  case (heartbeat s hb)
  then show ?case by (auto simp: dcsys_ok_def table_ok_intros dest: stamps_HeartBeatWork)
next
  case (sweep s t)
  then show ?case by (auto simp: dcsys_ok_def table_ok_intros)
next
  case (pick s r d st')
  then show ?case by (auto simp: dcsys_ok_def pick_node_table)
next
  case (rpc_fail s r d)
  then show ?case by (auto simp: dcsys_ok_def table_ok_intros dest: stamps_drop)
qed (auto simp: dcsys_ok_def)

lemma dc_run_ok: "dc_run s es s' \<Longrightarrow> dcsys_ok s \<Longrightarrow> dcsys_ok s'"
  by (induction rule: dc_run.induct) (auto dest: dc_step_ok)

text \<open>The clock only moves forward, and stamps of a node that stays only grow.\<close>

lemma dc_step_clock: "dc_step s e s' \<Longrightarrow> clock s \<le> clock s'"
  by (induction rule: dc_step.induct) auto

lemma dc_run_clock: "dc_run s es s' \<Longrightarrow> clock s \<le> clock s'"
  by (induction rule: dc_run.induct) (auto dest: dc_step_clock)

lemma last_seen_clock: "dcsys_ok s \<Longrightarrow> last_seen (srv s) k = Some h \<Longrightarrow> h \<le> clock s"
  by (auto simp: dcsys_ok_def last_seen_find dest!: find_Some_iff [THEN iffD1])

section \<open>Properties of the running server\<close>

text \<open>C4: In every state the threads of the server can reach, each address is in the
  table at most once, the round-robin counter is not negative, no stamp lies in the
  future and the sweeper's sample is not ahead of the clock.\<close>

theorem server_invariant:
  assumes "dc_run (dcsys_new t0) es s"
  shows "distinct (node_keys (srv s)) \<and> 0 \<le> pickNum (srv s) \<and>
    (\<forall>n \<in> set (m_node_vec (srv s)). lHeartBeatTime n \<le> clock s) \<and>
    (\<forall>t. sampled s = Some t \<longrightarrow> t \<le> clock s)"
  using dc_run_ok [OF assms dcsys_ok_new] by (simp add: dcsys_ok_def table_ok_def)

definition demo_ci :: ClientInfo where
  "demo_ci = ClientInfo_new\<lparr>ci_Ip := ''10.0.0.1'', ci_Port := 6001\<rparr>"

definition demo_sys :: dcsys where
  "demo_sys = \<lparr>srv = snd (RegisterWork demo_ci 5 DcServer_new), clock = 5, sampled = None, inflight = Map.empty\<rparr>"

lemma demo_run: "dc_run (dcsys_new 5) [EvRegister demo_ci] demo_sys"
  by (simp add: dc_run_simps dc_step_simps demo_sys_def dcsys_new_def)

theorem server_invariant_witness:
  "distinct (node_keys (srv demo_sys)) \<and> 0 \<le> pickNum (srv demo_sys)"
  using server_invariant [OF demo_run] by simp

lemma demo_ok: "dcsys_ok demo_sys"
  using dc_run_ok [OF demo_run dcsys_ok_new] .

lemma demo_seen: "last_seen (srv demo_sys) (''10.0.0.1'', 6001) = Some 5"
  by (simp add: demo_sys_def last_seen_RegisterWork demo_ci_def)

text \<open>C5: A node leaves the table for one of two causes only: the sweeper runs with a
  sample more than 60 seconds after the node was last heard of, or a call that an HTTP
  worker made to that very node failed.\<close>

theorem node_removed_for_cause:
  assumes step: "dc_step s e s'" and ok: "dcsys_ok s"
    and was: "last_seen (srv s) k = Some h" and gone: "last_seen (srv s') k = None"
  shows "(\<exists>t. e = EvSweep \<and> sampled s = Some t \<and> t - h > 60000) \<or>
    (\<exists>r d. e = EvFail r k \<and> inflight s r = Some d \<and> node_key d = k)"
proof -
  from ok have tab: "table_ok (srv s)" by (simp add: dcsys_ok_def)
  from step was gone show ?thesis
  proof (cases rule: dc_step.cases)
    case (sweep t)
    with was gone tab show ?thesis by (auto simp: last_seen_sweep split: if_splits)
  next
    case (pick r d st')
    with was gone tab pick_node_table(1) [of "srv s" d st'] show ?thesis by (simp add: last_seen_def)
  next
    case (rpc_fail r d)
    with was gone tab show ?thesis by (auto simp: last_seen_drop node_key_def split: if_splits)
  qed (auto simp: last_seen_RegisterWork last_seen_HeartBeatWork split: if_splits)
qed

theorem node_removed_for_cause_witness:
  "\<exists>t. sampled (demo_sys\<lparr>sampled := Some 60006\<rparr>) = Some t \<and> t - 5 > 60000"
proof -
  let ?s = "demo_sys\<lparr>sampled := Some 60006, clock := 60006\<rparr>"
  let ?s' = "?s\<lparr>srv := StartService_sweep 60006 (srv demo_sys), sampled := None\<rparr>"
  have step: "dc_step ?s EvSweep ?s'" by (simp add: dc_step_simps)
  have ok: "dcsys_ok ?s" using demo_ok by (auto simp: dcsys_ok_def demo_sys_def)
  have "last_seen (srv ?s') (''10.0.0.1'', 6001) = None"
    using ok by (simp add: dcsys_ok_def last_seen_sweep demo_seen)
  from node_removed_for_cause [OF step ok _ this, of 5] show ?thesis by (simp add: demo_seen)
qed

lemma dc_step_survives:
  assumes step: "dc_step s e s'" and ok: "dcsys_ok s" and was: "last_seen (srv s) k = Some h" and h0: "h0 \<le> h"
    and now: "clock s' \<le> h0 + 60000" and nofail: "\<forall>r. e \<noteq> EvFail r k"
  shows "\<exists>h'. last_seen (srv s') k = Some h' \<and> h0 \<le> h'"
proof -
  from ok have tab: "table_ok (srv s)" by (simp add: dcsys_ok_def)
  from step show ?thesis
  proof (cases rule: dc_step.cases)
    case (register ci)
    with was last_seen_clock [OF ok was] h0 show ?thesis by (auto simp: last_seen_RegisterWork)
  next
    case (heartbeat hb)
    with was last_seen_clock [OF ok was] h0 show ?thesis by (auto simp: last_seen_HeartBeatWork)
  next
    case (sweep t)
    with ok have "t \<le> clock s" by (simp add: dcsys_ok_def)
    with sweep was tab now h0 show ?thesis by (auto simp: last_seen_sweep)
  next
    case (pick r d st')
    with was h0 tab pick_node_table(1) [of "srv s" d st'] show ?thesis by (simp add: last_seen_def)
  next
    case (rpc_fail r d)
    with nofail have "node_key d \<noteq> k" by auto
    with rpc_fail was h0 tab show ?thesis by (auto simp: last_seen_drop node_key_def)
  qed (use was h0 in auto)
qed

lemma dc_run_survives:
  assumes "dc_run s es s'" and "dcsys_ok s" and "last_seen (srv s) k = Some h" and "h0 \<le> h"
    and "clock s' \<le> h0 + 60000" and "\<forall>r. EvFail r k \<notin> set es"
  shows "\<exists>h'. last_seen (srv s') k = Some h' \<and> h0 \<le> h'"
  using assms
proof (induction arbitrary: h rule: dc_run.induct)
  case (cons s e s' es s'')
  have "clock s' \<le> h0 + 60000" using dc_run_clock [OF cons.hyps(2)] cons.prems by simp
  then obtain h' where "last_seen (srv s') k = Some h'" "h0 \<le> h'"
    using dc_step_survives [OF cons.hyps(1) cons.prems(1,2,3)] cons.prems(5) by auto
  with cons.IH cons.prems dc_step_ok [OF cons.hyps(1)] show ?case by auto
qed auto

text \<open>A node that was heard of at time h is still in the table, with a stamp that
  has not gone back, as long as no call to it has failed and at most 60 seconds have
  passed, whatever the other threads do meanwhile.\<close>

lemma fresh_node_survives:
  assumes "dc_run (dcsys_new t0) pre s" and "dc_run s es s'" and "last_seen (srv s) k = Some h"
    and "clock s' \<le> h + 60000" and "\<forall>r. EvFail r k \<notin> set es"
  shows "\<exists>h'. last_seen (srv s') k = Some h' \<and> h \<le> h'"
  using dc_run_survives [OF assms(2) dc_run_ok [OF assms(1) dcsys_ok_new] assms(3) order_refl assms(4,5)] .

theorem fresh_node_survives_witness:
  "\<exists>h'. last_seen (StartService_sweep 60005 (srv demo_sys)) (''10.0.0.1'', 6001) = Some h' \<and> 5 \<le> h'"
proof -
  have "dc_run demo_sys [EvTick 60000, EvSample, EvSweep]
      (demo_sys\<lparr>clock := 60005, srv := StartService_sweep 60005 (srv demo_sys)\<rparr>)"
    by (simp add: dc_run_simps dc_step_simps demo_sys_def)
  from fresh_node_survives [OF demo_run this demo_seen] show ?thesis by (simp add: demo_sys_def)
qed

text \<open>After a sweep with the sample t exactly the nodes heard of in the 60 seconds
  before t are left, with their stamps; in particular no node that fell silent earlier
  is handed a request.\<close>

lemma sweep_keeps_exactly_the_live:
  assumes "dcsys_ok s" and "dc_step s EvSweep s'" and "sampled s = Some t"
  shows "(last_seen (srv s') k = Some h \<longleftrightarrow> last_seen (srv s) k = Some h \<and> t - h \<le> 60000) \<and>
    (\<forall>d. fst (pick_node (srv s')) = Some d \<longrightarrow> t - lHeartBeatTime d \<le> 60000)"
proof (intro conjI allI impI)
  from assms have s': "srv s' = StartService_sweep t (srv s)" and tab: "table_ok (srv s)"
    by (auto simp: dc_step_simps dcsys_ok_def)
  show "last_seen (srv s') k = Some h \<longleftrightarrow> last_seen (srv s) k = Some h \<and> t - h \<le> 60000"
    using tab by (auto simp: s' last_seen_sweep split: option.splits if_splits)
  fix d assume "fst (pick_node (srv s')) = Some d"
  then have "pick_node (srv s') = (Some d, snd (pick_node (srv s')))" by (simp add: prod_eq_iff)
  from pick_node_table(3) [OF this] tab show "t - lHeartBeatTime d \<le> 60000"
    by (simp add: s' table_ok_sweep)
qed

theorem sweep_keeps_exactly_the_live_witness:
  "last_seen (StartService_sweep 60006 (srv demo_sys)) (''10.0.0.1'', 6001) \<noteq> Some 5"
proof -
  let ?s = "demo_sys\<lparr>sampled := Some 60006, clock := 60006\<rparr>"
  let ?s' = "?s\<lparr>srv := StartService_sweep 60006 (srv demo_sys), sampled := None\<rparr>"
  have step: "dc_step ?s EvSweep ?s'" by (simp add: dc_step_simps)
  have ok: "dcsys_ok ?s" using demo_ok by (auto simp: dcsys_ok_def demo_sys_def)
  from sweep_keeps_exactly_the_live [OF ok step, of 60006 "(''10.0.0.1'', 6001)" 5] show ?thesis by simp
qed

fun run_table_op :: "(string \<times> int32) table_op \<Rightarrow> DcServer \<Rightarrow> DcServer" where
  "run_table_op (Register k t) st = reg_op k t st"
| "run_table_op (Beat k t) st = snd (beat_op k t st)"
| "run_table_op (Sweep t) st = StartService_sweep t st"
| "run_table_op (Drop k) st = drop_op k st"

lemma run_table_op_exec: "run_table_op = dc_table.exec"
proof (intro ext)
  fix e st show "run_table_op e st = dc_table.exec e st"
    by (cases e) (simp_all add: dc_table.exec.simps)
qed

text \<open>C3: The node table implements a map from addresses to the time of the last sign of
  life: any sequence of registrations, heartbeats, sweeps and drops on the vector has, on
  that map, the effect its specification gives it.\<close>

theorem node_table_refines_map:
  "last_seen (fold run_table_op ops DcServer_new) = fold table_spec ops Map.empty"
  using dc_table.run_refines [of DcServer_new ops]
  by (simp add: run_table_op_exec table_ok_new last_seen_new)

text \<open>Once a node has registered, its next heartbeat is accepted, provided that in
  between no failed call dropped it and no sweep came more than 60 seconds after the
  registration; the other operations may come in any number and order.\<close>

lemma registered_node_is_heard:
  assumes "\<forall>e \<in> set es. spares (ci_Ip ci, ci_Port ci) t e"
    and "hb_Ip hb = ci_Ip ci" and "hb_Port hb = ci_Port ci"
  shows "fst (HeartBeatWork hb t'
    (fold run_table_op es (snd (RegisterWork ci t (fold run_table_op pre DcServer_new)))))"
proof -
  have "snd (RegisterWork ci t st) = reg_op (ci_Ip ci, ci_Port ci) t st" for st
    by (simp add: reg_op_def RegisterWork_def split: prod.splits)
  moreover have "HeartBeatWork hb t' st = beat_op (ci_Ip ci, ci_Port ci) t' st" for st
    using assms by (simp add: beat_op_def HeartBeatWork_def)
  ultimately show ?thesis
    using dc_table.registered_is_heard [OF _ assms(1), of "fold run_table_op pre DcServer_new" t']
      dc_table.run_refines [OF table_ok_new, of pre]
    by (simp add: run_table_op_exec)
qed

theorem registered_node_is_heard_witness:
  "fst (HeartBeatWork (HeartBeatInfo_new\<lparr>hb_Ip := ''10.0.0.1'', hb_Port := 6001\<rparr>) 60000
    (fold run_table_op [Sweep 50000, Drop (''10.0.0.2'', 6001)]
      (snd (RegisterWork demo_ci 5 (fold run_table_op [Sweep 1] DcServer_new)))))"
  by (rule registered_node_is_heard) (simp_all add: demo_ci_def)

text \<open>C6: Scheduling is round robin. While the table does not change, as many requests in
  a row as there are nodes go to each node exactly once, in the table's order, from the
  position the counter stands at; from then on the same order repeats.\<close>

theorem scheduling_is_round_robin:
  assumes "table_ok st"
  shows "fst (pick_seq (length (m_node_vec st)) st) = rotate (nat (pickNum st)) (m_node_vec st) \<and>
    (m_node_vec st \<noteq> [] \<longrightarrow> fst (pick_seq m st) =
       map (\<lambda>i. m_node_vec st ! ((nat (pickNum st) + i) mod length (m_node_vec st))) [0..<m])"
  using pick_seq_rotate [OF assms] pick_seq_nth [OF assms] by blast

definition two_nodes :: DcServer where
  "two_nodes = DcServer_new\<lparr>m_node_vec := [\<lparr>ip = ''a'', port = 1, lHeartBeatTime = 0\<rparr>,
     \<lparr>ip = ''b'', port = 1, lHeartBeatTime = 0\<rparr>], pickNum := 1\<rparr>"

theorem scheduling_is_round_robin_witness:
  "map ip (fst (pick_seq 2 two_nodes)) = [''b'', ''a'']"
proof -
  have "table_ok two_nodes" by (simp add: two_nodes_def table_ok_def node_key_def)
  from scheduling_is_round_robin [OF this] show ?thesis
    by (simp add: two_nodes_def numeral_2_eq_2 rotate_def)
qed

text \<open>A registration always succeeds; it stamps the entry of that address when there is
  one, and otherwise appends exactly one entry and leaves the others, with their order and
  stamps, as they are.\<close>

lemma RegisterWork_effect:
  "fst (RegisterWork ci now st) = RegistResult_SUCCESS \<and>
   last_seen (snd (RegisterWork ci now st)) = (last_seen st)((ci_Ip ci, ci_Port ci) \<mapsto> now) \<and>
   node_keys (snd (RegisterWork ci now st)) =
     (if (ci_Ip ci, ci_Port ci) \<in> set (node_keys st) then node_keys st
      else node_keys st @ [(ci_Ip ci, ci_Port ci)])"
  using RegisterWork_keys [of ci now st] last_seen_RegisterWork [of ci now st]
  by (simp add: RegisterWork_def case_prod_beta Let_def)

text \<open>A heartbeat is accepted exactly when its address is registered; it then stamps
  that entry, and otherwise changes nothing (a node has to register first).\<close>

lemma HeartBeatWork_effect:
  "fst (HeartBeatWork hb now st) = ((hb_Ip hb, hb_Port hb) \<in> set (node_keys st)) \<and>
   last_seen (snd (HeartBeatWork hb now st)) =
     (if (hb_Ip hb, hb_Port hb) \<in> set (node_keys st)
      then (last_seen st)((hb_Ip hb, hb_Port hb) \<mapsto> now) else last_seen st) \<and>
   node_keys (snd (HeartBeatWork hb now st)) = node_keys st"
  unfolding HeartBeatWork_result last_seen_HeartBeatWork HeartBeatWork_keys last_seen_dom by simp

section \<open>Properties of a request\<close>

text \<open>The string member the request is about, when the body has one.\<close>

definition index_code :: "'d json \<Rightarrow> string option" where
  "index_code doc = (case doc of
     JObject ms \<Rightarrow> (case map_of ms ''indexCode'' of Some (JString s) \<Rightarrow> Some (c_str s) | _ \<Rightarrow> None)
   | _ \<Rightarrow> None)"

lemma index_code_lookup:
  "Option.bind (json_index doc ''indexCode'') GetString = map_option Some (index_code doc)"
  by (auto simp: json_index_def FindMember_def GetString_def index_code_def split: json.splits option.splits)

text \<open>The value a body parses to, \<open>None\<close> for a parse error.\<close>

definition parsed_body :: "'d fpu \<Rightarrow> http_body \<Rightarrow> 'd json option" where
  "parsed_body fp req = (case Document_Parse fp (c_str (body_bytes req)) of Inl _ \<Rightarrow> None | Inr v \<Rightarrow> Some v)"

lemma CollectWorkProc_cases:
  "CollectWorkProc fp xread peer_of req st =
     (if body_removed req \<noteq> int (length (body_bytes req))
      then Some ([(''Body Data Recv Error'', DC_BODY_ERR)], st)
      else (case parsed_body fp req of
          None \<Rightarrow> Some ([(''Body Data Error'', DC_BODY_ERR)], st)
        | Some document \<Rightarrow> (case index_code document of
            None \<Rightarrow> None
          | Some code \<Rightarrow> CollectWork_dispatch xread peer_of (Some code) [] st)))"
  using Document_Parse_never_fails [where fp = fp and src = "c_str (body_bytes req)"]
  by (auto simp: CollectWorkProc_def parsed_body_def index_code_lookup Let_def split: option.splits sum.splits jfail.splits)

lemma CollectWork_dispatch_cases:
  assumes "table_ok st"
  shows "CollectWork_dispatch xread peer_of (Some msg) [] st =
    (if m_node_vec st = [] then Some ([(''NO AVAILABLE Node'', DC_NO_NODE)], st)
     else let i = nat (pickNum st) mod length (m_node_vec st); n = m_node_vec st ! i;
              st1 = st\<lparr>pickNum := int i + 1\<rparr> in
       if ClusterWorkProc xread (peer_of (ip n) (port n)) msg
       then Some ([(''200 OK'', DC_NO_ERR)], st1)
       else Some ([(''DCNODE ERROR'', DC_NODE_ERR)], drop_node (ip n) (port n) st1))"
proof (cases "m_node_vec st = []")
  case True
  then show ?thesis by (simp add: CollectWork_dispatch_def pick_node_def)
next
  case False
  then show ?thesis by (simp add: CollectWork_dispatch_def pick_node_nth [OF assms] Let_def)
qed

text \<open>A request whose handler returns gets exactly one reply, never none and never a
  second one, and the node table stays well-formed.\<close>

lemma request_gets_one_reply:
  assumes "table_ok st" and "CollectWorkProc fp xread peer_of req st = Some (rs, st')"
  shows "length rs = 1 \<and> table_ok st'"
proof -
  have upd: "table_ok (st\<lparr>pickNum := int i + 1\<rparr>)" for i
    using assms(1) by (simp add: table_ok_def)
  show ?thesis
    using assms upd
    by (auto simp: CollectWorkProc_cases CollectWork_dispatch_cases Let_def intro: table_ok_drop
        split: if_splits option.splits)
qed

definition demo_document :: "unit json" where
  "demo_document = JObject [(''indexCode'', JString ''131000000514'')]"

definition demo_body :: http_body where
  "demo_body = \<lparr>body_bytes = json_text demo_document, body_removed = int (length (json_text demo_document))\<rparr>"

lemma demo_body_parsed [simp]: "parsed_body demo_fpu demo_body = Some demo_document"
proof -
  have "CHR 0x00 \<notin> set (json_text demo_document)"
    by (simp add: demo_document_def WriteString_def write_char_def escape_def)
  then have "c_str (body_bytes demo_body) = json_text demo_document" by (simp add: demo_body_def c_str_id)
  moreover have "Document_Parse demo_fpu (json_text demo_document) = Inr demo_document"
    using document_text_parses [of demo_document "[]" "[]" demo_fpu] by (simp add: demo_document_def)
  ultimately show ?thesis by (simp add: parsed_body_def)
qed

definition dead_peer :: "string \<Rightarrow> int32 \<Rightarrow> peer" where
  "dead_peer i p = \<lparr>peer_open = False, peer_answer = (\<lambda>_. Inr []), peer_close = True\<rparr>"

lemma two_nodes_ok: "table_ok two_nodes"
  by (simp add: two_nodes_def table_ok_def node_key_def)

lemma demo_body_complete: "body_removed demo_body = int (length (body_bytes demo_body))"
  by (simp add: demo_body_def)

lemma demo_collect:
  "CollectWorkProc demo_fpu xread dead_peer demo_body two_nodes =
     Some ([(''DCNODE ERROR'', DC_NODE_ERR)], drop_node ''b'' 1 (two_nodes\<lparr>pickNum := 2\<rparr>))"
  by (simp add: CollectWorkProc_cases CollectWork_dispatch_cases two_nodes_ok demo_body_complete
      demo_document_def index_code_def c_str_def) (simp add: two_nodes_def ClusterWorkProc_def dead_peer_def)

theorem request_gets_one_reply_witness:
  "length [(''DCNODE ERROR'', DC_NODE_ERR)] = 1 \<and>
   table_ok (drop_node ''b'' 1 (two_nodes\<lparr>pickNum := 2\<rparr>))"
  using request_gets_one_reply [OF two_nodes_ok demo_collect [of "\<lambda>_. Inl (TProtocolException INVALID_DATA)"]] .

text \<open>C21: A well-formed request is answered by what happened to it: without nodes it gets
  NO AVAILABLE Node and the table is untouched; otherwise one node, the one whose turn it
  is, is called: if the call succeeds the answer is 200 OK and the table is untouched, and
  if it fails the answer is DCNODE ERROR and that node, and no other, is gone.\<close>

theorem request_outcome:
  assumes "table_ok st" and "body_removed req = int (length (body_bytes req))"
    and "parsed_body fp req = Some doc" and "index_code doc = Some code"
  shows "\<exists>reply st'. CollectWorkProc fp xread peer_of req st = Some ([reply], st') \<and>
    (if m_node_vec st = [] then reply = (''NO AVAILABLE Node'', DC_NO_NODE) \<and> st' = st
     else let n = m_node_vec st ! (nat (pickNum st) mod length (m_node_vec st)) in
       if ClusterWorkProc xread (peer_of (ip n) (port n)) code
       then reply = (''200 OK'', DC_NO_ERR) \<and> m_node_vec st' = m_node_vec st
       else reply = (''DCNODE ERROR'', DC_NODE_ERR) \<and>
            last_seen st' = (last_seen st)(node_key n := None))"
proof -
  have "table_ok (st\<lparr>pickNum := int i + 1\<rparr>)" for i
    using assms(1) by (simp add: table_ok_def)
  moreover have "last_seen (st\<lparr>pickNum := j\<rparr>) = last_seen st" for j
    by (simp add: last_seen_def)
  ultimately show ?thesis
    using assms
    by (simp add: CollectWorkProc_cases CollectWork_dispatch_cases Let_def last_seen_drop node_key_def)
qed

theorem request_outcome_witness:
  "\<exists>reply st'. CollectWorkProc demo_fpu (\<lambda>_. Inl (TProtocolException INVALID_DATA)) dead_peer demo_body two_nodes
     = Some ([reply], st') \<and> reply = (''DCNODE ERROR'', DC_NODE_ERR)"
proof -
  have "index_code demo_document = Some ''131000000514''"
    by (simp add: demo_document_def index_code_def c_str_def)
  from request_outcome [where xread = "\<lambda>_. Inl (TProtocolException INVALID_DATA)" and peer_of = dead_peer,
      OF two_nodes_ok demo_body_complete demo_body_parsed this]
  show ?thesis by (auto simp: two_nodes_def ClusterWorkProc_def dead_peer_def)
qed



section \<open>The sweeper's loop and the clock\<close>

text \<open>The turns of the loop up to the one that sees \<^verbatim>\<open>m_bstop\<close>.\<close>

fun executed :: "(int \<times> bool) list \<Rightarrow> int list" where
  "executed [] = []"
| "executed ((tick, bstop) # turns) = tick # (if bstop then [] else executed turns)"

lemma StartService_vec:
  "m_node_vec (StartService turns st) =
     filter (\<lambda>n. list_all (\<lambda>t. t - lHeartBeatTime n \<le> 60000) (executed turns)) (m_node_vec st)"
proof (induction turns st rule: StartService.induct)
  case (2 tick bstop turns st)
  let ?st' = "(StartService_sweep tick st)\<lparr>m_bstop := bstop\<rparr>"
  show ?case
  proof (cases bstop)
    case False
    with "2.IH" [of ?st'] show ?thesis by (simp add: Let_def conj_commute)
  qed (simp add: Let_def)
qed simp

text \<open>The sweeper's loop, run on any schedule, keeps a node exactly when it was fresh at
  every turn executed; it stops after the first turn that finds the stop flag set, and the
  round-robin counter is not its business.\<close>

lemma sweeper_loop:
  "m_node_vec (StartService turns st) =
     filter (\<lambda>n. list_all (\<lambda>t. t - lHeartBeatTime n \<le> 60000) (executed turns)) (m_node_vec st) \<and>
   StartService (turns @ [(t, True)] @ rest) st = StartService (turns @ [(t, True)]) st \<and>
   pickNum (StartService turns st) = pickNum st"
proof (intro conjI)
  show "StartService (turns @ [(t, True)] @ rest) st = StartService (turns @ [(t, True)]) st"
    by (induction turns arbitrary: st) (auto simp: Let_def)
  show "pickNum (StartService turns st) = pickNum st"
    by (induction turns arbitrary: st) (auto simp: Let_def)
qed (rule StartService_vec)

text \<open>The tick count is the clock in whole milliseconds, rounded down, so that it never
  runs backwards when the clock does not.\<close>

lemma tick_count_is_milliseconds:
  assumes "0 \<le> tv_nsec a" and "tv_nsec a < 1000000000" and "0 \<le> tv_nsec b" and "tv_nsec b < 1000000000"
    and "tv_sec a * 1000000000 + tv_nsec a \<le> tv_sec b * 1000000000 + tv_nsec b"
  shows "DCGetTickCount a = (tv_sec a * 1000000000 + tv_nsec a) div 1000000 \<and>
    DCGetTickCount a \<le> DCGetTickCount b"
proof -
  have ms: "0 \<le> tv_nsec c \<Longrightarrow> DCGetTickCount c = (tv_sec c * 1000000000 + tv_nsec c) div 1000000" for c
    by (simp add: DCGetTickCount_def)
  then show ?thesis
    using assms zdiv_mono1 [OF assms(5), of 1000000] by simp
qed

theorem tick_count_is_milliseconds_witness:
  "DCGetTickCount \<lparr>tv_sec = 2, tv_nsec = 1999999\<rparr> = 2001 \<and>
   DCGetTickCount \<lparr>tv_sec = 2, tv_nsec = 1999999\<rparr> \<le> DCGetTickCount \<lparr>tv_sec = 3, tv_nsec = 0\<rparr>"
  using tick_count_is_milliseconds [of "\<lparr>tv_sec = 2, tv_nsec = 1999999\<rparr>" "\<lparr>tv_sec = 3, tv_nsec = 0\<rparr>"]
  by simp

end
