(* ===== verification/Work_Queue.thy ===== *)
theory Work_Queue
  imports Dc_Prelude
begin

text \<open>
  The task queue of the thread pool (\<^verbatim>\<open>swartz_thrmgr.cpp\<close>): a singly linked list with
  head and tail pointers in the C heap. The heap is a map from addresses to items; an
  operation that would dereference a null or freed pointer is undefined, \<open>None\<close>. The
  pointer structure refines a list, and as an instance of \<open>fifo_queue\<close> it hands out what
  it accepted, in order and once each.
\<close>

section \<open>Data\<close>

type_synonym addr = nat

record 'a work_item_t =
  nxt :: "addr option"
  wdata :: 'a
  time_queued :: timeval

record work_queue_t =
  head :: "addr option"
  tail :: "addr option"
  item_count :: int

record 'a wq_state =
  heap :: "addr \<rightharpoonup> 'a work_item_t"
  work_q :: work_queue_t

section \<open>Operations\<close>

text \<open>\<^verbatim>\<open>work_queue_new\<close>: \<open>None\<close> when \<^verbatim>\<open>malloc\<close> fails, otherwise all fields zero.\<close>

definition work_queue_new :: "bool \<Rightarrow> work_queue_t option" where
  "work_queue_new malloc_ok = (if malloc_ok then Some \<lparr>head = None, tail = None, item_count = 0\<rparr> else None)"

text \<open>
  \<^verbatim>\<open>work_queue_add\<close> on a queue that exists: \<open>work_item\<close> is what \<^verbatim>\<open>malloc\<close> returned
  (\<open>None\<close> is \<^verbatim>\<open>NULL\<close>), \<open>tms\<close> the time of day.
\<close>

definition work_queue_add :: "addr option \<Rightarrow> timeval \<Rightarrow> 'a \<Rightarrow> 'a wq_state \<Rightarrow> (bool \<times> 'a wq_state) option" where
  "work_queue_add work_item tms d st = (case work_item of
     None \<Rightarrow> Some (False, st)
   | Some w \<Rightarrow>
      (let h = (heap st)(w \<mapsto> \<lparr>nxt = None, wdata = d, time_queued = tms\<rparr>); q = work_q st in
       if head q = None
       then Some (True, \<lparr>heap = h, work_q = q\<lparr>head := Some w, tail := Some w, item_count := 1\<rparr>\<rparr>)
       else (case tail q of
           None \<Rightarrow> None
         | Some t \<Rightarrow> (case h t of
             None \<Rightarrow> None
           | Some it \<Rightarrow> Some (True, \<lparr>heap = h(t \<mapsto> it\<lparr>nxt := Some w\<rparr>),
               work_q = q\<lparr>tail := Some w, item_count := item_count q + 1\<rparr>\<rparr>)))))"

definition work_queue_pop :: "'a wq_state \<Rightarrow> ('a option \<times> 'a wq_state) option" where
  "work_queue_pop st = (let q = work_q st in case head q of
     None \<Rightarrow> Some (None, st)
   | Some w \<Rightarrow> (case heap st w of
       None \<Rightarrow> None
     | Some it \<Rightarrow>
        (let q1 = q\<lparr>head := nxt it, item_count := item_count q - 1\<rparr>;
             q2 = (if head q1 = None then q1\<lparr>tail := None\<rparr> else q1)
         in Some (Some (wdata it), \<lparr>heap = (heap st)(w := None), work_q = q2\<rparr>))))"

text \<open>
  \<^verbatim>\<open>work_queue_free\<close>: the loop runs until the counter is zero, so that with a wrong counter
  it would not end. \<open>None\<close> is both "does not return" and "undefined"; the heap that is left is
  the result.
\<close>

partial_function (option) work_queue_free :: "'a wq_state \<Rightarrow> (addr \<rightharpoonup> 'a work_item_t) option" where
  "work_queue_free st =
     (if item_count (work_q st) \<noteq> 0
      then (case work_queue_pop st of None \<Rightarrow> None | Some (_, st') \<Rightarrow> work_queue_free st')
      else Some (heap st))"

section \<open>The pointer structure\<close>

fun path :: "(addr \<rightharpoonup> 'a work_item_t) \<Rightarrow> addr option \<Rightarrow> addr list \<Rightarrow> bool" where
  "path h p [] = (p = None)"
| "path h p (a # as) = (p = Some a \<and> (\<exists>it. h a = Some it \<and> path h (nxt it) as))"

definition wq_rep :: "'a wq_state \<Rightarrow> addr list \<Rightarrow> bool" where
  "wq_rep st as \<longleftrightarrow> path (heap st) (head (work_q st)) as \<and> distinct as \<and>
     tail (work_q st) = (if as = [] then None else Some (last as)) \<and>
     item_count (work_q st) = int (length as)"

definition wq_inv :: "'a wq_state \<Rightarrow> bool" where
  "wq_inv st \<longleftrightarrow> (\<exists>as. wq_rep st as)"

lemma path_unique: "path h p as \<Longrightarrow> path h p bs \<Longrightarrow> as = bs"
proof (induction as arbitrary: p bs)
  case Nil
  then show ?case by (cases bs) auto
next
  case (Cons a as)
  then show ?case by (cases bs) auto
qed

lemma path_dom: "path h p as \<Longrightarrow> set as \<subseteq> dom h"
  by (induction as arbitrary: p) auto

lemma path_upd [simp]: "a \<notin> set as \<Longrightarrow> path (h(a := v)) p as = path h p as"
  by (induction as arbitrary: p) auto

text \<open>The contents: the data along the path the head pointer starts.\<close>

fun collect :: "nat \<Rightarrow> (addr \<rightharpoonup> 'a work_item_t) \<Rightarrow> addr option \<Rightarrow> 'a list" where
  "collect 0 h p = []"
| "collect (Suc n) h p = (case p of None \<Rightarrow> [] | Some a \<Rightarrow>
     (case h a of None \<Rightarrow> [] | Some it \<Rightarrow> wdata it # collect n h (nxt it)))"

definition wq_list :: "'a wq_state \<Rightarrow> 'a list" where
  "wq_list st = collect (nat (item_count (work_q st))) (heap st) (head (work_q st))"

lemma collect_path: "path h p as \<Longrightarrow> collect (length as) h p = map (\<lambda>a. wdata (the (h a))) as"
  by (induction as arbitrary: p) auto

lemma wq_list_rep: "wq_rep st as \<Longrightarrow> wq_list st = map (\<lambda>a. wdata (the (heap st a))) as"
  by (simp add: wq_list_def wq_rep_def collect_path)

text \<open>Appending behind the last element.\<close>

lemma path_snoc:
  assumes "path h p as" and "as \<noteq> []" and "distinct as" and "w \<notin> set as"
    and "h (last as) = Some it" and "h w = Some \<lparr>nxt = None, wdata = d, time_queued = t\<rparr>"
  shows "path (h(last as \<mapsto> it\<lparr>nxt := Some w\<rparr>)) p (as @ [w])"
  using assms
proof (induction as arbitrary: p)
  case (Cons a as)
  show ?case
  proof (cases "as = []")
    case True
    with Cons.prems show ?thesis by auto
  next
    case False
    with Cons.prems have "a \<noteq> last as" by auto
    with False Cons show ?thesis by auto
  qed
qed simp

lemma path_last_nxt: "path h p as \<Longrightarrow> as \<noteq> [] \<Longrightarrow> \<exists>it. h (last as) = Some it \<and> nxt it = None"
  by (induction as arbitrary: p) (auto split: if_splits)

section \<open>Operations on the representation\<close>

lemma add_rep:
  assumes rep: "wq_rep st as" and fresh: "heap st w = None"
  shows "\<exists>st'. work_queue_add (Some w) tms d st = Some (True, st') \<and> wq_rep st' (as @ [w]) \<and>
    wq_list st' = wq_list st @ [d] \<and> dom (heap st') = insert w (dom (heap st))"
proof -
  from rep have p: "path (heap st) (head (work_q st)) as" by (simp add: wq_rep_def)
  with path_dom fresh have w: "w \<notin> set as" by fastforce
  show ?thesis
  proof (cases "as = []")
    case True
    with rep show ?thesis
      by (auto simp: work_queue_add_def wq_rep_def wq_list_def Let_def)
  next
    case False
    let ?new = "\<lparr>nxt = None, wdata = d, time_queued = tms\<rparr>"
    let ?h = "(heap st)(w \<mapsto> ?new)"
    from path_last_nxt [OF p False] obtain it where it: "heap st (last as) = Some it" by blast
    from False w have lw: "last as \<noteq> w" by auto
    have hd: "head (work_q st) \<noteq> None" using p False by (cases as) auto
    have tl: "tail (work_q st) = Some (last as)" using rep False by (simp add: wq_rep_def)
    let ?st' = "\<lparr>heap = ?h(last as \<mapsto> it\<lparr>nxt := Some w\<rparr>),
      work_q = (work_q st)\<lparr>tail := Some w, item_count := item_count (work_q st) + 1\<rparr>\<rparr>"
    have run: "work_queue_add (Some w) tms d st = Some (True, ?st')"
      using hd tl it lw by (auto simp: work_queue_add_def Let_def)
    have rep': "wq_rep ?st' (as @ [w])"
      using path_snoc [of ?h "head (work_q st)" as w it d tms] rep p w False it lw
      by (simp add: wq_rep_def)
    have "map (\<lambda>a. wdata (the (heap ?st' a))) as = map (\<lambda>a. wdata (the (heap st a))) as"
      using w it by auto
    with wq_list_rep [OF rep] wq_list_rep [OF rep'] lw
    have "wq_list ?st' = wq_list st @ [d]" by simp
    moreover have "dom (heap ?st') = insert w (dom (heap st))" using it by auto
    ultimately show ?thesis using run rep' by blast
  qed
qed

lemma pop_rep:
  assumes rep: "wq_rep st (a # as)"
  shows "\<exists>st'. work_queue_pop st = Some (Some (List.hd (wq_list st)), st') \<and> wq_rep st' as \<and>
    wq_list st = List.hd (wq_list st) # wq_list st' \<and> heap st' = (heap st)(a := None)"
proof -
  from rep obtain it where hd: "head (work_q st) = Some a" and it: "heap st a = Some it"
    and p: "path (heap st) (nxt it) as" and d: "a \<notin> set as" "distinct as"
    by (auto simp: wq_rep_def)
  have nx: "nxt it = None \<longleftrightarrow> as = []" using p by (cases as) auto
  let ?q1 = "(work_q st)\<lparr>head := nxt it, item_count := item_count (work_q st) - 1\<rparr>"
  let ?q2 = "if head ?q1 = None then ?q1\<lparr>tail := None\<rparr> else ?q1"
  let ?st' = "\<lparr>heap = (heap st)(a := None), work_q = ?q2\<rparr>"
  have run: "work_queue_pop st = Some (Some (wdata it), ?st')"
    using hd it by (simp add: work_queue_pop_def Let_def)
  have rep': "wq_rep ?st' as"
    using rep p d nx by (auto simp: wq_rep_def)
  have "map (\<lambda>x. wdata (the (heap ?st' x))) as = map (\<lambda>x. wdata (the (heap st x))) as"
    using d by auto
  with wq_list_rep [OF rep] wq_list_rep [OF rep'] it
  have "wq_list st = wdata it # wq_list ?st'" by simp
  with run rep' show ?thesis by auto
qed

lemma pop_empty: "wq_rep st [] \<Longrightarrow> work_queue_pop st = Some (None, st) \<and> wq_list st = []"
  by (simp add: wq_rep_def work_queue_pop_def wq_list_def)

section \<open>The contract of a queue\<close>

text \<open>
  What a client of the queue may assume: \<open>put\<close> may run out of memory, nothing is undefined
  on a well-formed queue, and the contents behave as a list. \<open>usable\<close> is the promise of
  \<^verbatim>\<open>malloc\<close>: null or a block that is not in use.
\<close>

datatype ('m, 'a) queue_op = Put 'm 'a | Get

locale fifo_queue =
  fixes inv :: "'s \<Rightarrow> bool" and contents :: "'s \<Rightarrow> 'a list" and usable :: "'m \<Rightarrow> 's \<Rightarrow> bool"
    and put :: "'m \<Rightarrow> 'a \<Rightarrow> 's \<Rightarrow> (bool \<times> 's) option" and get :: "'s \<Rightarrow> ('a option \<times> 's) option"
  assumes put_law: "inv s \<Longrightarrow> usable m s \<Longrightarrow>
      \<exists>b s'. put m x s = Some (b, s') \<and> inv s' \<and> contents s' = contents s @ (if b then [x] else [])"
    and get_law: "inv s \<Longrightarrow> \<exists>s'. inv s' \<and>
      (case contents s of [] \<Rightarrow> get s = Some (None, s') \<and> contents s' = []
       | x # xs \<Rightarrow> get s = Some (Some x, s') \<and> contents s' = xs)"
begin

text \<open>A sequence of operations: what was accepted, what was handed out, the final state.\<close>

fun exec :: "('m, 'a) queue_op list \<Rightarrow> 's \<Rightarrow> ('a list \<times> 'a list \<times> 's) option" where
  "exec [] s = Some ([], [], s)"
| "exec (Put m x # ops) s = (if \<not> usable m s then None else (case put m x s of
     None \<Rightarrow> None
   | Some (b, s') \<Rightarrow> map_option (\<lambda>(i, j, s''). ((if b then [x] else []) @ i, j, s'')) (exec ops s')))"
| "exec (Get # ops) s = (case get s of
     None \<Rightarrow> None
   | Some (r, s') \<Rightarrow> map_option (\<lambda>(i, j, s''). (i, (case r of None \<Rightarrow> [] | Some x \<Rightarrow> [x]) @ j, s'')) (exec ops s'))"

theorem in_order:
  "inv s \<Longrightarrow> exec ops s = Some (ins, outs, s') \<Longrightarrow> inv s' \<and> contents s @ ins = outs @ contents s'"
proof (induction ops arbitrary: s ins outs)
  case (Cons opn ops)
  show ?case
  proof (cases opn)
    case (Put m x)
    from Cons.prems Put have u: "usable m s" by (auto split: if_splits)
    from put_law [OF Cons.prems(1) u, of x] obtain b s1 where s1: "put m x s = Some (b, s1)" "inv s1"
        "contents s1 = contents s @ (if b then [x] else [])" by blast
    with Cons.prems Put u obtain i where "exec ops s1 = Some (i, outs, s')" "ins = (if b then [x] else []) @ i"
      by auto
    with Cons.IH [OF s1(2)] s1(3) show ?thesis by auto
  next
    case Get
    from get_law [OF Cons.prems(1)] obtain s1 where s1: "inv s1" "(case contents s of
        [] \<Rightarrow> get s = Some (None, s1) \<and> contents s1 = []
      | x # xs \<Rightarrow> get s = Some (Some x, s1) \<and> contents s1 = xs)" by blast
    then obtain r where r: "get s = Some (r, s1)" "contents s = (case r of None \<Rightarrow> [] | Some x \<Rightarrow> [x]) @ contents s1"
      by (cases "contents s") auto
    with Cons.prems Get obtain j where "exec ops s1 = Some (ins, j, s')" "outs = (case r of None \<Rightarrow> [] | Some x \<Rightarrow> [x]) @ j"
      by auto
    with Cons.IH [OF s1(1)] r(2) show ?thesis by auto
  qed
qed auto

end

fun wq_usable :: "addr option \<times> timeval \<Rightarrow> 'a wq_state \<Rightarrow> bool" where
  "wq_usable (m, tms) st = (case m of None \<Rightarrow> True | Some w \<Rightarrow> heap st w = None)"

fun wq_put :: "addr option \<times> timeval \<Rightarrow> 'a \<Rightarrow> 'a wq_state \<Rightarrow> (bool \<times> 'a wq_state) option" where
  "wq_put (m, tms) d st = work_queue_add m tms d st"

interpretation work_queue: fifo_queue wq_inv wq_list wq_usable wq_put work_queue_pop
proof
  fix s :: "'a wq_state" and m :: "addr option \<times> timeval" and x
  assume inv: "wq_inv s" and u: "wq_usable m s"
  obtain w tms where m: "m = (w, tms)" by (cases m)
  show "\<exists>b s'. wq_put m x s = Some (b, s') \<and> wq_inv s' \<and> wq_list s' = wq_list s @ (if b then [x] else [])"
  proof (cases w)
    case None
    with inv m show ?thesis by (auto simp: work_queue_add_def)
  next
    case (Some a)
    with inv u m show ?thesis using add_rep [of s _ a tms x] by (fastforce simp: wq_inv_def)
  qed
next
  fix s :: "'a wq_state" assume "wq_inv s"
  then obtain as where rep: "wq_rep s as" by (auto simp: wq_inv_def)
  show "\<exists>s'. wq_inv s' \<and> (case wq_list s of [] \<Rightarrow> work_queue_pop s = Some (None, s') \<and> wq_list s' = []
      | x # xs \<Rightarrow> work_queue_pop s = Some (Some x, s') \<and> wq_list s' = xs)"
  proof (cases as)
    case Nil
    with rep pop_empty [of s] show ?thesis by (auto simp: wq_inv_def)
  next
    case (Cons a as')
    with rep pop_rep [of s a as'] obtain x s' where "work_queue_pop s = Some (Some x, s')"
      "wq_rep s' as'" "wq_list s = x # wq_list s'" by blast
    then show ?thesis by (auto simp: wq_inv_def)
  qed
qed

section \<open>Freeing\<close>

lemma free_rep: "wq_rep st as \<Longrightarrow> work_queue_free st = Some (\<lambda>a. if a \<in> set as then None else heap st a)"
proof (induction as arbitrary: st)
  case Nil
  then show ?case by (subst work_queue_free.simps) (simp add: wq_rep_def)
next
  case (Cons a as)
  from pop_rep [OF Cons.prems] obtain x st' where
    pop: "work_queue_pop st = Some (Some x, st')" and rep: "wq_rep st' as" and h: "heap st' = (heap st)(a := None)"
    by blast
  from Cons.prems have "item_count (work_q st) \<noteq> 0" by (simp add: wq_rep_def)
  with pop Cons.IH [OF rep] h show ?case by (subst work_queue_free.simps) (auto simp: fun_eq_iff)
qed

definition wq_empty :: "'a wq_state" where
  "wq_empty = \<lparr>heap = Map.empty, work_q = \<lparr>head = None, tail = None, item_count = 0\<rparr>\<rparr>"

lemma wq_empty_rep: "wq_rep wq_empty []"
  by (simp add: wq_empty_def wq_rep_def)

lemma wq_empty_inv: "wq_inv wq_empty" "wq_list wq_empty = []"
  using wq_empty_rep pop_empty by (auto simp: wq_inv_def)

lemma wq_empty_heap: "heap wq_empty a = None"
  by (simp add: wq_empty_def)

section \<open>Properties\<close>

text \<open>C22: The linked list behaves as a first-in first-out queue: on a well-formed queue
  adding (with whatever memory comes back) and popping are never undefined, keep it
  well-formed, and act on its contents as appending at the end and taking from the front;
  an empty queue answers a pop with false and is left alone.\<close>

theorem queue_operations_refine_list:
  assumes "wq_inv st" and "case w of None \<Rightarrow> True | Some a \<Rightarrow> heap st a = None"
  shows "(\<exists>st'. work_queue_add w tms d st = Some (w \<noteq> None, st') \<and> wq_inv st' \<and>
      wq_list st' = (if w = None then wq_list st else wq_list st @ [d])) \<and>
    (\<exists>st'. wq_inv st' \<and> work_queue_pop st = Some (case wq_list st of [] \<Rightarrow> None | x # _ \<Rightarrow> Some x, st') \<and>
      wq_list st' = tl (wq_list st))"
proof
  from assms(1) obtain as where rep: "wq_rep st as" by (auto simp: wq_inv_def)
  show "\<exists>st'. work_queue_add w tms d st = Some (w \<noteq> None, st') \<and> wq_inv st' \<and>
      wq_list st' = (if w = None then wq_list st else wq_list st @ [d])"
  proof (cases w)
    case None
    with assms(1) show ?thesis by (simp add: work_queue_add_def)
  next
    case (Some a)
    with assms(2) add_rep [OF rep, of a tms d] show ?thesis by (auto simp: wq_inv_def)
  qed
  from work_queue.get_law [OF assms(1)]
  show "\<exists>st'. wq_inv st' \<and> work_queue_pop st = Some (case wq_list st of [] \<Rightarrow> None | x # _ \<Rightarrow> Some x, st') \<and>
      wq_list st' = tl (wq_list st)"
    by (cases "wq_list st") auto
qed

theorem queue_operations_refine_list_witness:
  "\<exists>st'. work_queue_add (Some 8) \<lparr>tvl_sec = 0, tv_usec = 0\<rparr> (7 :: int) wq_empty = Some (True, st') \<and> wq_list st' = [7]"
  using queue_operations_refine_list [of "wq_empty :: int wq_state" "Some 8" "\<lparr>tvl_sec = 0, tv_usec = 0\<rparr>" 7]
  by (auto simp: wq_empty_inv wq_empty_heap)

text \<open>Over any sequence of adds and pops that starts from an empty queue, the tasks
  handed out followed by the tasks still queued are exactly the tasks accepted, in the order
  they were accepted: none is lost, none is handed out twice, none overtakes another.\<close>

lemma queue_is_fifo:
  assumes "work_queue.exec ops wq_empty = Some (accepted, handed_out, st')"
  shows "accepted = handed_out @ wq_list st' \<and> wq_inv st'"
  using work_queue.in_order [OF wq_empty_inv(1) assms] by (simp add: wq_empty_inv)

theorem queue_is_fifo_witness:
  "\<exists>st'. work_queue.exec [Put (Some 1, \<lparr>tvl_sec = 0, tv_usec = 0\<rparr>) ''x'', Put (Some 2, \<lparr>tvl_sec = 0, tv_usec = 0\<rparr>) ''y'', Get] wq_empty
    = Some ([''x'', ''y''], [''x''], st') \<and> [''x'', ''y''] = [''x''] @ wq_list st'"
proof -
  obtain st' where run: "work_queue.exec [Put (Some 1, \<lparr>tvl_sec = 0, tv_usec = 0\<rparr>) ''x'',
      Put (Some 2, \<lparr>tvl_sec = 0, tv_usec = 0\<rparr>) ''y'', Get] wq_empty = Some ([''x'', ''y''], [''x''], st')"
    by (simp add: wq_empty_def work_queue_add_def work_queue_pop_def Let_def)
  from queue_is_fifo [OF run] run show ?thesis by auto
qed

text \<open>Freeing a well-formed queue ends, and gives back exactly the items that were still
  queued; every other block of the heap is as before.\<close>

lemma queue_free_terminates:
  assumes "wq_rep st as"
  shows "work_queue_free st = Some (\<lambda>a. if a \<in> set as then None else heap st a)"
  using free_rep [OF assms] .

theorem queue_free_terminates_witness:
  "work_queue_free (wq_empty :: int wq_state) = Some Map.empty"
  using queue_free_terminates [OF wq_empty_rep] by (simp add: wq_empty_def)

end
