(* ===== verification/Swartz_Utils.thy ===== *)
theory Swartz_Utils
  imports Dc_Prelude
begin

text \<open>
  The portability layer \<^verbatim>\<open>utils/src\<close> on Linux: semaphores, mutexes with their scope
  guard, threads, atomics and the library's init count. The POSIX objects below the layer
  are modelled as far as the layer uses them: a semaphore is its value, a mutex its kind
  with owner and depth, and calls whose outcome the system decides take that outcome as an
  argument. The \<^verbatim>\<open>_WIN32\<close> branches are not compiled by the makefiles and are left out.
\<close>

section \<open>Semaphores (swartz_sem.cpp)\<close>

type_synonym sem = nat

definition SEM_VALUE_MAX :: nat where
  "SEM_VALUE_MAX = 2147483647"

text \<open>
  \<^verbatim>\<open>swartz_sem_create\<close>: whether the handle's address is given, whether \<^verbatim>\<open>malloc\<close>
  succeeds, and the value; \<^verbatim>\<open>sem_init\<close> refuses a value beyond the maximum (a negative
  one is converted to a huge unsigned one). The handle afterwards is the second component.
\<close>

definition swartz_sem_create :: "bool \<Rightarrow> bool \<Rightarrow> int \<Rightarrow> int \<times> sem option" where
  "swartz_sem_create handle malloc_ok cnt =
     (if \<not> handle then (SWARTZ_ERR, None)
      else if \<not> malloc_ok then (SWARTZ_ERR, None)
      else (let ret = (if 0 \<le> cnt \<and> cnt \<le> int SEM_VALUE_MAX then 0 else - 1) in
        if ret \<noteq> 0 then (SWARTZ_ERR, None) else (SWARTZ_OK, Some (nat cnt))))"

text \<open>
  \<^verbatim>\<open>swartz_sem_post\<close> posts once whatever the count, and dereferences its handle: a
  null handle is \<open>None\<close> (undefined).
\<close>

definition swartz_sem_post :: "sem option \<Rightarrow> int \<Rightarrow> (int \<times> sem option) option" where
  "swartz_sem_post handle cnt = (case handle of
     None \<Rightarrow> None
   | Some v \<Rightarrow> Some (if v < SEM_VALUE_MAX then (SWARTZ_OK, Some (Suc v)) else (SWARTZ_ERR, Some v)))"

definition swartz_sem_post_1 :: "sem option \<Rightarrow> (int \<times> sem option) option" where
  "swartz_sem_post_1 handle = swartz_sem_post handle 1"

text \<open>The absolute deadline \<^verbatim>\<open>swartz_sem_wait\<close> computes for a timeout in milliseconds.\<close>

definition sem_deadline :: "timeval \<Rightarrow> int \<Rightarrow> timespec" where
  "sem_deadline tv timeout =
     (let now = tv_usec tv * 1000 + cmod timeout 1000 * 1000000;
          sec = tvl_sec tv + cdiv timeout 1000
      in \<lparr>tv_sec = (if now > 999999999 then sec + 1 else sec), tv_nsec = cmod now 1000000000\<rparr>)"

text \<open>
  What one system call reports while a thread is in \<^verbatim>\<open>swartz_sem_wait\<close>. The list of
  reports is what the thread sees; when it is used up the thread is still inside, which is
  the result \<open>None\<close>.
\<close>

datatype wait_report = Acquired | Interrupted | Timed_Out

fun wait_retry :: "wait_report list \<Rightarrow> int option" where
  "wait_retry [] = None"
| "wait_retry (r # rs) = (case r of
     Acquired \<Rightarrow> Some 0 | Interrupted \<Rightarrow> wait_retry rs | Timed_Out \<Rightarrow> Some (- 1))"

datatype wait_call = Sem_Wait | Sem_TryWait | Sem_TimedWait timespec

definition swartz_sem_wait_call :: "timeval \<Rightarrow> int \<Rightarrow> wait_call" where
  "swartz_sem_wait_call tv timeout =
     (if timeout = -1 then Sem_Wait else if timeout = 0 then Sem_TryWait
      else Sem_TimedWait (sem_deadline tv timeout))"

definition swartz_sem_wait :: "bool \<Rightarrow> timeval \<Rightarrow> int \<Rightarrow> wait_report list \<Rightarrow> int option" where
  "swartz_sem_wait handle tv timeout reports =
     (if \<not> handle then Some SWARTZ_ERR
      else (case swartz_sem_wait_call tv timeout of
          Sem_Wait \<Rightarrow> (case reports of
              [] \<Rightarrow> None
            | r # _ \<Rightarrow> Some (if r = Acquired then SWARTZ_OK else SWARTZ_ERR))
        | Sem_TryWait \<Rightarrow> map_option (\<lambda>ret. if ret = 0 then SWARTZ_OK else SWARTZ_ERR) (wait_retry reports)
        | Sem_TimedWait ts \<Rightarrow> wait_retry reports))"

definition swartz_sem_destroy :: "sem option \<Rightarrow> int \<Rightarrow> int \<times> sem option" where
  "swartz_sem_destroy handle ret =
     (if handle = None then (SWARTZ_ERR, None)
      else (if ret = 0 then SWARTZ_OK else SWARTZ_ERR, None))"

section \<open>Mutexes (swartz_mutex.cpp, swartz_mutexEx.h)\<close>

text \<open>
  The flag goes straight to \<^verbatim>\<open>pthread_mutexattr_settype\<close>, whose kinds on Linux are 0
  normal, 1 recursive, 2 error checking; another value is refused and leaves the default,
  which is normal.
\<close>

datatype mutex_kind = Mutex_Normal | Mutex_Recursive | Mutex_Errorcheck

record mutex =
  mkind :: mutex_kind
  owner :: "nat option"
  depth :: nat

definition SWARTZ_MUTEX_ATTR_RECURSIVE :: int where
  "SWARTZ_MUTEX_ATTR_RECURSIVE = 0"

definition SWARTZ_MUTEX_ATTR_FAST :: int where
  "SWARTZ_MUTEX_ATTR_FAST = 1"

definition SWARTZ_MUTEX_ATTR_ERRORCHECK :: int where
  "SWARTZ_MUTEX_ATTR_ERRORCHECK = 2"

lemmas mutex_attrs = SWARTZ_MUTEX_ATTR_RECURSIVE_def SWARTZ_MUTEX_ATTR_FAST_def SWARTZ_MUTEX_ATTR_ERRORCHECK_def

definition pthread_kind :: "int \<Rightarrow> mutex_kind" where
  "pthread_kind flag = (if flag = 1 then Mutex_Recursive else if flag = 2 then Mutex_Errorcheck else Mutex_Normal)"

definition swartz_mutex_create :: "bool \<Rightarrow> bool \<Rightarrow> int \<Rightarrow> int \<Rightarrow> int \<times> mutex option" where
  "swartz_mutex_create handle malloc_ok flag ret =
     (if \<not> handle then (SWARTZ_ERR, None)
      else if \<not> malloc_ok then (SWARTZ_ERR, None)
      else if ret \<noteq> 0 then (SWARTZ_ERR, None)
      else (SWARTZ_OK, Some \<lparr>mkind = pthread_kind flag, owner = None, depth = 0\<rparr>))"

text \<open>
  \<^verbatim>\<open>pthread_mutex_lock\<close> by thread \<open>t\<close>: \<open>None\<close> is "blocks". A thread that locks a
  normal mutex it holds blocks for ever, an error-checking one refuses.
\<close>

definition pthread_mutex_lock :: "nat \<Rightarrow> mutex \<Rightarrow> (int \<times> mutex) option" where
  "pthread_mutex_lock t m = (case owner m of
     None \<Rightarrow> Some (0, m\<lparr>owner := Some t, depth := 1\<rparr>)
   | Some o' \<Rightarrow> if o' \<noteq> t then None
       else (case mkind m of
           Mutex_Normal \<Rightarrow> None
         | Mutex_Recursive \<Rightarrow> Some (0, m\<lparr>depth := Suc (depth m)\<rparr>)
         | Mutex_Errorcheck \<Rightarrow> Some (35, m)))"

definition pthread_mutex_trylock :: "nat \<Rightarrow> mutex \<Rightarrow> int \<times> mutex" where
  "pthread_mutex_trylock t m = (case owner m of
     None \<Rightarrow> (0, m\<lparr>owner := Some t, depth := 1\<rparr>)
   | Some o' \<Rightarrow> if o' = t \<and> mkind m = Mutex_Recursive then (0, m\<lparr>depth := Suc (depth m)\<rparr>) else (16, m))"

definition pthread_mutex_unlock :: "nat \<Rightarrow> mutex \<Rightarrow> int \<times> mutex" where
  "pthread_mutex_unlock t m =
     (if owner m \<noteq> Some t \<and> mkind m \<noteq> Mutex_Normal then (1, m)
      else if depth m > 1 then (0, m\<lparr>depth := depth m - 1\<rparr>)
      else (0, m\<lparr>owner := None, depth := 0\<rparr>))"

definition swartz_mutex_lock :: "nat \<Rightarrow> mutex option \<Rightarrow> (int \<times> mutex option) option" where
  "swartz_mutex_lock t handle = (case handle of
     None \<Rightarrow> Some (SWARTZ_ERR, None)
   | Some m \<Rightarrow> map_option (\<lambda>(r, m'). (if r = 0 then SWARTZ_OK else SWARTZ_ERR, Some m')) (pthread_mutex_lock t m))"

definition swartz_mutex_trylock :: "nat \<Rightarrow> mutex option \<Rightarrow> int \<times> mutex option" where
  "swartz_mutex_trylock t handle = (case handle of
     None \<Rightarrow> (SWARTZ_ERR, None)
   | Some m \<Rightarrow> (let (r, m') = pthread_mutex_trylock t m in (if r = 0 then SWARTZ_OK else SWARTZ_ERR, Some m')))"

definition swartz_mutex_unlock :: "nat \<Rightarrow> mutex option \<Rightarrow> int \<times> mutex option" where
  "swartz_mutex_unlock t handle = (case handle of
     None \<Rightarrow> (SWARTZ_ERR, None)
   | Some m \<Rightarrow> (let (r, m') = pthread_mutex_unlock t m in (if r = 0 then SWARTZ_OK else SWARTZ_ERR, Some m')))"

definition swartz_mutex_destroy :: "mutex option \<Rightarrow> int \<times> mutex option" where
  "swartz_mutex_destroy handle = (if handle = None then (SWARTZ_ERR, None) else (SWARTZ_OK, None))"

text \<open>The class \<^verbatim>\<open>CMutex\<close>: a mutex that may have failed to be created.\<close>

definition CMutex_new :: "bool \<Rightarrow> int \<Rightarrow> mutex option" where
  "CMutex_new malloc_ok ret = snd (swartz_mutex_create True malloc_ok SWARTZ_MUTEX_ATTR_RECURSIVE ret)"

definition CMutex_Lock :: "nat \<Rightarrow> mutex option \<Rightarrow> mutex option option" where
  "CMutex_Lock t m = (if m \<noteq> None then map_option snd (swartz_mutex_lock t m) else Some m)"

definition CMutex_UnLock :: "nat \<Rightarrow> mutex option \<Rightarrow> mutex option" where
  "CMutex_UnLock t m = (if m \<noteq> None then snd (swartz_mutex_unlock t m) else m)"

definition CMutex_delete :: "mutex option \<Rightarrow> mutex option" where
  "CMutex_delete m = (if m \<noteq> None then snd (swartz_mutex_destroy m) else m)"

text \<open>
  \<^verbatim>\<open>CGuard\<close>: the constructor locks, the destructor unlocks, on the normal and on the
  exceptional exit of its scope alike. \<open>None\<close>: the constructor never returns.
\<close>

definition CGuard_scope :: "nat \<Rightarrow> (mutex option \<Rightarrow> 's \<Rightarrow> (('e + 'a) \<times> 's \<times> mutex option) option)
    \<Rightarrow> mutex option \<Rightarrow> 's \<Rightarrow> (('e + 'a) \<times> 's \<times> mutex option) option" where
  "CGuard_scope t body m st = (case CMutex_Lock t m of
     None \<Rightarrow> None
   | Some m1 \<Rightarrow> (case body m1 st of
       None \<Rightarrow> None
     | Some (r, st', m2) \<Rightarrow> Some (r, st', CMutex_UnLock t m2)))"

section \<open>Threads (swartz_thread.cpp)\<close>

text \<open>
  The outcomes of the calls below are fixed in advance (\<open>thread_os\<close>, zero is success);
  a creation returns its code, the handle's stack size and priority when there is a handle,
  and the calls it made, in order.
\<close>

record thread_os =
  os_malloc :: bool
  os_attr_init :: int
  os_setdetach :: int
  os_setstack :: "int \<Rightarrow> int"
  os_create :: int

datatype os_call = C_malloc | C_free | C_attr_init | C_setdetach | C_setstack int | C_attr_destroy | C_create

record swartz_thread_t =
  th_priority :: int
  th_stack :: int

definition SWARTZ_THREAD_DEFAULT_STACKSIZE :: int where
  "SWARTZ_THREAD_DEFAULT_STACKSIZE = 1048576"

definition swartz_thread_create ::
    "thread_os \<Rightarrow> bool \<Rightarrow> bool \<Rightarrow> int \<Rightarrow> int \<Rightarrow> int \<times> swartz_thread_t option \<times> os_call list" where
  "swartz_thread_create os handle fn stack_size priority =
     (if \<not> handle \<or> \<not> fn then (SWARTZ_ERR, None, [])
      else if \<not> os_malloc os then (SWARTZ_ERR, None, [C_malloc])
      else (let stack_size = (if stack_size = 0 then SWARTZ_THREAD_DEFAULT_STACKSIZE else stack_size) in
        if os_attr_init os \<noteq> 0 then (SWARTZ_ERR, None, [C_malloc, C_attr_init, C_free])
        else if stack_size \<noteq> 0 \<and> os_setstack os stack_size \<noteq> 0
        then (SWARTZ_ERR, None, [C_malloc, C_attr_init, C_setstack stack_size, C_free, C_attr_destroy])
        else (let calls = [C_malloc, C_attr_init] @ (if stack_size \<noteq> 0 then [C_setstack stack_size] else []) @ [C_create] in
          if os_create os \<noteq> 0 then (SWARTZ_ERR, None, calls @ [C_free, C_attr_destroy])
          else (SWARTZ_OK, Some \<lparr>th_priority = priority, th_stack = stack_size\<rparr>, calls @ [C_attr_destroy]))))"

text \<open>\<^verbatim>\<open>swartz_thread_wait\<close>: the result of \<^verbatim>\<open>pthread_join\<close> is an argument; the handle is freed.\<close>

definition swartz_thread_wait :: "swartz_thread_t option \<Rightarrow> int \<Rightarrow> int \<times> os_call list" where
  "swartz_thread_wait handle ret =
     (if handle = None then (SWARTZ_ERR, []) else (if ret = 0 then SWARTZ_OK else SWARTZ_ERR, [C_free]))"

definition swartz_thread_detached_create ::
    "thread_os \<Rightarrow> bool \<Rightarrow> int \<Rightarrow> int \<Rightarrow> int \<times> os_call list" where
  "swartz_thread_detached_create os fn stack_size priority =
     (if \<not> fn then (SWARTZ_ERR, [])
      else (let stack_size = (if stack_size = 0 then SWARTZ_THREAD_DEFAULT_STACKSIZE else stack_size) in
        if os_attr_init os \<noteq> 0 then (SWARTZ_ERR, [C_attr_init])
        else if os_setdetach os \<noteq> 0 then (SWARTZ_ERR, [C_attr_init, C_setdetach, C_attr_destroy])
        else if stack_size \<noteq> 0 \<and> os_setstack os stack_size \<noteq> 0
        then (SWARTZ_ERR, [C_attr_init, C_setdetach, C_setstack stack_size, C_attr_destroy])
        else (let calls = [C_attr_init, C_setdetach] @ (if stack_size \<noteq> 0 then [C_setstack stack_size] else []) @ [C_create] in
          (if os_create os \<noteq> 0 then SWARTZ_ERR else SWARTZ_OK, calls @ [C_attr_destroy]))))"

section \<open>Atomics (swartz_atomic.cpp)\<close>

definition HPR_AtomicAdd :: "int32 \<Rightarrow> int32 \<Rightarrow> int32 \<times> int32" where
  "HPR_AtomicAdd mem nVal = (mem, mem + nVal)"

definition swartz_atomic_inc :: "int32 \<Rightarrow> int32 \<times> int32" where
  "swartz_atomic_inc mem = HPR_AtomicAdd mem 1"

text \<open>\<^verbatim>\<open>swartz_atomic_dec\<close> has no return statement on Linux: only the cell is modelled.\<close>

definition swartz_atomic_dec :: "int32 \<Rightarrow> int32" where
  "swartz_atomic_dec mem = mem - 1"

section \<open>Library init (swartz_init.cpp)\<close>

record init_state =
  s_init_count :: int
  sigpipe_ignored :: bool

definition swartz_init :: "init_state \<Rightarrow> int \<times> init_state" where
  "swartz_init st =
     (let st1 = st\<lparr>s_init_count := s_init_count st + 1\<rparr> in
      if s_init_count st1 > 0 then (SWARTZ_OK, st1\<lparr>sigpipe_ignored := True\<rparr>) else (SWARTZ_OK, st1))"

definition swartz_fini :: "init_state \<Rightarrow> init_state" where
  "swartz_fini st = st\<lparr>s_init_count := s_init_count st - 1\<rparr>"

section \<open>Properties\<close>

text \<open>A thread's hold on a free mutex.\<close>

lemma lock_free [simp]: "owner m = None \<Longrightarrow> pthread_mutex_lock t m = Some (0, m\<lparr>owner := Some t, depth := 1\<rparr>)"
  by (simp add: pthread_mutex_lock_def)

lemma unlock_held [simp]:
  "owner m = Some t \<Longrightarrow> depth m = 1 \<Longrightarrow> pthread_mutex_unlock t m = (0, m\<lparr>owner := None, depth := 0\<rparr>)"
  by (simp add: pthread_mutex_unlock_def)

lemma CMutex_normal: "CMutex_new malloc_ok ret = Some m \<Longrightarrow> mkind m = Mutex_Normal \<and> owner m = None \<and> depth m = 0"
  by (auto simp: CMutex_new_def swartz_mutex_create_def mutex_attrs pthread_kind_def split: if_splits)

text \<open>The deadline of a timed wait is exactly the requested number of milliseconds after
  the current time, and its nanosecond part is in range, for every positive timeout: the
  seconds, the carry and the remainder fit together.\<close>

lemma sem_deadline_exact:
  assumes "0 \<le> tv_usec tv" and "tv_usec tv < 1000000" and "0 < timeout"
  shows "tv_sec (sem_deadline tv timeout) * 1000000000 + tv_nsec (sem_deadline tv timeout) =
      tvl_sec tv * 1000000000 + tv_usec tv * 1000 + timeout * 1000000 \<and>
    0 \<le> tv_nsec (sem_deadline tv timeout) \<and> tv_nsec (sem_deadline tv timeout) < 1000000000"
proof -
  let ?now = "tv_usec tv * 1000 + timeout mod 1000 * 1000000"
  have now: "0 \<le> ?now" "?now < 2000000000"
    using assms pos_mod_bound [of 1000 timeout] pos_mod_sign [of 1000 timeout] by linarith+
  have t: "timeout div 1000 * 1000000000 + timeout mod 1000 * 1000000 = timeout * 1000000"
    using div_mult_mod_eq [of timeout 1000] by linarith
  have carry: "?now mod 1000000000 = (if ?now > 999999999 then ?now - 1000000000 else ?now)"
    using now minus_mod_self2 [of ?now 1000000000] mod_pos_pos_trivial [of "?now - 1000000000" 1000000000]
      mod_pos_pos_trivial [of ?now 1000000000] by simp
  from assms now have ts: "sem_deadline tv timeout =
      \<lparr>tv_sec = (if ?now > 999999999 then tvl_sec tv + timeout div 1000 + 1 else tvl_sec tv + timeout div 1000),
       tv_nsec = ?now mod 1000000000\<rparr>"
    by (simp add: sem_deadline_def Let_def)
  show ?thesis
    unfolding ts carry using now t by (auto split: if_splits)
qed

theorem sem_deadline_exact_witness:
  "tv_sec (sem_deadline \<lparr>tvl_sec = 10, tv_usec = 700000\<rparr> 45400) * 1000000000
     + tv_nsec (sem_deadline \<lparr>tvl_sec = 10, tv_usec = 700000\<rparr> 45400) = 56100000000"
  using sem_deadline_exact [of "\<lparr>tvl_sec = 10, tv_usec = 700000\<rparr>" 45400] by simp

lemma wait_retry_filter: "wait_retry (filter (\<lambda>r. r \<noteq> Interrupted) rs) = wait_retry rs"
  by (induction rs) (auto split: wait_report.splits)

text \<open>A timed wait (any timeout but the infinite one) is not disturbed by signals: it
  returns what it would have returned without them, success exactly when the semaphore was
  acquired. The infinite wait has no such loop: the first signal ends it with an error
  although nothing was acquired.\<close>

lemma sem_wait_and_signals:
  "(timeout \<noteq> -1 \<longrightarrow> swartz_sem_wait True tv timeout reports =
      swartz_sem_wait True tv timeout (filter (\<lambda>r. r \<noteq> Interrupted) reports)) \<and>
   swartz_sem_wait True tv SWARTZ_INFINITE (Interrupted # reports) = Some SWARTZ_ERR"
proof -
  have "timeout \<noteq> -1 \<Longrightarrow> swartz_sem_wait True tv timeout reports =
      swartz_sem_wait True tv timeout (filter (\<lambda>r. r \<noteq> Interrupted) reports)"
    by (cases "timeout = 0") (simp_all add: swartz_sem_wait_def swartz_sem_wait_call_def wait_retry_filter)
  then show ?thesis by (simp add: swartz_sem_wait_def swartz_sem_wait_call_def)
qed

theorem sem_wait_and_signals_witness:
  "swartz_sem_wait True \<lparr>tvl_sec = 0, tv_usec = 0\<rparr> 45000 [Interrupted, Interrupted, Acquired] = Some SWARTZ_OK"
  using sem_wait_and_signals [of 45000 "\<lparr>tvl_sec = 0, tv_usec = 0\<rparr>" "[Interrupted, Interrupted, Acquired]"]
  by (simp add: swartz_sem_wait_def swartz_sem_wait_call_def)

text \<open>Creating a thread either yields a running thread with a handle, or an error and no
  handle; on every path what was acquired is given back exactly once: the attribute object
  is destroyed as often as it was initialised, and the handle's memory is freed exactly when
  no handle is returned.\<close>

lemma thread_create_is_balanced:
  assumes "swartz_thread_create os h fn stack_size priority = (ret, handle, calls)"
  shows "(ret = SWARTZ_OK \<longleftrightarrow> handle \<noteq> None) \<and> (ret = SWARTZ_OK \<longleftrightarrow> C_create \<in> set calls \<and> os_create os = 0) \<and>
    count_list calls C_attr_destroy = (if os_attr_init os = 0 then count_list calls C_attr_init else 0) \<and>
    count_list calls C_free = (if handle = None \<and> os_malloc os then count_list calls C_malloc else 0)"
  using assms
  by (auto simp: swartz_thread_create_def Let_def SWARTZ_THREAD_DEFAULT_STACKSIZE_def split: if_splits)

definition small_stack_os :: thread_os where
  "small_stack_os = \<lparr>os_malloc = True, os_attr_init = 0, os_setdetach = 0,
     os_setstack = (\<lambda>n. if n < 16384 then 22 else 0), os_create = 0\<rparr>"

theorem thread_create_is_balanced_witness:
  "count_list [C_malloc, C_attr_init, C_setstack 4096, C_free, C_attr_destroy] C_attr_destroy = 1 \<and>
   swartz_thread_create small_stack_os True True 4096 0 =
     (SWARTZ_ERR, None, [C_malloc, C_attr_init, C_setstack 4096, C_free, C_attr_destroy])"
proof -
  have run: "swartz_thread_create small_stack_os True True 4096 0 =
     (SWARTZ_ERR, None, [C_malloc, C_attr_init, C_setstack 4096, C_free, C_attr_destroy])"
    by (simp add: swartz_thread_create_def small_stack_os_def)
  from thread_create_is_balanced [OF run] run show ?thesis by (simp add: small_stack_os_def)
qed

text \<open>Two guards of one thread on the same mutex, one inside the other, never come back:
  the attribute the class asks for by the name RECURSIVE is the value of a normal mutex. A
  single guard does come back, with the mutex free again, whether its scope is left normally
  or by an exception, and while it is in its scope no other thread gets the mutex.\<close>

lemma guard_scope:
  assumes "CMutex_new malloc_ok init_ret = Some m"
    and "\<And>mx st. \<exists>r st'. body mx st = Some (r, st', mx)"
  shows "(\<exists>r st'. CGuard_scope t body (Some m) st = Some (r, st', Some m)) \<and>
    (t' \<noteq> t \<longrightarrow> CMutex_Lock t' (the (CMutex_Lock t (Some m))) = None) \<and>
    CGuard_scope t (\<lambda>mx s. CGuard_scope t body mx s) (Some m) st = None"
proof -
  from CMutex_normal [OF assms(1)] have m: "mkind m = Mutex_Normal" "owner m = None" "depth m = 0" by simp_all
  obtain r st' where b: "body (Some (m\<lparr>owner := Some t, depth := 1\<rparr>)) st
      = Some (r, st', Some (m\<lparr>owner := Some t, depth := 1\<rparr>))"
    using assms(2) by blast
  have freed: "m\<lparr>owner := None, depth := 0\<rparr> = m" using m by simp
  show ?thesis
    using m b freed
    by (auto simp: CGuard_scope_def CMutex_Lock_def CMutex_UnLock_def swartz_mutex_lock_def
        swartz_mutex_unlock_def pthread_mutex_lock_def)
qed

theorem guard_scope_witness:
  "CGuard_scope 1 (\<lambda>mx s. CGuard_scope 1 (\<lambda>mx st. Some (Inr () :: unit + unit, (), mx)) mx s)
     (Some \<lparr>mkind = Mutex_Normal, owner = None, depth = 0\<rparr>) () = None"
proof -
  have "CMutex_new True 0 = Some \<lparr>mkind = Mutex_Normal, owner = None, depth = 0\<rparr>"
    by (simp add: CMutex_new_def swartz_mutex_create_def mutex_attrs pthread_kind_def)
  from guard_scope [OF this, of "\<lambda>mx st. Some (Inr () :: unit + unit, (), mx)" 1 "()"] show ?thesis by simp
qed

end
