(* ===== verification/Thread_Pool.thy ===== *)
theory Thread_Pool
  imports Work_Queue Swartz_Utils
begin

text \<open>
  The thread pool (\<^verbatim>\<open>swartz_thrmgr.cpp\<close>, \<^verbatim>\<open>swartz_threadpool.cpp\<close>). A worker, a
  caller of \<^verbatim>\<open>thrmgr_dispatch\<close> and the caller of \<^verbatim>\<open>thrmgr_destroy\<close> are each a function
  from a program point to the next one, one shared access per step; \<open>None\<close> is "cannot move
  now" (a mutex is held, a semaphore is zero) and \<open>tp_step\<close> interleaves them. The queue is
  the linked list of theory \<open>Work_Queue\<close>. The accesses to the pool between lock and unlock
  in a worker are one step, because every access to those fields is under the same mutex; a
  caller holds the mutex over several steps, because the pool's state and idle count are
  also touched without it.
\<close>

section \<open>State\<close>

datatype pool_state_t = POOL_VALID | POOL_EXIT

record 'a threadpool_t =
  thr_stacksize :: int
  state :: pool_state_t
  thr_max :: int
  thr_alive :: int
  thr_idle :: int
  idle_timeout :: int
  pool_sem :: nat
  pool_sig_sem :: nat
  pool_mutex :: bool
  queue :: "'a wq_state"

text \<open>
  \<^verbatim>\<open>thrmgr_new\<close>: whether a handler is given and whether the two allocations succeed are
  arguments.
\<close>

definition thrmgr_new :: "bool \<Rightarrow> bool \<Rightarrow> int \<Rightarrow> int \<Rightarrow> bool \<Rightarrow> int \<Rightarrow> 'a threadpool_t option" where
  "thrmgr_new malloc_pool malloc_queue max_threads idle handler stack_size =
     (if stack_size < 0 \<or> max_threads \<le> 0 \<or> \<not> handler then None
      else if \<not> malloc_pool then None
      else (case work_queue_new malloc_queue of
          None \<Rightarrow> None
        | Some q \<Rightarrow> Some \<lparr>
            thr_stacksize = (if stack_size = 0 then 1024 * 1024
              else if stack_size < 256 * 1024 then 256 * 1024 else stack_size),
            state = POOL_VALID, thr_max = max_threads, thr_alive = 0, thr_idle = 0, idle_timeout = idle,
            pool_sem = 0, pool_sig_sem = 0, pool_mutex = False, queue = \<lparr>heap = Map.empty, work_q = q\<rparr>\<rparr>))"

section \<open>The worker\<close>

text \<open>
  Program points of \<^verbatim>\<open>thrmgr_worker\<close>: the loop's test, the idle count going up, the
  wait, the idle count going down (with the wait's result), the test for leaving, taking
  a task, running the handler, leaving, the last signal.
\<close>

datatype 'a worker_pc =
    W_top | W_inc | W_wait | W_woken bool | W_check bool | W_pop | W_run 'a | W_leave | W_signal | W_done

text \<open>\<open>giveup\<close>: the wait returns an error although the semaphore may be positive.\<close>

fun thrmgr_worker :: "bool \<Rightarrow> 'a worker_pc \<Rightarrow> 'a threadpool_t \<Rightarrow> ('a worker_pc \<times> 'a threadpool_t) option" where
  "thrmgr_worker giveup W_top p = Some (if state p \<noteq> POOL_EXIT then W_inc else W_leave, p)"
| "thrmgr_worker giveup W_inc p = Some (W_wait, p\<lparr>thr_idle := thr_idle p + 1\<rparr>)"
| "thrmgr_worker giveup W_wait p =
     (if giveup then Some (W_woken False, p)
      else if pool_sig_sem p > 0 then Some (W_woken True, p\<lparr>pool_sig_sem := pool_sig_sem p - 1\<rparr>)
      else None)"
| "thrmgr_worker giveup (W_woken retval) p = Some (W_check retval, p\<lparr>thr_idle := thr_idle p - 1\<rparr>)"
| "thrmgr_worker giveup (W_check retval) p =
     Some (if \<not> retval \<or> state p = POOL_EXIT then W_leave else W_pop, p)"
| "thrmgr_worker giveup W_pop p =
     (if pool_mutex p then None
      else (case work_queue_pop (queue p) of
          None \<Rightarrow> None
        | Some (job_data, q) \<Rightarrow>
            Some (case job_data of None \<Rightarrow> W_top | Some d \<Rightarrow> W_run d, p\<lparr>queue := q\<rparr>)))"
| "thrmgr_worker giveup (W_run d) p = Some (W_top, p)"
| "thrmgr_worker giveup W_leave p =
     (if pool_mutex p then None
      else (let p' = p\<lparr>thr_alive := thr_alive p - 1\<rparr> in
        Some (if thr_alive p' = 0 \<and> state p' = POOL_EXIT then W_signal else W_done, p')))"
| "thrmgr_worker giveup W_signal p = Some (W_done, p\<lparr>pool_sem := pool_sem p + 1\<rparr>)"
| "thrmgr_worker giveup W_done p = None"

section \<open>Dispatch\<close>

datatype 'a caller_pc = D_lock 'a | D_add 'a | D_spawn | D_post | D_ret bool

text \<open>
  A caller of \<^verbatim>\<open>thrmgr_dispatch\<close>: what \<^verbatim>\<open>malloc\<close> returns, the time, and whether a
  thread could be created are arguments; the last component says that a worker was started.
\<close>

fun thrmgr_dispatch :: "addr option \<Rightarrow> timeval \<Rightarrow> bool \<Rightarrow> 'a caller_pc \<Rightarrow> 'a threadpool_t
    \<Rightarrow> ('a caller_pc \<times> 'a threadpool_t \<times> bool) option" where
  "thrmgr_dispatch w tms create_ok (D_lock user_data) p =
     (if pool_mutex p then None
      else if state p \<noteq> POOL_VALID then Some (D_ret False, p, False)
      else Some (D_add user_data, p\<lparr>pool_mutex := True\<rparr>, False))"
| "thrmgr_dispatch w tms create_ok (D_add user_data) p =
     (case work_queue_add w tms user_data (queue p) of
        None \<Rightarrow> None
      | Some (True, q) \<Rightarrow> Some (D_spawn, p\<lparr>queue := q\<rparr>, False)
      | Some (False, q) \<Rightarrow> Some (D_ret False, p\<lparr>queue := q, pool_mutex := False\<rparr>, False))"
| "thrmgr_dispatch w tms create_ok D_spawn p =
     (if thr_idle p = 0 \<and> thr_alive p < thr_max p then
        (if \<not> create_ok then
           (if thr_alive p = 0 then Some (D_ret False, p\<lparr>pool_mutex := False\<rparr>, False)
            else Some (D_post, p\<lparr>pool_mutex := False\<rparr>, False))
         else Some (D_post, p\<lparr>thr_alive := thr_alive p + 1, pool_mutex := False\<rparr>, True))
      else Some (D_post, p\<lparr>pool_mutex := False\<rparr>, False))"
| "thrmgr_dispatch w tms create_ok D_post p = Some (D_ret True, p\<lparr>pool_sig_sem := pool_sig_sem p + 1\<rparr>, False)"
| "thrmgr_dispatch w tms create_ok (D_ret b) p = None"

section \<open>Destroy\<close>

datatype destroy_pc = X_start | X_lock | X_wait | X_free bool | X_done

text \<open>
  \<^verbatim>\<open>thrmgr_destroy\<close>; \<open>intr\<close>: the wait for the last worker is ended by a signal handler
  (\<open>sem_wait_and_signals\<close> shows that it then returns). \<open>X_free\<close> carries whether the last
  worker's signal was received; at \<open>X_free\<close> the semaphores, the mutex, the queue and the pool
  are given back.
\<close>

fun thrmgr_destroy :: "bool \<Rightarrow> destroy_pc \<Rightarrow> 'a threadpool_t \<Rightarrow> (destroy_pc \<times> 'a threadpool_t) option" where
  "thrmgr_destroy intr X_start p =
     (if state p \<noteq> POOL_VALID then Some (X_done, p) else Some (X_lock, p\<lparr>state := POOL_EXIT\<rparr>))"
| "thrmgr_destroy intr X_lock p =
     (if pool_mutex p then None
      else if thr_alive p > 0
        then Some (X_wait, p\<lparr>pool_sig_sem := pool_sig_sem p + nat (thr_alive p)\<rparr>)
      else Some (X_free False, p))"
| "thrmgr_destroy intr X_wait p =
     (if intr then Some (X_free False, p)
      else if pool_sem p > 0 then Some (X_free True, p\<lparr>pool_sem := pool_sem p - 1\<rparr>) else None)"
| "thrmgr_destroy intr (X_free waited) p = Some (X_done, p)"
| "thrmgr_destroy intr X_done p = None"

section \<open>The wrappers of swartz_threadpool.cpp\<close>

definition swartz_threadpool_create ::
    "bool \<Rightarrow> 'a threadpool_t option \<Rightarrow> int \<times> 'a threadpool_t option option" where
  "swartz_threadpool_create malloc_ok pool =
     (if malloc_ok then (if pool \<noteq> None then (SWARTZ_OK, Some pool) else (SWARTZ_ERR, None))
      else (SWARTZ_ERR, None))"

text \<open>
  The handle may be null, and so may the pool in it; \<open>dispatched\<close> is what
  \<^verbatim>\<open>thrmgr_dispatch\<close> returns when it is called.
\<close>

definition swartz_threadpool_work :: "'a threadpool_t option option \<Rightarrow> bool \<Rightarrow> bool \<Rightarrow> int" where
  "swartz_threadpool_work handle param dispatched =
     (if handle = None \<or> \<not> param \<or> handle = Some None then SWARTZ_ERR
      else if dispatched then SWARTZ_OK else SWARTZ_ERR)"

definition swartz_threadpool_destroy :: "'a threadpool_t option option \<Rightarrow> int" where
  "swartz_threadpool_destroy handle = (if handle = None \<or> handle = Some None then 1 else SWARTZ_OK)"

section \<open>The threads together\<close>

text \<open>
  \<open>accepted\<close>, \<open>handed\<close> and \<open>unsignalled\<close> are history: the tasks that entered the queue, the
  tasks workers took, and how many tasks were queued without a signal because the pool's
  first thread could not be created.
\<close>

record 'a tp_sys =
  pool :: "'a threadpool_t"
  workers :: "'a worker_pc list"
  callers :: "'a caller_pc list"
  destroyer :: destroy_pc
  accepted :: "'a list"
  handed :: "'a list"
  unsignalled :: nat

fun taken :: "'a worker_pc \<Rightarrow> 'a worker_pc \<Rightarrow> 'a list" where
  "taken W_pop (W_run d) = [d]"
| "taken _ _ = []"

fun queued :: "'a caller_pc \<Rightarrow> 'a caller_pc \<Rightarrow> 'a list" where
  "queued (D_add d) D_spawn = [d]"
| "queued _ _ = []"

fun lost_signal :: "'a caller_pc \<Rightarrow> 'a caller_pc \<Rightarrow> nat" where
  "lost_signal D_spawn (D_ret False) = 1"
| "lost_signal _ _ = 0"

inductive tp_step :: "'a tp_sys \<Rightarrow> 'a tp_sys \<Rightarrow> bool" where
  worker: "i < length (workers s) \<Longrightarrow> thrmgr_worker giveup (workers s ! i) (pool s) = Some (pc, p) \<Longrightarrow>
    tp_step s (s\<lparr>pool := p, workers := (workers s)[i := pc], handed := handed s @ taken (workers s ! i) pc\<rparr>)"
| call: "tp_step s (s\<lparr>callers := callers s @ [D_lock d]\<rparr>)"
| dispatch: "i < length (callers s) \<Longrightarrow> wq_usable (w, tms) (queue (pool s)) \<Longrightarrow>
    thrmgr_dispatch w tms create_ok (callers s ! i) (pool s) = Some (pc, p, spawned) \<Longrightarrow>
    tp_step s (s\<lparr>pool := p, callers := (callers s)[i := pc],
      workers := workers s @ (if spawned then [W_top] else []),
      accepted := accepted s @ queued (callers s ! i) pc,
      unsignalled := unsignalled s + lost_signal (callers s ! i) pc\<rparr>)"
| destroy: "thrmgr_destroy intr (destroyer s) (pool s) = Some (pc, p) \<Longrightarrow>
    tp_step s (s\<lparr>pool := p, destroyer := pc\<rparr>)"

inductive tp_reach :: "'a threadpool_t \<Rightarrow> 'a tp_sys \<Rightarrow> bool" for p0 where
  start: "tp_reach p0 \<lparr>pool = p0, workers = [], callers = [], destroyer = X_start, accepted = [], handed = [],
     unsignalled = 0\<rparr>"
| step: "tp_reach p0 s \<Longrightarrow> tp_step s s' \<Longrightarrow> tp_reach p0 s'"

section \<open>Counting threads\<close>

definition cnt :: "('b \<Rightarrow> bool) \<Rightarrow> 'b list \<Rightarrow> int" where
  "cnt P xs = int (length (filter P xs))"

lemma cnt_Nil [simp]: "cnt P [] = 0"
  by (simp add: cnt_def)

lemma cnt_append [simp]: "cnt P (xs @ ys) = cnt P xs + cnt P ys"
  by (simp add: cnt_def)

lemma cnt_single [simp]: "cnt P [x] = of_bool (P x)"
  by (simp add: cnt_def)

lemma cnt_nonneg: "0 \<le> cnt P xs"
  by (simp add: cnt_def)

lemma cnt_update: "i < length xs \<Longrightarrow> cnt P (xs[i := x]) = cnt P xs - of_bool (P (xs ! i)) + of_bool (P x)"
proof (induction xs arbitrary: i)
  case (Cons y ys)
  then show ?case by (cases i) (auto simp: cnt_def)
qed simp

lemma cnt_pos: "i < length xs \<Longrightarrow> P (xs ! i) \<Longrightarrow> 0 < cnt P xs"
  by (auto simp: cnt_def filter_empty_conv)

lemma cnt_zero: "cnt P xs = 0 \<longleftrightarrow> (\<forall>x \<in> set xs. \<not> P x)"
  by (auto simp: cnt_def filter_empty_conv)

lemma cnt_posD: "0 < cnt P xs \<Longrightarrow> \<exists>i < length xs. P (xs ! i)"
  by (auto simp: cnt_def filter_empty_conv in_set_conv_nth)

fun live :: "'a worker_pc \<Rightarrow> bool" where
  "live W_signal = False"
| "live W_done = False"
| "live _ = True"

fun idling :: "'a worker_pc \<Rightarrow> bool" where
  "idling W_wait = True"
| "idling (W_woken r) = True"
| "idling _ = False"

fun will_wait :: "'a worker_pc \<Rightarrow> bool" where
  "will_wait W_inc = True"
| "will_wait W_wait = True"
| "will_wait _ = False"

fun signalling :: "'a worker_pc \<Rightarrow> bool" where
  "signalling W_signal = True"
| "signalling _ = False"

fun has_token :: "'a worker_pc \<Rightarrow> bool" where
  "has_token (W_woken r) = r"
| "has_token (W_check r) = r"
| "has_token W_pop = True"
| "has_token _ = False"

fun holds_mutex :: "'a caller_pc \<Rightarrow> bool" where
  "holds_mutex (D_add d) = True"
| "holds_mutex D_spawn = True"
| "holds_mutex _ = False"

fun will_post :: "'a caller_pc \<Rightarrow> bool" where
  "will_post D_spawn = True"
| "will_post D_post = True"
| "will_post _ = False"

section \<open>Invariants\<close>

lemma pop_facts:
  assumes "wq_inv q" and "work_queue_pop q = Some (r, q')"
  shows "wq_inv q'" and "wq_list q = (case r of None \<Rightarrow> [] | Some x \<Rightarrow> [x]) @ wq_list q'"
    and "r = None \<Longrightarrow> wq_list q = []"
  using work_queue.get_law [OF assms(1)] assms(2) by (cases "wq_list q"; auto)+

lemma pop_none: "wq_inv q \<Longrightarrow> work_queue_pop q = Some (None, q') \<Longrightarrow> wq_list q = [] \<and> wq_list q' = []"
  using pop_facts [of q None q'] by simp

lemma pop_defined: "wq_inv q \<Longrightarrow> \<exists>r q'. work_queue_pop q = Some (r, q')"
  using work_queue.get_law [of q] by (cases "wq_list q") auto

lemma add_facts:
  assumes "wq_inv q" and "wq_usable (w, t) q" and "work_queue_add w t d q = Some (b, q')"
  shows "wq_inv q'" and "wq_list q' = wq_list q @ (if b then [d] else [])"
  using work_queue.put_law [OF assms(1,2), of d] assms(3) by auto

definition tp_counts :: "'a tp_sys \<Rightarrow> bool" where
  "tp_counts s \<longleftrightarrow> thr_alive (pool s) = cnt live (workers s) \<and> thr_idle (pool s) = cnt idling (workers s) \<and>
     thr_alive (pool s) \<le> thr_max (pool s)"

definition tp_mutex :: "'a tp_sys \<Rightarrow> bool" where
  "tp_mutex s \<longleftrightarrow> cnt holds_mutex (callers s) = of_bool (pool_mutex (pool s))"

definition tp_queue :: "'a tp_sys \<Rightarrow> bool" where
  "tp_queue s \<longleftrightarrow> wq_inv (queue (pool s)) \<and> accepted s = handed s @ wq_list (queue (pool s))"

text \<open>The signals of the last worker: pending in the semaphore or about to be posted.\<close>

definition final_signals :: "'a tp_sys \<Rightarrow> int" where
  "final_signals s = int (pool_sem (pool s)) + cnt signalling (workers s)"

definition tp_exit :: "'a tp_sys \<Rightarrow> bool" where
  "tp_exit s \<longleftrightarrow> (state (pool s) = POOL_VALID \<longleftrightarrow> destroyer s = X_start) \<and>
     (case destroyer s of
        X_start \<Rightarrow> final_signals s = 0
      | X_lock \<Rightarrow> final_signals s \<le> 1 \<and> (final_signals s > 0 \<longrightarrow> thr_alive (pool s) = 0) \<and>
          (pool_mutex (pool s) \<longrightarrow> final_signals s = 0)
      | X_wait \<Rightarrow> \<not> pool_mutex (pool s) \<and> final_signals s = of_bool (thr_alive (pool s) = 0) \<and>
          cnt will_wait (workers s) \<le> int (pool_sig_sem (pool s))
      | X_free waited \<Rightarrow> \<not> pool_mutex (pool s) \<and>
          (waited \<longrightarrow> cnt live (workers s) = 0 \<and> cnt signalling (workers s) = 0)
      | X_done \<Rightarrow> \<not> pool_mutex (pool s))"

definition tp_tokens :: "'a tp_sys \<Rightarrow> bool" where
  "tp_tokens s \<longleftrightarrow> (state (pool s) = POOL_VALID \<longrightarrow>
     int (length (wq_list (queue (pool s)))) = int (pool_sig_sem (pool s)) + cnt has_token (workers s)
       + cnt will_post (callers s) + int (unsignalled s))"

lemmas tp_invs = tp_counts_def tp_mutex_def tp_queue_def tp_exit_def tp_tokens_def final_signals_def

text \<open>One lemma per invariant and kind of step; \<open>cnt_update\<close> does the counting.\<close>

lemma worker_counts:
  assumes "tp_counts s" and "i < length (workers s)" and "thrmgr_worker g (workers s ! i) (pool s) = Some (pc, p)"
  shows "tp_counts (s\<lparr>pool := p, workers := (workers s)[i := pc], handed := h\<rparr>)"
  using assms cnt_pos [OF assms(2), of live]
  by (cases "workers s ! i") (auto simp: tp_counts_def cnt_update Let_def split: if_splits option.splits prod.splits)

lemma dispatch_counts:
  assumes "tp_counts s" and "thrmgr_dispatch w t c pc0 (pool s) = Some (pc, p, spawned)"
  shows "tp_counts (s\<lparr>pool := p, callers := cs, workers := workers s @ (if spawned then [W_top] else []),
    accepted := a, unsignalled := u\<rparr>)"
  using assms
  by (cases pc0) (auto simp: tp_counts_def split: if_splits option.splits prod.splits bool.splits)

lemma destroy_counts:
  assumes "tp_counts s" and "thrmgr_destroy b (destroyer s) (pool s) = Some (pc, p)"
  shows "tp_counts (s\<lparr>pool := p, destroyer := pc\<rparr>)"
  using assms by (cases "destroyer s") (auto simp: tp_counts_def split: if_splits)

lemma worker_frame:
  assumes "thrmgr_worker g pc0 p0 = Some (pc, p)"
  shows "state p = state p0" and "pool_mutex p = pool_mutex p0" and "thr_max p = thr_max p0"
  using assms by (cases pc0; auto simp: Let_def split: if_splits option.splits prod.splits)+

lemma worker_queue:
  assumes "tp_queue s" and "i < length (workers s)" and "thrmgr_worker g (workers s ! i) (pool s) = Some (pc, p)"
  shows "tp_queue (s\<lparr>pool := p, workers := ws, handed := handed s @ taken (workers s ! i) pc\<rparr>)"
  using assms
  by (cases "workers s ! i")
    (auto simp: tp_queue_def Let_def split: if_splits option.splits prod.splits dest: pop_facts)

lemma dispatch_queue:
  assumes "tp_queue s" and "wq_usable (w, t) (queue (pool s))"
    and "thrmgr_dispatch w t c pc0 (pool s) = Some (pc, p, spawned)"
  shows "tp_queue (s\<lparr>pool := p, callers := cs, workers := ws,
    accepted := accepted s @ queued pc0 pc, unsignalled := u\<rparr>)"
  using assms
  by (cases pc0)
    (auto simp: tp_queue_def simp del: wq_usable.simps split: if_splits option.splits prod.splits bool.splits
      dest: add_facts)

lemma dispatch_mutex:
  assumes "tp_mutex s" and "i < length (callers s)"
    and "thrmgr_dispatch w t c (callers s ! i) (pool s) = Some (pc, p, spawned)"
  shows "tp_mutex (s\<lparr>pool := p, callers := (callers s)[i := pc], workers := ws, accepted := a, unsignalled := u\<rparr>)"
  using assms cnt_pos [OF assms(2), of holds_mutex]
  by (cases "callers s ! i")
    (auto simp: tp_mutex_def cnt_update split: if_splits option.splits prod.splits bool.splits)

lemma worker_exit:
  assumes "tp_exit s" and "tp_counts s" and "i < length (workers s)"
    and "thrmgr_worker g (workers s ! i) (pool s) = Some (pc, p)"
  shows "tp_exit (s\<lparr>pool := p, workers := (workers s)[i := pc], handed := h\<rparr>)"
  using assms cnt_pos [OF assms(3), of live] cnt_pos [OF assms(3), of signalling] cnt_pos [OF assms(3), of will_wait]
  by (cases "workers s ! i"; cases "destroyer s"; cases "state (pool s)")
    (auto simp: tp_exit_def tp_counts_def final_signals_def cnt_update Let_def of_nat_diff
      split: if_splits option.splits prod.splits)

lemma dispatch_exit:
  assumes "tp_exit s" and "tp_mutex s" and "tp_counts s" and "i < length (callers s)"
    and "thrmgr_dispatch w t c (callers s ! i) (pool s) = Some (pc, p, spawned)"
  shows "tp_exit (s\<lparr>pool := p, callers := cs, workers := workers s @ (if spawned then [W_top] else []),
    accepted := a, unsignalled := u\<rparr>)"
  using assms cnt_pos [OF assms(4), of holds_mutex]
  by (cases "callers s ! i"; cases "destroyer s"; cases "state (pool s)")
    (auto simp: tp_exit_def tp_counts_def tp_mutex_def final_signals_def
      split: if_splits option.splits prod.splits bool.splits)

lemma cnt_mono: "(\<And>x. P x \<Longrightarrow> Q x) \<Longrightarrow> cnt P xs \<le> cnt Q xs"
  by (induction xs) (auto simp: cnt_def)

lemma will_wait_live: "cnt will_wait ws \<le> cnt live ws"
proof (rule cnt_mono)
  fix x :: "'a worker_pc" show "will_wait x \<Longrightarrow> live x" by (cases x) simp_all
qed

lemma destroy_exit:
  assumes "tp_exit s" and "tp_counts s" and "thrmgr_destroy b (destroyer s) (pool s) = Some (pc, p)"
  shows "tp_exit (s\<lparr>pool := p, destroyer := pc\<rparr>)"
  using assms will_wait_live [of "workers s"] cnt_nonneg [of signalling "workers s"]
  by (cases "destroyer s"; cases "state (pool s)")
    (auto simp: tp_exit_def tp_counts_def final_signals_def split: if_splits)

lemma worker_tokens:
  assumes "tp_tokens s" and "tp_queue s" and "i < length (workers s)"
    and "thrmgr_worker g (workers s ! i) (pool s) = Some (pc, p)"
  shows "tp_tokens (s\<lparr>pool := p, workers := (workers s)[i := pc], handed := h\<rparr>)"
  using assms cnt_pos [OF assms(3), of has_token] cnt_nonneg [of will_post "callers s"]
  by (cases "workers s ! i")
    (auto simp: tp_tokens_def tp_queue_def cnt_update Let_def of_nat_diff dest: pop_none pop_facts
      split: if_splits option.splits prod.splits)

lemma dispatch_tokens:
  assumes "tp_tokens s" and "tp_queue s" and "i < length (callers s)" and "wq_usable (w, t) (queue (pool s))"
    and "thrmgr_dispatch w t c (callers s ! i) (pool s) = Some (pc, p, spawned)"
  shows "tp_tokens (s\<lparr>pool := p, callers := (callers s)[i := pc],
    workers := workers s @ (if spawned then [W_top] else []), accepted := a,
    unsignalled := unsignalled s + lost_signal (callers s ! i) pc\<rparr>)"
  using assms
  by (cases "callers s ! i")
    (auto simp: tp_tokens_def tp_queue_def cnt_update simp del: wq_usable.simps dest: add_facts
      split: if_splits option.splits prod.splits bool.splits)

definition tp_ok :: "'a tp_sys \<Rightarrow> bool" where
  "tp_ok s \<longleftrightarrow> tp_counts s \<and> tp_mutex s \<and> tp_queue s \<and> tp_exit s \<and> tp_tokens s"

lemma tp_step_ok: "tp_step s s' \<Longrightarrow> tp_ok s \<Longrightarrow> tp_ok s'"
proof (induction rule: tp_step.induct)
  case (worker i s giveup pc p)
  then have "tp_mutex (s\<lparr>pool := p, workers := (workers s)[i := pc], handed := handed s @ taken (workers s ! i) pc\<rparr>)"
    using worker_frame [of giveup "workers s ! i" "pool s" pc p] by (auto simp: tp_ok_def tp_mutex_def)
  with worker show ?case
    by (auto simp: tp_ok_def intro: worker_counts worker_queue worker_exit worker_tokens)
next
  case (call s d)
  then show ?case by (auto simp: tp_ok_def tp_invs split: destroy_pc.splits)
next
  case (dispatch i s w tms create_ok pc p spawned)
  then show ?case unfolding tp_ok_def
    by (intro conjI) (blast intro: dispatch_counts dispatch_mutex dispatch_queue dispatch_exit dispatch_tokens)+
next
  case (destroy intr s pc p)
  then have "tp_mutex (s\<lparr>pool := p, destroyer := pc\<rparr>) \<and> tp_queue (s\<lparr>pool := p, destroyer := pc\<rparr>)
      \<and> tp_tokens (s\<lparr>pool := p, destroyer := pc\<rparr>)"
    by (cases "destroyer s") (auto simp: tp_ok_def tp_mutex_def tp_queue_def tp_tokens_def tp_exit_def split: if_splits)
  with destroy show ?case by (auto simp: tp_ok_def intro: destroy_counts destroy_exit)
qed

lemma thrmgr_new_start:
  assumes "thrmgr_new mp mq n idle h sz = Some p0"
  shows "tp_ok \<lparr>pool = p0, workers = [], callers = [], destroyer = X_start, accepted = [], handed = [], unsignalled = 0\<rparr>"
proof -
  from assms obtain q where q: "work_queue_new mq = Some q" and p0: "queue p0 = \<lparr>heap = Map.empty, work_q = q\<rparr>"
    "state p0 = POOL_VALID" "thr_alive p0 = 0" "thr_idle p0 = 0" "pool_sem p0 = 0" "pool_sig_sem p0 = 0"
    "\<not> pool_mutex p0" "0 \<le> thr_max p0"
    by (auto simp: thrmgr_new_def split: if_splits option.splits)
  from q p0 have "queue p0 = wq_empty"
    by (auto simp: work_queue_new_def wq_empty_def split: if_splits)
  with p0 show ?thesis by (auto simp: tp_ok_def tp_invs wq_empty_inv)
qed

lemma tp_reach_ok:
  assumes "thrmgr_new mp mq n idle h sz = Some p0" and "tp_reach p0 s"
  shows "tp_ok s"
  using assms(2) by induction (auto simp: thrmgr_new_start [OF assms(1)] intro: tp_step_ok)

section \<open>Shutting down\<close>

text \<open>
  How far a worker is from its end once the pool is shutting down; the sum over the workers
  bounds the steps \<^verbatim>\<open>thrmgr_destroy\<close> waits for.
\<close>

fun rank :: "'a worker_pc \<Rightarrow> nat" where
  "rank W_pop = 9" | "rank (W_run d) = 8" | "rank W_top = 7" | "rank W_inc = 6" | "rank W_wait = 5"
| "rank (W_woken r) = 4" | "rank (W_check r) = 3" | "rank W_leave = 2" | "rank W_signal = 1" | "rank W_done = 0"

definition work_left :: "'a tp_sys \<Rightarrow> nat" where
  "work_left s = sum_list (map rank (workers s))"

lemma sum_list_update_less:
  "i < length xs \<Longrightarrow> f x < f (xs ! i) \<Longrightarrow> sum_list (map f (xs[i := x])) < (sum_list (map f xs) :: nat)"
proof (induction xs arbitrary: i)
  case (Cons y ys)
  then show ?case by (cases i) auto
qed simp

lemma worker_rank:
  "state p = POOL_EXIT \<Longrightarrow> thrmgr_worker g pc p = Some (pc', p') \<Longrightarrow> rank pc' < rank pc"
  by (cases pc) (auto simp: Let_def split: if_splits option.splits prod.splits)

lemma live_worker_moves:
  assumes "live pc \<or> signalling pc" and "\<not> pool_mutex p" and "wq_inv (queue p)" and "will_wait pc \<Longrightarrow> 0 < pool_sig_sem p"
  shows "\<exists>pc' p'. thrmgr_worker False pc p = Some (pc', p')"
  using assms pop_defined [of "queue p"] by (cases pc) (auto simp: Let_def split: option.splits)

lemma shutdown_progress:
  assumes ok: "tp_ok s" and wait: "destroyer s = X_wait" and none: "pool_sem (pool s) = 0"
  shows "\<exists>i < length (workers s). \<exists>pc p. thrmgr_worker False (workers s ! i) (pool s) = Some (pc, p)"
proof -
  from ok wait have e: "\<not> pool_mutex (pool s)" "final_signals s = of_bool (thr_alive (pool s) = 0)"
      "cnt will_wait (workers s) \<le> int (pool_sig_sem (pool s))" "thr_alive (pool s) = cnt live (workers s)"
      "wq_inv (queue (pool s))"
    by (auto simp: tp_ok_def tp_exit_def tp_counts_def tp_queue_def)
  have "0 < cnt signalling (workers s) \<or> 0 < cnt live (workers s)"
    using e none cnt_nonneg [of live "workers s"] by (cases "thr_alive (pool s) = 0") (auto simp: final_signals_def)
  then obtain i where i: "i < length (workers s)" "live (workers s ! i) \<or> signalling (workers s ! i)"
    using cnt_posD by blast
  have "will_wait (workers s ! i) \<Longrightarrow> 0 < pool_sig_sem (pool s)"
    using cnt_pos [OF i(1), of will_wait] e(3) by fastforce
  with live_worker_moves [OF i(2) e(1,5)] i(1) show ?thesis by blast
qed

section \<open>Properties\<close>

text \<open>C12: In every reachable state of a pool the counters are right and bounded: the alive
  count is the number of threads that have not left, it never exceeds the configured maximum,
  the idle count is the number of threads in their wait, and the mutex is held by at most one
  caller.\<close>

theorem pool_counters_exact:
  assumes "thrmgr_new mp mq max_threads idle h sz = Some p0" and "tp_reach p0 s"
  shows "thr_alive (pool s) = cnt live (workers s) \<and> thr_alive (pool s) \<le> thr_max (pool s) \<and>
    thr_idle (pool s) = cnt idling (workers s) \<and> cnt holds_mutex (callers s) \<le> 1"
  using tp_reach_ok [OF assms] by (auto simp: tp_ok_def tp_counts_def tp_mutex_def)

definition demo_pool :: "string threadpool_t" where
  "demo_pool = \<lparr>thr_stacksize = 1048576, state = POOL_VALID, thr_max = 2, thr_alive = 0, thr_idle = 0,
     idle_timeout = 30000, pool_sem = 0, pool_sig_sem = 0, pool_mutex = False,
     queue = \<lparr>heap = Map.empty, work_q = \<lparr>head = None, tail = None, item_count = 0\<rparr>\<rparr>\<rparr>"

lemma demo_pool_new: "thrmgr_new True True 2 30000 True 0 = Some demo_pool"
  by (simp add: thrmgr_new_def work_queue_new_def demo_pool_def)

definition demo_start :: "string tp_sys" where
  "demo_start = \<lparr>pool = demo_pool, workers = [], callers = [], destroyer = X_start, accepted = [], handed = [],
     unsignalled = 0\<rparr>"

lemma demo_reach: "tp_reach demo_pool demo_start"
  unfolding demo_start_def by (rule tp_reach.start)

theorem pool_counters_exact_witness:
  "thr_alive (pool demo_start) = cnt live (workers demo_start)"
  using pool_counters_exact [OF demo_pool_new demo_reach] by simp



text \<open>C10: While the pool is in service, every queued task has its signal: the queue's length
  is the semaphore's value plus the signals workers hold and have not yet used plus those
  callers are about to post, apart from the tasks that stayed in the queue when the pool's
  first thread could not be created. So a worker that was signalled always finds a task.\<close>

theorem every_queued_task_is_signalled:
  assumes "thrmgr_new mp mq max_threads idle h sz = Some p0" and "tp_reach p0 s" and "state (pool s) = POOL_VALID"
  shows "int (length (wq_list (queue (pool s)))) = int (pool_sig_sem (pool s)) + cnt has_token (workers s)
      + cnt will_post (callers s) + int (unsignalled s) \<and>
    (\<forall>i pc p. i < length (workers s) \<and> workers s ! i = W_pop \<and>
       thrmgr_worker g W_pop (pool s) = Some (pc, p) \<longrightarrow> (\<exists>d. pc = W_run d))"
proof -
  from tp_reach_ok [OF assms(1,2)] assms(3) have tok: "int (length (wq_list (queue (pool s)))) =
      int (pool_sig_sem (pool s)) + cnt has_token (workers s) + cnt will_post (callers s) + int (unsignalled s)"
    and inv: "wq_inv (queue (pool s))"
    by (auto simp: tp_ok_def tp_tokens_def tp_queue_def)
  have "\<exists>d. pc = W_run d" if i: "i < length (workers s)" "workers s ! i = W_pop"
    and run: "thrmgr_worker g W_pop (pool s) = Some (pc, p)" for i pc p
  proof -
    have "0 < cnt has_token (workers s)" using cnt_pos [OF i(1), of has_token] i(2) by simp
    with tok cnt_nonneg [of will_post "callers s"] have "wq_list (queue (pool s)) \<noteq> []" by auto
    with run inv show ?thesis by (auto split: if_splits option.splits prod.splits dest: pop_none)
  qed
  with tok show ?thesis by blast
qed

theorem every_queued_task_is_signalled_witness:
  "int (length (wq_list (queue (pool demo_start)))) = int (pool_sig_sem (pool demo_start)) + cnt has_token (workers demo_start)
      + cnt will_post (callers demo_start) + int (unsignalled demo_start)"
  using every_queued_task_is_signalled [OF demo_pool_new demo_reach] by (simp add: demo_start_def demo_pool_def)


text \<open>A schedule as data, for concrete runs.\<close>

datatype 'a tp_move = Move_Worker nat bool | Move_Call 'a | Move_Dispatch nat "addr option" bool | Move_Destroy bool

fun do_move :: "'a tp_move \<Rightarrow> 'a tp_sys \<Rightarrow> 'a tp_sys option" where
  "do_move (Move_Worker i g) s = (if i < length (workers s) then (case thrmgr_worker g (workers s ! i) (pool s) of
      None \<Rightarrow> None
    | Some (pc, p) \<Rightarrow> Some (s\<lparr>pool := p, workers := (workers s)[i := pc], handed := handed s @ taken (workers s ! i) pc\<rparr>))
    else None)"
| "do_move (Move_Call d) s = Some (s\<lparr>callers := callers s @ [D_lock d]\<rparr>)"
| "do_move (Move_Dispatch i w c) s = (if i < length (callers s) \<and> wq_usable (w, \<lparr>tvl_sec = 0, tv_usec = 0\<rparr>) (queue (pool s))
    then (case thrmgr_dispatch w \<lparr>tvl_sec = 0, tv_usec = 0\<rparr> c (callers s ! i) (pool s) of
      None \<Rightarrow> None
    | Some (pc, p, spawned) \<Rightarrow> Some (s\<lparr>pool := p, callers := (callers s)[i := pc],
        workers := workers s @ (if spawned then [W_top] else []),
        accepted := accepted s @ queued (callers s ! i) pc,
        unsignalled := unsignalled s + lost_signal (callers s ! i) pc\<rparr>))
    else None)"
| "do_move (Move_Destroy b) s = (case thrmgr_destroy b (destroyer s) (pool s) of
      None \<Rightarrow> None | Some (pc, p) \<Rightarrow> Some (s\<lparr>pool := p, destroyer := pc\<rparr>))"

fun tp_moves :: "'a tp_move list \<Rightarrow> 'a tp_sys \<Rightarrow> 'a tp_sys option" where
  "tp_moves [] s = Some s"
| "tp_moves (m # ms) s = (case do_move m s of None \<Rightarrow> None | Some s' \<Rightarrow> tp_moves ms s')"

lemma do_move_step:
  assumes "do_move m s = Some s'"
  shows "tp_step s s'"
proof (cases m)
  case (Move_Dispatch i w c)
  let ?t = "\<lparr>tvl_sec = 0, tv_usec = 0\<rparr>"
  have u: "i < length (callers s)" "wq_usable (w, ?t) (queue (pool s))"
    using assms Move_Dispatch by (auto split: if_split_asm)
  with assms Move_Dispatch obtain pc p sp where d: "thrmgr_dispatch w ?t c (callers s ! i) (pool s) = Some (pc, p, sp)"
    by (auto simp del: wq_usable.simps thrmgr_dispatch.simps split: option.splits)
  show ?thesis
    using assms Move_Dispatch u d tp_step.dispatch [OF u d]
    by (simp del: wq_usable.simps thrmgr_dispatch.simps)
qed (use assms in \<open>auto simp del: thrmgr_worker.simps thrmgr_destroy.simps
      split: if_splits option.splits prod.splits intro!: tp_step.intros\<close>)

lemma tp_moves_reach: "tp_moves ms s = Some s' \<Longrightarrow> tp_reach p0 s \<Longrightarrow> tp_reach p0 s'"
  by (induction ms arbitrary: s) (auto split: option.splits dest: do_move_step intro: tp_reach.step)


text \<open>
  The run in which a task is stranded: the pool's only thread is idle when the second task
  arrives, so no thread is created for it, and the thread's wait runs out before the caller's
  signal comes.
\<close>

definition stranding_run :: "string tp_move list" where
  "stranding_run =
    [Move_Call ''first'', Move_Dispatch 0 None True, Move_Dispatch 0 (Some 1) True, Move_Dispatch 0 None True, Move_Dispatch 0 None True,
     Move_Worker 0 False, Move_Worker 0 False, Move_Worker 0 False, Move_Worker 0 False, Move_Worker 0 False, Move_Worker 0 False,
     Move_Worker 0 False, Move_Worker 0 False, Move_Worker 0 False,
     Move_Call ''second'', Move_Dispatch 1 None True, Move_Dispatch 1 (Some 2) True, Move_Dispatch 1 None True,
     Move_Worker 0 True, Move_Worker 0 False, Move_Worker 0 False, Move_Worker 0 False,
     Move_Dispatch 1 None True]"

text \<open>C39: A pool in service can strand a task that it accepted: there is a reachable state in
  which every caller was told success, a task is in the queue with its signal, and no thread
  is left to take it, so that it waits until somebody dispatches another task.\<close>

theorem pool_can_strand_a_task:
  "\<exists>s. tp_reach demo_pool s \<and> state (pool s) = POOL_VALID \<and> callers s = [D_ret True, D_ret True] \<and>
    wq_list (queue (pool s)) = [''second''] \<and> workers s = [W_done] \<and> unsignalled s = 0"
proof -
  have "\<exists>s. tp_moves stranding_run demo_start = Some s \<and> state (pool s) = POOL_VALID \<and> callers s = [D_ret True, D_ret True] \<and>
      wq_list (queue (pool s)) = [''second''] \<and> workers s = [W_done] \<and> unsignalled s = 0"
    by (simp add: stranding_run_def demo_start_def demo_pool_def work_queue_add_def work_queue_pop_def Let_def
        wq_list_def numeral_eq_Suc)
  then show ?thesis using tp_moves_reach [OF _ demo_reach] by blast
qed

end
