(* ===== verification/Http_Server.thy ===== *)
theory Http_Server
  imports Dc_Threads Thread_Pool
begin

text \<open>
  The HTTP front end (\<^verbatim>\<open>HttpServer.cpp\<close>): routing of a request, the JSON reply, and
  the life cycle of the libevent server. What libevent decides (whether an object could be
  made, whether the port could be bound) is an argument.
\<close>

section \<open>Replies\<close>

record http_reply =
  status :: nat
  reason :: string
  reply_body :: string

text \<open>
  \<^verbatim>\<open>evbuffer_add_printf\<close> called with the text as the format and no further argument:
  a percent sign starts a conversion, and all but \<^verbatim>\<open>%%\<close> read an argument that is not
  there, \<open>None\<close>.
\<close>

fun printf_no_args :: "string \<Rightarrow> string option" where
  "printf_no_args [] = Some []"
| "printf_no_args (c # cs) =
     (if c \<noteq> CHR ''%'' then map_option (Cons c) (printf_no_args cs)
      else (case cs of
          [] \<Rightarrow> None
        | d # ds \<Rightarrow> if d = CHR ''%'' then map_option (Cons d) (printf_no_args ds) else None))"

definition reply_text :: "string \<Rightarrow> DC_HTTP_REPLY \<Rightarrow> string option" where
  "reply_text strMsg MsgType =
     map_option os
       (Option.bind (jw_StartObject Writer_new) (\<lambda>w.
        Option.bind (jw_Key ''code'' w) (\<lambda>w.
        Option.bind (jw_String (c_str (show_int (reply_code MsgType))) w) (\<lambda>w.
        Option.bind (jw_Key ''msg'' w) (\<lambda>w.
        Option.bind (jw_String (c_str strMsg) w) jw_EndObject)))))"

text \<open>
  \<^verbatim>\<open>SendReply\<close>: the inner option is the reply that goes out (none when no buffer could
  be made, and then the task is not freed either), the outer one is undefined behaviour.
\<close>

definition SendReply :: "bool \<Rightarrow> string \<Rightarrow> DC_HTTP_REPLY \<Rightarrow> http_reply option option" where
  "SendReply evbuf strMsg MsgType =
     (if \<not> evbuf then Some None
      else (case reply_text strMsg MsgType of
          None \<Rightarrow> None
        | Some strResult \<Rightarrow> (case printf_no_args (c_str strResult) of
            None \<Rightarrow> None
          | Some txt \<Rightarrow> Some (Some \<lparr>status = 200, reason = ''OK'', reply_body = txt\<rparr>))))"

section \<open>Routing\<close>

definition EVHTTP_REQ_POST :: nat where
  "EVHTTP_REQ_POST = 2"

definition DC_SERVICE :: string where
  "DC_SERVICE = ''/DcCluster/api/v1.0/Service''"

record evhttp_request =
  req_command :: nat
  req_uri :: string
  req_body :: http_body

definition WorkService ::
    "'d fpu \<Rightarrow> (app_error \<times> string) reader \<Rightarrow> (string \<Rightarrow> int32 \<Rightarrow> peer)
     \<Rightarrow> evhttp_request \<Rightarrow> DcServer \<Rightarrow> (replies \<times> DcServer) option" where
  "WorkService fp xread peer_of task st =
     (if req_command task \<noteq> EVHTTP_REQ_POST then Some ([(''Just Support The POST Request'', DC_URL_ERR)], st)
      else if c_str (req_uri task) = c_str DC_SERVICE
      then CollectWorkProc fp xread peer_of (req_body task) st
      else Some ([(''Not Support The Url Request'', DC_URL_ERR)], st))"

section \<open>Life cycle\<close>

record HttpServer =
  m_nport :: int
  hs_hThread :: bool
  m_evhttp :: bool
  m_pBase :: bool
  m_hThreadPool :: bool

definition HttpServer_new :: HttpServer where
  "HttpServer_new = \<lparr>m_nport = 5001, hs_hThread = False, m_evhttp = False, m_pBase = False, m_hThreadPool = False\<rparr>"

definition HttpServer_StopServer :: "HttpServer \<Rightarrow> HttpServer" where
  "HttpServer_StopServer s = s\<lparr>m_evhttp := False, m_pBase := False, m_hThreadPool := False, hs_hThread := False\<rparr>"

definition HttpServer_StartServer :: "bool \<Rightarrow> bool \<Rightarrow> int \<Rightarrow> HttpServer \<Rightarrow> int \<times> HttpServer" where
  "HttpServer_StartServer thread_ok pool_ok nport s =
     (let s1 = s\<lparr>m_nport := nport\<rparr> in
      if \<not> thread_ok then (SWARTZ_ERR, HttpServer_StopServer (s1\<lparr>hs_hThread := False\<rparr>))
      else let s2 = s1\<lparr>hs_hThread := True\<rparr> in
        if \<not> pool_ok then (SWARTZ_ERR, s2) else (SWARTZ_OK, s2\<lparr>m_hThreadPool := True\<rparr>))"

record event_os =
  ev_use_pthreads :: int
  ev_base_new :: bool
  ev_http_new :: bool
  ev_bind :: int
  ev_dispatch :: int

text \<open>
  \<^verbatim>\<open>StartService\<close>, line by line: no failure returns, and a libevent call on a pointer
  that is null by then is \<open>None\<close>.
\<close>

definition HttpServer_StartService :: "event_os \<Rightarrow> HttpServer \<Rightarrow> HttpServer option" where
  "HttpServer_StartService ev s =
     (let s1 = (if ev_use_pthreads ev \<noteq> SWARTZ_OK then HttpServer_StopServer s else s);
          s2 = s1\<lparr>m_pBase := ev_base_new ev\<rparr>;
          s3 = (if \<not> m_pBase s2 then HttpServer_StopServer s2 else s2) in
      if \<not> m_pBase s3 then None
      else let s4 = s3\<lparr>m_evhttp := ev_http_new ev\<rparr>;
          s5 = (if \<not> m_evhttp s4 then HttpServer_StopServer s4 else s4) in
      if \<not> m_evhttp s5 then None
      else let s6 = (if ev_bind ev \<noteq> SWARTZ_OK then HttpServer_StopServer s5 else s5) in
      if \<not> m_evhttp s6 \<or> \<not> m_pBase s6 then None
      else Some (if ev_dispatch ev \<noteq> SWARTZ_OK then HttpServer_StopServer s6 else s6))"

text \<open>\<^verbatim>\<open>HttpCallback\<close>: whether the request became a task of the pool.\<close>

definition HttpCallback :: "'a threadpool_t option option \<Rightarrow> bool \<Rightarrow> bool" where
  "HttpCallback hThreadPool dispatched \<longleftrightarrow> swartz_threadpool_work hThreadPool True dispatched = SWARTZ_OK"

text \<open>
  \<^verbatim>\<open>DcServer::StartServer\<close> starts the HTTP front end too: what the system answers is the
  argument, and it returns when \<^verbatim>\<open>serve\<close> returns. \<^verbatim>\<open>main\<close> ignores its result.
\<close>

record server_env =
  sv_sem :: bool
  sv_http_thread :: bool
  sv_http_pool :: bool
  sv_thread :: bool

definition StartServer :: "server_env \<Rightarrow> DcServer \<times> HttpServer \<Rightarrow> int \<times> DcServer \<times> HttpServer" where
  "StartServer e = (\<lambda>(st, hs).
     if \<not> sv_sem e then (SWARTZ_ERR, st\<lparr>m_sem := False\<rparr>, hs)
     else let st1 = st\<lparr>m_sem := True\<rparr>;
              (_, hs1) = HttpServer_StartServer (sv_http_thread e) (sv_http_pool e) 5001 hs in
       if \<not> sv_thread e then (SWARTZ_ERR, StopServer (st1\<lparr>m_hThread := False\<rparr>), hs1)
       else (SWARTZ_OK, st1\<lparr>m_hThread := True\<rparr>, hs1))"

definition DcServer_main :: "server_env \<Rightarrow> int \<times> DcServer \<times> HttpServer" where
  "DcServer_main e = (case StartServer e (DcServer_new, HttpServer_new) of (_, st) \<Rightarrow> (0, st))"

section \<open>Lemmas\<close>

lemma printf_plain: "CHR ''%'' \<notin> set s \<Longrightarrow> printf_no_args s = Some s"
  by (induction s) auto

lemma reply_text_eq:
  "reply_text strMsg MsgType =
     Some (''{'' @ WriteString ''code'' @ '':'' @ WriteString (c_str (show_int (reply_code MsgType))) @ '',''
       @ WriteString ''msg'' @ '':'' @ WriteString (c_str strMsg) @ ''}'')"
  by (simp add: reply_text_def jw_defs)

lemma hex_digit_in: "i < 16 \<Longrightarrow> hexDigits ! i \<in> set hexDigits"
  by (rule nth_mem) (simp add: hexDigits_def)

lemma set_write_char:
  "set (write_char c) \<subseteq> (if escape c = None then {c} else set (CHR 0x5C # CHR 0x22 # ''btnfru'' @ hexDigits))"
proof (cases "escape c")
  case None
  then show ?thesis by (simp add: write_char_def)
next
  case (Some e)
  have lt: "of_char c < (256 :: nat)" by simp
  then have "hexDigits ! (of_char c div 16) \<in> set hexDigits" "hexDigits ! (of_char c mod 16) \<in> set hexDigits"
    by (auto intro!: hex_digit_in simp: less_mult_imp_div_less)
  moreover have "e \<in> set (CHR 0x5C # CHR 0x22 # ''btnfru'')"
    using Some by (auto simp: escape_def split: if_splits)
  moreover have "CHR ''0'' \<in> set hexDigits" by (simp add: hexDigits_def)
  ultimately show ?thesis using Some by (auto simp: write_char_def)
qed

lemma write_char_clean:
  "c \<noteq> CHR ''%'' \<Longrightarrow> CHR ''%'' \<notin> set (write_char c)" "CHR 0x00 \<notin> set (write_char c)"
proof -
  have h: "CHR ''%'' \<notin> set hexDigits" "CHR 0x00 \<notin> set hexDigits" by (simp_all add: hexDigits_def)
  have "escape (CHR 0x00) \<noteq> None" by (simp add: escape_def)
  with h set_write_char [of c] show "CHR 0x00 \<notin> set (write_char c)" by (auto split: if_splits)
  from h set_write_char [of c] show "c \<noteq> CHR ''%'' \<Longrightarrow> CHR ''%'' \<notin> set (write_char c)" by (auto split: if_splits)
qed

lemma WriteString_clean:
  "CHR ''%'' \<notin> set s \<Longrightarrow> CHR ''%'' \<notin> set (WriteString s)" "CHR 0x00 \<notin> set (WriteString s)"
proof -
  assume no: "CHR ''%'' \<notin> set s"
  have "CHR ''%'' \<notin> set (write_char c)" if "c \<in> set s" for c
    by (rule write_char_clean(1)) (use that no in auto)
  then show "CHR ''%'' \<notin> set (WriteString s)" by (simp add: WriteString_def)
next
  show "CHR 0x00 \<notin> set (WriteString s)" by (simp add: WriteString_def write_char_clean(2))
qed

lemma write_plain: "\<forall>c \<in> set s. write_char c = [c] \<Longrightarrow> concat (map write_char s) = s"
  by (induction s) simp_all

lemma show_int_clean: "CHR ''%'' \<notin> set (show_int i)" "CHR 0x00 \<notin> set (show_int i)"
  by (rule not_in_show_int; simp add: decimal_digits_def)+

lemma SendReply_eq:
  assumes "CHR ''%'' \<notin> set msg" and "CHR 0x00 \<notin> set msg"
  shows "SendReply True msg code = Some (Some \<lparr>status = 200, reason = ''OK'',
    reply_body = ''{'' @ WriteString ''code'' @ '':'' @ WriteString (show_int (reply_code code)) @ '',''
       @ WriteString ''msg'' @ '':'' @ WriteString msg @ ''}''\<rparr>)"
proof -
  let ?txt = "''{'' @ WriteString ''code'' @ '':'' @ WriteString (show_int (reply_code code)) @ '',''
       @ WriteString ''msg'' @ '':'' @ WriteString msg @ ''}''"
  have "CHR ''%'' \<notin> set ?txt" "CHR 0x00 \<notin> set ?txt"
    using assms show_int_clean WriteString_clean by auto
  then have "c_str ?txt = ?txt" and "printf_no_args ?txt = Some ?txt"
    by (blast intro: c_str_id printf_plain)+
  moreover have "reply_text msg code = Some ?txt"
    using assms show_int_clean by (simp add: reply_text_eq)
  ultimately show ?thesis by (simp only: SendReply_def option.case simp_thms if_False)
qed

section \<open>Properties\<close>



text \<open>The messages the program sends.\<close>

lemma replies_clean:
  assumes "table_ok st" and "WorkService fp xread peer_of task st = Some (rs, st')"
  shows "\<exists>msg code. rs = [(msg, code)] \<and> CHR ''%'' \<notin> set msg \<and> CHR 0x00 \<notin> set msg"
  using assms
  by (auto simp: WorkService_def CollectWorkProc_cases CollectWork_dispatch_cases Let_def
      split: if_splits option.splits)


definition demo_get :: evhttp_request where
  "demo_get = \<lparr>req_command = 1, req_uri = ''/'', req_body = \<lparr>body_bytes = [], body_removed = 0\<rparr>\<rparr>"


text \<open>Routing: only a POST whose URI is exactly the service path reaches the cluster;
  every other request gets a URL error and leaves the node table and the scheduler alone.\<close>

lemma only_the_service_url_is_served:
  "WorkService fp xread peer_of task st =
    (if req_command task = EVHTTP_REQ_POST \<and> c_str (req_uri task) = DC_SERVICE
     then CollectWorkProc fp xread peer_of (req_body task) st
     else Some ([(if req_command task = EVHTTP_REQ_POST then ''Not Support The Url Request''
       else ''Just Support The POST Request'', DC_URL_ERR)], st))"
proof -
  have "c_str DC_SERVICE = DC_SERVICE" by (rule c_str_id) (simp add: DC_SERVICE_def)
  then show ?thesis by (simp add: WorkService_def)
qed

text \<open>The libevent thread survives its setup only when everything works: if the event
  base, the HTTP object or the binding of the port fails, the code goes on after stopping the
  server and calls libevent with null pointers.\<close>

lemma listener_setup_does_not_return_on_failure:
  "(\<exists>s'. HttpServer_StartService ev s = Some s') \<longleftrightarrow> ev_base_new ev \<and> ev_http_new ev \<and> ev_bind ev = SWARTZ_OK"
  by (auto simp: HttpServer_StartService_def HttpServer_StopServer_def Let_def)

text \<open>Start-up of the server: it reports success without its HTTP front end, and when the
  sweeper thread cannot be made it reports failure with the front end left running.\<close>

lemma StartServer_http_unchecked:
  "fst (StartServer e (DcServer_new, HttpServer_new)) = SWARTZ_OK \<longleftrightarrow> sv_sem e \<and> sv_thread e"
  "sv_sem e \<Longrightarrow> \<not> sv_thread e \<Longrightarrow> sv_http_thread e \<Longrightarrow>
     hs_hThread (snd (snd (StartServer e (DcServer_new, HttpServer_new))))"
  by (auto simp: StartServer_def HttpServer_StartServer_def SWARTZ_OK_def SWARTZ_ERR_def Let_def split: if_splits)

end
