(* ===== verification/Mq_Uri.thy ===== *)
theory Mq_Uri
  imports Dc_Prelude
begin

text \<open>
  Destination URLs of the message queue library: \<^verbatim>\<open>MqMgr::ParseMqUri\<close>, the URL the node
  builds in \<^verbatim>\<open>dp::init\<close>, and the broker URL of \<^verbatim>\<open>MqConnection\<close>'s constructor. The
  searches of \<^verbatim>\<open>std::string\<close> return positions (\<open>None\<close> is \<^verbatim>\<open>npos\<close>).
\<close>

datatype MqMsgMode = MQ_MODE_TOPIC | MQ_MODE_QUEUE

section \<open>Searching in strings\<close>

text \<open>\<^verbatim>\<open>s.find(pat)\<close> and \<^verbatim>\<open>s.find(pat, pos)\<close>: the first occurrence.\<close>

fun str_find :: "string \<Rightarrow> string \<Rightarrow> nat option" where
  "str_find pat [] = (if pat = [] then Some 0 else None)"
| "str_find pat (c # cs) =
     (if take (length pat) (c # cs) = pat then Some 0 else map_option Suc (str_find pat cs))"

definition str_find_from :: "string \<Rightarrow> nat \<Rightarrow> string \<Rightarrow> nat option" where
  "str_find_from pat pos s = (if pos \<le> length s then map_option (\<lambda>i. pos + i) (str_find pat (drop pos s)) else None)"

definition substr :: "string \<Rightarrow> nat \<Rightarrow> nat \<Rightarrow> string" where
  "substr s pos len = take len (drop pos s)"

section \<open>ParseMqUri\<close>

definition ParseMqUri :: "string \<Rightarrow> (string \<times> string \<times> MqMsgMode) option" where
  "ParseMqUri strMqUri = (case str_find ''mq/'' strMqUri of
     None \<Rightarrow> None
   | Some nIndex \<Rightarrow> (let nCurr = nIndex + 3 in case str_find_from ''/'' nCurr strMqUri of
       None \<Rightarrow> None
     | Some nIndex \<Rightarrow> (let strMQSvr = substr strMqUri nCurr (nIndex - nCurr); nCurr = nIndex + 1 in
         case str_find_from ''/'' nCurr strMqUri of
           None \<Rightarrow> None
         | Some nIndex \<Rightarrow> (let strType = substr strMqUri nCurr (nIndex - nCurr) in
             case (if strType = ''queue'' then Some MQ_MODE_QUEUE
                   else if strType = ''topic'' then Some MQ_MODE_TOPIC else None) of
               None \<Rightarrow> None
             | Some nType \<Rightarrow> (let nCurr = nIndex + 1; strDstName = drop nCurr strMqUri in
                 if strDstName = [] then None else Some (strMQSvr, strDstName, nType))))))"

section \<open>URLs the program builds\<close>

definition dp_uri :: "string \<Rightarrow> int \<Rightarrow> string \<Rightarrow> string" where
  "dp_uri ip prt quename = ''mq/'' @ ip @ '':'' @ show_int prt @ ''/'' @ ''queue/'' @ quename"

text \<open>The constructor's \<^verbatim>\<open>snprintf\<close> into 256 bytes keeps the first 255 characters.\<close>

definition broker_url :: "string \<Rightarrow> string" where
  "broker_url strBrokerUrl = take 255 (''tcp://'' @ c_str strBrokerUrl @
     ''?connectionTimeout=5000&soTimeout=10000&maxReconnectAttempts=1&wireFormat.maxInactivityDuration=0'')"

section \<open>What the searches find\<close>

lemma str_find_prefix: "str_find pat (pat @ b) = Some 0"
proof (cases "pat @ b")
  case (Cons c cs)
  then have "take (length pat) (c # cs) = pat" by (metis append_eq_conv_conj)
  with Cons show ?thesis by simp
qed auto

lemma str_find_le: "\<exists>i \<le> length a. str_find pat (a @ pat @ b) = Some i"
proof (induction a)
  case Nil
  then show ?case by (simp add: str_find_prefix)
next
  case (Cons c a)
  then show ?case by auto
qed

lemma str_find_sound: "str_find pat s = Some i \<Longrightarrow> \<exists>a b. s = a @ pat @ b \<and> length a = i"
proof (induction s arbitrary: i)
  case (Cons c cs)
  show ?case
  proof (cases "take (length pat) (c # cs) = pat")
    case True
    with Cons.prems have "i = 0" by simp
    moreover from True have "c # cs = [] @ pat @ drop (length pat) (c # cs)"
      by (metis append_Nil append_take_drop_id)
    ultimately show ?thesis by (metis list.size(3))
  next
    case False
    with Cons.prems obtain j where "str_find pat cs = Some j" "i = Suc j" by auto
    with Cons.IH [of j] obtain a b where "cs = a @ pat @ b" "length a = j" by blast
    then show ?thesis using \<open>i = Suc j\<close> by (intro exI [of _ "c # a"] exI [of _ b]) simp
  qed
qed (auto split: if_splits)

text \<open>Searching for one character.\<close>

lemma str_find_char: "str_find [c] s = (if c \<in> set s then Some (length (takeWhile (\<lambda>x. x \<noteq> c) s)) else None)"
  by (induction s) auto

lemma str_find_char_split: "c \<notin> set a \<Longrightarrow> str_find [c] (a @ c # b) = Some (length a)"
  by (induction a) auto

lemma str_find_from_split:
  "c \<notin> set a \<Longrightarrow> str_find_from [c] (length p) (p @ a @ c # b) = Some (length p + length a)"
  by (simp add: str_find_from_def str_find_char_split)

lemma str_find_from_Some:
  assumes "str_find_from [c] (length p) (p @ t) = Some k"
  shows "\<exists>a b. t = a @ c # b \<and> c \<notin> set a \<and> k = length p + length a"
proof -
  from assms have k: "str_find [c] t = Some (k - length p)" "length p \<le> k"
    by (auto simp: str_find_from_def)
  then have "c \<in> set t" by (auto simp: str_find_char split: if_splits)
  then obtain a b where t: "t = a @ c # b" "c \<notin> set a" by (metis split_list_first)
  with k str_find_char_split [OF t(2), of b] show ?thesis by auto
qed

lemma str_find_from_past:
  assumes "str_find_from [c] (Suc (length p)) (p @ d # t) = Some k"
  shows "\<exists>a b. t = a @ c # b \<and> c \<notin> set a \<and> k = Suc (length p + length a)"
  using str_find_from_Some [of c "p @ [d]" t k] assms by simp

section \<open>Properties\<close>

fun mode_name :: "MqMsgMode \<Rightarrow> string" where
  "mode_name MQ_MODE_QUEUE = ''queue''"
| "mode_name MQ_MODE_TOPIC = ''topic''"

lemma slash_not_in_mode: "CHR ''/'' \<notin> set (mode_name m)"
  by (cases m) simp_all

lemma ParseMqUri_complete:
  assumes "str_find ''mq/'' s = Some (length pre)"
    and s: "s = pre @ ''mq/'' @ svr @ ''/'' @ mode_name m @ ''/'' @ dst"
    and svr: "CHR ''/'' \<notin> set svr" and dst: "dst \<noteq> []"
  shows "ParseMqUri s = Some (svr, dst, m)"
proof -
  define i where "i = length pre + 3"
  define j where "j = i + length svr"
  define k where "k = j + 1 + length (mode_name m)"
  have 1: "str_find_from ''/'' i s = Some j"
    using str_find_from_split [OF svr, of "pre @ ''mq/''" "mode_name m @ ''/'' @ dst"]
    by (simp add: s i_def j_def eval_nat_numeral)
  have 2: "str_find_from ''/'' (j + 1) s = Some k"
    using str_find_from_split [OF slash_not_in_mode [of m], of "pre @ ''mq/'' @ svr @ ''/''" dst]
    by (simp add: s i_def j_def k_def eval_nat_numeral)
  have sub: "substr s i (j - i) = svr" "substr s (j + 1) (k - (j + 1)) = mode_name m" "drop (k + 1) s = dst"
    by (simp_all add: s i_def j_def k_def substr_def eval_nat_numeral)
  have "ParseMqUri s = (case (if mode_name m = ''queue'' then Some MQ_MODE_QUEUE
      else if mode_name m = ''topic'' then Some MQ_MODE_TOPIC else None) of None \<Rightarrow> None
      | Some nType \<Rightarrow> if dst = [] then None else Some (svr, dst, nType))"
    by (simp only: ParseMqUri_def assms(1) option.case Let_def i_def [symmetric] 1 2 sub)
  with dst show ?thesis by (cases m) simp_all
qed

lemma ParseMqUri_sound:
  assumes "ParseMqUri s = Some (svr, dst, m)"
  shows "\<exists>pre. str_find ''mq/'' s = Some (length pre) \<and> CHR ''/'' \<notin> set svr \<and> dst \<noteq> [] \<and>
    s = pre @ ''mq/'' @ svr @ ''/'' @ mode_name m @ ''/'' @ dst"
proof -
  from assms obtain i where i: "str_find ''mq/'' s = Some i" by (auto simp: ParseMqUri_def split: option.splits)
  from str_find_sound [OF this] obtain pre t where s: "s = pre @ ''mq/'' @ t" and len: "length pre = i" by blast
  let ?p = "pre @ ''mq/''"
  have i3: "i + 3 = length ?p" using len by simp
  from assms i obtain j where j: "str_find_from ''/'' (length ?p) (?p @ t) = Some j"
    by (auto simp: ParseMqUri_def i3 s Let_def split: option.splits)
  from str_find_from_Some [OF this] obtain a u where t: "t = a @ CHR ''/'' # u" and a: "CHR ''/'' \<notin> set a"
    and jl: "j = length ?p + length a" by blast
  have "str_find_from ''/'' (Suc j) (?p @ a @ CHR ''/'' # u) \<noteq> None"
    using assms i j by (auto simp: ParseMqUri_def i3 s t Let_def split: option.splits)
  then obtain k where k: "str_find_from ''/'' (Suc (length (?p @ a))) ((?p @ a) @ CHR ''/'' # u) = Some k"
    by (auto simp: jl)
  from str_find_from_past [OF this] obtain b v where u: "u = b @ CHR ''/'' # v" and b: "CHR ''/'' \<notin> set b"
    and kl: "k = Suc (length (?p @ a) + length b)" by blast
  have eq: "s = ?p @ a @ ''/'' @ b @ ''/'' @ v" by (simp add: s t u)
  have sub: "substr s (length ?p) (j - length ?p) = a" "substr s (Suc j) (k - Suc j) = b" "drop (Suc k) s = v"
    by (simp_all add: eq jl kl substr_def eval_nat_numeral)
  have P: "ParseMqUri s = (case (if b = ''queue'' then Some MQ_MODE_QUEUE
      else if b = ''topic'' then Some MQ_MODE_TOPIC else None) of None \<Rightarrow> None
      | Some nType \<Rightarrow> if v = [] then None else Some (a, v, nType))"
    unfolding ParseMqUri_def i option.case i3 Let_def
    using j k sub by (simp add: s t jl)
  with assms have "b = mode_name m \<and> v \<noteq> [] \<and> a = svr \<and> v = dst"
    by (auto split: if_splits option.splits)
  with eq i len a show ?thesis by auto
qed

text \<open>Parsing is exact: a URL parses to a server, a destination and a mode precisely when
  it reads, from the first occurrence of mq/ on, mq/server/queue/destination (or topic), with
  no slash in the server and a destination that is not empty; everything else is refused.\<close>

lemma ParseMqUri_exact:
  "ParseMqUri s = Some (svr, dst, m) \<longleftrightarrow>
    (\<exists>pre. str_find ''mq/'' s = Some (length pre) \<and> CHR ''/'' \<notin> set svr \<and> dst \<noteq> [] \<and>
      s = pre @ ''mq/'' @ svr @ ''/'' @ mode_name m @ ''/'' @ dst)"
  using ParseMqUri_sound ParseMqUri_complete by metis

lemma dp_uri_parses:
  assumes "CHR ''/'' \<notin> set ip" and "quename \<noteq> []"
  shows "ParseMqUri (dp_uri ip prt quename) = Some (ip @ '':'' @ show_int prt, quename, MQ_MODE_QUEUE)"
proof (rule ParseMqUri_complete [where pre = "[]"])
  show "str_find ''mq/'' (dp_uri ip prt quename) = Some (length [])"
    using str_find_prefix [of "''mq/''"] by (simp add: dp_uri_def)
  show "CHR ''/'' \<notin> set (ip @ '':'' @ show_int prt)"
    using assms(1) not_in_show_int [of "CHR ''/''" prt] by (simp add: decimal_digits_def)
qed (use assms in \<open>simp_all add: dp_uri_def\<close>)

text \<open>The URL a node builds from its configuration parses back to what it was built from:
  the broker address ip:port, the queue's name and queue mode, whenever the ip has no slash
  and the queue name is not empty.\<close>

lemma dp_uri_parses_back:
  assumes "CHR ''/'' \<notin> set ip" and "quename \<noteq> []"
  shows "ParseMqUri (dp_uri ip prt quename) = Some (ip @ '':'' @ show_int prt, quename, MQ_MODE_QUEUE)"
  using assms by (rule dp_uri_parses)

theorem dp_uri_parses_back_witness:
  "ParseMqUri (dp_uri ''127.0.0.1'' 61616 ''test'') = Some (''127.0.0.1'' @ '':'' @ show_int 61616, ''test'', MQ_MODE_QUEUE)"
  by (rule dp_uri_parses_back) simp_all

text \<open>The connection's broker URL holds the whole broker address as long as the address has
  at most 152 characters; a longer one is cut in the fixed buffer.\<close>

lemma broker_url_complete:
  "(length (c_str svr) \<le> 152 \<longrightarrow> broker_url svr = ''tcp://'' @ c_str svr @
     ''?connectionTimeout=5000&soTimeout=10000&maxReconnectAttempts=1&wireFormat.maxInactivityDuration=0'') \<and>
   length (broker_url svr) \<le> 255"
  by (simp add: broker_url_def)

theorem broker_url_complete_witness:
  "broker_url ''127.0.0.1:61616'' = ''tcp://'' @ ''127.0.0.1:61616'' @
     ''?connectionTimeout=5000&soTimeout=10000&maxReconnectAttempts=1&wireFormat.maxInactivityDuration=0''"
  using broker_url_complete [of "''127.0.0.1:61616''"] by simp

text \<open>Every URL that starts with mq/ is determined by what it parses to.\<close>

definition canonical :: "string \<Rightarrow> bool" where
  "canonical url \<longleftrightarrow> take 3 url = ''mq/''"

lemma canonical_url:
  assumes "canonical url" and "ParseMqUri url = Some (svr, dst, m)"
  shows "url = ''mq/'' @ svr @ ''/'' @ mode_name m @ ''/'' @ dst"
proof -
  from ParseMqUri_sound [OF assms(2)] obtain pre where
    pre: "str_find ''mq/'' url = Some (length pre)" "url = pre @ ''mq/'' @ svr @ ''/'' @ mode_name m @ ''/'' @ dst"
    by blast
  have "url = ''mq/'' @ drop 3 url" using assms(1) unfolding canonical_def by (metis append_take_drop_id)
  then have "str_find ''mq/'' url = Some 0" using str_find_prefix by metis
  with pre show ?thesis by simp
qed

lemma canonical_inj:
  "canonical u \<Longrightarrow> canonical v \<Longrightarrow> ParseMqUri u = Some t \<Longrightarrow> ParseMqUri v = Some t \<Longrightarrow> u = v"
  by (cases t) (metis canonical_url)

end
