(* ===== verification/Mq_Connection.thy ===== *)
theory Mq_Connection
  imports Mq_Uri Swartz_Utils
begin

text \<open>
  One broker connection with its producers and consumers (\<^verbatim>\<open>MqConnection.cpp\<close>,
  \<^verbatim>\<open>libMqDefine.h\<close>). Producers live on a heap, because the manager keeps pointers to them
  beside the connection's own list; a consumer is only reached through its connection and is
  kept in the list by value. What the ActiveMQ client does (whether a connection opens, which
  objects it could create before it threw) is an argument of the operation that calls it.
  Each operation is the body of its critical section of \<^verbatim>\<open>m_lockReConn\<close>. \<open>None\<close> is a
  dereference of a freed producer.
\<close>

section \<open>Producers and consumers\<close>

type_synonym session = nat
type_synonym paddr = nat

record MqProducer =
  mp_destination :: bool
  mp_producer :: bool
  mp_session :: "session option"
  mp_mode :: MqMsgMode
  mp_name :: string

record MqConsumer =
  mc_destination :: bool
  mc_consumer :: bool
  mc_session :: "session option"
  mc_mode :: MqMsgMode
  mc_name :: string
  mc_cb :: "nat option"
  mc_user :: nat

definition MqProducer_new :: MqProducer where
  "MqProducer_new = \<lparr>mp_destination = False, mp_producer = False, mp_session = None, mp_mode = MQ_MODE_TOPIC, mp_name = []\<rparr>"

definition MqConsumer_new :: MqConsumer where
  "MqConsumer_new = \<lparr>mc_destination = False, mc_consumer = False, mc_session = None, mc_mode = MQ_MODE_TOPIC,
     mc_name = [], mc_cb = None, mc_user = 0\<rparr>"

text \<open>How far the client got before it threw, if it did.\<close>

datatype create_out = No_Destination | No_Endpoint | Created

definition MqProducer_Create :: "create_out \<Rightarrow> session option \<Rightarrow> MqProducer \<Rightarrow> MqProducer" where
  "MqProducer_Create out pSession p = (case pSession of
     None \<Rightarrow> p
   | Some s \<Rightarrow> (case out of
       No_Destination \<Rightarrow> p\<lparr>mp_session := Some s\<rparr>
     | No_Endpoint \<Rightarrow> p\<lparr>mp_session := Some s, mp_destination := True\<rparr>
     | Created \<Rightarrow> p\<lparr>mp_session := Some s, mp_destination := True, mp_producer := True\<rparr>))"

text \<open>\<^verbatim>\<open>ReleaseDst\<close> leaves both pointers null, whether or not a destructor throws.\<close>

definition ReleaseDst :: "bool \<times> bool \<Rightarrow> bool \<times> bool" where
  "ReleaseDst ptrs = (False, False)"

definition MqProducer_Destroy :: "MqProducer \<Rightarrow> MqProducer" where
  "MqProducer_Destroy p = (let (d, e) = ReleaseDst (mp_destination p, mp_producer p)
     in p\<lparr>mp_destination := d, mp_producer := e, mp_session := None\<rparr>)"

text \<open>
  \<^verbatim>\<open>SendMsg\<close>: the return value, and the message the broker got: destination kind and
  name with the bytes. The two outcomes are whether the message could be made and sent.
\<close>

type_synonym delivery = "MqMsgMode \<times> string \<times> string"

definition MqProducer_SendMsg :: "bool \<Rightarrow> bool \<Rightarrow> string \<Rightarrow> MqProducer \<Rightarrow> int \<times> delivery option" where
  "MqProducer_SendMsg make_ok send_ok strMsg p =
     (if mp_session p \<noteq> None \<and> make_ok \<and> mp_producer p \<and> send_ok
      then (0, Some (mp_mode p, mp_name p, strMsg)) else (-1, None))"

definition MqConsumer_Create :: "create_out \<Rightarrow> session option \<Rightarrow> MqConsumer \<Rightarrow> MqConsumer" where
  "MqConsumer_Create out pSession c = (case pSession of
     None \<Rightarrow> c
   | Some s \<Rightarrow> (case out of
       No_Destination \<Rightarrow> c\<lparr>mc_session := Some s\<rparr>
     | No_Endpoint \<Rightarrow> c\<lparr>mc_session := Some s, mc_destination := True\<rparr>
     | Created \<Rightarrow> c\<lparr>mc_session := Some s, mc_destination := True, mc_consumer := True\<rparr>))"

definition MqConsumer_Destroy :: "MqConsumer \<Rightarrow> MqConsumer" where
  "MqConsumer_Destroy c = (let (d, e) = ReleaseDst (mc_destination c, mc_consumer c)
     in c\<lparr>mc_destination := d, mc_consumer := e, mc_session := None\<rparr>)"

text \<open>
  \<^verbatim>\<open>onMessage\<close>: a bytes message reaches the callback with its body, its length and the
  user pointer; another kind of message, or no callback, reaches nobody.
\<close>

datatype cms_message = BytesMessage string | OtherMessage

definition MqConsumer_onMessage :: "cms_message \<Rightarrow> MqConsumer \<Rightarrow> (nat \<times> string \<times> nat \<times> nat) option" where
  "MqConsumer_onMessage m c = (case m of
     OtherMessage \<Rightarrow> None
   | BytesMessage body \<Rightarrow> map_option (\<lambda>cb. (cb, body, length body, mc_user c)) (mc_cb c))"

section \<open>The connection\<close>

record MqConnection =
  m_strBrokerUrl :: string
  m_pConnection :: bool
  m_pSession :: "session option"
  m_bReConn :: bool
  m_thrdReConn :: bool
  mq_sem :: bool
  m_listProducer :: "paddr list"
  m_listConsumer :: "MqConsumer list"

type_synonym prod_heap = "paddr \<rightharpoonup> MqProducer"

definition MqConnection_new :: "string \<Rightarrow> MqConnection" where
  "MqConnection_new strBrokerUrl = \<lparr>m_strBrokerUrl = broker_url strBrokerUrl, m_pConnection = False, m_pSession = None,
     m_bReConn = False, m_thrdReConn = False, mq_sem = False, m_listProducer = [], m_listConsumer = []\<rparr>"

text \<open>
  \<^verbatim>\<open>ReConn\<close>: whether the semaphore and the thread could be created are arguments. An
  earlier thread is told to stop and joined first.
\<close>

definition MqConnection_ReConn :: "bool \<Rightarrow> bool \<Rightarrow> MqConnection \<Rightarrow> MqConnection" where
  "MqConnection_ReConn sem_ok thread_ok c =
     (if m_bReConn c then c
      else let c1 = (if mq_sem c \<and> m_thrdReConn c then c\<lparr>mq_sem := False, m_thrdReConn := False\<rparr> else c) in
        if \<not> sem_ok then c1\<lparr>mq_sem := False\<rparr>
        else let c2 = c1\<lparr>mq_sem := True\<rparr> in
          if \<not> thread_ok then c2\<lparr>m_thrdReConn := False\<rparr>
          else c2\<lparr>m_thrdReConn := True, m_bReConn := True\<rparr>)"

text \<open>
  \<^verbatim>\<open>Conn\<close>: the client either opens a connection and a session, or throws, before or
  after the connection object exists; a failure starts the reconnect thread unless one is at
  work.
\<close>

datatype conn_out = Conn_Throws bool | Conn_Session session

definition MqConnection_Conn :: "conn_out \<Rightarrow> bool \<Rightarrow> bool \<Rightarrow> MqConnection \<Rightarrow> bool \<times> MqConnection" where
  "MqConnection_Conn out sem_ok thread_ok c = (case out of
     Conn_Session s \<Rightarrow> (True, c\<lparr>m_pConnection := True, m_pSession := Some s\<rparr>)
   | Conn_Throws made \<Rightarrow>
       (let c1 = (if made then c\<lparr>m_pConnection := True\<rparr> else c)
        in (False, if \<not> m_bReConn c1 then MqConnection_ReConn sem_ok thread_ok c1 else c1)))"

text \<open>Applying an operation to each listed producer, in order.\<close>

fun each_producer :: "(paddr \<Rightarrow> MqProducer \<Rightarrow> MqProducer) \<Rightarrow> paddr list \<Rightarrow> prod_heap \<Rightarrow> prod_heap option" where
  "each_producer f [] h = Some h"
| "each_producer f (a # as) h = (case h a of None \<Rightarrow> None | Some p \<Rightarrow> each_producer f as (h(a \<mapsto> f a p)))"

fun delete_all :: "paddr list \<Rightarrow> prod_heap \<Rightarrow> prod_heap option" where
  "delete_all [] h = Some h"
| "delete_all (a # as) h = (case h a of None \<Rightarrow> None | Some p \<Rightarrow> delete_all as (h(a := None)))"

definition MqConnection_DestroyConn :: "MqConnection \<Rightarrow> prod_heap \<Rightarrow> (MqConnection \<times> prod_heap) option" where
  "MqConnection_DestroyConn c h = (case each_producer (\<lambda>_. MqProducer_Destroy) (m_listProducer c) h of
     None \<Rightarrow> None
   | Some h' \<Rightarrow> Some (c\<lparr>m_listConsumer := map MqConsumer_Destroy (m_listConsumer c),
       m_pSession := None, m_pConnection := False\<rparr>, h'))"

text \<open>
  \<^verbatim>\<open>DisConn\<close> first waits for the reconnect thread, when there is one; the definition is
  what happens once that thread has ended.
\<close>

definition MqConnection_DisConn :: "MqConnection \<Rightarrow> prod_heap \<Rightarrow> (MqConnection \<times> prod_heap) option" where
  "MqConnection_DisConn c h = (case MqConnection_DestroyConn (c\<lparr>m_thrdReConn := False\<rparr>) h of
     None \<Rightarrow> None
   | Some (c1, h1) \<Rightarrow> map_option (\<lambda>h2. (c1\<lparr>m_listProducer := [], m_listConsumer := []\<rparr>, h2))
       (delete_all (m_listProducer c1) h1))"

text \<open>\<^verbatim>\<open>AddProducer\<close>: the address \<^verbatim>\<open>new\<close> returned, \<open>None\<close> when it returned null.\<close>

definition MqConnection_AddProducer ::
    "paddr option \<Rightarrow> create_out \<Rightarrow> string \<Rightarrow> MqMsgMode \<Rightarrow> MqConnection \<Rightarrow> prod_heap \<Rightarrow> paddr option \<times> MqConnection \<times> prod_heap" where
  "MqConnection_AddProducer pPro out strProducerName nType c h = (case pPro of
     None \<Rightarrow> (None, c, h)
   | Some a \<Rightarrow>
       (let p = MqProducer_new\<lparr>mp_name := strProducerName, mp_mode := nType\<rparr>
        in (Some a, c\<lparr>m_listProducer := m_listProducer c @ [a]\<rparr>,
            h(a \<mapsto> MqProducer_Create out (m_pSession c) p))))"

definition MqConnection_AddConsumer ::
    "bool \<Rightarrow> create_out \<Rightarrow> string \<Rightarrow> MqMsgMode \<Rightarrow> nat option \<Rightarrow> nat \<Rightarrow> MqConnection \<Rightarrow> bool \<times> MqConnection" where
  "MqConnection_AddConsumer new_ok out strConsumerName nType pfnMsgCb pUser c =
     (if \<not> new_ok then (False, c)
      else let k = MqConsumer_new\<lparr>mc_name := strConsumerName, mc_mode := nType, mc_cb := pfnMsgCb, mc_user := pUser\<rparr>
        in (True, c\<lparr>m_listConsumer := m_listConsumer c @ [MqConsumer_Create out (m_pSession c) k]\<rparr>))"

definition MqConnection_IsEmptyConn :: "MqConnection \<Rightarrow> bool" where
  "MqConnection_IsEmptyConn c \<longleftrightarrow> m_listConsumer c = [] \<and> m_listProducer c = []"

text \<open>The loop of \<^verbatim>\<open>DelProducer\<close>: the first listed producer of that name and mode.\<close>

fun find_producer :: "string \<Rightarrow> MqMsgMode \<Rightarrow> prod_heap \<Rightarrow> paddr list \<Rightarrow> paddr option option" where
  "find_producer nm md h [] = Some None"
| "find_producer nm md h (a # as) = (case h a of
     None \<Rightarrow> None
   | Some p \<Rightarrow> if mp_name p = nm \<and> mp_mode p = md then Some (Some a) else find_producer nm md h as)"

definition MqConnection_DelProducer ::
    "string \<Rightarrow> MqMsgMode \<Rightarrow> MqConnection \<Rightarrow> prod_heap \<Rightarrow> (bool \<times> MqConnection \<times> prod_heap) option" where
  "MqConnection_DelProducer strProducerName nType c h =
     (case find_producer strProducerName nType h (m_listProducer c) of
        None \<Rightarrow> None
      | Some None \<Rightarrow> Some (MqConnection_IsEmptyConn c, c, h)
      | Some (Some a) \<Rightarrow>
          (let c' = c\<lparr>m_listProducer := erase_first (\<lambda>x. x = a) (m_listProducer c)\<rparr>
           in Some (MqConnection_IsEmptyConn c', c', h(a := None))))"

definition MqConnection_DelConsumer :: "string \<Rightarrow> MqMsgMode \<Rightarrow> MqConnection \<Rightarrow> bool \<times> MqConnection" where
  "MqConnection_DelConsumer strConsumerName nType c =
     (let c' = c\<lparr>m_listConsumer := erase_first (\<lambda>k. mc_name k = strConsumerName \<and> mc_mode k = nType) (m_listConsumer c)\<rparr>
      in (MqConnection_IsEmptyConn c', c'))"

definition MqConnection_HasConsumer :: "string \<Rightarrow> MqMsgMode \<Rightarrow> MqConnection \<Rightarrow> bool" where
  "MqConnection_HasConsumer strConsumerName nType c \<longleftrightarrow>
     list_ex (\<lambda>k. mc_name k = strConsumerName \<and> mc_mode k = nType) (m_listConsumer c)"

section \<open>Reconnecting\<close>

text \<open>
  \<^verbatim>\<open>ReBuildConn\<close>: \<open>pout\<close> and \<open>kout\<close> are how far the creation of each producer and
  consumer (by its position) got.
\<close>

definition MqConnection_ReBuildConn ::
    "conn_out \<Rightarrow> (paddr \<Rightarrow> create_out) \<Rightarrow> (nat \<Rightarrow> create_out) \<Rightarrow> MqConnection \<Rightarrow> prod_heap
     \<Rightarrow> (bool \<times> MqConnection \<times> prod_heap) option" where
  "MqConnection_ReBuildConn out pout kout c h =
     (case MqConnection_Conn out False False c of
        (False, c1) \<Rightarrow> Some (False, c1, h)
      | (True, c1) \<Rightarrow> (case each_producer (\<lambda>a. MqProducer_Create (pout a) (m_pSession c1)) (m_listProducer c1) h of
          None \<Rightarrow> None
        | Some h' \<Rightarrow> Some (True,
            c1\<lparr>m_listConsumer := map (\<lambda>(i, k). MqConsumer_Create (kout i) (m_pSession c1) k)
              (enumerate 0 (m_listConsumer c1))\<rparr>, h')))"

text \<open>
  \<^verbatim>\<open>DoReconnWork\<close> on a list of attempts: what the client does at each, and whether the
  wait after a failed one returned success (somebody posted the semaphore). The list's end,
  while the loop has not ended, is the outer \<open>None\<close>: the thread is still at work.
\<close>

record attempt =
  at_conn :: conn_out
  at_pout :: "paddr \<Rightarrow> create_out"
  at_kout :: "nat \<Rightarrow> create_out"
  at_posted :: bool

fun reconn_loop :: "attempt list \<Rightarrow> MqConnection \<Rightarrow> prod_heap \<Rightarrow> (MqConnection \<times> prod_heap) option option" where
  "reconn_loop [] c h = None"
| "reconn_loop (t # ts) c h = (case MqConnection_DestroyConn c h of
     None \<Rightarrow> Some None
   | Some (c1, h1) \<Rightarrow> (case MqConnection_ReBuildConn (at_conn t) (at_pout t) (at_kout t) c1 h1 of
       None \<Rightarrow> Some None
     | Some (True, c2, h2) \<Rightarrow> Some (Some (c2, h2))
     | Some (False, c2, h2) \<Rightarrow> if at_posted t then Some (Some (c2, h2)) else reconn_loop ts c2 h2))"

definition MqConnection_DoReconnWork ::
    "attempt list \<Rightarrow> MqConnection \<Rightarrow> prod_heap \<Rightarrow> (MqConnection \<times> prod_heap) option option" where
  "MqConnection_DoReconnWork ts c h =
     map_option (map_option (\<lambda>(c', h'). (c'\<lparr>m_bReConn := False\<rparr>, h'))) (reconn_loop ts (c\<lparr>m_bReConn := True\<rparr>) h)"

section \<open>The invariant of a connection\<close>

text \<open>
  The listed producers exist, once each, and neither they nor the consumers refer to a session
  other than the connection's own; an endpoint implies a session.
\<close>

definition session_ok :: "session option \<Rightarrow> session option \<Rightarrow> bool" where
  "session_ok live s \<longleftrightarrow> s = None \<or> s = live"

definition producer_ok :: "session option \<Rightarrow> MqProducer \<Rightarrow> bool" where
  "producer_ok live p \<longleftrightarrow> session_ok live (mp_session p) \<and> (mp_producer p \<longrightarrow> mp_session p \<noteq> None)"

definition conn_ok :: "MqConnection \<Rightarrow> prod_heap \<Rightarrow> bool" where
  "conn_ok c h \<longleftrightarrow> distinct (m_listProducer c) \<and> (\<forall>a \<in> set (m_listProducer c). \<exists>p. h a = Some p \<and> producer_ok (m_pSession c) p)
     \<and> (\<forall>k \<in> set (m_listConsumer c). session_ok (m_pSession c) (mc_session k))"

lemma conn_ok_alive: "conn_ok c h \<Longrightarrow> a \<in> set (m_listProducer c) \<Longrightarrow> \<exists>p. h a = Some p"
  by (auto simp: conn_ok_def)

lemma each_producer_eq:
  "distinct as \<Longrightarrow> \<forall>a \<in> set as. \<exists>p. h a = Some p \<Longrightarrow>
     each_producer f as h = Some (\<lambda>a. if a \<in> set as then map_option (f a) (h a) else h a)"
proof (induction as arbitrary: h)
  case (Cons a as)
  then obtain p where p: "h a = Some p" by auto
  with Cons.prems have "\<forall>b \<in> set as. \<exists>q. (h(a \<mapsto> f a p)) b = Some q" by auto
  with Cons.IH Cons.prems(1) have "each_producer f as (h(a \<mapsto> f a p)) =
      Some (\<lambda>b. if b \<in> set as then map_option (f b) ((h(a \<mapsto> f a p)) b) else (h(a \<mapsto> f a p)) b)"
    by auto
  moreover have "(\<lambda>b. if b \<in> set as then map_option (f b) ((h(a \<mapsto> f a p)) b) else (h(a \<mapsto> f a p)) b) =
      (\<lambda>b. if b \<in> set (a # as) then map_option (f b) (h b) else h b)"
    using Cons.prems(1) p by (intro ext) auto
  ultimately show ?case using p by simp
qed simp

lemma delete_all_eq:
  "distinct as \<Longrightarrow> \<forall>a \<in> set as. \<exists>p. h a = Some p \<Longrightarrow>
     delete_all as h = Some (\<lambda>a. if a \<in> set as then None else h a)"
proof (induction as arbitrary: h)
  case (Cons a as)
  then obtain p where p: "h a = Some p" by auto
  with Cons.prems have "\<forall>b \<in> set as. \<exists>q. (h(a := None)) b = Some q" by auto
  with Cons.IH Cons.prems(1) have "delete_all as (h(a := None)) =
      Some (\<lambda>b. if b \<in> set as then None else (h(a := None)) b)"
    by auto
  moreover have "(\<lambda>b. if b \<in> set as then None else (h(a := None)) b) = (\<lambda>b. if b \<in> set (a # as) then None else h b)"
    by (intro ext) auto
  ultimately show ?case using p by simp
qed simp

lemma producer_names [simp]:
  "mp_name (MqProducer_Create out s p) = mp_name p" "mp_mode (MqProducer_Create out s p) = mp_mode p"
  "mp_name (MqProducer_Destroy p) = mp_name p" "mp_mode (MqProducer_Destroy p) = mp_mode p"
  by (simp_all add: MqProducer_Create_def MqProducer_Destroy_def ReleaseDst_def split: option.split create_out.split)

lemma destroyed_ok: "producer_ok None (MqProducer_Destroy p)" "mp_session (MqProducer_Destroy p) = None"
    "\<not> mp_producer (MqProducer_Destroy p)"
  by (simp_all add: producer_ok_def session_ok_def MqProducer_Destroy_def ReleaseDst_def)

lemma created_ok: "producer_ok s p \<Longrightarrow> producer_ok s (MqProducer_Create out s p)"
  by (auto simp: producer_ok_def session_ok_def MqProducer_Create_def split: option.splits create_out.splits)

lemma DestroyConn_ok:
  assumes "conn_ok c h"
  shows "\<exists>c' h'. MqConnection_DestroyConn c h = Some (c', h') \<and> conn_ok c' h' \<and> m_pSession c' = None \<and>
    m_listProducer c' = m_listProducer c \<and> length (m_listConsumer c') = length (m_listConsumer c) \<and>
    m_bReConn c' = m_bReConn c \<and>
    h' = (\<lambda>a. if a \<in> set (m_listProducer c) then map_option MqProducer_Destroy (h a) else h a)"
proof -
  from assms have d: "distinct (m_listProducer c)" and al: "\<forall>a \<in> set (m_listProducer c). \<exists>p. h a = Some p"
    by (auto simp: conn_ok_def)
  from al show ?thesis
    using each_producer_eq [OF d al, of "\<lambda>_. MqProducer_Destroy"] d
    by (fastforce simp: MqConnection_DestroyConn_def conn_ok_def destroyed_ok session_ok_def MqConsumer_Destroy_def ReleaseDst_def)
qed

lemma DisConn_ok:
  assumes "conn_ok c h"
  shows "\<exists>c'. MqConnection_DisConn c h = Some (c', \<lambda>a. if a \<in> set (m_listProducer c) then None else h a)"
proof -
  from assms have "conn_ok (c\<lparr>m_thrdReConn := False\<rparr>) h" by (simp add: conn_ok_def)
  from DestroyConn_ok [OF this] obtain c1 h1 where
    c1: "MqConnection_DestroyConn (c\<lparr>m_thrdReConn := False\<rparr>) h = Some (c1, h1)" "conn_ok c1 h1"
      "m_listProducer c1 = m_listProducer c"
      "h1 = (\<lambda>a. if a \<in> set (m_listProducer c) then map_option MqProducer_Destroy (h a) else h a)"
    by auto
  from c1(2) have "delete_all (m_listProducer c1) h1 = Some (\<lambda>a. if a \<in> set (m_listProducer c1) then None else h1 a)"
    by (intro delete_all_eq) (auto simp: conn_ok_def)
  then show ?thesis by (auto simp: MqConnection_DisConn_def c1 fun_eq_iff)
qed

lemma enumerate_consumers_ok:
  assumes "\<forall>k \<in> set ks. session_ok live (mc_session k)"
  shows "\<forall>k \<in> set (map (\<lambda>(i, k). MqConsumer_Create (kout i) live k) (enumerate n ks)). session_ok live (mc_session k)"
  using assms
  by (auto simp: session_ok_def MqConsumer_Create_def in_set_enumerate_eq split: option.splits create_out.splits)

lemma ReBuildConn_cases:
  assumes ok: "conn_ok c h" and none: "m_pSession c = None" and re: "m_bReConn c"
  shows "case out of
     Conn_Throws b \<Rightarrow> (\<exists>c'. MqConnection_ReBuildConn out pout kout c h = Some (False, c', h) \<and> conn_ok c' h \<and>
       m_listProducer c' = m_listProducer c \<and> m_bReConn c')
   | Conn_Session s \<Rightarrow> (\<exists>c' h'. MqConnection_ReBuildConn out pout kout c h = Some (True, c', h') \<and> conn_ok c' h' \<and>
       m_listProducer c' = m_listProducer c \<and> m_pSession c' = Some s \<and>
       h' = (\<lambda>a. if a \<in> set (m_listProducer c) then map_option (MqProducer_Create (pout a) (Some s)) (h a) else h a))"
proof (cases out)
  case (Conn_Throws b)
  with ok re show ?thesis by (auto simp: MqConnection_ReBuildConn_def MqConnection_Conn_def conn_ok_def)
next
  case (Conn_Session s)
  from ok have d: "distinct (m_listProducer c)" and al: "\<forall>a \<in> set (m_listProducer c). \<exists>p. h a = Some p"
    by (auto simp: conn_ok_def)
  let ?h' = "\<lambda>a. if a \<in> set (m_listProducer c) then map_option (MqProducer_Create (pout a) (Some s)) (h a) else h a"
  let ?c1 = "c\<lparr>m_pConnection := True, m_pSession := Some s\<rparr>"
  let ?c2 = "?c1\<lparr>m_listConsumer := map (\<lambda>(i, k). MqConsumer_Create (kout i) (Some s) k) (enumerate 0 (m_listConsumer c))\<rparr>"
  have run: "MqConnection_ReBuildConn out pout kout c h = Some (True, ?c2, ?h')"
    using Conn_Session each_producer_eq [OF d al, of "\<lambda>a. MqProducer_Create (pout a) (Some s)"]
    by (simp add: MqConnection_ReBuildConn_def MqConnection_Conn_def)
  have "producer_ok (Some s) (MqProducer_Create (pout a) (Some s) p)" if "producer_ok None p" for a p
    by (rule created_ok) (use that in \<open>auto simp: producer_ok_def session_ok_def\<close>)
  moreover have "\<forall>k \<in> set (m_listConsumer ?c2). session_ok (Some s) (mc_session k)"
    using enumerate_consumers_ok [of "m_listConsumer c" "Some s" kout 0] ok none
    by (auto simp: conn_ok_def session_ok_def)
  ultimately have "conn_ok ?c2 ?h'" using ok none by (fastforce simp: conn_ok_def)
  with run Conn_Session show ?thesis by simp
qed

definition fails :: "attempt \<Rightarrow> bool" where
  "fails t \<longleftrightarrow> (case at_conn t of Conn_Throws _ \<Rightarrow> \<not> at_posted t | Conn_Session _ \<Rightarrow> False)"

definition labels :: "prod_heap \<Rightarrow> paddr \<Rightarrow> (MqMsgMode \<times> string) option" where
  "labels h a = map_option (\<lambda>p. (mp_mode p, mp_name p)) (h a)"

lemma labels_Destroy [simp]: "map_option (\<lambda>p. (mp_mode p, mp_name p)) (map_option MqProducer_Destroy x) = map_option (\<lambda>p. (mp_mode p, mp_name p)) x"
  by (cases x) simp_all

lemma labels_Create [simp]: "map_option (\<lambda>p. (mp_mode p, mp_name p)) (map_option (MqProducer_Create out s) x) = map_option (\<lambda>p. (mp_mode p, mp_name p)) x"
  by (cases x) simp_all

lemma reconn_loop_skip:
  assumes "conn_ok c h" and "m_bReConn c" and "list_all fails ts"
  shows "\<exists>c' h'. reconn_loop (ts @ us) c h = reconn_loop us c' h' \<and> conn_ok c' h' \<and> m_bReConn c' \<and>
    m_listProducer c' = m_listProducer c \<and> labels h' = labels h"
  using assms
proof (induction ts arbitrary: c h)
  case (Cons t ts)
  from DestroyConn_ok [OF Cons.prems(1)] obtain c1 h1 where d: "MqConnection_DestroyConn c h = Some (c1, h1)"
    "conn_ok c1 h1" "m_pSession c1 = None" "m_listProducer c1 = m_listProducer c" "m_bReConn c1 = m_bReConn c"
    and h1: "h1 = (\<lambda>a. if a \<in> set (m_listProducer c) then map_option MqProducer_Destroy (h a) else h a)"
    by auto
  have l1: "labels h1 = labels h" by (rule ext) (simp add: labels_def h1)
  from Cons.prems(3) obtain b where t: "at_conn t = Conn_Throws b" "\<not> at_posted t"
    by (auto simp: fails_def split: conn_out.splits)
  from ReBuildConn_cases [of c1 h1 "at_conn t" "at_pout t" "at_kout t"] d t Cons.prems(2)
  obtain c2 where r: "MqConnection_ReBuildConn (at_conn t) (at_pout t) (at_kout t) c1 h1 = Some (False, c2, h1)"
    "conn_ok c2 h1" "m_listProducer c2 = m_listProducer c1" "m_bReConn c2"
    by auto
  from Cons.IH [OF r(2,4)] Cons.prems(3) obtain c' h' where
    "reconn_loop (ts @ us) c2 h1 = reconn_loop us c' h'" "conn_ok c' h'" "m_bReConn c'"
    "m_listProducer c' = m_listProducer c2" "labels h' = labels h1"
    by auto
  moreover have "reconn_loop ((t # ts) @ us) c h = reconn_loop (ts @ us) c2 h1"
    using d(1) r(1) t(2) by simp
  ultimately show ?case using d(4) r(3) l1 by auto
qed auto

section \<open>Properties\<close>

text \<open>A producer reports success exactly when the broker accepted the message, and then
  the message went to the producer's own destination with exactly the bytes given; a producer
  without a session or without an endpoint sends nothing and reports failure.\<close>

lemma send_reports_delivery:
  "(fst (MqProducer_SendMsg make_ok send_ok msg p) = 0 \<longleftrightarrow>
     snd (MqProducer_SendMsg make_ok send_ok msg p) = Some (mp_mode p, mp_name p, msg)) \<and>
   (fst (MqProducer_SendMsg make_ok send_ok msg p) \<noteq> 0 \<longleftrightarrow> snd (MqProducer_SendMsg make_ok send_ok msg p) = None) \<and>
   fst (MqProducer_SendMsg True True msg (MqProducer_Destroy p)) = -1"
  by (simp add: MqProducer_SendMsg_def destroyed_ok)

text \<open>C24: The reconnect loop gives up only when told to: on a sound connection it is still at
  work after a list of attempts exactly when each of them failed and nobody posted its
  semaphore, however many there were.\<close>

theorem reconnect_never_gives_up:
  assumes "conn_ok c h"
  shows "MqConnection_DoReconnWork ts c h = None \<longleftrightarrow> list_all fails ts"
proof -
  have ok: "conn_ok (c\<lparr>m_bReConn := True\<rparr>) h" using assms by (simp add: conn_ok_def)
  have "reconn_loop ts c h = None \<longleftrightarrow> list_all fails ts" if "conn_ok c h" "m_bReConn c" for c h
    using that
  proof (induction ts arbitrary: c h)
    case (Cons t ts)
    from DestroyConn_ok [OF Cons.prems(1)] obtain c1 h1 where d: "MqConnection_DestroyConn c h = Some (c1, h1)"
      "conn_ok c1 h1" "m_pSession c1 = None" "m_bReConn c1 = m_bReConn c" by auto
    note r = ReBuildConn_cases [of c1 h1 "at_conn t" "at_pout t" "at_kout t", OF d(2,3)]
    show ?case
    proof (cases "at_conn t")
      case (Conn_Throws b)
      with r d Cons.prems obtain c2 where "MqConnection_ReBuildConn (at_conn t) (at_pout t) (at_kout t) c1 h1 = Some (False, c2, h1)"
        "conn_ok c2 h1" "m_bReConn c2" by auto
      with Cons.IH [of c2 h1] d(1) Conn_Throws show ?thesis by (auto simp: fails_def)
    next
      case (Conn_Session s)
      with r d Cons.prems show ?thesis by (auto simp: fails_def)
    qed
  qed simp
  from this [OF ok] show ?thesis by (simp add: MqConnection_DoReconnWork_def)
qed

definition down :: attempt where
  "down = \<lparr>at_conn = Conn_Throws False, at_pout = (\<lambda>_. Created), at_kout = (\<lambda>_. Created), at_posted = False\<rparr>"

lemma new_conn_ok: "conn_ok (MqConnection_new url) h"
  by (simp add: conn_ok_def MqConnection_new_def)

theorem reconnect_never_gives_up_witness:
  "MqConnection_DoReconnWork [down, down, down] (MqConnection_new ''127.0.0.1:61616'') Map.empty = None"
  using reconnect_never_gives_up [OF new_conn_ok] by (simp add: down_def fails_def)

text \<open>C23: A successful reconnect restores every producer: after any number of failed attempts,
  one that opens a session ends the loop with that session, the same producers with their
  names and modes, and each producer the client could recreate sends again.\<close>

theorem reconnect_restores_producers:
  assumes ok: "conn_ok c h" and ts: "list_all fails ts" and s: "at_conn t = Conn_Session s"
    and a: "a \<in> set (m_listProducer c)" and made: "at_pout t a = Created"
  shows "\<exists>c' h' p p'. MqConnection_DoReconnWork (ts @ [t]) c h = Some (Some (c', h')) \<and> m_pSession c' = Some s \<and>
    \<not> m_bReConn c' \<and> m_listProducer c' = m_listProducer c \<and> h a = Some p \<and> h' a = Some p' \<and>
    MqProducer_SendMsg True True msg p' = (0, Some (mp_mode p, mp_name p, msg))"
proof -
  have "conn_ok (c\<lparr>m_bReConn := True\<rparr>) h" using ok by (simp add: conn_ok_def)
  from reconn_loop_skip [OF this _ ts, of "[t]"] obtain c1 h1 where
    1: "reconn_loop (ts @ [t]) (c\<lparr>m_bReConn := True\<rparr>) h = reconn_loop [t] c1 h1" "conn_ok c1 h1" "m_bReConn c1"
      "m_listProducer c1 = m_listProducer c" "labels h1 = labels h" by auto
  from DestroyConn_ok [OF 1(2)] obtain c2 h2 where
    2: "MqConnection_DestroyConn c1 h1 = Some (c2, h2)" "conn_ok c2 h2" "m_pSession c2 = None"
      "m_listProducer c2 = m_listProducer c1" "m_bReConn c2 = m_bReConn c1"
      "h2 = (\<lambda>a. if a \<in> set (m_listProducer c1) then map_option MqProducer_Destroy (h1 a) else h1 a)" by auto
  from ReBuildConn_cases [OF 2(2,3), of "at_conn t" "at_pout t" "at_kout t"] 1 2 s obtain c3 h3 where
    3: "MqConnection_ReBuildConn (at_conn t) (at_pout t) (at_kout t) c2 h2 = Some (True, c3, h3)"
      "m_listProducer c3 = m_listProducer c2" "m_pSession c3 = Some s"
      "h3 = (\<lambda>a. if a \<in> set (m_listProducer c2) then map_option (MqProducer_Create (at_pout t a) (Some s)) (h2 a) else h2 a)"
    by auto
  obtain p where p: "h a = Some p" using conn_ok_alive [OF ok a] by blast
  obtain p1 where p1: "h1 a = Some p1" "mp_mode p1 = mp_mode p" "mp_name p1 = mp_name p"
    using fun_cong [OF 1(5), of a] p by (auto simp: labels_def)
  have "MqConnection_DoReconnWork (ts @ [t]) c h = Some (Some (c3\<lparr>m_bReConn := False\<rparr>, h3))"
    using 1(1) 2(1) 3(1) by (simp add: MqConnection_DoReconnWork_def)
  moreover have "h3 a = Some (MqProducer_Create Created (Some s) (MqProducer_Destroy p1))"
    using a made p1 1(4) 2(4,6) 3(4) by simp
  moreover have "MqProducer_SendMsg True True msg (MqProducer_Create Created (Some s) (MqProducer_Destroy p1))
      = (0, Some (mp_mode p, mp_name p, msg))"
    using p1 by (simp add: MqProducer_SendMsg_def) (simp add: MqProducer_Create_def)
  ultimately show ?thesis using p 1(4) 2(4) 3(2,3) by auto
qed

definition up :: attempt where
  "up = down\<lparr>at_conn := Conn_Session 7\<rparr>"

definition demo_conn :: MqConnection where
  "demo_conn = (MqConnection_new ''127.0.0.1:61616'')\<lparr>m_listProducer := [3]\<rparr>"

definition demo_prods :: prod_heap where
  "demo_prods = [3 \<mapsto> MqProducer_new\<lparr>mp_name := ''test'', mp_mode := MQ_MODE_QUEUE\<rparr>]"

theorem reconnect_restores_producers_witness:
  "\<exists>c' h' p'. MqConnection_DoReconnWork [down, up] demo_conn demo_prods = Some (Some (c', h')) \<and> h' 3 = Some p' \<and>
     MqProducer_SendMsg True True ''job'' p' = (0, Some (MQ_MODE_QUEUE, ''test'', ''job''))"
proof -
  have c: "conn_ok demo_conn demo_prods"
    by (simp add: conn_ok_def demo_conn_def demo_prods_def MqConnection_new_def producer_ok_def session_ok_def MqProducer_new_def)
  have f: "list_all fails [down]" and u: "at_conn up = Conn_Session 7" and p: "at_pout up 3 = Created"
    by (simp_all add: down_def fails_def up_def)
  have a: "3 \<in> set (m_listProducer demo_conn)" by (simp add: demo_conn_def)
  from reconnect_restores_producers [OF c f u a p, of "''job''"] show ?thesis by (auto simp: demo_prods_def)
qed

end
