(* ===== verification/Mq_Mgr.thy ===== *)
theory Mq_Mgr
  imports Mq_Connection
begin

text \<open>
  The manager of the message queue library (\<^verbatim>\<open>MqMgr.cpp\<close>) and its C interface
  (\<^verbatim>\<open>libactivemq.cpp\<close>): connections by server address, and a cache from URL to producer
  that points into the connections' lists. \<^verbatim>\<open>m_mapConn\<close> is an association list with
  distinct keys (the order of the \<^verbatim>\<open>std::map\<close> is not observable), and an operation that
  would use a freed producer is \<open>None\<close>.
\<close>

section \<open>State\<close>

record MqMgr =
  prods :: prod_heap
  m_mapConn :: "(string \<times> MqConnection) list"
  m_mapProcucer :: "string \<rightharpoonup> paddr"
  lib_up :: bool

definition MqMgr_new :: MqMgr where
  "MqMgr_new = \<lparr>prods = Map.empty, m_mapConn = [], m_mapProcucer = Map.empty, lib_up = False\<rparr>"

text \<open>What memory and the ActiveMQ client do during one call.\<close>

record mq_env =
  env_new_conn :: bool
  env_conn :: conn_out
  env_sem :: bool
  env_thread :: bool
  env_new_prod :: "paddr option"
  env_new_cons :: bool
  env_create :: create_out
  env_make :: bool
  env_send :: bool

text \<open>The assignments the code makes through an iterator or a key.\<close>

fun conn_update :: "string \<Rightarrow> MqConnection \<Rightarrow> (string \<times> MqConnection) list \<Rightarrow> (string \<times> MqConnection) list" where
  "conn_update k v [] = []"
| "conn_update k v ((k', w) # xs) = (if k' = k then (k', v) # xs else (k', w) # conn_update k v xs)"

definition conn_erase :: "string \<Rightarrow> (string \<times> MqConnection) list \<Rightarrow> (string \<times> MqConnection) list" where
  "conn_erase k xs = erase_first (\<lambda>e. fst e = k) xs"

section \<open>Operations\<close>

definition MqMgr_Init :: "MqMgr \<Rightarrow> int \<times> MqMgr" where
  "MqMgr_Init st = (0, st\<lparr>lib_up := True\<rparr>)"

fun disconn_all :: "(string \<times> MqConnection) list \<Rightarrow> prod_heap \<Rightarrow> prod_heap option" where
  "disconn_all [] h = Some h"
| "disconn_all ((k, c) # cs) h = (case MqConnection_DisConn c h of None \<Rightarrow> None | Some (_, h') \<Rightarrow> disconn_all cs h')"

definition MqMgr_Fini :: "MqMgr \<Rightarrow> MqMgr option" where
  "MqMgr_Fini st = map_option (\<lambda>h. \<lparr>prods = h, m_mapConn = [], m_mapProcucer = Map.empty, lib_up = False\<rparr>)
     (disconn_all (m_mapConn st) (prods st))"

definition AddConnection :: "mq_env \<Rightarrow> string \<Rightarrow> MqMgr \<Rightarrow> MqConnection option \<times> MqMgr" where
  "AddConnection env strMQSvr st = (case map_of (m_mapConn st) strMQSvr of
     Some pConn \<Rightarrow> (Some pConn, st)
   | None \<Rightarrow> if env_new_conn env
       then (let (_, pConn) = MqConnection_Conn (env_conn env) (env_sem env) (env_thread env) (MqConnection_new strMQSvr)
             in (Some pConn, st\<lparr>m_mapConn := m_mapConn st @ [(strMQSvr, pConn)]\<rparr>))
       else (None, st))"

definition HasConsumer :: "string \<Rightarrow> string \<Rightarrow> MqMsgMode \<Rightarrow> MqMgr \<Rightarrow> bool" where
  "HasConsumer strMQSvr strDstName nType st = (case map_of (m_mapConn st) strMQSvr of
     Some c \<Rightarrow> MqConnection_HasConsumer strDstName nType c | None \<Rightarrow> False)"

definition HasProducer :: "string \<Rightarrow> MqMgr \<Rightarrow> bool" where
  "HasProducer strMqUri st \<longleftrightarrow> m_mapProcucer st strMqUri \<noteq> None"

definition MqMgr_AddConsumer :: "mq_env \<Rightarrow> string \<Rightarrow> nat option \<Rightarrow> nat \<Rightarrow> MqMgr \<Rightarrow> int \<times> MqMgr" where
  "MqMgr_AddConsumer env strUrl pfnMsgCb pUser st =
     (if pfnMsgCb = None then (-1, st)
      else (case ParseMqUri strUrl of
          None \<Rightarrow> (-1, st)
        | Some (strMqSvr, strDst, nMode) \<Rightarrow>
            if HasConsumer strMqSvr strDst nMode st then (0, st)
            else (case AddConnection env strMqSvr st of
                (None, st1) \<Rightarrow> (-1, st1)
              | (Some pConn, st1) \<Rightarrow>
                  (let (added, pConn') = MqConnection_AddConsumer (env_new_cons env) (env_create env) strDst nMode pfnMsgCb pUser pConn
                   in (if added then 0 else -1, st1\<lparr>m_mapConn := conn_update strMqSvr pConn' (m_mapConn st1)\<rparr>)))))"

definition MqMgr_DelConsumer :: "string \<Rightarrow> MqMgr \<Rightarrow> (int \<times> MqMgr) option" where
  "MqMgr_DelConsumer strUrl st = (case ParseMqUri strUrl of
     None \<Rightarrow> Some (-1, st)
   | Some (strMqSvr, strDst, nMode) \<Rightarrow> (case map_of (m_mapConn st) strMqSvr of
       None \<Rightarrow> Some (0, st)
     | Some c \<Rightarrow> (let (bEmptyConn, c') = MqConnection_DelConsumer strDst nMode c in
         if bEmptyConn
         then map_option (\<lambda>(_, h). (0, st\<lparr>prods := h, m_mapConn := conn_erase strMqSvr (m_mapConn st)\<rparr>))
           (MqConnection_DisConn c' (prods st))
         else Some (0, st\<lparr>m_mapConn := conn_update strMqSvr c' (m_mapConn st)\<rparr>))))"

definition MqMgr_AddProducer :: "mq_env \<Rightarrow> string \<Rightarrow> MqMgr \<Rightarrow> paddr option \<times> MqMgr" where
  "MqMgr_AddProducer env strUrl st = (case ParseMqUri strUrl of
     None \<Rightarrow> (None, st)
   | Some (strMqSvr, strDst, nMode) \<Rightarrow>
       if HasProducer strUrl st then (m_mapProcucer st strUrl, st)
       else (case AddConnection env strMqSvr st of
           (None, st1) \<Rightarrow> (None, st1)
         | (Some pConn, st1) \<Rightarrow>
             (let (pPro, pConn', h) = MqConnection_AddProducer (env_new_prod env) (env_create env) strDst nMode pConn (prods st1);
                  st2 = st1\<lparr>prods := h, m_mapConn := conn_update strMqSvr pConn' (m_mapConn st1)\<rparr>
              in (pPro, case pPro of None \<Rightarrow> st2
                | Some a \<Rightarrow> st2\<lparr>m_mapProcucer := (m_mapProcucer st2)(strUrl \<mapsto> a)\<rparr>))))"

definition MqMgr_DelProducer :: "string \<Rightarrow> MqMgr \<Rightarrow> (int \<times> MqMgr) option" where
  "MqMgr_DelProducer strUrl st = (case ParseMqUri strUrl of
     None \<Rightarrow> Some (-1, st)
   | Some (strMqSvr, strDst, nMode) \<Rightarrow>
       (case (case map_of (m_mapConn st) strMqSvr of
           None \<Rightarrow> Some st
         | Some c \<Rightarrow> (case MqConnection_DelProducer strDst nMode c (prods st) of
             None \<Rightarrow> None
           | Some (bEmptyConn, c', h) \<Rightarrow>
               if bEmptyConn
               then map_option (\<lambda>(_, h'). st\<lparr>prods := h', m_mapConn := conn_erase strMqSvr (m_mapConn st)\<rparr>)
                 (MqConnection_DisConn c' h)
               else Some (st\<lparr>prods := h, m_mapConn := conn_update strMqSvr c' (m_mapConn st)\<rparr>))) of
         None \<Rightarrow> None
       | Some st1 \<Rightarrow> Some (0, st1\<lparr>m_mapProcucer := (m_mapProcucer st1)(strUrl := None)\<rparr>)))"

definition producer_send :: "mq_env \<Rightarrow> paddr \<Rightarrow> string \<Rightarrow> MqMgr \<Rightarrow> (int \<times> delivery option \<times> MqMgr) option" where
  "producer_send env a strMsg st = (case prods st a of
     None \<Rightarrow> None
   | Some p \<Rightarrow> (let (r, d) = MqProducer_SendMsg (env_make env) (env_send env) strMsg p in Some (r, d, st)))"

definition MqMgr_SendMsg :: "mq_env \<Rightarrow> string \<Rightarrow> string \<Rightarrow> MqMgr \<Rightarrow> (int \<times> delivery option \<times> MqMgr) option" where
  "MqMgr_SendMsg env strUrl strMsg st = (case m_mapProcucer st strUrl of
     Some a \<Rightarrow> producer_send env a strMsg st
   | None \<Rightarrow> (case MqMgr_AddProducer env strUrl st of
       (None, st1) \<Rightarrow> Some (-1, None, st1)
     | (Some a, st1) \<Rightarrow> producer_send env a strMsg st1))"

section \<open>The C interface (libactivemq.cpp)\<close>

definition CommMgr_Fini :: "MqMgr \<Rightarrow> MqMgr option" where
  "CommMgr_Fini st = MqMgr_Fini st"

definition CommMgr_Init :: "MqMgr \<Rightarrow> (int \<times> MqMgr) option" where
  "CommMgr_Init st = (case MqMgr_Init st of (r, st1) \<Rightarrow>
     if r = 0 then Some (0, st1) else map_option (\<lambda>st2. (-1, st2)) (CommMgr_Fini st1))"

definition CommMgr_AddConsumer :: "mq_env \<Rightarrow> string \<Rightarrow> nat option \<Rightarrow> nat \<Rightarrow> MqMgr \<Rightarrow> int \<times> MqMgr" where
  "CommMgr_AddConsumer env strUrl pfnMsgCb pUser st = MqMgr_AddConsumer env strUrl pfnMsgCb pUser st"

definition CommMgr_DelConsumer :: "string \<Rightarrow> MqMgr \<Rightarrow> (int \<times> MqMgr) option" where
  "CommMgr_DelConsumer strUr st = MqMgr_DelConsumer strUr st"

definition CommMgr_AddProducer :: "mq_env \<Rightarrow> string \<Rightarrow> MqMgr \<Rightarrow> int \<times> MqMgr" where
  "CommMgr_AddProducer env strUrl st = (case MqMgr_AddProducer env strUrl st of (p, st1) \<Rightarrow> (if p \<noteq> None then 0 else -1, st1))"

definition CommMgr_DelProducer :: "string \<Rightarrow> MqMgr \<Rightarrow> (int \<times> MqMgr) option" where
  "CommMgr_DelProducer strUrl st = MqMgr_DelProducer strUrl st"

definition CommMgr_SendMsg :: "mq_env \<Rightarrow> string \<Rightarrow> string \<Rightarrow> MqMgr \<Rightarrow> (int \<times> delivery option \<times> MqMgr) option" where
  "CommMgr_SendMsg env strUrl strMsg st = MqMgr_SendMsg env strUrl strMsg st"

lemmas CommMgr_defs = CommMgr_Fini_def CommMgr_Init_def CommMgr_AddConsumer_def CommMgr_DelConsumer_def
  CommMgr_AddProducer_def CommMgr_DelProducer_def CommMgr_SendMsg_def

section \<open>The connection map\<close>

lemma conn_update_keys [simp]: "map fst (conn_update k v xs) = map fst xs"
  by (induction xs) (auto split: prod.splits)

lemma map_of_conn_update:
  "map_of xs k = Some w \<Longrightarrow> map_of (conn_update k v xs) = (map_of xs)(k \<mapsto> v)"
  by (induction xs) (auto simp: fun_eq_iff split: if_splits)

lemma conn_erase_filter: "distinct (map fst xs) \<Longrightarrow> conn_erase k xs = filter (\<lambda>e. fst e \<noteq> k) xs"
  by (simp add: conn_erase_def erase_first_key_filter)

lemma map_of_conn_erase: "distinct (map fst xs) \<Longrightarrow> map_of (conn_erase k xs) = (map_of xs)(k := None)"
  unfolding conn_erase_filter by (induction xs) (auto simp: fun_eq_iff)

lemma conn_erase_keys: "distinct (map fst xs) \<Longrightarrow> distinct (map fst (conn_erase k xs))"
  by (simp add: conn_erase_filter distinct_map_filter)

lemma map_of_snoc: "map_of xs k = None \<Longrightarrow> map_of (xs @ [(k, v)]) = (map_of xs)(k \<mapsto> v)"
  by (induction xs) (auto simp: fun_eq_iff)

abbreviation conns :: "MqMgr \<Rightarrow> string \<rightharpoonup> MqConnection" where
  "conns st \<equiv> map_of (m_mapConn st)"

section \<open>The invariant\<close>

text \<open>
  The producers listed under a server, and the invariant: every connection is sound, no
  producer is listed under two servers, every cached pointer leads to a listed producer of
  the destination its URL names, every listed producer is cached under a canonical URL, and
  every producer on the heap is listed, so that nothing leaks.
\<close>

definition plist :: "(string \<rightharpoonup> MqConnection) \<Rightarrow> string \<Rightarrow> paddr set" where
  "plist cm svr = (case cm svr of None \<Rightarrow> {} | Some c \<Rightarrow> set (m_listProducer c))"

definition conns_ok :: "prod_heap \<Rightarrow> (string \<rightharpoonup> MqConnection) \<Rightarrow> bool" where
  "conns_ok h cm \<longleftrightarrow> (\<forall>svr c. cm svr = Some c \<longrightarrow> conn_ok c h)"

definition names :: "prod_heap \<Rightarrow> (string \<Rightarrow> paddr set) \<Rightarrow> string \<Rightarrow> paddr \<Rightarrow> bool" where
  "names h pl url a \<longleftrightarrow> canonical url \<and>
     (\<exists>svr p. ParseMqUri url = Some (svr, mp_name p, mp_mode p) \<and> a \<in> pl svr \<and> h a = Some p)"

definition cache_ok :: "prod_heap \<Rightarrow> (string \<Rightarrow> paddr set) \<Rightarrow> (string \<rightharpoonup> paddr) \<Rightarrow> bool" where
  "cache_ok h pl ch \<longleftrightarrow> (\<forall>s1 s2 a. a \<in> pl s1 \<longrightarrow> a \<in> pl s2 \<longrightarrow> s1 = s2) \<and>
     (\<forall>url a. ch url = Some a \<longrightarrow> names h pl url a) \<and> (\<forall>svr a. a \<in> pl svr \<longrightarrow> a \<in> ran ch) \<and>
     (\<forall>a p. h a = Some p \<longrightarrow> (\<exists>svr. a \<in> pl svr))"

definition mgr_ok :: "MqMgr \<Rightarrow> bool" where
  "mgr_ok st \<longleftrightarrow> distinct (map fst (m_mapConn st)) \<and> conns_ok (prods st) (conns st) \<and>
     cache_ok (prods st) (plist (conns st)) (m_mapProcucer st)"

lemma plist_upd [simp]: "plist (cm(svr \<mapsto> c)) = (plist cm)(svr := set (m_listProducer c))"
  by (auto simp: plist_def fun_eq_iff)

lemma plist_del [simp]: "plist (cm(svr := None)) = (plist cm)(svr := {})"
  by (auto simp: plist_def fun_eq_iff)

lemma plist_Some: "cm svr = Some c \<Longrightarrow> plist cm svr = set (m_listProducer c)"
  by (simp add: plist_def)

lemma plist_same: "cm svr = Some c \<Longrightarrow> (plist cm)(svr := set (m_listProducer c)) = plist cm"
  by (auto simp: plist_def fun_eq_iff)

lemma plist_empty: "plist cm svr = {} \<Longrightarrow> (plist cm)(svr := {}) = plist cm"
  by (auto simp: fun_eq_iff)

lemma conns_ok_upd: "conns_ok h cm \<Longrightarrow> conn_ok c h \<Longrightarrow> conns_ok h (cm(svr \<mapsto> c))"
  by (simp add: conns_ok_def)

lemma conns_ok_del: "conns_ok h cm \<Longrightarrow> conns_ok h (cm(svr := None))"
  by (auto simp: conns_ok_def)

lemma conn_ok_heap:
  "conn_ok c h \<Longrightarrow> (\<And>a. a \<in> set (m_listProducer c) \<Longrightarrow> h' a = h a) \<Longrightarrow> conn_ok c h'"
  by (auto simp: conn_ok_def)

lemma listed_names:
  assumes "cache_ok h pl ch" and "a \<in> pl svr"
  obtains url p where "ch url = Some a" "canonical url" "h a = Some p" "ParseMqUri url = Some (svr, mp_name p, mp_mode p)"
proof -
  from assms obtain url where url: "ch url = Some a" unfolding cache_ok_def ran_def by blast
  with assms(1) have "names h pl url a" by (simp add: cache_ok_def)
  then obtain svr' p where *: "canonical url" "ParseMqUri url = Some (svr', mp_name p, mp_mode p)" "a \<in> pl svr'" "h a = Some p"
    by (auto simp: names_def)
  with assms have "svr' = svr" unfolding cache_ok_def by metis
  with * url show thesis using that by blast
qed

text \<open>A producer is determined by its server, name and mode.\<close>

lemma listed_unique:
  assumes "cache_ok h pl ch" and "a \<in> pl svr" and "b \<in> pl svr" and "h a = Some p" and "h b = Some q"
    and "mp_name p = mp_name q" and "mp_mode p = mp_mode q"
  shows "a = b"
proof -
  from listed_names [OF assms(1,2)] assms(4) obtain u where u: "ch u = Some a" "canonical u"
    "ParseMqUri u = Some (svr, mp_name p, mp_mode p)" by auto
  from listed_names [OF assms(1,3)] assms(5) obtain v where v: "ch v = Some b" "canonical v"
    "ParseMqUri v = Some (svr, mp_name q, mp_mode q)" by auto
  from canonical_inj [OF u(2) v(2) u(3)] v(3) assms(6,7) have "u = v" by simp
  with u(1) v(1) show ?thesis by simp
qed

lemma names_parse: "names h pl url a \<Longrightarrow> ParseMqUri url \<noteq> None"
  by (auto simp: names_def)

section \<open>Operations keep the invariant\<close>

lemma AddConnection_ok:
  assumes ok: "mgr_ok st" and add: "AddConnection env svr st = (r, st')"
  shows "mgr_ok st' \<and> r = conns st' svr \<and> prods st' = prods st \<and> m_mapProcucer st' = m_mapProcucer st"
proof -
  have new: "m_listProducer (snd (MqConnection_Conn out s t (MqConnection_new svr))) = [] \<and>
      m_listConsumer (snd (MqConnection_Conn out s t (MqConnection_new svr))) = []" for out s t
    by (auto simp: MqConnection_Conn_def MqConnection_ReConn_def MqConnection_new_def Let_def split: conn_out.splits)
  show ?thesis
  proof (cases "conns st svr")
    case (Some c)
    with ok add show ?thesis
      by (simp add: AddConnection_def)
  next
    case None
    show ?thesis
    proof (cases "env_new_conn env")
      case True
      let ?c = "snd (MqConnection_Conn (env_conn env) (env_sem env) (env_thread env) (MqConnection_new svr))"
      from None True add have st': "st' = st\<lparr>m_mapConn := m_mapConn st @ [(svr, ?c)]\<rparr>" "r = Some ?c"
        by (auto simp: AddConnection_def case_prod_beta)
      have c: "conn_ok ?c (prods st)" using new by (simp add: conn_ok_def)
      have e: "(plist (conns st))(svr := {}) = plist (conns st)" using None by (simp add: plist_empty plist_def)
      have k: "svr \<notin> set (map fst (m_mapConn st))" using None by (simp add: map_of_eq_None_iff)
      show ?thesis
        using ok c e k new by (simp add: st' mgr_ok_def map_of_snoc [OF None] conns_ok_upd del: map_of_append)
    next
      case False
      with None add ok show ?thesis by (auto simp: AddConnection_def)
    qed
  qed
qed

lemma mgr_ok_put:
  assumes ok: "mgr_ok st" and c: "conns st svr = Some c" and c': "conn_ok c' (prods st)"
    and same: "m_listProducer c' = m_listProducer c"
  shows "mgr_ok (st\<lparr>m_mapConn := conn_update svr c' (m_mapConn st)\<rparr>)"
  using ok c' plist_same [of "conns st", OF c]
  by (simp add: mgr_ok_def map_of_conn_update [OF c] conns_ok_upd same)

lemma mgr_ok_erase:
  assumes ok: "mgr_ok st" and c: "conns st svr = Some c" and e: "m_listProducer c = []"
  shows "mgr_ok (st\<lparr>m_mapConn := conn_erase svr (m_mapConn st)\<rparr>)"
proof -
  have "(plist (conns st))(svr := {}) = plist (conns st)" using c e by (simp add: plist_empty plist_def)
  with ok show ?thesis
    by (simp add: mgr_ok_def map_of_conn_erase conn_erase_keys conns_ok_del)
qed

lemma DisConn_empty:
  "m_listProducer c = [] \<Longrightarrow> \<exists>c'. MqConnection_DisConn c h = Some (c', h)"
  by (simp add: MqConnection_DisConn_def MqConnection_DestroyConn_def)

lemma AddConsumer_ok: "mgr_ok st \<Longrightarrow> mgr_ok (snd (MqMgr_AddConsumer env url cb user st))"
proof -
  assume ok: "mgr_ok st"
  have "mgr_ok (st1\<lparr>m_mapConn := conn_update svr c' (m_mapConn st1)\<rparr>)"
    if "mgr_ok st1" "conns st1 svr = Some c" "MqConnection_AddConsumer n out dst m cb user c = (b, c')" for st1 svr c n out dst m b c'
  proof (rule mgr_ok_put [OF that(1,2)])
    have "conn_ok c (prods st1)" using that(1,2) by (simp add: mgr_ok_def conns_ok_def)
    with that(3) show "conn_ok c' (prods st1)" "m_listProducer c' = m_listProducer c"
      by (auto simp: MqConnection_AddConsumer_def conn_ok_def session_ok_def MqConsumer_Create_def MqConsumer_new_def Let_def
          split: if_splits option.splits create_out.splits)
  qed
  then show ?thesis
    using ok AddConnection_ok [OF ok]
    by (auto simp: MqMgr_AddConsumer_def Let_def split: option.splits prod.splits)
qed

lemma DelConsumer_ok:
  assumes ok: "mgr_ok st"
  shows "\<exists>r st'. MqMgr_DelConsumer url st = Some (r, st') \<and> mgr_ok st'"
proof (cases "ParseMqUri url")
  case None
  with ok show ?thesis by (simp add: MqMgr_DelConsumer_def)
next
  case (Some t)
  obtain svr dst m where t: "t = (svr, dst, m)" by (cases t)
  show ?thesis
  proof (cases "conns st svr")
    case None
    with ok Some t show ?thesis by (simp add: MqMgr_DelConsumer_def)
  next
    case c: (Some c)
    obtain e c' where d: "MqConnection_DelConsumer dst m c = (e, c')" by (cases "MqConnection_DelConsumer dst m c")
    then have l: "m_listProducer c' = m_listProducer c" and e: "e \<Longrightarrow> m_listProducer c = []"
      by (auto simp: MqConnection_DelConsumer_def MqConnection_IsEmptyConn_def Let_def)
    have "conn_ok c (prods st)" using ok c by (simp add: mgr_ok_def conns_ok_def)
    with d have ck: "conn_ok c' (prods st)"
      by (auto simp: MqConnection_DelConsumer_def Let_def conn_ok_def dest!: set_erase_firstD)
    show ?thesis
    proof (cases e)
      case True
      with e l DisConn_empty [of c' "prods st"] obtain c'' where "MqConnection_DisConn c' (prods st) = Some (c'', prods st)" by auto
      with True Some t c d mgr_ok_erase [OF ok c e] show ?thesis by (simp add: MqMgr_DelConsumer_def)
    next
      case False
      with Some t c d mgr_ok_put [OF ok c ck l] show ?thesis by (simp add: MqMgr_DelConsumer_def)
    qed
  qed
qed

text \<open>Adding a producer at a fresh address.\<close>

lemma cache_ok_add:
  assumes ok: "cache_ok h pl ch" and alive: "\<And>s b. b \<in> pl s \<Longrightarrow> \<exists>q. h b = Some q" and fresh: "h a = None"
    and url: "canonical url" "ParseMqUri url = Some (svr, mp_name p, mp_mode p)" "ch url = None"
  shows "cache_ok (h(a \<mapsto> p)) (pl(svr := insert a (pl svr))) (ch(url \<mapsto> a))"
proof -
  have new: "a \<notin> pl s" for s using alive [of a s] fresh by auto
  have keep: "names h pl u b \<Longrightarrow> names (h(a \<mapsto> p)) (pl(svr := insert a (pl svr))) u b" for u b
    using fresh by (auto simp: names_def)
  have mine: "names (h(a \<mapsto> p)) (pl(svr := insert a (pl svr))) url a"
    using url by (auto simp: names_def)
  have ran: "ran ch \<subseteq> ran (ch(url \<mapsto> a))" using url(3) by auto
  show ?thesis
    unfolding cache_ok_def
  proof (intro conjI allI impI)
    fix s1 s2 b assume "b \<in> (pl(svr := insert a (pl svr))) s1" "b \<in> (pl(svr := insert a (pl svr))) s2"
    with new ok show "s1 = s2" unfolding cache_ok_def by (auto split: if_splits)
  next
    fix u b assume "(ch(url \<mapsto> a)) u = Some b"
    with mine keep ok show "names (h(a \<mapsto> p)) (pl(svr := insert a (pl svr))) u b"
      unfolding cache_ok_def by (auto split: if_splits)
  next
    fix s b assume b: "b \<in> (pl(svr := insert a (pl svr))) s"
    show "b \<in> ran (ch(url \<mapsto> a))"
    proof (cases "b = a")
      case True
      then show ?thesis by (auto simp: ran_def)
    next
      case False
      with b have "b \<in> pl s" by (auto split: if_splits)
      with ok ran show ?thesis unfolding cache_ok_def by blast
    qed
  next
    fix b q assume q: "(h(a \<mapsto> p)) b = Some q"
    show "\<exists>s. b \<in> (pl(svr := insert a (pl svr))) s"
    proof (cases "b = a")
      case True
      then show ?thesis by (intro exI [of _ svr]) simp
    next
      case False
      with q ok obtain s where "b \<in> pl s" unfolding cache_ok_def by (metis fun_upd_other)
      then show ?thesis by (intro exI [of _ s]) auto
    qed
  qed
qed

lemma alive_all: "conns_ok h cm \<Longrightarrow> b \<in> plist cm s \<Longrightarrow> \<exists>q. h b = Some q"
  by (auto simp: conns_ok_def plist_def split: option.splits dest: conn_ok_alive)

lemma AddProducer_ok:
  assumes ok: "mgr_ok st" and url: "canonical url"
    and fresh: "\<And>a. env_new_prod env = Some a \<Longrightarrow> prods st a = None"
    and add: "MqMgr_AddProducer env url st = (r, st')"
  shows "mgr_ok st' \<and> (\<forall>a. r = Some a \<longrightarrow> m_mapProcucer st' url = Some a)"
proof (cases "ParseMqUri url")
  case None
  with ok add show ?thesis by (auto simp: MqMgr_AddProducer_def)
next
  case (Some t)
  obtain svr dst m where t: "t = (svr, dst, m)" by (cases t)
  show ?thesis
  proof (cases "m_mapProcucer st url")
    case (Some a)
    with ok add \<open>ParseMqUri url = Some t\<close> t show ?thesis by (auto simp: MqMgr_AddProducer_def HasProducer_def)
  next
    case nc: None
    obtain oc st1 where ac: "AddConnection env svr st = (oc, st1)" by (cases "AddConnection env svr st")
    from AddConnection_ok [OF ok ac] have ok1: "mgr_ok st1" and oc: "oc = conns st1 svr"
      and p1: "prods st1 = prods st" and ch1: "m_mapProcucer st1 = m_mapProcucer st" by auto
    show ?thesis
    proof (cases oc)
      case None
      with ok1 add Some t nc ac show ?thesis by (auto simp: MqMgr_AddProducer_def HasProducer_def)
    next
      case c: (Some c)
      with oc have cc: "conns st1 svr = Some c" by simp
      have cok: "conn_ok c (prods st1)" using ok1 cc by (simp add: mgr_ok_def conns_ok_def)
      show ?thesis
      proof (cases "env_new_prod env")
        case None
        with add Some t nc ac c mgr_ok_put [OF ok1 cc cok refl] show ?thesis
          by (auto simp: MqMgr_AddProducer_def HasProducer_def MqConnection_AddProducer_def)
      next
        case a: (Some a)
        let ?p = "MqProducer_Create (env_create env) (m_pSession c) (MqProducer_new\<lparr>mp_name := dst, mp_mode := m\<rparr>)"
        let ?c' = "c\<lparr>m_listProducer := m_listProducer c @ [a]\<rparr>"
        have fr: "prods st1 a = None" using fresh [OF a] p1 by simp
        have al: "\<exists>q. prods st1 b = Some q" if "b \<in> plist (conns st1) s" for b s
          using ok1 that by (auto simp: mgr_ok_def intro: alive_all)
        have pok: "producer_ok (m_pSession c) ?p"
          by (rule created_ok) (simp add: producer_ok_def session_ok_def MqProducer_new_def)
        have notin: "a \<notin> set (m_listProducer c)" using al [of a svr] fr cc by (auto simp: plist_def)
        have c'ok: "conn_ok ?c' ((prods st1)(a \<mapsto> ?p))"
          using cok pok notin by (auto simp: conn_ok_def)
        have others: "conns_ok ((prods st1)(a \<mapsto> ?p)) (conns st1)"
          unfolding conns_ok_def
        proof (intro allI impI)
          fix s d assume d: "conns st1 s = Some d"
          then have "conn_ok d (prods st1)" using ok1 by (simp add: mgr_ok_def conns_ok_def)
          moreover have "a \<notin> set (m_listProducer d)" using al [of a s] fr d by (auto simp: plist_def)
          ultimately show "conn_ok d ((prods st1)(a \<mapsto> ?p))" by (auto intro: conn_ok_heap)
        qed
        have cache: "cache_ok ((prods st1)(a \<mapsto> ?p)) ((plist (conns st1))(svr := insert a (plist (conns st1) svr)))
            ((m_mapProcucer st1)(url \<mapsto> a))"
          using ok1 al fr url Some t nc ch1 by (intro cache_ok_add) (auto simp: mgr_ok_def)
        have st': "st' = st1\<lparr>prods := (prods st1)(a \<mapsto> ?p), m_mapConn := conn_update svr ?c' (m_mapConn st1),
            m_mapProcucer := (m_mapProcucer st1)(url \<mapsto> a)\<rparr>" and r: "r = Some a"
          using add Some t nc ac c a by (auto simp: MqMgr_AddProducer_def HasProducer_def MqConnection_AddProducer_def)
        have pl: "(plist (conns st1))(svr := insert a (set (m_listProducer c))) =
            (plist (conns st1))(svr := insert a (plist (conns st1) svr))" using cc by (simp add: plist_def)
        have "mgr_ok st'"
          using ok1 conns_ok_upd [OF others c'ok] cache
          by (simp add: st' mgr_ok_def map_of_conn_update [OF cc] pl)
        with st' r show ?thesis by simp
      qed
    qed
  qed
qed

text \<open>Deleting the producer a URL names.\<close>

lemma cached_here:
  assumes "cache_ok h pl ch" and "a \<in> pl svr" and "h a = Some p" and "canonical url"
    and "ParseMqUri url = Some (svr, mp_name p, mp_mode p)"
  shows "ch url = Some a"
proof -
  from listed_names [OF assms(1,2)] assms(3) obtain u where u: "ch u = Some a" "canonical u"
    "ParseMqUri u = Some (svr, mp_name p, mp_mode p)" by auto
  from canonical_inj [OF u(2) assms(4) u(3) assms(5)] u(1) show ?thesis by simp
qed

lemma cache_ok_del:
  assumes ok: "cache_ok h pl ch" and a: "a \<in> pl svr" "h a = Some p" and url: "ch url = Some a"
  shows "cache_ok (h(a := None)) (pl(svr := pl svr - {a})) (ch(url := None))"
proof -
  have only: "u = url" if "ch u = Some a" for u
  proof -
    have "names h pl u a" "names h pl url a" using ok that url by (simp_all add: cache_ok_def)
    with ok a show ?thesis unfolding names_def cache_ok_def by (metis canonical_inj option.inject)
  qed
  show ?thesis
    unfolding cache_ok_def
  proof (intro conjI allI impI)
    fix s1 s2 b assume "b \<in> (pl(svr := pl svr - {a})) s1" "b \<in> (pl(svr := pl svr - {a})) s2"
    with ok show "s1 = s2" unfolding cache_ok_def by (auto split: if_splits)
  next
    fix u b assume ub: "(ch(url := None)) u = Some b"
    with only have "b \<noteq> a" by (auto split: if_splits)
    moreover have "names h pl u b" using ok ub unfolding cache_ok_def by (auto split: if_splits)
    ultimately show "names (h(a := None)) (pl(svr := pl svr - {a})) u b" by (auto simp: names_def)
  next
    fix s b assume b: "b \<in> (pl(svr := pl svr - {a})) s"
    have "b \<noteq> a" using b ok a unfolding cache_ok_def by (auto split: if_splits)
    moreover have "b \<in> pl s" using b by (auto split: if_splits)
    with ok have "b \<in> ran ch" unfolding cache_ok_def by blast
    then obtain u where "ch u = Some b" by (auto simp: ran_def)
    ultimately show "b \<in> ran (ch(url := None))" using url by (auto simp: ran_def intro!: exI [of _ u])
  next
    fix b q assume "(h(a := None)) b = Some q"
    then have b: "b \<noteq> a" "h b = Some q" by (auto split: if_splits)
    with ok obtain s where "b \<in> pl s" unfolding cache_ok_def by blast
    with b show "\<exists>s. b \<in> (pl(svr := pl svr - {a})) s" by (intro exI [of _ s]) auto
  qed
qed

lemma find_producer_eq:
  "\<forall>a \<in> set as. \<exists>p. h a = Some p \<Longrightarrow>
     find_producer nm md h as = Some (find (\<lambda>a. \<exists>p. h a = Some p \<and> mp_name p = nm \<and> mp_mode p = md) as)"
  by (induction as) auto

lemma erase_first_eq: "distinct xs \<Longrightarrow> erase_first (\<lambda>x. x = a) xs = filter (\<lambda>x. x \<noteq> a) xs"
  using erase_first_key_filter [of "\<lambda>x. x" xs a] by simp

lemma cached_listed:
  assumes "mgr_ok st" and "canonical url" and "ParseMqUri url = Some (svr, dst, m)" and "m_mapProcucer st url = Some a"
  shows "\<exists>c p. conns st svr = Some c \<and> a \<in> set (m_listProducer c) \<and> prods st a = Some p \<and> mp_name p = dst \<and> mp_mode p = m"
proof -
  from assms(1,4) have "names (prods st) (plist (conns st)) url a" by (simp add: mgr_ok_def cache_ok_def)
  with assms(3) obtain p where p: "a \<in> plist (conns st) svr" "prods st a = Some p" "mp_name p = dst" "mp_mode p = m"
    by (auto simp: names_def)
  from p(1) obtain c where "conns st svr = Some c" "a \<in> set (m_listProducer c)"
    unfolding plist_def by (cases "conns st svr") auto
  with p show ?thesis by blast
qed

text \<open>The case in which the connection lists the producer.\<close>

lemma DelProducer_found:
  assumes ok: "mgr_ok st" and url: "canonical url" and parse: "ParseMqUri url = Some (svr, dst, m)"
    and c: "conns st svr = Some c"
    and fa: "find (\<lambda>a. \<exists>p. prods st a = Some p \<and> mp_name p = dst \<and> mp_mode p = m) (m_listProducer c) = Some a"
  shows "\<exists>r st'. MqMgr_DelProducer url st = Some (r, st') \<and> mgr_ok st' \<and> m_mapProcucer st' url = None"
proof -
  have cok: "conn_ok c (prods st)" using ok c by (simp add: mgr_ok_def conns_ok_def)
  then have al: "\<forall>a \<in> set (m_listProducer c). \<exists>p. prods st a = Some p" and d: "distinct (m_listProducer c)"
    by (auto simp: conn_ok_def)
  from fa obtain p where a: "a \<in> set (m_listProducer c)" and p: "prods st a = Some p" "mp_name p = dst" "mp_mode p = m"
    by (auto simp: find_Some_iff)
  have co: "cache_ok (prods st) (plist (conns st)) (m_mapProcucer st)" using ok by (simp add: mgr_ok_def)
  have pl: "plist (conns st) svr = set (m_listProducer c)" by (rule plist_Some [of "conns st", OF c])
  have ch: "m_mapProcucer st url = Some a"
    using cached_here [OF co, of a svr p url] a pl p url parse by simp
  let ?h = "(prods st)(a := None)"
  let ?c' = "c\<lparr>m_listProducer := filter (\<lambda>x. x \<noteq> a) (m_listProducer c)\<rparr>"
  have del: "MqConnection_DelProducer dst m c (prods st) = Some (MqConnection_IsEmptyConn ?c', ?c', ?h)"
    using fa by (simp add: MqConnection_DelProducer_def find_producer_eq [OF al] erase_first_eq [OF d] Let_def)
  have c'ok: "conn_ok ?c' ?h" using cok by (auto simp: conn_ok_def)
  have others: "conns_ok ?h ((conns st)(svr \<mapsto> ?c'))"
    unfolding conns_ok_def
  proof (intro allI impI)
    fix s e assume e: "((conns st)(svr \<mapsto> ?c')) s = Some e"
    show "conn_ok e ?h"
    proof (cases "s = svr")
      case True
      with e c'ok show ?thesis by simp
    next
      case False
      with e have e': "conns st s = Some e" by simp
      then have "a \<notin> set (m_listProducer e)"
        using co a c False plist_Some [of "conns st", OF e'] pl unfolding cache_ok_def by metis
      moreover have "conn_ok e (prods st)" using ok e' by (simp add: mgr_ok_def conns_ok_def)
      ultimately show ?thesis by (auto intro: conn_ok_heap)
    qed
  qed
  have pl': "set (m_listProducer ?c') = plist (conns st) svr - {a}" by (auto simp: pl)
  have cache: "cache_ok ?h (plist ((conns st)(svr \<mapsto> ?c'))) ((m_mapProcucer st)(url := None))"
    using cache_ok_del [OF co, of a svr p url] a pl p(1) ch pl' by simp
  let ?st1 = "st\<lparr>prods := ?h, m_mapConn := conn_update svr ?c' (m_mapConn st), m_mapProcucer := (m_mapProcucer st)(url := None)\<rparr>"
  have ok1: "mgr_ok ?st1"
    using ok others cache by (simp add: mgr_ok_def map_of_conn_update [OF c])
  show ?thesis
  proof (cases "MqConnection_IsEmptyConn ?c'")
    case False
    with ok1 show ?thesis by (simp add: MqMgr_DelProducer_def parse c del)
  next
    case True
    then have e: "m_listProducer ?c' = []" by (simp add: MqConnection_IsEmptyConn_def)
    from DisConn_empty [OF e, of ?h] obtain c'' where dis: "MqConnection_DisConn ?c' ?h = Some (c'', ?h)" by auto
    let ?st2 = "st\<lparr>prods := ?h, m_mapConn := conn_erase svr (m_mapConn st), m_mapProcucer := (m_mapProcucer st)(url := None)\<rparr>"
    have "(plist (conns st))(svr := {}) = plist ((conns st)(svr \<mapsto> ?c'))"
      unfolding plist_upd e by simp
    with ok others cache have "mgr_ok ?st2"
      by (auto simp: mgr_ok_def map_of_conn_erase conn_erase_keys conns_ok_def split: if_splits)
    with True dis show ?thesis by (simp add: MqMgr_DelProducer_def parse c del)
  qed
qed

lemma DelProducer_ok:
  assumes ok: "mgr_ok st" and url: "canonical url"
  shows "\<exists>r st'. MqMgr_DelProducer url st = Some (r, st') \<and> mgr_ok st' \<and> m_mapProcucer st' url = None"
proof (cases "ParseMqUri url")
  case None
  have "m_mapProcucer st url \<noteq> Some a" for a
    using ok None names_parse [of "prods st" "plist (conns st)" url a] unfolding mgr_ok_def cache_ok_def by fastforce
  then have "m_mapProcucer st url = None" using not_Some_eq by blast
  with None ok show ?thesis by (simp add: MqMgr_DelProducer_def)
next
  case (Some t)
  obtain svr dst m where t: "t = (svr, dst, m)" by (cases t)
  with Some have parse: "ParseMqUri url = Some (svr, dst, m)" by simp
  note cached = cached_listed [OF ok url parse]
  show ?thesis
  proof (cases "conns st svr")
    case None
    with cached have "m_mapProcucer st url = None" by (cases "m_mapProcucer st url") auto
    with None ok parse show ?thesis by (simp add: MqMgr_DelProducer_def mgr_ok_def fun_upd_idem)
  next
    case c: (Some c)
    have cok: "conn_ok c (prods st)" using ok c by (simp add: mgr_ok_def conns_ok_def)
    then have al: "\<forall>a \<in> set (m_listProducer c). \<exists>p. prods st a = Some p" by (auto simp: conn_ok_def)
    let ?P = "\<lambda>a. \<exists>p. prods st a = Some p \<and> mp_name p = dst \<and> mp_mode p = m"
    show ?thesis
    proof (cases "find ?P (m_listProducer c)")
      case none: None
      then have nf: "\<forall>a \<in> set (m_listProducer c). \<not> ?P a" by (auto simp: find_None_iff)
      then have nc: "m_mapProcucer st url = None" using cached c by (cases "m_mapProcucer st url") auto
      have del: "MqConnection_DelProducer dst m c (prods st) = Some (MqConnection_IsEmptyConn c, c, prods st)"
        using none by (simp add: MqConnection_DelProducer_def find_producer_eq [OF al])
      show ?thesis
      proof (cases "MqConnection_IsEmptyConn c")
        case True
        then have e: "m_listProducer c = []" by (simp add: MqConnection_IsEmptyConn_def)
        with DisConn_empty [of c "prods st"] obtain c' where "MqConnection_DisConn c (prods st) = Some (c', prods st)" by auto
        with True mgr_ok_erase [OF ok c e] nc show ?thesis
          by (simp add: MqMgr_DelProducer_def parse c del fun_upd_idem)
      next
        case False
        with mgr_ok_put [OF ok c cok refl] nc show ?thesis
          by (simp add: MqMgr_DelProducer_def parse c del fun_upd_idem)
      qed
    next
      case fa: (Some a)
      show ?thesis using DelProducer_found [OF ok url parse c] fa by blast
    qed
  qed
qed

lemma disconn_all_ok:
  assumes "distinct (map fst cs)" and "conns_ok h (map_of cs)"
    and "\<And>s1 s2 a. a \<in> plist (map_of cs) s1 \<Longrightarrow> a \<in> plist (map_of cs) s2 \<Longrightarrow> s1 = s2"
  shows "\<exists>h'. disconn_all cs h = Some h' \<and> (\<forall>s a. a \<in> plist (map_of cs) s \<longrightarrow> h' a = None) \<and> (\<forall>a. h a = None \<longrightarrow> h' a = None)"
  using assms
proof (induction cs arbitrary: h)
  case Nil
  then show ?case by (simp add: plist_def)
next
  case (Cons x cs)
  obtain k c where x: "x = (k, c)" by (cases x)
  have c: "conn_ok c h" using Cons.prems(2) x unfolding conns_ok_def by (metis map_of_Cons_code(2))
  from DisConn_ok [OF c] obtain c' where
    dis: "MqConnection_DisConn c h = Some (c', \<lambda>a. if a \<in> set (m_listProducer c) then None else h a)" ..
  let ?h1 = "\<lambda>a. if a \<in> set (m_listProducer c) then None else h a"
  have k: "map_of cs k = None" using Cons.prems(1) x by (simp add: map_of_eq_None_iff)
  have pl: "plist (map_of (x # cs)) = (plist (map_of cs))(k := set (m_listProducer c))" using x by simp
  have dj: "a \<notin> set (m_listProducer c)" if "a \<in> plist (map_of cs) s" for a s
  proof
    assume "a \<in> set (m_listProducer c)"
    moreover have "s \<noteq> k" using that k by (auto simp: plist_def)
    ultimately show False using Cons.prems(3) [of a s k] that unfolding pl by simp
  qed
  have ok1: "conns_ok ?h1 (map_of cs)"
    unfolding conns_ok_def
  proof (intro allI impI)
    fix s d assume d: "map_of cs s = Some d"
    with k have "s \<noteq> k" by auto
    with x d have "map_of (x # cs) s = Some d" by simp
    with Cons.prems(2) have "conn_ok d h" unfolding conns_ok_def by blast
    then show "conn_ok d ?h1"
      by (rule conn_ok_heap) (use dj [of _ s] d in \<open>auto simp: plist_def\<close>)
  qed
  have "\<exists>h'. disconn_all cs ?h1 = Some h' \<and> (\<forall>s a. a \<in> plist (map_of cs) s \<longrightarrow> h' a = None) \<and> (\<forall>a. ?h1 a = None \<longrightarrow> h' a = None)"
  proof (rule Cons.IH [OF _ ok1])
    show "distinct (map fst cs)" using Cons.prems(1) by simp
    fix s1 s2 a assume a: "a \<in> plist (map_of cs) s1" "a \<in> plist (map_of cs) s2"
    then have "s1 \<noteq> k" "s2 \<noteq> k" using k by (auto simp: plist_def)
    with a Cons.prems(3) [of a s1 s2] show "s1 = s2" unfolding pl by simp
  qed
  then obtain h' where h': "disconn_all cs ?h1 = Some h'" "\<And>s a. a \<in> plist (map_of cs) s \<Longrightarrow> h' a = None"
    "\<And>a. ?h1 a = None \<Longrightarrow> h' a = None" by blast
  have gone: "h' a = None" if "a \<in> plist (map_of (x # cs)) s" for s a
    using that h'(2) [of a s] h'(3) [of a] unfolding pl by (simp split: if_splits)
  have run: "disconn_all (x # cs) h = Some h'" using dis h'(1) x by simp
  have keep: "h' a = None" if "h a = None" for a using h'(3) [of a] that by simp
  show ?case using run gone keep by blast
qed

lemma Fini_ok:
  assumes ok: "mgr_ok st"
  shows "\<exists>st'. MqMgr_Fini st = Some st' \<and> mgr_ok st' \<and> prods st' = Map.empty"
proof -
  from ok obtain h' where h': "disconn_all (m_mapConn st) (prods st) = Some h'"
    "\<And>s a. a \<in> plist (conns st) s \<Longrightarrow> h' a = None" "\<And>a. prods st a = None \<Longrightarrow> h' a = None"
    using disconn_all_ok [of "m_mapConn st" "prods st"] unfolding mgr_ok_def cache_ok_def by blast
  have "h' a = None" for a
  proof (cases "prods st a")
    case (Some p)
    with ok obtain s where "a \<in> plist (conns st) s" unfolding mgr_ok_def cache_ok_def by blast
    with h'(2) show ?thesis .
  qed (rule h'(3))
  then have "h' = Map.empty" by auto
  with h'(1) show ?thesis
    by (simp add: MqMgr_Fini_def mgr_ok_def conns_ok_def cache_ok_def plist_def)
qed

lemma new_mgr_ok: "mgr_ok MqMgr_new"
  by (simp add: MqMgr_new_def mgr_ok_def conns_ok_def cache_ok_def plist_def)

lemma send_cached:
  assumes "mgr_ok st" and "m_mapProcucer st url = Some a" and "ParseMqUri url = Some (svr, dst, m)"
  shows "\<exists>r d. producer_send env a msg st = Some (r, d, st) \<and> (r = 0 \<longleftrightarrow> d = Some (m, dst, msg)) \<and> (r \<noteq> 0 \<longleftrightarrow> d = None)"
proof -
  from assms(1,2) have nm: "names (prods st) (plist (conns st)) url a" by (simp add: mgr_ok_def cache_ok_def)
  then have "canonical url" by (simp add: names_def)
  from cached_listed [OF assms(1) this assms(3,2)] obtain p where
    p: "prods st a = Some p" "mp_name p = dst" "mp_mode p = m" by blast
  then show ?thesis by (auto simp: producer_send_def MqProducer_SendMsg_def)
qed

lemma SendMsg_ok:
  assumes ok: "mgr_ok st" and url: "canonical url"
    and fresh: "\<And>a. env_new_prod env = Some a \<Longrightarrow> prods st a = None"
  shows "\<exists>r d st'. MqMgr_SendMsg env url msg st = Some (r, d, st') \<and> mgr_ok st' \<and>
    (r \<noteq> 0 \<longleftrightarrow> d = None) \<and>
    (r = 0 \<longrightarrow> (\<exists>svr dst m. ParseMqUri url = Some (svr, dst, m) \<and> d = Some (m, dst, msg)))"
proof (cases "m_mapProcucer st url")
  case (Some a)
  then have nm: "names (prods st) (plist (conns st)) url a" using ok by (simp add: mgr_ok_def cache_ok_def)
  then obtain svr dst m where P: "ParseMqUri url = Some (svr, dst, m)" by (auto simp: names_def)
  from send_cached [OF ok Some P, of env msg] Some ok P show ?thesis
    by (auto simp: MqMgr_SendMsg_def)
next
  case None
  obtain r st1 where add: "MqMgr_AddProducer env url st = (r, st1)" by (cases "MqMgr_AddProducer env url st")
  from AddProducer_ok [OF ok url fresh add] have ok1: "mgr_ok st1" and c1: "\<And>a. r = Some a \<Longrightarrow> m_mapProcucer st1 url = Some a" by auto
  show ?thesis
  proof (cases r)
    case None
    with \<open>m_mapProcucer st url = None\<close> add ok1 show ?thesis by (simp add: MqMgr_SendMsg_def)
  next
    case (Some a)
    from c1 [OF Some] have ch: "m_mapProcucer st1 url = Some a" .
    then have "names (prods st1) (plist (conns st1)) url a" using ok1 by (simp add: mgr_ok_def cache_ok_def)
    then obtain svr dst m where P: "ParseMqUri url = Some (svr, dst, m)" by (auto simp: names_def)
    from send_cached [OF ok1 ch P, of env msg] \<open>m_mapProcucer st url = None\<close> add Some ok1 P show ?thesis
      by (auto simp: MqMgr_SendMsg_def)
  qed
qed

section \<open>The service as its clients see it\<close>

datatype mq_op =
    Op_AddConsumer mq_env string "nat option" nat
  | Op_DelConsumer string
  | Op_AddProducer mq_env string
  | Op_DelProducer string
  | Op_SendMsg mq_env string string
  | Op_Fini

fun mq_exec :: "mq_op \<Rightarrow> MqMgr \<Rightarrow> (int \<times> delivery option \<times> MqMgr) option" where
  "mq_exec (Op_AddConsumer env url cb user) st = (case CommMgr_AddConsumer env url cb user st of (r, st') \<Rightarrow> Some (r, None, st'))"
| "mq_exec (Op_DelConsumer url) st = map_option (\<lambda>(r, st'). (r, None, st')) (CommMgr_DelConsumer url st)"
| "mq_exec (Op_AddProducer env url) st = (case CommMgr_AddProducer env url st of (r, st') \<Rightarrow> Some (r, None, st'))"
| "mq_exec (Op_DelProducer url) st = map_option (\<lambda>(r, st'). (r, None, st')) (CommMgr_DelProducer url st)"
| "mq_exec (Op_SendMsg env url msg) st = CommMgr_SendMsg env url msg st"
| "mq_exec Op_Fini st = map_option (\<lambda>st'. (0, None, st')) (CommMgr_Fini st)"

text \<open>
  What a caller has to keep to: producer URLs start with \<^verbatim>\<open>mq/\<close>. What the allocator
  promises: a new producer gets an address that is not in use.
\<close>

definition fresh_env :: "mq_env \<Rightarrow> MqMgr \<Rightarrow> bool" where
  "fresh_env env st \<longleftrightarrow> (case env_new_prod env of None \<Rightarrow> True | Some a \<Rightarrow> prods st a = None)"

fun op_ok :: "mq_op \<Rightarrow> MqMgr \<Rightarrow> bool" where
  "op_ok (Op_AddProducer env url) st = (canonical url \<and> fresh_env env st)"
| "op_ok (Op_SendMsg env url msg) st = (canonical url \<and> fresh_env env st)"
| "op_ok (Op_DelProducer url) st = canonical url"
| "op_ok _ st = True"

inductive mq_reach :: "MqMgr \<Rightarrow> bool" where
  start: "mq_reach MqMgr_new"
| step: "mq_reach st \<Longrightarrow> op_ok e st \<Longrightarrow> mq_exec e st = Some (r, d, st') \<Longrightarrow> mq_reach st'"

lemma fresh_envD: "fresh_env env st \<Longrightarrow> env_new_prod env = Some a \<Longrightarrow> prods st a = None"
  by (simp add: fresh_env_def)

lemma mq_exec_ok:
  assumes ok: "mgr_ok st" and op: "op_ok e st"
  shows "\<exists>r d st'. mq_exec e st = Some (r, d, st') \<and> mgr_ok st'"
proof (cases e)
  case (Op_AddConsumer env url cb user)
  with AddConsumer_ok [OF ok, of env url cb user] show ?thesis
    by (simp add: CommMgr_defs case_prod_beta)
next
  case (Op_DelConsumer url)
  with DelConsumer_ok [OF ok, of url] show ?thesis by (auto simp: CommMgr_defs)
next
  case (Op_AddProducer env url)
  obtain r st' where add: "MqMgr_AddProducer env url st = (r, st')" by (cases "MqMgr_AddProducer env url st")
  with AddProducer_ok [OF ok _ _ add] op Op_AddProducer show ?thesis
    by (auto simp: CommMgr_defs dest: fresh_envD)
next
  case (Op_DelProducer url)
  with DelProducer_ok [OF ok, of url] op show ?thesis by (auto simp: CommMgr_defs)
next
  case (Op_SendMsg env url msg)
  then have "\<And>a. env_new_prod env = Some a \<Longrightarrow> prods st a = None" using op by (auto dest: fresh_envD)
  with SendMsg_ok [OF ok, of url env msg] op Op_SendMsg show ?thesis by (auto simp: CommMgr_defs)
next
  case Op_Fini
  with Fini_ok [OF ok] show ?thesis by (auto simp: CommMgr_defs)
qed

lemma mq_reach_ok: "mq_reach st \<Longrightarrow> mgr_ok st"
proof (induction rule: mq_reach.induct)
  case (step st e r d st')
  with mq_exec_ok [of st e] show ?case by auto
qed (rule new_mgr_ok)

section \<open>Properties\<close>

text \<open>C8: Used with URLs that start with mq/, the library never touches a freed producer:
  after any sequence of calls every further call is defined, and every cached pointer leads to
  a live producer of the destination its URL names, listed by the connection of its server.\<close>

theorem mq_never_dangling:
  assumes "mq_reach st" and "op_ok e st"
  shows "mq_exec e st \<noteq> None \<and>
    (\<forall>url a. m_mapProcucer st url = Some a \<longrightarrow>
      (\<exists>svr dst m c p. ParseMqUri url = Some (svr, dst, m) \<and> conns st svr = Some c \<and> a \<in> set (m_listProducer c) \<and>
        prods st a = Some p \<and> mp_name p = dst \<and> mp_mode p = m))"
proof (intro conjI allI impI)
  note ok = mq_reach_ok [OF assms(1)]
  show "mq_exec e st \<noteq> None" using mq_exec_ok [OF ok assms(2)] by auto
  fix url a assume a: "m_mapProcucer st url = Some a"
  with ok have "names (prods st) (plist (conns st)) url a" by (simp add: mgr_ok_def cache_ok_def)
  then obtain svr dst m where P: "canonical url" "ParseMqUri url = Some (svr, dst, m)" by (auto simp: names_def)
  from cached_listed [OF ok P a] P show "\<exists>svr dst m c p. ParseMqUri url = Some (svr, dst, m) \<and> conns st svr = Some c \<and>
      a \<in> set (m_listProducer c) \<and> prods st a = Some p \<and> mp_name p = dst \<and> mp_mode p = m"
    by blast
qed

definition demo_env :: "nat \<Rightarrow> mq_env" where
  "demo_env a = \<lparr>env_new_conn = True, env_conn = Conn_Session 1, env_sem = True, env_thread = True, env_new_prod = Some a,
     env_new_cons = True, env_create = Created, env_make = True, env_send = True\<rparr>"

theorem mq_never_dangling_witness:
  "mq_exec (Op_SendMsg (demo_env 1) ''mq/h:1/queue/q'' ''job'') MqMgr_new \<noteq> None"
  using mq_never_dangling [OF mq_reach.start, of "Op_SendMsg (demo_env 1) ''mq/h:1/queue/q'' ''job''"]
  by (simp add: canonical_def fresh_env_def demo_env_def MqMgr_new_def)

text \<open>A send that reports success has handed exactly the given text to the broker, for the
  destination and kind the URL names; a send that reports failure has handed over nothing.\<close>

lemma mq_send_delivers:
  assumes "mq_reach st" and "canonical url" and "fresh_env env st"
  shows "\<exists>r d st'. CommMgr_SendMsg env url msg st = Some (r, d, st') \<and> (r \<noteq> 0 \<longleftrightarrow> d = None) \<and>
    (r = 0 \<longrightarrow> (\<exists>svr dst m. ParseMqUri url = Some (svr, dst, m) \<and> d = Some (m, dst, msg)))"
proof -
  have "\<And>a. env_new_prod env = Some a \<Longrightarrow> prods st a = None" using assms(3) by (auto dest: fresh_envD)
  from SendMsg_ok [where env = env and msg = msg, OF mq_reach_ok [OF assms(1)] assms(2) this] show ?thesis
    by (auto simp: CommMgr_defs)
qed

theorem mq_send_delivers_witness:
  "\<exists>r d st'. CommMgr_SendMsg (demo_env 1) ''mq/h:1/queue/q'' ''job'' MqMgr_new = Some (r, d, st') \<and> (r \<noteq> 0 \<longleftrightarrow> d = None)"
  using mq_send_delivers [OF mq_reach.start, of "''mq/h:1/queue/q''" "demo_env 1" "''job''"]
  by (auto simp: canonical_def fresh_env_def demo_env_def MqMgr_new_def)

text \<open>Shutting the library down is always possible and frees everything: no connection, no
  cache entry and no producer is left.\<close>

lemma mq_fini_frees_everything:
  assumes "mq_reach st"
  shows "CommMgr_Fini st = Some MqMgr_new"
proof -
  from Fini_ok [OF mq_reach_ok [OF assms]] obtain st' where "MqMgr_Fini st = Some st'" "prods st' = Map.empty" by blast
  then show ?thesis by (auto simp: CommMgr_defs MqMgr_Fini_def MqMgr_new_def)
qed

theorem mq_fini_frees_everything_witness:
  "CommMgr_Fini MqMgr_new = Some MqMgr_new"
  using mq_fini_frees_everything [OF mq_reach.start] .


end
