(* ===== verification/Xml_Parser.thy ===== *)
theory Xml_Parser
  imports Dc_Prelude "HOL-Library.Sublist"
begin

unbundle bit_operations_syntax

text \<open>
  The tinyxml2 parser (\<^verbatim>\<open>tinyxml2.cpp\<close>): from the bytes of a file to the tree of nodes,
  with the flags of a default \<^verbatim>\<open>XMLDocument\<close> (entities processed, white space kept). The
  position in the buffer is the rest of the text up to its null character, a null pointer is
  \<open>None\<close>, and a \<^verbatim>\<open>StrPair\<close> is the string its \<^verbatim>\<open>GetStr\<close> will return. The makefile does
  not define \<^verbatim>\<open>DEBUG\<close>, so \<^verbatim>\<open>TIXMLASSERT\<close> is nothing. Line numbers, which only error
  texts show, are left out; so is the memory pools' book-keeping.
\<close>

section \<open>Characters and names\<close>

definition is_blank :: "char \<Rightarrow> bool" where
  "is_blank c \<longleftrightarrow> c = CHR '' '' \<or> (9 \<le> (of_char c :: nat) \<and> of_char c \<le> (13 :: nat))"

definition SkipWhiteSpace :: "string \<Rightarrow> string" where
  "SkipWhiteSpace p = dropWhile is_blank p"

definition IsNameStartChar :: "char \<Rightarrow> bool" where
  "IsNameStartChar c = (let ch = (of_char c :: nat) in
     128 \<le> ch \<or> (65 \<le> ch \<and> ch \<le> 90) \<or> (97 \<le> ch \<and> ch \<le> 122) \<or> c = CHR '':'' \<or> c = CHR ''_'')"

definition IsNameChar :: "char \<Rightarrow> bool" where
  "IsNameChar c \<longleftrightarrow> IsNameStartChar c \<or> is_digit c \<or> c = CHR ''.'' \<or> c = CHR ''-''"

definition ReadBOM :: "string \<Rightarrow> string" where
  "ReadBOM p = (if prefix [CHR 0xEF, CHR 0xBB, CHR 0xBF] p then drop 3 p else p)"

section \<open>StrPair\<close>

text \<open>\<^verbatim>\<open>ParseText\<close>: the text before the end tag and the rest after it.\<close>

fun ParseText :: "string \<Rightarrow> string \<Rightarrow> (string \<times> string) option" where
  "ParseText endTag [] = None"
| "ParseText endTag (c # p) =
     (if prefix endTag (c # p) then Some ([], drop (length endTag) (c # p))
      else map_option (\<lambda>(t, r). (c # t, r)) (ParseText endTag p))"

definition ParseName :: "string \<Rightarrow> (string \<times> string) option" where
  "ParseName p = (case p of
     [] \<Rightarrow> None
   | c # q \<Rightarrow> if IsNameStartChar c then Some (c # takeWhile IsNameChar q, dropWhile IsNameChar q) else None)"

definition ConvertUTF32ToUTF8 :: "64 word \<Rightarrow> string" where
  "ConvertUTF32ToUTF8 input = (let mark = (\<lambda>w :: 64 word. char_of (unat ((w OR 0x80) AND 0xBF))) in
     if input < 0x80 then [char_of (unat input)]
     else if input < 0x800 then [char_of (unat (drop_bit 6 input OR 0xC0)), mark input]
     else if input < 0x10000 then [char_of (unat (drop_bit 12 input OR 0xE0)), mark (drop_bit 6 input), mark input]
     else if input < 0x200000 then
       [char_of (unat (drop_bit 18 input OR 0xF0)), mark (drop_bit 12 input), mark (drop_bit 6 input), mark input]
     else [])"

text \<open>
  The digits of a character reference, read backwards from the semicolon to the character
  that starts them; \<^verbatim>\<open>mult\<close> and the scaled digit are 32 bits wide, the sum 64.
\<close>

definition ref_digit :: "nat \<Rightarrow> char \<Rightarrow> nat option" where
  "ref_digit base c = (let n = of_char c :: nat in
     if 48 \<le> n \<and> n \<le> 57 then Some (n - 48)
     else if base = 16 \<and> 97 \<le> n \<and> n \<le> 102 then Some (n - 87)
     else if base = 16 \<and> 65 \<le> n \<and> n \<le> 70 then Some (n - 55) else None)"

fun ref_loop :: "nat \<Rightarrow> char \<Rightarrow> 32 word \<Rightarrow> 64 word \<Rightarrow> string \<Rightarrow> 64 word option" where
  "ref_loop base stop mult ucs [] = Some ucs"
| "ref_loop base stop mult ucs (c # q) =
     (if c = stop then Some ucs
      else (case ref_digit base c of
          None \<Rightarrow> None
        | Some digit \<Rightarrow> ref_loop base stop (mult * of_nat base) (ucs + ucast (mult * of_nat digit)) q))"

text \<open>
  \<^verbatim>\<open>GetCharacterRef\<close> on the text after the two characters \<^verbatim>\<open>&#\<close>: the bytes and the rest;
  \<open>None\<close> is the null pointer.
\<close>

definition GetCharacterRef :: "string \<Rightarrow> (string \<times> string) option" where
  "GetCharacterRef t = (case t of
     [] \<Rightarrow> Some ([], [CHR ''#''])
   | c # u \<Rightarrow>
       let (base, stop, q) = (if c = CHR ''x'' then (16, CHR ''x'', u) else (10, CHR ''#'', t));
           ds = takeWhile (\<lambda>d. d \<noteq> CHR '';'') q in
       if q = [] \<or> length ds = length q then None
       else map_option (\<lambda>ucs. (ConvertUTF32ToUTF8 ucs, drop (Suc (length ds)) q)) (ref_loop base stop 1 0 (rev ds)))"

definition entities :: "(string \<times> char) list" where
  "entities = [(''quot'', CHR 0x22), (''amp'', CHR ''&''), (''apos'', CHR 0x27), (''lt'', CHR ''<''), (''gt'', CHR ''>'')]"

fun find_entity :: "(string \<times> char) list \<Rightarrow> string \<Rightarrow> (char \<times> string) option" where
  "find_entity [] p = None"
| "find_entity ((pattern, v) # es) p =
     (if prefix (pattern @ '';'') p then Some (v, drop (Suc (length pattern)) p) else find_entity es p)"

lemma find_entity_shorter: "find_entity es p = Some (v, r) \<Longrightarrow> length r \<le> length p"
  by (induction es p rule: find_entity.induct) (auto split: if_splits)

lemma GetCharacterRef_shorter: "GetCharacterRef t = Some (bs, r) \<Longrightarrow> length r \<le> Suc (length t)"
  by (auto simp: GetCharacterRef_def Let_def split: list.splits if_splits)

text \<open>
  The rewriting loop of \<^verbatim>\<open>GetStr\<close>. \<^verbatim>\<open>q\<close> writes into the buffer \<^verbatim>\<open>p\<close> reads from: an entity
  that is not in the table moves both without writing, which leaves the byte of the original
  text at the place of \<^verbatim>\<open>q\<close>.
\<close>

function GetStr_loop :: "bool \<Rightarrow> string \<Rightarrow> string \<Rightarrow> string \<Rightarrow> string" where
  "GetStr_loop ent start out [] = out"
| "GetStr_loop ent start out (c # p) =
     (if c = CHR 0x0D then
        GetStr_loop ent start (out @ [CHR 0x0A]) (case p of d # p' \<Rightarrow> if d = CHR 0x0A then p' else p | [] \<Rightarrow> [])
      else if c = CHR 0x0A then
        GetStr_loop ent start (out @ [CHR 0x0A]) (case p of d # p' \<Rightarrow> if d = CHR 0x0D then p' else p | [] \<Rightarrow> [])
      else if ent \<and> c = CHR ''&'' then
        (if prefix ''#'' p then (case GetCharacterRef (tl p) of
             None \<Rightarrow> GetStr_loop ent start (out @ [c]) p
           | Some (bs, r) \<Rightarrow> GetStr_loop ent start (out @ bs) r)
         else (case find_entity entities p of
             Some (v, r) \<Rightarrow> GetStr_loop ent start (out @ [v]) r
           | None \<Rightarrow> GetStr_loop ent start (out @ [start ! length out]) p))
      else GetStr_loop ent start (out @ [c]) p)"
  by pat_completeness auto
termination
  by (relation "measure (\<lambda>(ent, start, out, p). length p)")
     (auto split: list.splits dest!: find_entity_shorter GetCharacterRef_shorter simp: prefix_def less_Suc_eq_le)

definition GetStr :: "bool \<Rightarrow> string \<Rightarrow> string" where
  "GetStr ent raw = c_str (GetStr_loop ent raw [] raw)"

section \<open>Nodes\<close>

datatype XMLError =
    XML_SUCCESS | XML_NO_ATTRIBUTE | XML_WRONG_ATTRIBUTE_TYPE | XML_ERROR_FILE_NOT_FOUND
  | XML_ERROR_FILE_COULD_NOT_BE_OPENED | XML_ERROR_FILE_READ_ERROR | UNUSED_XML_ERROR_ELEMENT_MISMATCH
  | XML_ERROR_PARSING_ELEMENT | XML_ERROR_PARSING_ATTRIBUTE | UNUSED_XML_ERROR_IDENTIFYING_TAG
  | XML_ERROR_PARSING_TEXT | XML_ERROR_PARSING_CDATA | XML_ERROR_PARSING_COMMENT | XML_ERROR_PARSING_DECLARATION
  | XML_ERROR_PARSING_UNKNOWN | XML_ERROR_EMPTY_DOCUMENT | XML_ERROR_MISMATCHED_ELEMENT | XML_ERROR_PARSING
  | XML_CAN_NOT_CONVERT_TEXT | XML_NO_TEXT_NODE

datatype xml_node =
    XText bool string | XComment string | XDeclaration string | XUnknown string
  | XElem (elem_name: string) (elem_attrs: "(string \<times> string) list") (elem_children: "xml_node list")

datatype ElementClosingType = OPEN | CLOSED | CLOSING

fun FindAttribute :: "string \<Rightarrow> (string \<times> string) list \<Rightarrow> (string \<times> string) option" where
  "FindAttribute name [] = None"
| "FindAttribute name (a # as) = (if fst a = name then Some a else FindAttribute name as)"

text \<open>
  A null pointer returned by \<^verbatim>\<open>ParseDeep\<close>: with an error set, or without one; the fuel that
  bounds the nesting is no outcome of the code.
\<close>

datatype xfail = Xml_Error XMLError | No_Error | Xml_Fuel

text \<open>What \<^verbatim>\<open>Identify\<close> finds at a position.\<close>

datatype node_kind = K_Declaration | K_Comment | K_CData | K_Unknown | K_Element | K_Text

definition Identify :: "string \<Rightarrow> (node_kind \<times> string) option" where
  "Identify start = (let p = SkipWhiteSpace start in
     if p = [] then None
     else if prefix ''<?'' p then Some (K_Declaration, drop 2 p)
     else if prefix ''<!--'' p then Some (K_Comment, drop 4 p)
     else if prefix ''<![CDATA['' p then Some (K_CData, drop 9 p)
     else if prefix ''<!'' p then Some (K_Unknown, drop 2 p)
     else if prefix ''<'' p then Some (K_Element, drop 1 p)
     else Some (K_Text, start))"

definition XMLAttribute_ParseDeep :: "string \<Rightarrow> ((string \<times> string) \<times> string) option" where
  "XMLAttribute_ParseDeep p = (case ParseName p of
     None \<Rightarrow> None
   | Some (name, p1) \<Rightarrow>
       let p2 = SkipWhiteSpace p1 in
       if p1 = [] \<or> \<not> prefix ''='' p2 then None
       else let p3 = SkipWhiteSpace (tl p2) in
         if p3 = [] \<or> hd p3 \<noteq> CHR 0x22 \<and> hd p3 \<noteq> CHR 0x27 then None
         else map_option (\<lambda>(raw, p4). ((name, GetStr True raw), p4)) (ParseText [hd p3] (tl p3)))"

lemma ParseText_shorter: "ParseText e p = Some (t, r) \<Longrightarrow> length r \<le> length p"
  by (induction e p arbitrary: t rule: ParseText.induct) (auto split: if_splits)

lemma ParseName_shorter: "ParseName p = Some (n, r) \<Longrightarrow> length r < length p"
  by (auto simp: ParseName_def length_dropWhile_le less_Suc_eq_le split: list.splits if_splits)

lemma SkipWhiteSpace_shorter: "length (SkipWhiteSpace p) \<le> length p"
  by (simp add: SkipWhiteSpace_def length_dropWhile_le)

lemma XMLAttribute_ParseDeep_shorter:
  assumes "XMLAttribute_ParseDeep p = Some (a, r)"
  shows "length r < length p"
proof -
  obtain name p1 where n: "ParseName p = Some (name, p1)" using assms by (auto simp: XMLAttribute_ParseDeep_def split: option.splits)
  let ?p3 = "SkipWhiteSpace (tl (SkipWhiteSpace p1))"
  obtain raw where "ParseText [hd ?p3] (tl ?p3) = Some (raw, r)"
    using assms n by (auto simp: XMLAttribute_ParseDeep_def Let_def split: if_splits)
  then have "length r \<le> length (tl ?p3)" by (rule ParseText_shorter)
  also have "\<dots> \<le> length p1"
    using SkipWhiteSpace_shorter [of "tl (SkipWhiteSpace p1)"] SkipWhiteSpace_shorter [of p1] by simp
  also have "\<dots> < length p" using n by (rule ParseName_shorter)
  finally show ?thesis .
qed

text \<open>
  \<^verbatim>\<open>ParseAttributes\<close>: the attributes, whether the tag was sealed by \<^verbatim>\<open>/>\<close>, and the rest.
\<close>

function ParseAttributes :: "(string \<times> string) list \<Rightarrow> string \<Rightarrow> XMLError + (string \<times> string) list \<times> bool \<times> string" where
  "ParseAttributes as start = (let p = SkipWhiteSpace start in
     case p of
       [] \<Rightarrow> Inl XML_ERROR_PARSING_ELEMENT
     | c # q \<Rightarrow>
         if IsNameStartChar c then (case XMLAttribute_ParseDeep p of
             None \<Rightarrow> Inl XML_ERROR_PARSING_ATTRIBUTE
           | Some (a, r) \<Rightarrow>
               if FindAttribute (fst a) as \<noteq> None then Inl XML_ERROR_PARSING_ATTRIBUTE
               else ParseAttributes (as @ [a]) r)
         else if c = CHR ''>'' then Inr (as, False, q)
         else if c = CHR ''/'' \<and> prefix ''>'' q then Inr (as, True, tl q)
         else Inl XML_ERROR_PARSING_ELEMENT)"
  by pat_completeness auto
termination
proof (relation "measure (\<lambda>(as, p). length p)")
  fix as :: "(string \<times> string) list" and start x c q aa a r
  assume "x = SkipWhiteSpace start" "XMLAttribute_ParseDeep x = Some aa" "(a, r) = aa"
  then have "length r < length (SkipWhiteSpace start)" using XMLAttribute_ParseDeep_shorter [of x a r] by simp
  then show "((as @ [a], r), as, start) \<in> measure (\<lambda>(as, p). length p)"
    using SkipWhiteSpace_shorter [of start] by simp
qed simp

declare ParseAttributes.simps [simp del]

section \<open>ParseDeep\<close>

definition XMLText_ParseDeep :: "bool \<Rightarrow> string \<Rightarrow> xfail + xml_node \<times> string" where
  "XMLText_ParseDeep cdata p =
     (if cdata then (case ParseText '']]>'' p of
          None \<Rightarrow> Inl (Xml_Error XML_ERROR_PARSING_CDATA)
        | Some (raw, r) \<Rightarrow> Inr (XText True (GetStr False raw), r))
      else (case ParseText ''<'' p of
          None \<Rightarrow> Inl (Xml_Error XML_ERROR_PARSING_TEXT)
        | Some (raw, r) \<Rightarrow> if r \<noteq> [] then Inr (XText False (GetStr True raw), CHR ''<'' # r) else Inl No_Error))"

definition XMLComment_ParseDeep :: "string \<Rightarrow> xfail + xml_node \<times> string" where
  "XMLComment_ParseDeep p = (case ParseText ''-->'' p of
     None \<Rightarrow> Inl (Xml_Error XML_ERROR_PARSING_COMMENT) | Some (raw, r) \<Rightarrow> Inr (XComment (GetStr False raw), r))"

definition XMLDeclaration_ParseDeep :: "string \<Rightarrow> xfail + xml_node \<times> string" where
  "XMLDeclaration_ParseDeep p = (case ParseText ''?>'' p of
     None \<Rightarrow> Inl (Xml_Error XML_ERROR_PARSING_DECLARATION) | Some (raw, r) \<Rightarrow> Inr (XDeclaration (GetStr False raw), r))"

definition XMLUnknown_ParseDeep :: "string \<Rightarrow> xfail + xml_node \<times> string" where
  "XMLUnknown_ParseDeep p = (case ParseText ''>'' p of
     None \<Rightarrow> Inl (Xml_Error XML_ERROR_PARSING_UNKNOWN) | Some (raw, r) \<Rightarrow> Inr (XUnknown (GetStr False raw), r))"

text \<open>
  \<^verbatim>\<open>XMLNode::ParseDeep\<close>, the loop over the children of a node. It returns null at the end
  of the text (\<open>Ended\<close>) or after an error (\<open>Failed\<close>), and a position after the end tag of
  the node itself, whose name it hands to the caller (\<open>End_Tag\<close>). The first argument parses
  an element, the second says that the node is the document.
\<close>

datatype children = Failed xfail | Ended "xml_node list" | End_Tag "xml_node list" string string

type_synonym element_parser = "string \<Rightarrow> xfail + xml_node \<times> ElementClosingType \<times> string option \<times> string"

definition is_declaration :: "xml_node \<Rightarrow> bool" where
  "is_declaration n = (case n of XDeclaration _ \<Rightarrow> True | _ \<Rightarrow> False)"

definition fail_here :: "xfail \<Rightarrow> children" where
  "fail_here e = Failed (case e of No_Error \<Rightarrow> Xml_Error XML_ERROR_PARSING | _ \<Rightarrow> e)"

definition parse_leaf :: "node_kind \<Rightarrow> string \<Rightarrow> xfail + xml_node \<times> string" where
  "parse_leaf k p = (case k of
     K_Declaration \<Rightarrow> XMLDeclaration_ParseDeep p
   | K_Comment \<Rightarrow> XMLComment_ParseDeep p
   | K_Unknown \<Rightarrow> XMLUnknown_ParseDeep p
   | K_CData \<Rightarrow> XMLText_ParseDeep True p
   | _ \<Rightarrow> XMLText_ParseDeep False p)"

primrec XMLNode_ParseDeep :: "element_parser \<Rightarrow> bool \<Rightarrow> nat \<Rightarrow> xml_node list \<Rightarrow> string \<Rightarrow> children" where
  "XMLNode_ParseDeep pe isdoc 0 kids p = Failed Xml_Fuel"
| "XMLNode_ParseDeep pe isdoc (Suc n) kids p =
     (if p = [] then Ended kids
      else (case Identify p of
          None \<Rightarrow> Ended kids
        | Some (k, q) \<Rightarrow>
            if k = K_Element then (case pe q of
                Inl e \<Rightarrow> fail_here e
              | Inr (node, closingType, endTag, r) \<Rightarrow>
                  if closingType = CLOSING then End_Tag kids (elem_name node) r
                  else if (case endTag of
                      None \<Rightarrow> closingType = OPEN
                    | Some t \<Rightarrow> closingType \<noteq> OPEN \<or> t \<noteq> elem_name node)
                  then Failed (Xml_Error XML_ERROR_MISMATCHED_ELEMENT)
                  else XMLNode_ParseDeep pe isdoc n (kids @ [node]) r)
            else (case parse_leaf k q of
                Inl e \<Rightarrow> fail_here e
              | Inr (node, r) \<Rightarrow>
                  if is_declaration node \<and> \<not> (isdoc \<and> list_all is_declaration kids)
                  then Failed (Xml_Error XML_ERROR_PARSING_DECLARATION)
                  else XMLNode_ParseDeep pe isdoc n (kids @ [node]) r)))"

text \<open>\<^verbatim>\<open>XMLElement::ParseDeep\<close> after the test for a slash; the first argument parses the children.\<close>

definition XMLElement_name_on :: "(string \<Rightarrow> children) \<Rightarrow> ElementClosingType \<Rightarrow> element_parser" where
  "XMLElement_name_on pc closingType p = (case ParseName p of
     None \<Rightarrow> Inl No_Error
   | Some (name, p2) \<Rightarrow> (case ParseAttributes [] p2 of
       Inl e \<Rightarrow> Inl (Xml_Error e)
     | Inr (attrs, sealed, p3) \<Rightarrow>
         let closingType' = (if sealed then CLOSED else closingType) in
         if p3 = [] \<or> closingType' \<noteq> OPEN then Inr (XElem name attrs [], closingType', None, p3)
         else (case pc p3 of
             Failed e \<Rightarrow> Inl e
           | Ended kids \<Rightarrow> Inl No_Error
           | End_Tag kids endTag r \<Rightarrow> Inr (XElem name attrs kids, OPEN, Some endTag, r))))"

primrec XMLElement_ParseDeep :: "nat \<Rightarrow> element_parser" where
  "XMLElement_ParseDeep 0 = (\<lambda>p. Inl Xml_Fuel)"
| "XMLElement_ParseDeep (Suc k) = (\<lambda>start.
     let p = SkipWhiteSpace start;
         pc = (\<lambda>q. XMLNode_ParseDeep (XMLElement_ParseDeep k) False (Suc (length q)) [] q) in
     if prefix ''/'' p then XMLElement_name_on pc CLOSING (tl p) else XMLElement_name_on pc OPEN p)"

section \<open>Documents\<close>

text \<open>
  \<^verbatim>\<open>XMLDocument::Parse\<close> and \<^verbatim>\<open>LoadFile\<close>: the error and, when there is none, the nodes. On
  an error the caller drops the document.
\<close>

definition XMLDocument_Parse :: "string \<Rightarrow> xfail + xml_node list" where
  "XMLDocument_Parse charBuffer = (let p = ReadBOM (SkipWhiteSpace (c_str charBuffer)) in
     if p = [] then Inl (Xml_Error XML_ERROR_EMPTY_DOCUMENT)
     else (case XMLNode_ParseDeep (XMLElement_ParseDeep (Suc (length p))) True (Suc (length p)) [] p of
         Failed e \<Rightarrow> Inl e | Ended kids \<Rightarrow> Inr kids | End_Tag kids _ _ \<Rightarrow> Inr kids))"

datatype xml_file = File_Missing | File_Unreadable | File_Contents string

definition LoadFile :: "xml_file \<Rightarrow> xfail + xml_node list" where
  "LoadFile f = (case f of
     File_Missing \<Rightarrow> Inl (Xml_Error XML_ERROR_FILE_NOT_FOUND)
   | File_Unreadable \<Rightarrow> Inl (Xml_Error XML_ERROR_FILE_READ_ERROR)
   | File_Contents bytes \<Rightarrow> if bytes = [] then Inl (Xml_Error XML_ERROR_EMPTY_DOCUMENT) else XMLDocument_Parse bytes)"

end
