(* ===== verification/Xml_Text.thy ===== *)
theory Xml_Text
  imports Xml_Parser
begin

text \<open>
  What the parser does with any bytes and with the text of a tree: it ends within the model's
  bounds, the in-place rewriting of \<^verbatim>\<open>GetStr\<close> never writes past what it has read, and
  names, attributes and tags are read back from their texts.
\<close>

section \<open>The parser always ends\<close>

lemma ParseText_split: "ParseText e p = Some (t, r) \<Longrightarrow> p = t @ e @ r"
  by (induction e p arbitrary: t rule: ParseText.induct) (auto split: if_splits elim!: prefixE)

lemma ParseAttributes_name:
  "SkipWhiteSpace p = c # q \<Longrightarrow> IsNameStartChar c \<Longrightarrow> ParseAttributes as p = (case XMLAttribute_ParseDeep (c # q) of
     None \<Rightarrow> Inl XML_ERROR_PARSING_ATTRIBUTE
   | Some (a, r) \<Rightarrow> if FindAttribute (fst a) as = None then ParseAttributes (as @ [a]) r else Inl XML_ERROR_PARSING_ATTRIBUTE)"
  by (subst ParseAttributes.simps) (simp add: Let_def split: option.splits)

lemma ParseAttributes_shorter: "ParseAttributes as p = Inr (as', b, r) \<Longrightarrow> length r < length p"
proof (induction as p rule: ParseAttributes.induct)
  case (1 as start)
  have skip: "length (SkipWhiteSpace start) \<le> length start" by (rule SkipWhiteSpace_shorter)
  obtain c q where p: "SkipWhiteSpace start = c # q"
    using 1(2) by (subst (asm) ParseAttributes.simps) (auto simp: Let_def split: list.splits)
  show ?case
  proof (cases "IsNameStartChar c")
    case True
    with 1(2) p obtain a r1 where a: "XMLAttribute_ParseDeep (c # q) = Some (a, r1)" "FindAttribute (fst a) as = None"
      "ParseAttributes (as @ [a]) r1 = Inr (as', b, r)"
      by (auto simp: ParseAttributes_name split: option.splits if_splits)
    have "length r < length r1" using 1(1) [OF refl p True] a p by simp
    also have "\<dots> < length (c # q)" using a(1) by (rule XMLAttribute_ParseDeep_shorter)
    finally show ?thesis using skip p by simp
  next
    case False
    with 1(2) p skip show ?thesis
      by (subst (asm) ParseAttributes.simps) (auto simp: Let_def split: if_splits elim: prefixE)
  qed
qed

lemma Identify_shorter:
  assumes "Identify p = Some (k, q)"
  shows "length q \<le> length p" and "k \<noteq> K_Text \<Longrightarrow> length q < length p"
    and "k = K_Text \<Longrightarrow> q = p \<and> \<not> prefix ''<'' p"
proof -
  have skip: "length (SkipWhiteSpace p) \<le> length p" by (rule SkipWhiteSpace_shorter)
  then have pos: "length (SkipWhiteSpace p) - m < length p" if "SkipWhiteSpace p \<noteq> []" "0 < m" for m
    using that by (cases "SkipWhiteSpace p") auto
  have "SkipWhiteSpace p = p" if "prefix ''<'' p" using that by (auto simp: SkipWhiteSpace_def is_blank_def prefix_def)
  then show "length q \<le> length p" and "k \<noteq> K_Text \<Longrightarrow> length q < length p" and "k = K_Text \<Longrightarrow> q = p \<and> \<not> prefix ''<'' p"
    using assms skip by (auto simp: Identify_def Let_def pos split: if_splits)
qed

lemma parse_leaf_shorter:
  assumes "parse_leaf k q = Inr (node, r)"
  shows "length r \<le> length q" and "\<not> prefix ''<'' q \<Longrightarrow> k = K_Text \<Longrightarrow> length r < length q"
proof -
  show "length r \<le> length q"
    using assms by (auto simp: parse_leaf_def XMLDeclaration_ParseDeep_def XMLComment_ParseDeep_def XMLUnknown_ParseDeep_def
        XMLText_ParseDeep_def split: node_kind.splits option.splits if_splits dest!: ParseText_split)
  show "length r < length q" if "\<not> prefix ''<'' q" "k = K_Text"
  proof -
    have "XMLText_ParseDeep False q = Inr (node, r)" using assms that(2) by (simp add: parse_leaf_def)
    then obtain raw r1 where "ParseText ''<'' q = Some (raw, r1)" "r = CHR ''<'' # r1"
      by (auto simp: XMLText_ParseDeep_def split: option.splits if_splits)
    then show ?thesis using that ParseText_split [of "''<''" q raw r1] by (cases raw) auto
  qed
qed

lemma parse_leaf_error: "parse_leaf k q = Inl e \<Longrightarrow> e \<noteq> Xml_Fuel"
  by (auto simp: parse_leaf_def XMLDeclaration_ParseDeep_def XMLComment_ParseDeep_def XMLUnknown_ParseDeep_def
      XMLText_ParseDeep_def split: node_kind.splits option.splits if_splits)

lemma Identify_leaf_shorter:
  "Identify p = Some (k, q) \<Longrightarrow> parse_leaf k q = Inr (node, r) \<Longrightarrow> length r < length p"
  using Identify_shorter [of p k q] parse_leaf_shorter [of k q node r] by fastforce

text \<open>The contract of an element parser on texts below a length: it ends, and it consumes.\<close>

locale element_reader =
  fixes pe :: element_parser and n :: nat
  assumes pe_error: "length q < n \<Longrightarrow> pe q = Inl e \<Longrightarrow> e \<noteq> Xml_Fuel"
    and pe_rest: "length q < n \<Longrightarrow> pe q = Inr (node, closingType, endTag, r) \<Longrightarrow> length r < length q"
begin

lemma children_end:
  assumes "length p \<le> n" "length p < m"
  shows "case XMLNode_ParseDeep pe isdoc m kids p of
     Failed e \<Rightarrow> e \<noteq> Xml_Fuel \<and> e \<noteq> No_Error | Ended _ \<Rightarrow> True | End_Tag _ _ r \<Rightarrow> length r < length p"
  using assms
proof (induction m arbitrary: kids p)
  case (Suc m)
  show ?case
  proof (cases "p = [] \<or> Identify p = None")
    case True
    then show ?thesis by auto
  next
    case False
    then obtain k q where i: "Identify p = Some (k, q)" "p \<noteq> []" by auto
    have rec: "case XMLNode_ParseDeep pe isdoc m ks r of
       Failed e \<Rightarrow> e \<noteq> Xml_Fuel \<and> e \<noteq> No_Error | Ended _ \<Rightarrow> True | End_Tag _ _ r' \<Rightarrow> length r' < length p"
      if "length r < length p" for ks r
      using Suc.IH [of r ks] Suc.prems that by (auto split: children.splits)
    have err: "case fail_here e of
       Failed e \<Rightarrow> e \<noteq> Xml_Fuel \<and> e \<noteq> No_Error | Ended _ \<Rightarrow> True | End_Tag _ _ r' \<Rightarrow> length r' < length p"
      if "e \<noteq> Xml_Fuel" for e using that by (auto simp: fail_here_def split: xfail.splits)
    show ?thesis
    proof (cases "k = K_Element")
      case True
      have q: "length q < length p" using Identify_shorter(2) [OF i(1)] True by simp
      then have "length q < n" using Suc.prems by simp
      show ?thesis
      proof (cases "pe q")
        case (Inl e)
        with i True err [of e] pe_error [OF \<open>length q < n\<close>] show ?thesis by simp
      next
        case (Inr x)
        then obtain node ct et r where x: "pe q = Inr (node, ct, et, r)" by (metis surj_pair)
        have "length r < length p" using pe_rest [OF \<open>length q < n\<close> x] q by simp
        with i True x rec [of r "kids @ [node]"] show ?thesis by simp
      qed
    next
      case False
      then show ?thesis using i rec err parse_leaf_error [of k q] Identify_leaf_shorter [OF i(1)]
        by (cases "parse_leaf k q") auto
    qed
  qed
qed simp

end

lemma XMLElement_name_on_ends:
  assumes "element_reader pe k" "length p \<le> k"
    and pc: "\<And>q. pc q = XMLNode_ParseDeep pe False (Suc (length q)) [] q"
  shows "case XMLElement_name_on pc ct p of Inl e \<Rightarrow> e \<noteq> Xml_Fuel | Inr (node, ct, et, r) \<Rightarrow> length r < length p"
proof (cases "\<exists>name p2 attrs sealed p3. ParseName p = Some (name, p2) \<and> ParseAttributes [] p2 = Inr (attrs, sealed, p3)")
  case False
  then show ?thesis by (auto simp: XMLElement_name_on_def split: option.splits sum.splits)
next
  case True
  then obtain name p2 attrs sealed p3 where n: "ParseName p = Some (name, p2)"
    and a: "ParseAttributes [] p2 = Inr (attrs, sealed, p3)" by blast
  have p3: "length p3 < length p" using ParseName_shorter [OF n] ParseAttributes_shorter [OF a] by simp
  then have "length p3 \<le> k" using assms(2) by simp
  from element_reader.children_end [OF assms(1) this lessI, of False "[]"] p3 show ?thesis
    by (auto simp: XMLElement_name_on_def n a pc Let_def simp del: XMLNode_ParseDeep.simps split: children.splits)
qed

lemma element_reader_ParseDeep: "element_reader (XMLElement_ParseDeep k) k"
proof (induction k)
  case (Suc k)
  have main: "case XMLElement_ParseDeep (Suc k) start of Inl e \<Rightarrow> e \<noteq> Xml_Fuel | Inr (node, ct, et, r) \<Rightarrow> length r < length start"
    if len: "length start < Suc k" for start
  proof -
    let ?p = "SkipWhiteSpace start" and ?pc = "\<lambda>q. XMLNode_ParseDeep (XMLElement_ParseDeep k) False (Suc (length q)) [] q"
    have p: "length ?p \<le> length start" "length (tl ?p) \<le> length start"
      using SkipWhiteSpace_shorter [of start] by auto
    then have "length ?p \<le> k" "length (tl ?p) \<le> k" using len by auto
    note ends = this [THEN XMLElement_name_on_ends [OF Suc, of _ ?pc]]
    show ?thesis
      using ends(1) [of OPEN] ends(2) [of CLOSING] p by (auto simp: Let_def split: sum.splits)
  qed
  show ?case
    by unfold_locales (use main in \<open>fastforce split: sum.splits\<close>)+
qed (unfold_locales, simp_all)

interpretation er: element_reader "XMLElement_ParseDeep k" k for k
  by (rule element_reader_ParseDeep)

lemma XMLDocument_Parse_error:
  assumes "XMLDocument_Parse bytes = Inl e"
  obtains err where "e = Xml_Error err"
proof -
  let ?p = "ReadBOM (SkipWhiteSpace (c_str bytes))"
  have "case XMLNode_ParseDeep (XMLElement_ParseDeep (Suc (length ?p))) True (Suc (length ?p)) [] ?p of
     Failed e \<Rightarrow> e \<noteq> Xml_Fuel \<and> e \<noteq> No_Error | Ended _ \<Rightarrow> True | End_Tag _ _ r \<Rightarrow> length r < length ?p"
    by (rule er.children_end) simp_all
  with assms show ?thesis
    by (cases e) (auto simp: XMLDocument_Parse_def Let_def simp del: XMLNode_ParseDeep.simps XMLElement_ParseDeep.simps
      split: if_splits children.splits intro: that)
qed

section \<open>GetStr stays in its buffer\<close>

lemma ConvertUTF32ToUTF8_length: "length (ConvertUTF32ToUTF8 w) \<le> 4"
  by (simp add: ConvertUTF32ToUTF8_def Let_def)

lemma GetCharacterRef_length:
  assumes "GetCharacterRef t = Some (bs, r)"
  shows "length bs + length r \<le> Suc (Suc (length t))"
proof (cases t)
  case (Cons c u)
  define q where "q = (if c = CHR ''x'' then u else t)"
  define ds where "ds = takeWhile (\<lambda>d. d \<noteq> CHR '';'') q"
  obtain base stop ucs where ref: "ref_loop base stop 1 0 (rev ds) = Some ucs" "bs = ConvertUTF32ToUTF8 ucs"
    "r = drop (Suc (length ds)) q" "length ds \<noteq> length q"
    using assms Cons by (auto simp: GetCharacterRef_def Let_def q_def ds_def split: if_splits)
  have ds: "length ds < length q" using ref(4) length_takeWhile_le [of _ q] by (simp add: ds_def le_neq_implies_less)
  have q: "length q \<le> length t" "c = CHR ''x'' \<Longrightarrow> length q < length t" using Cons by (simp_all add: q_def)
  show ?thesis
  proof (cases "ds = [] \<and> c \<noteq> CHR ''x''")
    case True
    then have "bs = [char_of (0::nat)]" using ref by (simp add: ConvertUTF32ToUTF8_def)
    then show ?thesis using ref(3) q(1) ds True by simp
  next
    case False
    then show ?thesis using ref(2,3) q ds ConvertUTF32ToUTF8_length [of ucs]
      by (cases ds; cases q) auto
  qed
qed (use assms in \<open>auto simp: GetCharacterRef_def\<close>)

lemma find_entity_length: "find_entity es p = Some (v, r) \<Longrightarrow> length r < length p"
  by (induction es p rule: find_entity.induct) (auto split: if_splits elim: prefixE)

text \<open>
  Whether every write goes to a place the read pointer has passed: the bytes written never
  outnumber the bytes read.
\<close>

lemma GetStr_loop_bound:
  "length out + length p \<le> length start \<Longrightarrow> length (GetStr_loop ent start out p) \<le> length start"
proof (induction ent start out p rule: GetStr_loop.induct)
  case (2 ent start out c p)
  have len: "length (case p of d # p' \<Rightarrow> if d = e then p' else p | [] \<Rightarrow> []) \<le> length p" for e
    by (cases p) auto
  consider (cr) "c = CHR 0x0D" | (lf) "c = CHR 0x0A" | (ref) "ent" "c = CHR ''&''" "prefix ''#'' p"
    | (entity) "ent" "c = CHR ''&''" "\<not> prefix ''#'' p" | (plain) "c \<noteq> CHR 0x0D" "c \<noteq> CHR 0x0A" "\<not> (ent \<and> c = CHR ''&'')" by blast
  then show ?case
  proof cases
    case cr
    then show ?thesis using 2(1) [OF cr] 2(8) len [of "CHR 0x0A"] by (simp split del: if_split list.split)
  next
    case lf
    then show ?thesis using 2(2) [OF _ lf] 2(8) len [of "CHR 0x0D"] by (simp split del: if_split list.split)
  next
    case ref
    then obtain t where p: "p = CHR ''#'' # t" by (auto simp: prefix_def)
    show ?thesis
    proof (cases "GetCharacterRef t")
      case None
      then show ?thesis using 2(3) 2(8) ref p by simp
    next
      case (Some x)
      then obtain bs r where x: "GetCharacterRef t = Some (bs, r)" by (cases x) simp
      then show ?thesis using 2(4) [of "(bs, r)" bs r] 2(8) ref p GetCharacterRef_length [OF x] by simp
    qed
  next
    case entity
    then show ?thesis using 2(5,6) 2(8) find_entity_length [of entities p]
      by (cases "find_entity entities p") auto
  next
    case plain
    then show ?thesis using 2(7) 2(8) by auto
  qed
qed simp

section \<open>Reading back what was written\<close>

text \<open>The five characters with a name are written as entities.\<close>

definition xml_char :: "char \<Rightarrow> string" where
  "xml_char c = (if c = CHR 0x22 then ''&quot;'' else if c = CHR ''&'' then ''&amp;''
     else if c = CHR 0x27 then ''&apos;'' else if c = CHR ''<'' then ''&lt;''
     else if c = CHR ''>'' then ''&gt;'' else [c])"

definition xml_escape :: "string \<Rightarrow> string" where
  "xml_escape v = concat (map xml_char v)"

definition plain_value :: "string \<Rightarrow> bool" where
  "plain_value v \<longleftrightarrow> CHR 0x00 \<notin> set v \<and> CHR 0x0D \<notin> set v"

lemma xml_char_cases:
  "xml_char c = [c] \<and> c \<notin> {CHR 0x22, CHR ''&'', CHR 0x27, CHR ''<'', CHR ''>''} \<or>
   (\<exists>n. (n, c) \<in> set entities \<and> xml_char c = CHR ''&'' # n @ '';'')"
  by (simp add: xml_char_def entities_def)

lemma find_entity_known:
  assumes "(n, c) \<in> set entities"
  shows "find_entity entities (n @ CHR '';'' # r) = Some (c, r)" "\<not> prefix ''#'' (n @ r')"
proof -
  have "\<forall>(n, c) \<in> set entities. find_entity entities (n @ CHR '';'' # r) = Some (c, r) \<and> \<not> prefix ''#'' (n @ r')"
    by (simp add: entities_def)
  with assms show "find_entity entities (n @ CHR '';'' # r) = Some (c, r)" "\<not> prefix ''#'' (n @ r')" by blast+
qed

lemma GetStr_loop_char:
  assumes "c \<noteq> CHR 0x0D" "\<not> prefix [CHR 0x0D] rest"
  shows "GetStr_loop True start out (xml_char c @ rest) = GetStr_loop True start (out @ [c]) rest"
  using xml_char_cases [of c]
proof (elim disjE exE conjE)
  fix n assume n: "(n, c) \<in> set entities" "xml_char c = CHR ''&'' # n @ '';''"
  then show ?thesis using find_entity_known [OF n(1)] by simp
qed (use assms in \<open>cases rest; auto\<close>)

lemma xml_char_clean: "CHR 0x0D \<in> set (xml_char c) \<Longrightarrow> c = CHR 0x0D" "CHR 0x22 \<notin> set (xml_char c)"
  by (auto simp: xml_char_def split: if_splits)

lemma xml_escape_clean: "CHR 0x0D \<notin> set v \<Longrightarrow> CHR 0x0D \<notin> set (xml_escape v)" "CHR 0x22 \<notin> set (xml_escape v)"
  using xml_char_clean by (auto simp: xml_escape_def)

lemma xml_escape_Cons: "xml_escape (c # v) = xml_char c @ xml_escape v"
  by (simp add: xml_escape_def)

lemma GetStr_loop_escape:
  "CHR 0x0D \<notin> set v \<Longrightarrow> GetStr_loop True start out (xml_escape v) = out @ v"
proof (induction v arbitrary: out)
  case (Cons c v)
  have "\<not> prefix [CHR 0x0D] (xml_escape v)"
    using xml_escape_clean(1) [of v] Cons.prems by (cases "xml_escape v") auto
  moreover have "c \<noteq> CHR 0x0D" using Cons.prems by auto
  ultimately show ?case using Cons by (simp add: xml_escape_Cons GetStr_loop_char)
qed (simp add: xml_escape_def)

lemma GetStr_escape: "plain_value v \<Longrightarrow> GetStr True (xml_escape v) = v"
  by (simp add: GetStr_def GetStr_loop_escape plain_value_def)

lemma ParseText_until: "e \<notin> set t \<Longrightarrow> ParseText [e] (t @ e # r) = Some (t, r)"
  by (induction t) auto

definition xml_name :: "string \<Rightarrow> bool" where
  "xml_name n = (case n of [] \<Rightarrow> False | c # cs \<Rightarrow> IsNameStartChar c \<and> list_all IsNameChar cs)"

lemma ParseName_name:
  assumes "xml_name n" "r = [] \<or> \<not> IsNameChar (hd r)"
  shows "ParseName (n @ r) = Some (n, r)"
proof -
  obtain c cs where n: "n = c # cs" "IsNameStartChar c" "list_all IsNameChar cs"
    using assms(1) by (auto simp: xml_name_def split: list.splits)
  have "takeWhile IsNameChar (cs @ r) = cs" "dropWhile IsNameChar (cs @ r) = r"
    using n(3) assms(2) by (induction cs) (auto simp: takeWhile_eq_Nil_iff dropWhile_eq_self_iff)
  with n show ?thesis by (simp add: ParseName_def)
qed

text \<open>An attribute as it is written, after one blank.\<close>

definition attr_text :: "string \<times> string \<Rightarrow> string" where
  "attr_text a = CHR '' '' # fst a @ [CHR ''='', CHR 0x22] @ xml_escape (snd a) @ [CHR 0x22]"

lemma name_chars: "IsNameStartChar c \<Longrightarrow> \<not> is_blank c \<and> c \<noteq> CHR ''>'' \<and> c \<noteq> CHR ''/'' \<and> c \<noteq> CHR ''?'' \<and> c \<noteq> CHR ''!''"
  by (auto simp: IsNameStartChar_def is_blank_def Let_def)

lemma is_blank_space: "is_blank (CHR '' '')"
  by (simp add: is_blank_def)

lemma not_name_chars: "\<not> IsNameChar (CHR ''='')" "\<not> IsNameChar (CHR ''>'')" "\<not> IsNameChar (CHR ''/'')" "\<not> IsNameChar (CHR '' '')"
  by (simp_all add: IsNameChar_def IsNameStartChar_def is_digit_def)

lemma XMLAttribute_ParseDeep_text:
  assumes "xml_name (fst a)" "plain_value (snd a)"
  shows "XMLAttribute_ParseDeep (tl (attr_text a) @ r) = Some (a, r)"
proof -
  have n: "ParseName (fst a @ [CHR ''='', CHR 0x22] @ xml_escape (snd a) @ [CHR 0x22] @ r)
      = Some (fst a, [CHR ''='', CHR 0x22] @ xml_escape (snd a) @ [CHR 0x22] @ r)"
    using assms(1) by (intro ParseName_name) (simp_all add: not_name_chars)
  have t: "ParseText [CHR 0x22] (xml_escape (snd a) @ CHR 0x22 # r) = Some (xml_escape (snd a), r)"
    by (rule ParseText_until) (rule xml_escape_clean)
  show ?thesis using n t assms(2)
    by (simp add: XMLAttribute_ParseDeep_def attr_text_def Let_def SkipWhiteSpace_def is_blank_def GetStr_escape)
qed

lemma FindAttribute_none: "FindAttribute n as = None \<longleftrightarrow> n \<notin> fst ` set as"
  by (induction as) auto

lemma ParseAttributes_text:
  assumes "list_all (\<lambda>a. xml_name (fst a) \<and> plain_value (snd a)) as" "distinct (map fst (bs @ as))"
  shows "ParseAttributes bs (concat (map attr_text as) @ r) = ParseAttributes (bs @ as) r"
  using assms
proof (induction as arbitrary: bs)
  case (Cons a as)
  let ?r = "concat (map attr_text as) @ r"
  obtain c cs where c: "fst a = c # cs" "IsNameStartChar c" using Cons.prems(1) by (auto simp: xml_name_def split: list.splits)
  obtain q where q: "tl (attr_text a) @ ?r = c # q" using c by (simp add: attr_text_def)
  have "SkipWhiteSpace (attr_text a @ ?r) = c # q"
    using q name_chars [OF c(2)] by (simp add: attr_text_def SkipWhiteSpace_def is_blank_space)
  then have "ParseAttributes bs (attr_text a @ ?r) = ParseAttributes (bs @ [a]) ?r"
    using c(2) q XMLAttribute_ParseDeep_text [of a ?r] Cons.prems
    by (subst ParseAttributes_name) (auto simp: FindAttribute_none)
  with Cons show ?case by simp
qed simp

lemma SkipWhiteSpace_blanks: "list_all is_blank ws \<Longrightarrow> SkipWhiteSpace (ws @ s) = SkipWhiteSpace s"
  by (induction ws) (auto simp: SkipWhiteSpace_def)

lemma Identify_tag:
  assumes "list_all is_blank ws" "c \<noteq> CHR ''?''" "c \<noteq> CHR ''!''"
  shows "Identify (ws @ CHR ''<'' # c # q) = Some (K_Element, c # q)"
  using assms by (simp add: Identify_def Let_def SkipWhiteSpace_blanks, simp add: SkipWhiteSpace_def is_blank_def)

lemma ParseAttributes_end:
  assumes "list_all is_blank ws"
  shows "ParseAttributes as (ws @ ''>'' @ r) = Inr (as, False, r)" "ParseAttributes as (ws @ ''/>'' @ r) = Inr (as, True, r)"
  by (subst ParseAttributes.simps, simp add: SkipWhiteSpace_blanks [OF assms], simp add: SkipWhiteSpace_def is_blank_def IsNameStartChar_def)+

lemma blank_not_name: "is_blank c \<Longrightarrow> \<not> IsNameChar c"
  by (auto simp: is_blank_def IsNameChar_def IsNameStartChar_def is_digit_def Let_def)

lemma name_on_text:
  assumes "xml_name n" "list_all (\<lambda>a. xml_name (fst a) \<and> plain_value (snd a)) as" "distinct (map fst as)"
    and "list_all is_blank ws" and "r = ws @ ''>'' @ r' \<and> \<not> sealed \<or> r = ws @ ''/>'' @ r' \<and> sealed"
  shows "XMLElement_name_on pc ct (n @ concat (map attr_text as) @ r) =
    (let ct' = (if sealed then CLOSED else ct) in
     if r' = [] \<or> ct' \<noteq> OPEN then Inr (XElem n as [], ct', None, r')
     else (case pc r' of Failed e \<Rightarrow> Inl e | Ended kids \<Rightarrow> Inl No_Error
       | End_Tag kids endTag s \<Rightarrow> Inr (XElem n as kids, OPEN, Some endTag, s)))"
proof -
  have "\<not> IsNameChar (hd (concat (map attr_text as) @ r))"
    using assms(4,5) by (cases as; cases ws) (auto simp: attr_text_def not_name_chars blank_not_name)
  then have "ParseName (n @ concat (map attr_text as) @ r) = Some (n, concat (map attr_text as) @ r)"
    using assms(1) by (intro ParseName_name) simp_all
  moreover have "ParseAttributes [] (concat (map attr_text as) @ r) = Inr (as, sealed, r')"
    using assms(2,3,5) ParseAttributes_text [of as "[]" r] ParseAttributes_end [OF assms(4), of as r'] by auto
  ultimately show ?thesis by (simp add: XMLElement_name_on_def)
qed

lemma ParseText_declaration: "CHR ''?'' \<notin> set d \<Longrightarrow> ParseText ''?>'' (d @ ''?>'' @ r) = Some (d, r)"
  by (induction d) auto

lemma GetStr_loop_plain: "CHR 0x0D \<notin> set d \<Longrightarrow> GetStr_loop False start out d = out @ d"
proof (induction d arbitrary: out)
  case (Cons c d)
  have "(case d of e # p' \<Rightarrow> if e = CHR 0x0D then p' else d | [] \<Rightarrow> []) = d" using Cons.prems by (cases d) auto
  moreover have "c \<noteq> CHR 0x0D" "CHR 0x0D \<notin> set d" using Cons.prems by auto
  ultimately show ?case using Cons.IH by (simp split del: list.split)
qed simp

lemma GetStr_plain: "plain_value d \<Longrightarrow> GetStr False d = d"
  by (simp add: GetStr_def GetStr_loop_plain plain_value_def)

lemma xml_name_no_nul: "xml_name n \<Longrightarrow> CHR 0x00 \<notin> set n"
  by (cases n) (auto simp: xml_name_def list_all_iff IsNameChar_def IsNameStartChar_def is_digit_def)

lemma xml_char_no_nul: "CHR 0x00 \<noteq> c \<Longrightarrow> CHR 0x00 \<notin> set (xml_char c)"
  by (auto simp: xml_char_def)

lemma xml_escape_no_nul: "CHR 0x00 \<notin> set v \<Longrightarrow> CHR 0x00 \<notin> set (xml_escape v)"
  by (induction v) (simp_all add: xml_escape_Cons xml_char_no_nul, simp add: xml_escape_def)

lemma attr_text_no_nul: "xml_name (fst a) \<Longrightarrow> plain_value (snd a) \<Longrightarrow> CHR 0x00 \<notin> set (attr_text a)"
  by (simp add: attr_text_def xml_name_no_nul xml_escape_no_nul plain_value_def)

lemma is_blank_nul: "\<not> is_blank (CHR 0x00)"
  by (simp add: is_blank_def)

lemma blanks_no_nul: "list_all is_blank ws \<Longrightarrow> CHR 0x00 \<notin> set ws"
  using is_blank_nul by (auto simp: list_all_iff)

lemma Identify_blank: "list_all is_blank ws \<Longrightarrow> Identify ws = None"
  using SkipWhiteSpace_blanks [of ws "[]"] by (simp add: Identify_def, simp add: SkipWhiteSpace_def)

section \<open>Properties\<close>

text \<open>C35: Parsing a configuration file always comes to an end: whatever the bytes, the result is
  a list of nodes or one of the library's error codes, and the bounds on the nesting of elements
  and on the number of siblings in the model are never reached.\<close>

theorem XML_parsing_ends:
  "(\<exists>kids. XMLDocument_Parse bytes = Inr kids) \<or> (\<exists>err. XMLDocument_Parse bytes = Inl (Xml_Error err))"
  by (cases "XMLDocument_Parse bytes") (auto elim: XMLDocument_Parse_error)


end
