(* ===== verification/Xml_Layout.thy ===== *)
theory Xml_Layout
  imports Xml_Text
begin

text \<open>
  Which texts stand for a tree. A layout of a node is its text in one of the ways it may be written:
  with white space before any tag and at the end of a tag, but none before or after a piece of text, to which it would
  belong. The parser reads every layout of a document back to the document.
\<close>

section \<open>Layouts\<close>

definition text_char :: "char \<Rightarrow> string" where
  "text_char c = (if c = CHR 0x22 \<or> c = CHR 0x27 then [c] else xml_char c)"

definition text_escape :: "string \<Rightarrow> string" where
  "text_escape v = concat (map text_char v)"

definition is_text :: "xml_node \<Rightarrow> bool" where
  "is_text k = (case k of XText cdata _ \<Rightarrow> \<not> cdata | _ \<Rightarrow> False)"

text \<open>A string that its end mark ends, and not earlier.\<close>

definition ended_by :: "string \<Rightarrow> string \<Rightarrow> bool" where
  "ended_by endTag v \<longleftrightarrow> ParseText endTag (v @ endTag) = Some (v, [])"

definition attrs_ok :: "(string \<times> string) list \<Rightarrow> bool" where
  "attrs_ok as \<longleftrightarrow> list_all (\<lambda>a. xml_name (fst a) \<and> plain_value (snd a)) as \<and> distinct (map fst as)"

fun leaf_text :: "xml_node \<Rightarrow> string" where
  "leaf_text (XText cdata v) = (if cdata then ''<![CDATA['' @ v @ '']]>'' else text_escape v)"
| "leaf_text (XComment v) = ''<!--'' @ v @ ''-->''"
| "leaf_text (XDeclaration v) = ''<?'' @ v @ ''?>''"
| "leaf_text (XUnknown v) = ''<!'' @ v @ ''>''"
| "leaf_text (XElem n as ks) = []"

fun leaf_ok :: "xml_node \<Rightarrow> bool" where
  "leaf_ok (XText cdata v) \<longleftrightarrow> plain_value v \<and> (if cdata then ended_by '']]>'' v else \<not> list_all is_blank v)"
| "leaf_ok (XComment v) \<longleftrightarrow> plain_value v \<and> ended_by ''-->'' v"
| "leaf_ok (XDeclaration v) \<longleftrightarrow> plain_value v \<and> ended_by ''?>'' v"
| "leaf_ok (XUnknown v) \<longleftrightarrow> plain_value v \<and> ended_by ''>'' v \<and> \<not> prefix ''--'' v \<and> \<not> prefix ''[CDATA['' v"
| "leaf_ok (XElem n as ks) \<longleftrightarrow> False"

text \<open>
  \<open>lay_kids t ks t' s\<close>: \<open>s\<close> is a layout of the siblings \<open>ks\<close>; \<open>t\<close> says that a piece of text
  comes just before them, \<open>t'\<close> that one is just before what follows.
\<close>

inductive lay_node :: "xml_node \<Rightarrow> string \<Rightarrow> bool"
  and lay_kids :: "bool \<Rightarrow> xml_node list \<Rightarrow> bool \<Rightarrow> string \<Rightarrow> bool" where
  lay_leaf: "leaf_ok e \<Longrightarrow> lay_node e (leaf_text e)"
| lay_empty: "xml_name n \<Longrightarrow> attrs_ok as \<Longrightarrow> list_all is_blank ws1 \<Longrightarrow>
    lay_node (XElem n as []) (CHR ''<'' # n @ concat (map attr_text as) @ ws1 @ ''/>'')"
| lay_elem: "xml_name n \<Longrightarrow> attrs_ok as \<Longrightarrow> ks \<noteq> [] \<Longrightarrow> list_all (\<lambda>k. \<not> is_declaration k) ks \<Longrightarrow> lay_kids False ks t s \<Longrightarrow>
    list_all is_blank ws1 \<Longrightarrow> list_all is_blank ws \<Longrightarrow> (t \<longrightarrow> ws = []) \<Longrightarrow>
    lay_node (XElem n as ks) (CHR ''<'' # n @ concat (map attr_text as) @ ws1 @ ''>'' @ s @ ws @ ''</'' @ n @ ''>'')"
| lay_nil: "lay_kids t [] t []"
| lay_cons: "list_all is_blank ws \<Longrightarrow> (t \<or> is_text k \<longrightarrow> ws = []) \<Longrightarrow> \<not> (t \<and> is_text k) \<Longrightarrow> lay_node k s \<Longrightarrow>
    lay_kids (is_text k) ks t' s' \<Longrightarrow> lay_kids t (k # ks) t' (ws @ s @ s')"

inductive_cases lay_consE: "lay_kids t (k # ks) t' s"
inductive_cases lay_nilE: "lay_kids t [] t' s"

definition starts_tag :: "string \<Rightarrow> bool" where
  "starts_tag r \<longleftrightarrow> prefix ''<'' r \<and> 2 \<le> length r"

lemma starts_tag_append [simp]: "starts_tag s \<Longrightarrow> starts_tag (s @ r)"
  by (auto simp: starts_tag_def prefix_def)

lemma starts_tag_cons: "starts_tag r \<Longrightarrow> \<exists>r'. r = CHR ''<'' # r' \<and> r' \<noteq> []"
  by (cases r) (auto simp: starts_tag_def)

lemma lay_node_start: "lay_node e s \<Longrightarrow> \<not> is_text e \<Longrightarrow> starts_tag s"
  by (cases e s rule: lay_node.cases; cases e) (auto simp: starts_tag_def is_text_def)

lemma lay_kids_after_text:
  assumes "lay_kids True ks t' s"
  shows "s = [] \<and> t' \<or> starts_tag s"
  using assms
proof (cases ks)
  case Nil
  then show ?thesis using assms by (auto elim: lay_nilE)
next
  case (Cons k ks')
  then show ?thesis using assms by (auto elim!: lay_consE dest: lay_node_start)
qed

section \<open>Reading leaves\<close>

lemma ParseText_ended:
  assumes "ended_by e v" and "e \<noteq> []"
  shows "ParseText e (v @ e @ r) = Some (v, r)"
  using assms(1) unfolding ended_by_def
proof (induction v)
  case Nil
  then show ?case using assms(2) by (cases e) auto
next
  case (Cons c v)
  have "prefix e (c # v @ e @ r) \<longleftrightarrow> prefix e (c # v @ e)"
    using prefix_length_prefix [of e "(c # v @ e) @ r" "c # v @ e"] by (auto intro: prefix_order.trans)
  then show ?case using Cons by (auto split: if_splits)
qed

lemma GetStr_loop_text:
  assumes "CHR 0x0D \<notin> set v"
  shows "GetStr_loop True start out (text_escape v) = out @ v"
  using assms
proof (induction v arbitrary: out)
  case (Cons c v)
  have "CHR 0x0D \<notin> set (text_escape v)" using Cons.prems xml_char_clean(1) by (auto simp: text_escape_def text_char_def split: if_splits)
  then have "\<not> prefix [CHR 0x0D] (text_escape v)" by (cases "text_escape v") auto
  moreover have "c \<noteq> CHR 0x0D" using Cons.prems by auto
  ultimately have "GetStr_loop True start out (text_char c @ text_escape v) = GetStr_loop True start (out @ [c]) (text_escape v)"
    using GetStr_loop_char [of c "text_escape v"] by (cases "text_escape v") (auto simp: text_char_def)
  then show ?case using Cons by (simp add: text_escape_def)
qed (simp add: text_escape_def)

lemma text_escape_clean: "CHR ''<'' \<notin> set (text_escape v)"
  by (auto simp: text_escape_def text_char_def xml_char_def split: if_splits)

lemma Identify_text:
  assumes "\<not> list_all is_blank v"
  shows "Identify (text_escape v @ r) = Some (K_Text, text_escape v @ r)"
proof -
  from assms obtain c where c: "c \<in> set v" "\<not> is_blank c" by (auto simp: list_all_iff)
  have amp: "\<not> is_blank (CHR ''&'')" by (simp add: is_blank_def)
  have "text_char c = [c] \<or> (\<exists>q. text_char c = CHR ''&'' # q)"
    using xml_char_cases [of c] by (auto simp only: text_char_def split: if_split)
  then have "\<exists>d \<in> set (text_char c). \<not> is_blank d" using c(2) amp by (elim disjE exE) simp_all
  then have "\<exists>d \<in> set (text_escape v). \<not> is_blank d" using c(1) by (auto simp: text_escape_def)
  then obtain d q where d: "dropWhile is_blank (text_escape v) = d # q" by (cases "dropWhile is_blank (text_escape v)") (auto simp: dropWhile_eq_Nil_conv)
  then have "d \<noteq> CHR ''<''" using text_escape_clean [of v] by (metis list.set_intros(1) set_dropWhileD)
  moreover have "SkipWhiteSpace (text_escape v @ r) = d # q @ r"
  proof -
    obtain x where "x \<in> set (text_escape v)" "\<not> is_blank x" using \<open>\<exists>d \<in> set (text_escape v). \<not> is_blank d\<close> by blast
    then show ?thesis using d by (simp add: SkipWhiteSpace_def dropWhile_append1)
  qed
  ultimately show ?thesis by (simp add: Identify_def Let_def)
qed

lemma Identify_marked:
  assumes "list_all is_blank ws"
  shows "Identify (ws @ ''<?'' @ p) = Some (K_Declaration, p)"
    and "Identify (ws @ ''<!--'' @ p) = Some (K_Comment, p)"
    and "Identify (ws @ ''<![CDATA['' @ p) = Some (K_CData, p)"
    and "\<not> prefix ''--'' p \<Longrightarrow> \<not> prefix ''[CDATA['' p \<Longrightarrow> Identify (ws @ ''<!'' @ p) = Some (K_Unknown, p)"
  using assms by (simp_all add: Identify_def Let_def SkipWhiteSpace_blanks, simp_all add: SkipWhiteSpace_def is_blank_def)

lemma not_prefix_past: "\<not> prefix m v \<Longrightarrow> c \<notin> set m \<Longrightarrow> \<not> prefix m (v @ c # r)"
proof
  assume n: "\<not> prefix m v" "c \<notin> set m" and "prefix m (v @ c # r)"
  then obtain m' where "m = v @ m'" "prefix m' (c # r)" by (auto simp: prefix_append)
  with n show False by (cases m') auto
qed

lemma parse_leaf_text:
  assumes "leaf_ok e" and "list_all is_blank ws" and "is_text e \<longrightarrow> ws = [] \<and> starts_tag r"
  shows "\<exists>k q. Identify (ws @ leaf_text e @ r) = Some (k, q) \<and> k \<noteq> K_Element \<and> parse_leaf k q = Inr (e, r)"
proof (cases e)
  case (XText cdata v)
  show ?thesis
  proof (cases cdata)
    case True
    then have v: "plain_value v" "ended_by '']]>'' v" using XText assms(1) by simp_all
    then have "parse_leaf K_CData (v @ '']]>'' @ r) = Inr (e, r)"
      using ParseText_ended [of "'']]>''" v r] XText True by (simp add: parse_leaf_def XMLText_ParseDeep_def GetStr_plain)
    with Identify_marked(3) [OF assms(2), of "v @ '']]>'' @ r"] XText True show ?thesis
      by (intro exI [of _ K_CData] exI [of _ "v @ '']]>'' @ r"]) simp
  next
    case False
    then have v: "plain_value v" "\<not> list_all is_blank v" "ws = []" "starts_tag r" using XText assms by (simp_all add: is_text_def)
    obtain r' where r: "r = CHR ''<'' # r'" "r' \<noteq> []" using starts_tag_cons [OF v(4)] by blast
    have "ParseText ''<'' (text_escape v @ r) = Some (text_escape v, r')" unfolding r by (rule ParseText_until) (rule text_escape_clean)
    moreover have "GetStr True (text_escape v) = v" using v(1) by (simp add: GetStr_def GetStr_loop_text plain_value_def)
    ultimately have "parse_leaf K_Text (text_escape v @ r) = Inr (e, r)"
      using XText False r by (simp add: parse_leaf_def XMLText_ParseDeep_def)
    with XText False v(3) Identify_text [OF v(2), of r] show ?thesis
      by (intro exI [of _ K_Text] exI [of _ "text_escape v @ r"]) simp
  qed
next
  case (XComment v)
  then have "parse_leaf K_Comment (v @ ''-->'' @ r) = Inr (e, r)"
    using assms(1) ParseText_ended [of "''-->''" v r] by (simp add: parse_leaf_def XMLComment_ParseDeep_def GetStr_plain)
  with Identify_marked(2) [OF assms(2), of "v @ ''-->'' @ r"] XComment show ?thesis
    by (intro exI [of _ K_Comment] exI [of _ "v @ ''-->'' @ r"]) simp
next
  case (XDeclaration v)
  then have "parse_leaf K_Declaration (v @ ''?>'' @ r) = Inr (e, r)"
    using assms(1) ParseText_ended [of "''?>''" v r] by (simp add: parse_leaf_def XMLDeclaration_ParseDeep_def GetStr_plain)
  with Identify_marked(1) [OF assms(2), of "v @ ''?>'' @ r"] XDeclaration show ?thesis
    by (intro exI [of _ K_Declaration] exI [of _ "v @ ''?>'' @ r"]) simp
next
  case (XUnknown v)
  then have v: "plain_value v" "ended_by ''>'' v" "\<not> prefix ''--'' v" "\<not> prefix ''[CDATA['' v" using assms(1) by simp_all
  have n: "\<not> prefix ''--'' (v @ ''>'' @ r)" "\<not> prefix ''[CDATA['' (v @ ''>'' @ r)"
    using v(3,4) not_prefix_past [of "''--''" v "CHR ''>''" r] not_prefix_past [of "''[CDATA[''" v "CHR ''>''" r] by simp_all
  have "parse_leaf K_Unknown (v @ ''>'' @ r) = Inr (e, r)"
    using v XUnknown ParseText_ended [of "''>''" v r] by (simp add: parse_leaf_def XMLUnknown_ParseDeep_def GetStr_plain)
  with Identify_marked(4) [OF assms(2) n] XUnknown show ?thesis
    by (intro exI [of _ K_Unknown] exI [of _ "v @ ''>'' @ r"]) simp
next
  case (XElem n as ks)
  then show ?thesis using assms(1) by simp
qed

section \<open>Reading trees\<close>

text \<open>Declarations come first, in the document only.\<close>

fun decls_first :: "bool \<Rightarrow> xml_node list \<Rightarrow> bool" where
  "decls_first b [] = True"
| "decls_first b (k # ks) = ((is_declaration k \<longrightarrow> b) \<and> decls_first (b \<and> is_declaration k) ks)"

lemma no_decls_first: "list_all (\<lambda>k. \<not> is_declaration k) ks \<Longrightarrow> decls_first b ks"
  by (induction ks arbitrary: b) auto

definition reads_next :: "nat \<Rightarrow> xml_node \<Rightarrow> string \<Rightarrow> bool" where
  "reads_next k e s \<longleftrightarrow> (\<forall>ws isdoc m kids r. list_all is_blank ws \<longrightarrow> (is_text e \<longrightarrow> ws = [] \<and> starts_tag r) \<longrightarrow>
     (is_declaration e \<longrightarrow> isdoc \<and> list_all is_declaration kids) \<longrightarrow>
     XMLNode_ParseDeep (XMLElement_ParseDeep k) isdoc (Suc m) kids (ws @ s @ r) =
     XMLNode_ParseDeep (XMLElement_ParseDeep k) isdoc m (kids @ [e]) r)"

definition reads_kids :: "nat \<Rightarrow> xml_node list \<Rightarrow> bool \<Rightarrow> string \<Rightarrow> bool" where
  "reads_kids k ks t' s \<longleftrightarrow> (\<forall>isdoc m kids r. (t' \<longrightarrow> starts_tag r) \<longrightarrow> decls_first (isdoc \<and> list_all is_declaration kids) ks \<longrightarrow>
     length ks \<le> m \<longrightarrow> XMLNode_ParseDeep (XMLElement_ParseDeep k) isdoc m kids (s @ r) =
     XMLNode_ParseDeep (XMLElement_ParseDeep k) isdoc (m - length ks) (kids @ ks) r)"

lemma reads_leaf: "leaf_ok e \<Longrightarrow> reads_next k e (leaf_text e)"
  unfolding reads_next_def
proof (intro allI impI)
  fix ws isdoc m kids r
  assume e: "leaf_ok e" and ws: "list_all is_blank ws" "is_text e \<longrightarrow> ws = [] \<and> starts_tag r"
    and d: "is_declaration e \<longrightarrow> isdoc \<and> list_all is_declaration kids"
  obtain kind q where i: "Identify (ws @ leaf_text e @ r) = Some (kind, q)" "kind \<noteq> K_Element" "parse_leaf kind q = Inr (e, r)"
    using parse_leaf_text [OF e ws] by blast
  define p where "p = ws @ leaf_text e @ r"
  have "p \<noteq> []" using i(1) by (auto simp: p_def [symmetric] Identify_def SkipWhiteSpace_def)
  with i d show "XMLNode_ParseDeep (XMLElement_ParseDeep k) isdoc (Suc m) kids (ws @ leaf_text e @ r) =
      XMLNode_ParseDeep (XMLElement_ParseDeep k) isdoc m (kids @ [e]) r"
    unfolding p_def [symmetric] by (auto simp del: XMLElement_ParseDeep.simps)
qed

text \<open>An element parser that reads the element after its bracket lets the loop go on after it.\<close>

lemma reads_elemI:
  assumes "xml_name n"
    and "\<And>r. XMLElement_ParseDeep k (n @ s @ r) =
      Inr (XElem n as ks, if ks = [] then CLOSED else OPEN, if ks = [] then None else Some n, r)"
  shows "reads_next k (XElem n as ks) (CHR ''<'' # n @ s)"
  unfolding reads_next_def
proof (intro allI impI)
  fix ws isdoc m kids r assume ws: "list_all is_blank ws"
  obtain c cs where n: "n = c # cs" "IsNameStartChar c" using assms(1) by (auto simp: xml_name_def split: list.splits)
  have "Identify (ws @ CHR ''<'' # c # cs @ s @ r) = Some (K_Element, c # cs @ s @ r)"
    using name_chars [OF n(2)] by (intro Identify_tag [OF ws]) simp_all
  then show "XMLNode_ParseDeep (XMLElement_ParseDeep k) isdoc (Suc m) kids (ws @ (CHR ''<'' # n @ s) @ r) =
      XMLNode_ParseDeep (XMLElement_ParseDeep k) isdoc m (kids @ [XElem n as ks]) r"
    using assms(2) [of r] n by (simp del: XMLElement_ParseDeep.simps)
qed

lemma open_tag:
  assumes "xml_name n"
  shows "XMLElement_ParseDeep (Suc k) (n @ s) =
    XMLElement_name_on (\<lambda>q. XMLNode_ParseDeep (XMLElement_ParseDeep k) False (Suc (length q)) [] q) OPEN (n @ s)"
proof -
  obtain c cs where n: "n = c # cs" "IsNameStartChar c" using assms by (auto simp: xml_name_def split: list.splits)
  then have "SkipWhiteSpace (n @ s) = n @ s" "\<not> prefix ''/'' (n @ s)" using name_chars [OF n(2)] by (auto simp: SkipWhiteSpace_def)
  then show ?thesis by (simp del: XMLNode_ParseDeep.simps)
qed

lemma end_tag_text:
  assumes "xml_name n" "list_all is_blank ws"
  shows "XMLNode_ParseDeep (XMLElement_ParseDeep (Suc k)) isdoc (Suc m) kids (ws @ ''</'' @ n @ ''>'' @ r) = End_Tag kids n r"
proof -
  have "XMLElement_ParseDeep (Suc k) (''/'' @ n @ ''>'' @ r) = Inr (XElem n [] [], CLOSING, None, r)"
    using name_on_text [OF assms(1), of "[]" "[]" "''>'' @ r" r False _ CLOSING]
    by (simp add: SkipWhiteSpace_def is_blank_def)
  then show ?thesis using Identify_tag [OF assms(2), of "CHR ''/''" "n @ ''>'' @ r"] by simp
qed

lemma leaf_text_nonempty: "leaf_ok e \<Longrightarrow> leaf_text e \<noteq> []"
proof (cases e)
  case (XText cdata v)
  moreover assume "leaf_ok e"
  ultimately show ?thesis by (cases v; cases cdata) (auto simp: text_escape_def text_char_def xml_char_def)
qed simp_all

lemma lay_count: "lay_node e s \<Longrightarrow> s \<noteq> []" "lay_kids t ks t' s' \<Longrightarrow> length ks \<le> length s'"
proof (induction rule: lay_node_lay_kids.inducts)
  case (lay_cons ws t k s ks t' s')
  then show ?case by (cases s) simp_all
qed (simp_all add: leaf_text_nonempty)

lemma reads_cons:
  assumes "list_all is_blank ws" "is_text k \<longrightarrow> ws = []" "reads_next n k s"
    and "lay_kids (is_text k) ks t' s'" "reads_kids n ks t' s'"
  shows "reads_kids n (k # ks) t' (ws @ s @ s')"
  unfolding reads_kids_def
proof (intro allI impI)
  fix isdoc m kids r
  assume r: "t' \<longrightarrow> starts_tag r" and d: "decls_first (isdoc \<and> list_all is_declaration kids) (k # ks)" and m: "length (k # ks) \<le> m"
  obtain m' where m': "m = Suc m'" using m by (cases m) auto
  have tag: "is_text k \<longrightarrow> ws = [] \<and> starts_tag (s' @ r)"
    using assms(2,4) r lay_kids_after_text [of ks t' s'] by (cases "is_text k") auto
  have "XMLNode_ParseDeep (XMLElement_ParseDeep n) isdoc (Suc m') kids (ws @ s @ (s' @ r)) =
      XMLNode_ParseDeep (XMLElement_ParseDeep n) isdoc m' (kids @ [k]) (s' @ r)"
    using assms(1,3) tag d unfolding reads_next_def decls_first.simps by blast
  also have "\<dots> = XMLNode_ParseDeep (XMLElement_ParseDeep n) isdoc (m' - length ks) ((kids @ [k]) @ ks) r"
    using assms(5) r d m m' unfolding reads_kids_def decls_first.simps by (auto simp del: XMLNode_ParseDeep.simps XMLElement_ParseDeep.simps)
  finally show "XMLNode_ParseDeep (XMLElement_ParseDeep n) isdoc m kids ((ws @ s @ s') @ r) =
      XMLNode_ParseDeep (XMLElement_ParseDeep n) isdoc (m - length (k # ks)) (kids @ k # ks) r"
    using m' by (simp del: XMLNode_ParseDeep.simps XMLElement_ParseDeep.simps)
qed

lemma reads_empty:
  assumes "xml_name n" "attrs_ok as" "list_all is_blank ws1"
  shows "reads_next (Suc k) (XElem n as []) (CHR ''<'' # n @ concat (map attr_text as) @ ws1 @ ''/>'')"
proof (rule reads_elemI [OF assms(1)])
  fix r
  show "XMLElement_ParseDeep (Suc k) (n @ (concat (map attr_text as) @ ws1 @ ''/>'') @ r) =
      Inr (XElem n as [], if [] = [] then CLOSED else OPEN, if [] = [] then None else Some n, r)"
    using open_tag [OF assms(1), of k "concat (map attr_text as) @ ws1 @ ''/>'' @ r"]
      name_on_text [OF assms(1), of as ws1 "ws1 @ ''/>'' @ r" r True _ OPEN] assms(2,3)
    by (simp add: attrs_ok_def del: XMLElement_ParseDeep.simps XMLNode_ParseDeep.simps)
qed

lemma reads_elem:
  assumes "xml_name n" "attrs_ok as" "ks \<noteq> []" "list_all (\<lambda>k. \<not> is_declaration k) ks" "lay_kids False ks t s"
    and "list_all is_blank ws1" "list_all is_blank ws" "t \<longrightarrow> ws = []" "reads_kids (Suc k) ks t s"
  shows "reads_next (Suc (Suc k)) (XElem n as ks) (CHR ''<'' # n @ concat (map attr_text as) @ ws1 @ ''>'' @ s @ ws @ ''</'' @ n @ ''>'')"
proof (rule reads_elemI [OF assms(1)])
  fix r
  let ?body = "s @ ws @ ''</'' @ n @ ''>'' @ r"
  let ?pc = "\<lambda>q. XMLNode_ParseDeep (XMLElement_ParseDeep (Suc k)) False (Suc (length q)) [] q"
  have tag: "t \<longrightarrow> starts_tag (ws @ ''</'' @ n @ ''>'' @ r)" using assms(8) by (simp add: starts_tag_def)
  have count: "length ks \<le> length s" using assms(5) by (rule lay_count)
  obtain m where m: "Suc (length ?body) - length ks = Suc m" using count by (cases "Suc (length ?body) - length ks") auto
  have "?pc ?body = XMLNode_ParseDeep (XMLElement_ParseDeep (Suc k)) False (Suc m) ks (ws @ ''</'' @ n @ ''>'' @ r)"
    using assms(9) tag no_decls_first [OF assms(4)] count m [symmetric] unfolding reads_kids_def
    by (simp del: XMLElement_ParseDeep.simps XMLNode_ParseDeep.simps)
  also have "\<dots> = End_Tag ks n r" by (rule end_tag_text [OF assms(1,7)])
  finally have "?pc ?body = End_Tag ks n r" .
  then show "XMLElement_ParseDeep (Suc (Suc k)) (n @ (concat (map attr_text as) @ ws1 @ ''>'' @ s @ ws @ ''</'' @ n @ ''>'') @ r) =
      Inr (XElem n as ks, if ks = [] then CLOSED else OPEN, if ks = [] then None else Some n, r)"
    using open_tag [OF assms(1), of "Suc k" "concat (map attr_text as) @ ws1 @ ''>'' @ ?body"]
      name_on_text [OF assms(1), of as ws1 "ws1 @ ''>'' @ ?body" ?body False ?pc OPEN] assms(2,3,6)
    by (simp add: attrs_ok_def del: XMLElement_ParseDeep.simps XMLNode_ParseDeep.simps)
qed

lemma lay_reads:
  "lay_node e s \<Longrightarrow> (\<forall>k. length s \<le> k \<longrightarrow> reads_next k e s)"
  "lay_kids t ks t' s' \<Longrightarrow> (\<forall>k. length s' \<le> k \<longrightarrow> reads_kids k ks t' s')"
proof (induction rule: lay_node_lay_kids.inducts)
  case (lay_leaf e)
  then show ?case using reads_leaf by blast
next
  case (lay_empty n as ws1)
  have "reads_next k (XElem n as []) (CHR ''<'' # n @ concat (map attr_text as) @ ws1 @ ''/>'')" if "k \<noteq> 0" for k
    using that reads_empty [OF lay_empty] by (cases k) auto
  then show ?case by auto
next
  case (lay_elem n as ks t s ws1 ws)
  show ?case
  proof (intro allI impI)
    fix k assume len: "length (CHR ''<'' # n @ concat (map attr_text as) @ ws1 @ ''>'' @ s @ ws @ ''</'' @ n @ ''>'') \<le> k"
    then obtain k' where k: "k = Suc (Suc k')" by (cases k; cases "k - 1") auto
    then have "reads_kids (Suc k') ks t s" using len lay_elem.IH by auto
    then show "reads_next k (XElem n as ks) (CHR ''<'' # n @ concat (map attr_text as) @ ws1 @ ''>'' @ s @ ws @ ''</'' @ n @ ''>'')"
      unfolding k by (rule reads_elem [OF lay_elem.hyps])
  qed
next
  case (lay_nil t)
  then show ?case by (simp add: reads_kids_def)
next
  case (lay_cons ws t k s ks t' s')
  then show ?case by (auto intro!: reads_cons)
qed

section \<open>Documents\<close>

text \<open>
  A layout of a document: perhaps a byte order mark, the layout of its nodes, and white space.
  Declarations come first, and no text stands outside an element.
\<close>

definition BOM :: string where
  "BOM = [CHR 0xEF, CHR 0xBB, CHR 0xBF]"

definition lay_document :: "bool \<Rightarrow> xml_node list \<Rightarrow> string \<Rightarrow> bool" where
  "lay_document bom doc s \<longleftrightarrow> doc \<noteq> [] \<and> decls_first True doc \<and> list_all (\<lambda>k. \<not> is_text k) doc \<and>
     (\<exists>s' ws. lay_kids False doc False s' \<and> list_all is_blank ws \<and> s = (if bom then BOM else []) @ s' @ ws)"

lemma text_char_no_nul: "CHR 0x00 \<noteq> c \<Longrightarrow> CHR 0x00 \<notin> set (text_char c)"
  using xml_char_no_nul [of c] by (auto simp: text_char_def)

lemma text_escape_no_nul: "CHR 0x00 \<notin> set v \<Longrightarrow> CHR 0x00 \<notin> set (text_escape v)"
  by (induction v) (simp_all add: text_escape_def text_char_no_nul)

lemma leaf_text_no_nul:
  assumes "leaf_ok e"
  shows "CHR 0x00 \<notin> set (leaf_text e)"
proof (cases e)
  case (XText cdata v)
  then have "CHR 0x00 \<notin> set v" using assms by (simp add: plain_value_def)
  moreover from this have "CHR 0x00 \<notin> set (text_escape v)" by (rule text_escape_no_nul)
  ultimately show ?thesis using XText by simp
qed (use assms in \<open>simp_all add: plain_value_def\<close>)

lemma attr_texts_no_nul: "attrs_ok as \<Longrightarrow> \<forall>a \<in> set as. CHR 0x00 \<notin> set (attr_text a)"
  using attr_text_no_nul by (simp add: attrs_ok_def list_all_iff)

lemma lay_no_nul:
  "lay_node e s \<Longrightarrow> CHR 0x00 \<notin> set s" "lay_kids t ks t' s' \<Longrightarrow> CHR 0x00 \<notin> set s'"
  by (induction rule: lay_node_lay_kids.inducts)
     (simp_all add: leaf_text_no_nul xml_name_no_nul attr_texts_no_nul blanks_no_nul)

lemma lay_kids_skip:
  assumes "lay_kids False ks t' s" "ks \<noteq> []" "list_all (\<lambda>k. \<not> is_text k) ks"
  obtains ws s' where "s = ws @ s'" "list_all is_blank ws" "lay_kids False ks t' s'" "starts_tag s'"
proof (cases ks)
  case (Cons k ks')
  then have k: "\<not> is_text k" and "lay_kids False (k # ks') t' s" using assms by simp_all
  from this(2) obtain ws s1 s2 where *: "s = ws @ s1 @ s2" "list_all is_blank ws" "lay_node k s1" "lay_kids (is_text k) ks' t' s2"
    by (rule lay_consE) (rule that)
  have "lay_kids False ks t' ([] @ s1 @ s2)" unfolding Cons using *(3,4) k by (intro lay_cons) simp_all
  with * lay_node_start [OF *(3) k] show thesis by (intro that [of ws "s1 @ s2"]) simp_all
qed (use assms in simp)

lemma starts_tag_skip: "starts_tag s \<Longrightarrow> SkipWhiteSpace s = s \<and> ReadBOM s = s"
  using starts_tag_cons [of s] by (auto simp: SkipWhiteSpace_def ReadBOM_def is_blank_def)

text \<open>After the byte order mark the parser stands before a layout of the nodes.\<close>

lemma lay_document_start:
  assumes "lay_document bom doc s"
  obtains s' ws where "ReadBOM (SkipWhiteSpace (c_str s)) = s' @ ws" "lay_kids False doc False s'" "list_all is_blank ws"
proof -
  obtain s0 ws where s: "s = (if bom then BOM else []) @ s0 @ ws" "lay_kids False doc False s0" "list_all is_blank ws"
    and doc: "doc \<noteq> []" "list_all (\<lambda>k. \<not> is_text k) doc"
    using assms by (auto simp: lay_document_def)
  have "CHR 0x00 \<notin> set s" using lay_no_nul(2) [OF s(2)] blanks_no_nul [OF s(3)] by (auto simp: s(1) BOM_def)
  then have c: "c_str s = s" by (rule c_str_id)
  show thesis
  proof (cases bom)
    case True
    then have "ReadBOM (SkipWhiteSpace (c_str s)) = s0 @ ws"
      by (simp add: c, simp add: s(1) BOM_def SkipWhiteSpace_def ReadBOM_def is_blank_def)
    with s show thesis by (intro that)
  next
    case False
    obtain ws' s' where l: "s0 = ws' @ s'" "list_all is_blank ws'" "lay_kids False doc False s'" "starts_tag s'"
      using lay_kids_skip [OF s(2) doc] .
    have "ReadBOM (SkipWhiteSpace (c_str s)) = s' @ ws"
      using starts_tag_skip [OF starts_tag_append [OF l(4), of ws]] False by (simp add: c, simp add: s(1) l(1) SkipWhiteSpace_blanks [OF l(2)])
    with s l show thesis by (intro that)
  qed
qed

lemma document_parsed:
  assumes "lay_document bom doc s"
  shows "XMLDocument_Parse s = Inr doc"
proof -
  obtain s' ws where p: "ReadBOM (SkipWhiteSpace (c_str s)) = s' @ ws" and l: "lay_kids False doc False s'" "list_all is_blank ws"
    using assms by (rule lay_document_start)
  let ?n = "Suc (length (s' @ ws))"
  have doc: "doc \<noteq> []" "decls_first True doc" using assms by (simp_all add: lay_document_def)
  have count: "length doc \<le> length s'" using l(1) by (rule lay_count)
  then have "s' \<noteq> []" using doc by auto
  obtain m where m: "?n - length doc = Suc m" using count by (cases "?n - length doc") auto
  have "reads_kids ?n doc False s'" using lay_reads(2) [OF l(1)] by simp
  then have "XMLNode_ParseDeep (XMLElement_ParseDeep ?n) True ?n [] (s' @ ws) = XMLNode_ParseDeep (XMLElement_ParseDeep ?n) True (Suc m) doc ws"
    using doc count m [symmetric] unfolding reads_kids_def by (simp del: XMLNode_ParseDeep.simps XMLElement_ParseDeep.simps)
  also have "\<dots> = Ended doc" using Identify_blank [OF l(2)] by simp
  finally show ?thesis using \<open>s' \<noteq> []\<close> unfolding XMLDocument_Parse_def p Let_def
    by (simp del: XMLNode_ParseDeep.simps XMLElement_ParseDeep.simps)
qed

lemma LoadFile_layout: "lay_document bom doc s \<Longrightarrow> LoadFile (File_Contents s) = Inr doc"
  using document_parsed [of bom doc s] by (auto simp: LoadFile_def, simp add: XMLDocument_Parse_def SkipWhiteSpace_def ReadBOM_def c_str_def)

end
