(* ===== verification/Xml_Config.thy ===== *)
theory Xml_Config
  imports Xml_Layout
begin

text \<open>
  The node's configuration (\<^verbatim>\<open>localconfig.cpp\<close>, \<^verbatim>\<open>NODE_INFO\<close> of
  \<^verbatim>\<open>DcNode/src/DcDefine.h\<close>) and the tinyxml2 accessors it reads the parsed document with. The
  file, as the system delivers it, is the argument. Null pointers
  are \<open>None\<close>: assigning one to a \<^verbatim>\<open>std::string\<close> or calling a method through one is
  undefined, the outer \<open>None\<close> of \<open>LoadXml\<close>.
\<close>

section \<open>Documents\<close>

definition ToElementWithName :: "string option \<Rightarrow> xml_node \<Rightarrow> xml_node option" where
  "ToElementWithName name node = (case node of
     XElem n _ _ \<Rightarrow> (case name of None \<Rightarrow> Some node | Some m \<Rightarrow> if n = m then Some node else None)
   | _ \<Rightarrow> None)"

fun FirstChildElement :: "string option \<Rightarrow> xml_node list \<Rightarrow> xml_node option" where
  "FirstChildElement name [] = None"
| "FirstChildElement name (node # rest) = (case ToElementWithName name node of
     Some e \<Rightarrow> Some e | None \<Rightarrow> FirstChildElement name rest)"

definition RootElement :: "xml_node list \<Rightarrow> xml_node option" where
  "RootElement doc = FirstChildElement None doc"

definition Attribute :: "string \<Rightarrow> xml_node \<Rightarrow> string option" where
  "Attribute name e = map_option snd (FindAttribute name (elem_attrs e))"

text \<open>
  \<^verbatim>\<open>sscanf(str, "%d", value)\<close>: blanks, a sign, at least one digit, and the rest is
  ignored. A number that does not fit an \<^verbatim>\<open>int\<close> is outside the model.
\<close>

definition sscanf_d :: "string \<Rightarrow> int option" where
  "sscanf_d str = (let s = dropWhile is_blank str;
       (neg, s1) = (case s of c # cs \<Rightarrow> if c = CHR ''-'' then (True, cs) else if c = CHR ''+'' then (False, cs) else (False, s)
                    | [] \<Rightarrow> (False, []));
       ds = takeWhile is_digit s1
     in if ds = [] then None else Some (if neg then - int (read_nat ds) else int (read_nat ds)))"

definition ToInt :: "string \<Rightarrow> int option" where
  "ToInt str = sscanf_d str"

text \<open>The out parameter is passed in and comes back, changed on success only.\<close>

definition QueryIntValue :: "string \<Rightarrow> int \<Rightarrow> XMLError \<times> int" where
  "QueryIntValue v old = (case ToInt v of Some i \<Rightarrow> (XML_SUCCESS, i) | None \<Rightarrow> (XML_WRONG_ATTRIBUTE_TYPE, old))"

definition QueryIntAttribute :: "string \<Rightarrow> xml_node \<Rightarrow> int \<Rightarrow> XMLError \<times> int" where
  "QueryIntAttribute name e old = (case FindAttribute name (elem_attrs e) of
     None \<Rightarrow> (XML_NO_ATTRIBUTE, old) | Some a \<Rightarrow> QueryIntValue (snd a) old)"

definition IntAttribute :: "string \<Rightarrow> int \<Rightarrow> xml_node \<Rightarrow> int" where
  "IntAttribute name defaultValue e = snd (QueryIntAttribute name e defaultValue)"

section \<open>NODE_INFO and LoadXml\<close>

record NODE_INFO =
  NodeIp :: string
  NodePort :: int
  ClusterIp :: string
  ClusterPort :: int
  mqIP :: string
  mqPort :: int
  mqQueue :: string

definition NODE_INFO_new :: NODE_INFO where
  "NODE_INFO_new = \<lparr>NodeIp = ''127.0.0.1'', NodePort = 5002, ClusterIp = ''127.0.0.1'', ClusterPort = 6001,
     mqIP = ''127.0.0.1'', mqPort = 61616, mqQueue = ''test''\<rparr>"

definition NODE_INFO_assign :: "NODE_INFO \<Rightarrow> NODE_INFO \<Rightarrow> NODE_INFO" where
  "NODE_INFO_assign this src = this\<lparr>NodeIp := NodeIp src, NodePort := NodePort src, ClusterIp := ClusterIp src,
     ClusterPort := ClusterPort src, mqIP := mqIP src, mqPort := mqPort src, mqQueue := mqQueue src\<rparr>"

definition read_settings :: "xml_node list \<Rightarrow> NODE_INFO \<Rightarrow> (int \<times> NODE_INFO) option" where
  "read_settings doc info = (case RootElement doc of
         None \<Rightarrow> None
       | Some root \<Rightarrow> (case FirstChildElement (Some ''host'') (elem_children root) of
           None \<Rightarrow> Some (SWARTZ_ERR, info)
         | Some host \<Rightarrow> (case (Attribute ''NodeIp'' host, Attribute ''ClusterIp'' host) of
             (Some nip, Some cip) \<Rightarrow>
               (let info1 = info\<lparr>NodeIp := nip, NodePort := IntAttribute ''NodePort'' 0 host,
                      ClusterIp := cip, ClusterPort := IntAttribute ''ClusterPort'' 0 host\<rparr>
                in case FirstChildElement (Some ''mq'') (elem_children root) of
                     None \<Rightarrow> Some (SWARTZ_ERR, info1)
                   | Some mq \<Rightarrow> (case (Attribute ''ip'' mq, Attribute ''queue'' mq) of
                       (Some mip, Some mqu) \<Rightarrow> Some (SWARTZ_OK,
                         info1\<lparr>mqIP := mip, mqPort := IntAttribute ''port'' 0 mq, mqQueue := mqu\<rparr>)
                     | _ \<Rightarrow> None))
           | _ \<Rightarrow> None)))"

definition LoadXml :: "xml_file \<Rightarrow> NODE_INFO \<Rightarrow> (int \<times> NODE_INFO) option" where
  "LoadXml xml info = (case LoadFile xml of
     Inl (Xml_Error _) \<Rightarrow> Some (SWARTZ_ERR, info)
   | Inl _ \<Rightarrow> None
   | Inr doc \<Rightarrow> read_settings doc info)"

section \<open>Properties\<close>

lemma sign_not_digit: "is_digit c \<Longrightarrow> \<not> is_blank c \<and> c \<noteq> CHR ''-'' \<and> c \<noteq> CHR ''+''"
  by (auto simp: is_digit_def is_blank_def)

lemma takeWhile_digits:
  "list_all is_digit ds \<Longrightarrow> (rest = [] \<or> \<not> is_digit (hd rest)) \<Longrightarrow> takeWhile is_digit (ds @ rest) = ds"
  by (induction ds) (auto simp: takeWhile_eq_Nil_iff)

lemma sscanf_show_nat:
  assumes "rest = [] \<or> \<not> is_digit (hd rest)"
  shows "sscanf_d (show_nat n @ rest) = Some (int n)"
    and "sscanf_d (CHR ''-'' # show_nat n @ rest) = Some (- int n)"
proof -
  obtain c cs where c: "show_nat n = c # cs" using show_nat_nonempty by (cases "show_nat n") auto
  with show_nat_digits [of n] have d: "is_digit c" by simp
  have t: "takeWhile is_digit (c # cs @ rest) = c # cs"
    using takeWhile_digits [OF show_nat_digits assms, of n] by (simp add: c)
  have r: "read_nat (c # cs) = n" using read_show_nat [of n] by (simp add: c)
  show "sscanf_d (show_nat n @ rest) = Some (int n)"
    using sign_not_digit [OF d] t r by (simp add: sscanf_d_def c Let_def)
  show "sscanf_d (CHR ''-'' # show_nat n @ rest) = Some (- int n)"
    using t r by (simp add: sscanf_d_def c Let_def is_blank_def)
qed

lemma sscanf_show_int:
  "rest = [] \<or> \<not> is_digit (hd rest) \<Longrightarrow> sscanf_d (show_int i @ rest) = Some i"
  using sscanf_show_nat [of rest "nat i"] sscanf_show_nat [of rest "nat (- i)"] by (simp add: show_int_def)

lemma Attribute_map_of: "Attribute name (XElem n as ks) = map_of as name"
  unfolding Attribute_def xml_node.sel by (induction as) auto

lemma IntAttribute_shown:
  assumes "map_of as name = Some (show_int i)"
  shows "IntAttribute name d (XElem n as ks) = i"
proof -
  have "map_option snd (FindAttribute name as) = map_of as name" for as
    by (induction as) auto
  with assms obtain a where "FindAttribute name as = Some a" "snd a = show_int i" by (metis map_option_eq_Some)
  then show ?thesis
    using sscanf_show_int [of "[]" i] by (simp add: IntAttribute_def QueryIntAttribute_def QueryIntValue_def ToInt_def)
qed

definition named :: "string \<Rightarrow> xml_node \<Rightarrow> bool" where
  "named m node \<longleftrightarrow> (case node of XElem n _ _ \<Rightarrow> n = m | _ \<Rightarrow> False)"

lemma FirstChildElement_find: "FirstChildElement (Some m) ks = find (named m) ks"
  by (induction ks) (auto simp: ToElementWithName_def named_def split: xml_node.splits)

lemma settings_read:
  assumes "RootElement doc = Some (XElem n as ks)"
    and "find (named ''host'') ks = Some (XElem ''host'' ha hk)" and "find (named ''mq'') ks = Some (XElem ''mq'' ma mk)"
    and "map_of ha ''NodeIp'' = Some (NodeIp i)" and "map_of ha ''NodePort'' = Some (show_int (NodePort i))"
    and "map_of ha ''ClusterIp'' = Some (ClusterIp i)" and "map_of ha ''ClusterPort'' = Some (show_int (ClusterPort i))"
    and "map_of ma ''ip'' = Some (mqIP i)" and "map_of ma ''port'' = Some (show_int (mqPort i))"
    and "map_of ma ''queue'' = Some (mqQueue i)"
  shows "read_settings doc old = Some (SWARTZ_OK, i)"
  using assms by (simp add: read_settings_def FirstChildElement_find Attribute_map_of IntAttribute_shown)


text \<open>The file \<^verbatim>\<open>DcNode/src/dcnode.xml\<close> of the repository, byte for byte.\<close>

definition dcnode_xml :: string where
  \<open>dcnode_xml = ''<?xml version="1.0" encoding="utf-8" ?>  '' @ [CHR 0x0A] @ ''<config>  '' @ [CHR 0x0A] @
     ''    <host NodeIp="127.0.0.1" NodePort="6001" ClusterIp="127.0.0.1" ClusterPort="5002"  />  '' @ [CHR 0x0A, CHR 0x09] @
     ''<mq ip="127.0.0.1" port="61616" queue="test"  />  '' @ [CHR 0x0A] @ ''</config>  '' @ [CHR 0x0A]\<close>

definition host_attrs :: "(string \<times> string) list" where
  "host_attrs = [(''NodeIp'', ''127.0.0.1''), (''NodePort'', ''6001''), (''ClusterIp'', ''127.0.0.1''), (''ClusterPort'', ''5002'')]"

definition mq_attrs :: "(string \<times> string) list" where
  "mq_attrs = [(''ip'', ''127.0.0.1''), (''port'', ''61616''), (''queue'', ''test'')]"

definition dcnode_info :: NODE_INFO where
  "dcnode_info = NODE_INFO_new\<lparr>NodePort := 6001, ClusterPort := 5002\<rparr>"

lemma dcnode_attrs:
  "map_of host_attrs ''NodeIp'' = Some (NodeIp dcnode_info)"
  "map_of host_attrs ''NodePort'' = Some (show_int (NodePort dcnode_info))"
  "map_of host_attrs ''ClusterIp'' = Some (ClusterIp dcnode_info)"
  "map_of host_attrs ''ClusterPort'' = Some (show_int (ClusterPort dcnode_info))"
  "map_of mq_attrs ''ip'' = Some (mqIP dcnode_info)"
  "map_of mq_attrs ''port'' = Some (show_int (mqPort dcnode_info))"
  "map_of mq_attrs ''queue'' = Some (mqQueue dcnode_info)"
  by (simp_all add: host_attrs_def mq_attrs_def dcnode_info_def NODE_INFO_new_def show_int_def show_nat.simps digit_char_def)

definition dcnode_doc :: "xml_node list" where
  \<open>dcnode_doc = [XDeclaration ''xml version="1.0" encoding="utf-8" '', XElem ''config'' [] [XElem ''host'' host_attrs [], XElem ''mq'' mq_attrs []]]\<close>

lemmas dcnode_check = xml_name_def attrs_ok_def plain_value_def ended_by_def IsNameStartChar_def IsNameChar_def is_blank_def
  is_declaration_def is_text_def host_attrs_def mq_attrs_def

lemma dcnode_leaves:
  \<open>lay_node (XDeclaration ''xml version="1.0" encoding="utf-8" '') ''<?xml version="1.0" encoding="utf-8" ?>''\<close>
  \<open>lay_node (XElem ''host'' host_attrs []) ''<host NodeIp="127.0.0.1" NodePort="6001" ClusterIp="127.0.0.1" ClusterPort="5002"  />''\<close>
  \<open>lay_node (XElem ''mq'' mq_attrs []) ''<mq ip="127.0.0.1" port="61616" queue="test"  />''\<close>
proof -
  show \<open>lay_node (XDeclaration ''xml version="1.0" encoding="utf-8" '') ''<?xml version="1.0" encoding="utf-8" ?>''\<close>
    using lay_leaf [of \<open>XDeclaration ''xml version="1.0" encoding="utf-8" ''\<close>] by (simp add: dcnode_check)
  show \<open>lay_node (XElem ''host'' host_attrs []) ''<host NodeIp="127.0.0.1" NodePort="6001" ClusterIp="127.0.0.1" ClusterPort="5002"  />''\<close>
    using lay_empty [of "''host''" host_attrs "''  ''"] by (simp add: dcnode_check attr_text_def xml_escape_def xml_char_def)
  show \<open>lay_node (XElem ''mq'' mq_attrs []) ''<mq ip="127.0.0.1" port="61616" queue="test"  />''\<close>
    using lay_empty [of "''mq''" mq_attrs "''  ''"] by (simp add: dcnode_check attr_text_def xml_escape_def xml_char_def)
qed

lemma dcnode_layout: "lay_document False dcnode_doc dcnode_xml"
proof -
  let ?host = \<open>''<host NodeIp="127.0.0.1" NodePort="6001" ClusterIp="127.0.0.1" ClusterPort="5002"  />''\<close>
  let ?mq = \<open>''<mq ip="127.0.0.1" port="61616" queue="test"  />''\<close>
  let ?nl = "[CHR '' '', CHR '' '', CHR 0x0A]"
  let ?decl = \<open>''<?xml version="1.0" encoding="utf-8" ?>''\<close>
  have "lay_kids False [XElem ''host'' host_attrs [], XElem ''mq'' mq_attrs []] False ((?nl @ ''    '') @ ?host @ (?nl @ [CHR 0x09]) @ ?mq @ [])"
    by (intro lay_cons dcnode_leaves) (simp_all add: is_text_def is_blank_def lay_nil)
  from lay_elem [of "''config''" "[]", OF _ _ _ _ this, of "[]" ?nl]
  have config: "lay_node (XElem ''config'' [] [XElem ''host'' host_attrs [], XElem ''mq'' mq_attrs []])
      (''<config>'' @ ((?nl @ ''    '') @ ?host @ (?nl @ [CHR 0x09]) @ ?mq @ []) @ ?nl @ ''</config>'')"
    by (simp add: xml_name_def attrs_ok_def IsNameStartChar_def IsNameChar_def is_blank_def is_declaration_def)
  have "lay_kids False dcnode_doc False ([] @ ?decl @ ?nl @
      (''<config>'' @ ((?nl @ ''    '') @ ?host @ (?nl @ [CHR 0x09]) @ ?mq @ []) @ ?nl @ ''</config>'') @ [])"
    unfolding dcnode_doc_def by (intro lay_cons dcnode_leaves config) (simp_all add: is_text_def is_blank_def lay_nil)
  then show ?thesis unfolding lay_document_def
    by (intro conjI exI [of _ ?nl] exI) (rule asm_rl, simp_all add: dcnode_doc_def dcnode_xml_def is_declaration_def is_text_def is_blank_def)
qed


text \<open>The documents that send \<^verbatim>\<open>LoadXml\<close> through a null pointer.\<close>

definition settings_missing :: "xml_node list \<Rightarrow> bool" where
  "settings_missing doc = (case RootElement doc of
       None \<Rightarrow> True
     | Some root \<Rightarrow> (case find (named ''host'') (elem_children root) of
         None \<Rightarrow> False
       | Some host \<Rightarrow> Attribute ''NodeIp'' host = None \<or> Attribute ''ClusterIp'' host = None \<or>
          (case find (named ''mq'') (elem_children root) of
             None \<Rightarrow> False
           | Some mq \<Rightarrow> Attribute ''ip'' mq = None \<or> Attribute ''queue'' mq = None)))"

lemma read_settings_none: "read_settings doc old = None \<longleftrightarrow> settings_missing doc"
  by (auto simp: read_settings_def settings_missing_def FirstChildElement_find Let_def split: option.splits)

lemma LoadFile_error: "LoadFile f = Inl e \<Longrightarrow> \<exists>err. e = Xml_Error err"
  by (auto simp: LoadFile_def split: xml_file.splits if_splits elim: XMLDocument_Parse_error)


end
