(* ===== verification/Node_Server.thy ===== *)
theory Node_Server
  imports Thrift_Rpc Mq_Mgr Xml_Config
begin

text \<open>
  The node (\<^verbatim>\<open>DcNode/src/NodeServer.cpp\<close>, \<^verbatim>\<open>dp.cpp\<close>, \<^verbatim>\<open>main.cpp\<close>): the Thrift
  handler that posts each piece of work to the configured message queue, the thread that
  registers the node at the cluster and keeps sending heartbeats, and start and stop. The two
  singletons the node uses, \<^verbatim>\<open>DP\<close> and the message queue library, are part of its state;
  \<open>posted\<close> records what the broker accepted, in order.
\<close>

section \<open>State\<close>

text \<open>\<^verbatim>\<open>m_sem\<close> is not set by the constructor: \<open>None\<close> is the indeterminate value.\<close>

record node =
  ns_nodeInfo :: NODE_INFO
  ns_hThread :: bool
  ns_hRegisterThread :: bool
  ns_hThreadPool :: bool
  ns_sem :: "bool option"
  ns_bstop :: bool
  ns_bregister_ok :: bool
  dp_m_uri :: string
  ns_mq :: MqMgr
  posted :: "delivery list"

definition NodeServer_new :: node where
  "NodeServer_new = \<lparr>ns_nodeInfo = NODE_INFO_new, ns_hThread = False, ns_hRegisterThread = False, ns_hThreadPool = False,
     ns_sem = None, ns_bstop = False, ns_bregister_ok = False, dp_m_uri = [], ns_mq = MqMgr_new, posted = []\<rparr>"

section \<open>dp: the message queue client\<close>

definition dp_init :: "mq_env \<Rightarrow> string \<Rightarrow> int \<Rightarrow> string \<Rightarrow> node \<Rightarrow> (int \<times> node) option" where
  "dp_init env ip prt quename st = (case CommMgr_Init (ns_mq st) of
     None \<Rightarrow> None
   | Some (iRet, mq1) \<Rightarrow>
       if iRet \<noteq> 0 then Some (SWARTZ_ERR, st\<lparr>ns_mq := mq1\<rparr>)
       else (let uri = dp_uri ip prt quename; (iRet, mq2) = CommMgr_AddProducer env uri mq1;
                 st1 = st\<lparr>dp_m_uri := uri, ns_mq := mq2\<rparr>
             in Some (if iRet \<noteq> 0 then SWARTZ_ERR else SWARTZ_OK, st1)))"

definition dp_send_message :: "mq_env \<Rightarrow> string \<Rightarrow> node \<Rightarrow> (int \<times> node) option" where
  "dp_send_message env msg st = (case CommMgr_SendMsg env (dp_m_uri st) (c_str msg) (ns_mq st) of
     None \<Rightarrow> None
   | Some (iRet, d, mq1) \<Rightarrow> Some (if iRet \<noteq> 0 then SWARTZ_ERR else SWARTZ_OK,
       st\<lparr>ns_mq := mq1, posted := posted st @ (case d of None \<Rightarrow> [] | Some x \<Rightarrow> [x])\<rparr>))"

definition dp_uninit :: "node \<Rightarrow> node option" where
  "dp_uninit st = map_option (\<lambda>mq1. st\<lparr>ns_mq := mq1\<rparr>) (CommMgr_Fini (ns_mq st))"

section \<open>The work handler\<close>

definition RequestHandler_ClusterWork :: "mq_env \<Rightarrow> string \<Rightarrow> node \<Rightarrow> (bool \<times> node) option" where
  "RequestHandler_ClusterWork env msg st = (case dp_send_message env msg st of
     None \<Rightarrow> None | Some (_, st1) \<Rightarrow> Some (True, st1))"

section \<open>Registration and heartbeats\<close>

text \<open>
  One connection per call; an exception from opening, writing, the connection, reading or
  closing ends the \<^verbatim>\<open>try\<close> block. The result variable keeps what was assigned before.
\<close>

definition node_client_info :: "NODE_INFO \<Rightarrow> ClientInfo" where
  "node_client_info i = ClientInfo_new\<lparr>ci_Ip := NodeIp i, ci_Port := word_of_int (NodePort i)\<rparr>"

definition node_heartbeat_info :: "NODE_INFO \<Rightarrow> HeartBeatInfo" where
  "node_heartbeat_info i = HeartBeatInfo_new\<lparr>hb_Ip := NodeIp i, hb_Port := word_of_int (NodePort i)\<rparr>"

definition RegisterClient :: "(app_error \<times> string) reader \<Rightarrow> peer \<Rightarrow> node \<Rightarrow> bool" where
  "RegisterClient xread c st =
     (let resType =
        (if \<not> peer_open c then RegistResult_UNDEFINE_ERR
         else (case RegistClient_send_registClient TBinaryProtocol (node_client_info (ns_nodeInfo st)) of
             Inl _ \<Rightarrow> RegistResult_UNDEFINE_ERR
           | Inr (_, bs) \<Rightarrow> (case peer_answer c bs of
               Inl _ \<Rightarrow> RegistResult_UNDEFINE_ERR
             | Inr out \<Rightarrow> (case RegistClient_recv_registClient TBinaryProtocol xread out of
                 Inl _ \<Rightarrow> RegistResult_UNDEFINE_ERR
               | Inr (res, _, _) \<Rightarrow> res))))
      in resType = RegistResult_SUCCESS)"

definition NodeServer_HeartBeatWork :: "(app_error \<times> string) reader \<Rightarrow> peer \<Rightarrow> node \<Rightarrow> bool" where
  "NodeServer_HeartBeatWork xread c st =
     (if \<not> peer_open c then False
      else (case RegistClient_send_heartbeat TBinaryProtocol (node_heartbeat_info (ns_nodeInfo st)) of
          Inl _ \<Rightarrow> False
        | Inr (_, bs) \<Rightarrow> (case peer_answer c bs of
            Inl _ \<Rightarrow> False
          | Inr out \<Rightarrow> (case RegistClient_recv_heartbeat TBinaryProtocol xread out of
              Inl _ \<Rightarrow> False
            | Inr (bsuccess, _, _) \<Rightarrow> bsuccess))))"

text \<open>
  One turn of \<^verbatim>\<open>SendHeartBeat\<close> before its 30 second wait. The two peers are the server
  at the moment of the registration and at the moment of the heartbeat.
\<close>

definition SendHeartBeat_turn :: "(app_error \<times> string) reader \<Rightarrow> peer \<Rightarrow> peer \<Rightarrow> node \<Rightarrow> node" where
  "SendHeartBeat_turn xread c1 c2 st =
     (let st1 = (if \<not> ns_bregister_ok st
            then (if \<not> RegisterClient xread c1 st then st else st\<lparr>ns_bregister_ok := True\<rparr>) else st)
      in if ns_bregister_ok st1
         then (if \<not> NodeServer_HeartBeatWork xread c2 st1 then st1\<lparr>ns_bregister_ok := False\<rparr> else st1)
         else st1)"

text \<open>
  The loop over the turns observed: the peers of a turn and \<^verbatim>\<open>m_bstop\<close> after its wait.
  \<open>None\<close>: still looping when the observation ends.
\<close>

fun SendHeartBeat :: "(app_error \<times> string) reader \<Rightarrow> (peer \<times> peer \<times> bool) list \<Rightarrow> node \<Rightarrow> node option" where
  "SendHeartBeat xread [] st = None"
| "SendHeartBeat xread ((c1, c2, bstop) # turns) st =
     (let st1 = (SendHeartBeat_turn xread c1 c2 st)\<lparr>ns_bstop := bstop\<rparr>
      in if bstop then Some st1 else SendHeartBeat xread turns st1)"

section \<open>Start and stop\<close>

text \<open>
  \<^verbatim>\<open>StopServer\<close> joins the service thread, which sits in \<^verbatim>\<open>TNonblockingServer::serve\<close>:
  \<open>serve_ends\<close> says whether that thread ends. \<open>Blocked\<close>: the call never comes back;
  \<open>Undefined\<close>: an indeterminate pointer is read or freed memory used.
\<close>

datatype 'a outcome = Done 'a | Blocked | Undefined

definition NodeServer_StopServer :: "bool \<Rightarrow> node \<Rightarrow> node outcome" where
  "NodeServer_StopServer serve_ends st =
     (let st1 = st\<lparr>ns_bstop := True, ns_hThreadPool := False\<rparr> in
      case ns_sem st1 of
        None \<Rightarrow> Undefined
      | Some _ \<Rightarrow> (let st2 = st1\<lparr>ns_sem := Some False\<rparr> in
          if ns_hThread st2 \<and> \<not> serve_ends then Blocked
          else (case dp_uninit (st2\<lparr>ns_hThread := False, ns_hRegisterThread := False\<rparr>) of
              None \<Rightarrow> Undefined | Some st3 \<Rightarrow> Done st3)))"

text \<open>What the system answers while \<^verbatim>\<open>StartServer\<close> runs.\<close>

record start_env =
  se_sem :: bool
  se_mq :: mq_env
  se_service :: bool
  se_register :: bool
  se_pool :: bool
  se_serve_ends :: bool

definition NodeServer_StartServer :: "start_env \<Rightarrow> NODE_INFO \<Rightarrow> node \<Rightarrow> (int \<times> node) outcome" where
  "NodeServer_StartServer e info st =
     (let st1 = st\<lparr>ns_nodeInfo := NODE_INFO_assign (ns_nodeInfo st) info, ns_sem := Some (se_sem e)\<rparr> in
      if \<not> se_sem e then Done (SWARTZ_ERR, st1)
      else (case dp_init (se_mq e) (mqIP info) (mqPort info) (mqQueue info) st1 of
          None \<Rightarrow> Undefined
        | Some (_, st2) \<Rightarrow>
            let stop = (\<lambda>s. case NodeServer_StopServer (se_serve_ends e) s of
                  Done s' \<Rightarrow> Done (SWARTZ_ERR, s') | Blocked \<Rightarrow> Blocked | Undefined \<Rightarrow> Undefined);
                st3 = st2\<lparr>ns_hThread := se_service e\<rparr> in
            if \<not> se_service e then stop st3
            else let st4 = st3\<lparr>ns_hRegisterThread := se_register e\<rparr> in
              if \<not> se_register e then stop st4
              else let st5 = st4\<lparr>ns_hThreadPool := se_pool e\<rparr> in
                if \<not> se_pool e then Done (SWARTZ_ERR, st5) else Done (SWARTZ_OK, st5)))"

text \<open>\<^verbatim>\<open>main\<close> up to its \<^verbatim>\<open>getchar\<close>: the exit code and the node.\<close>

definition DcNode_main :: "xml_file \<Rightarrow> start_env \<Rightarrow> (int \<times> node) outcome" where
  "DcNode_main xml e = (case LoadXml xml NODE_INFO_new of
     None \<Rightarrow> Undefined
   | Some (r, info) \<Rightarrow>
       if r \<noteq> SWARTZ_OK then Done (SWARTZ_ERR, NodeServer_new)
       else (case NodeServer_StartServer e info NodeServer_new of
           Done (_, st) \<Rightarrow> Done (0, st) | Blocked \<Rightarrow> Blocked | Undefined \<Rightarrow> Undefined))"

section \<open>The messaging contract\<close>

text \<open>
  What a client of the message library relies on: from a sound state a send to an acceptable
  URL is defined and keeps the state sound; it returns zero exactly when the text was handed
  over, and then to the URL's own target. Proved from that alone: a run of sends hands over
  exactly the texts that were reported as sent, each to that target, in order.
\<close>

fun post_all :: "('e \<Rightarrow> string \<Rightarrow> string \<Rightarrow> 's \<Rightarrow> (int \<times> 'd option \<times> 's) option) \<Rightarrow> string \<Rightarrow> (('s \<Rightarrow> 'e) \<times> string) list
    \<Rightarrow> 's \<Rightarrow> (int list \<times> 'd list \<times> 's) option" where
  "post_all snd_op url [] s = Some ([], [], s)"
| "post_all snd_op url ((ev, msg) # ms) s = (case snd_op (ev s) url msg s of
     None \<Rightarrow> None
   | Some (r, d, s1) \<Rightarrow> (case post_all snd_op url ms s1 of
       None \<Rightarrow> None | Some (rs, ds, s2) \<Rightarrow> Some (r # rs, (case d of None \<Rightarrow> [] | Some x \<Rightarrow> [x]) @ ds, s2)))"

locale message_service =
  fixes sound :: "'s \<Rightarrow> bool" and fresh :: "'e \<Rightarrow> 's \<Rightarrow> bool" and url_ok :: "string \<Rightarrow> bool"
    and target :: "string \<Rightarrow> string \<Rightarrow> 'd" and snd_op :: "'e \<Rightarrow> string \<Rightarrow> string \<Rightarrow> 's \<Rightarrow> (int \<times> 'd option \<times> 's) option"
  assumes send_law: "sound s \<Longrightarrow> url_ok url \<Longrightarrow> fresh e s \<Longrightarrow>
    \<exists>r d s'. snd_op e url msg s = Some (r, d, s') \<and> sound s' \<and> d = (if r = 0 then Some (target url msg) else None)"
begin

lemma post_all_exact:
  assumes "sound s" and "url_ok url" and "\<forall>x \<in> set ms. \<forall>s. sound s \<longrightarrow> fresh (fst x s) s"
  shows "\<exists>rs s'. post_all snd_op url ms s =
      Some (rs, map (\<lambda>x. target url (snd (snd x))) (filter (\<lambda>x. fst x = 0) (zip rs ms)), s') \<and>
    length rs = length ms \<and> sound s'"
  using assms
proof (induction ms arbitrary: s)
  case (Cons x ms)
  obtain ev m where x: "x = (ev, m)" by (cases x)
  with Cons.prems have "fresh (ev s) s" by auto
  with send_law [OF Cons.prems(1,2), of "ev s" m] obtain r d s1 where
    1: "snd_op (ev s) url m s = Some (r, d, s1)" "sound s1" "d = (if r = 0 then Some (target url m) else None)" by blast
  from Cons.IH [OF 1(2) Cons.prems(2)] Cons.prems(3) obtain rs s' where
    "post_all snd_op url ms s1 = Some (rs, map (\<lambda>x. target url (snd (snd x))) (filter (\<lambda>x. fst x = 0) (zip rs ms)), s')"
    "length rs = length ms" "sound s'" by auto
  then show ?case using 1 x by (intro exI [of _ "r # rs"] exI [of _ s']) auto
qed simp

end

definition url_target :: "string \<Rightarrow> string \<Rightarrow> delivery" where
  "url_target url msg = (case ParseMqUri url of None \<Rightarrow> (MQ_MODE_QUEUE, [], msg) | Some (_, dst, m) \<Rightarrow> (m, dst, msg))"

lemma CommMgr_SendMsg_law:
  assumes "mgr_ok st" and "canonical url" and "fresh_env env st"
  shows "\<exists>r d st'. CommMgr_SendMsg env url msg st = Some (r, d, st') \<and> mgr_ok st' \<and>
    d = (if r = 0 then Some (url_target url msg) else None)"
proof -
  have "\<And>a. env_new_prod env = Some a \<Longrightarrow> prods st a = None" using assms(3) by (rule fresh_envD)
  from SendMsg_ok [where env = env and msg = msg, OF assms(1,2) this] show ?thesis
    by (fastforce simp: CommMgr_defs url_target_def)
qed

interpretation comm_mgr: message_service mgr_ok fresh_env canonical url_target CommMgr_SendMsg
  by unfold_locales (rule CommMgr_SendMsg_law)

section \<open>The node's side of it\<close>

lemma canonical_dp_uri: "canonical (dp_uri ip prt q)"
  by (simp add: canonical_def dp_uri_def)

lemma url_target_dp:
  "CHR ''/'' \<notin> set ip \<Longrightarrow> q \<noteq> [] \<Longrightarrow> url_target (dp_uri ip prt q) msg = (MQ_MODE_QUEUE, q, msg)"
  by (simp add: url_target_def dp_uri_parses)

lemma dp_init_ok:
  assumes ok: "mgr_ok (ns_mq st)" and fresh: "fresh_env env (ns_mq st)"
  shows "\<exists>r st'. dp_init env ip prt q st = Some (r, st') \<and> mgr_ok (ns_mq st') \<and> dp_m_uri st' = dp_uri ip prt q \<and>
    posted st' = posted st \<and> st' = st\<lparr>dp_m_uri := dp_m_uri st', ns_mq := ns_mq st'\<rparr>"
proof -
  let ?m = "ns_mq st\<lparr>lib_up := True\<rparr>"
  have m: "mgr_ok ?m" "\<And>a. env_new_prod env = Some a \<Longrightarrow> prods ?m a = None"
    using ok fresh by (auto simp: mgr_ok_def dest: fresh_envD)
  obtain r m' where add: "MqMgr_AddProducer env (dp_uri ip prt q) ?m = (r, m')"
    by (cases "MqMgr_AddProducer env (dp_uri ip prt q) ?m")
  from AddProducer_ok [OF m(1) canonical_dp_uri m(2) add] show ?thesis
    by (simp add: dp_init_def CommMgr_defs MqMgr_Init_def add Let_def)
qed

lemma ClusterWork_law:
  assumes "mgr_ok (ns_mq st)" and "canonical (dp_m_uri st)" and "fresh_env env (ns_mq st)"
  shows "\<exists>r mq1. RequestHandler_ClusterWork env msg st = Some (True, st\<lparr>ns_mq := mq1,
      posted := posted st @ (if r = (0::int) then [url_target (dp_m_uri st) (c_str msg)] else [])\<rparr>) \<and> mgr_ok mq1 \<and>
    dp_send_message env msg st = Some (if r = 0 then SWARTZ_OK else SWARTZ_ERR, st\<lparr>ns_mq := mq1,
      posted := posted st @ (if r = 0 then [url_target (dp_m_uri st) (c_str msg)] else [])\<rparr>)"
proof -
  from comm_mgr.send_law [where msg = "c_str msg", OF assms] obtain r d mq1 where
    "CommMgr_SendMsg env (dp_m_uri st) (c_str msg) (ns_mq st) = Some (r, d, mq1)" "mgr_ok mq1"
    "d = (if r = 0 then Some (url_target (dp_m_uri st) (c_str msg)) else None)" by blast
  then show ?thesis
    by (intro exI [of _ r] exI [of _ mq1]) (auto simp: RequestHandler_ClusterWork_def dp_send_message_def)
qed

lemma turn_effect:
  "SendHeartBeat_turn xread c1 c2 st = st\<lparr>ns_bregister_ok :=
     (ns_bregister_ok st \<or> RegisterClient xread c1 st) \<and> NodeServer_HeartBeatWork xread c2 st\<rparr>"
proof -
  have "NodeServer_HeartBeatWork xread c2 (st\<lparr>ns_bregister_ok := b\<rparr>) = NodeServer_HeartBeatWork xread c2 st" for b
    by (simp add: NodeServer_HeartBeatWork_def)
  then show ?thesis by (simp add: SendHeartBeat_turn_def Let_def)
qed

text \<open>A run of work requests, as the Thrift server hands them to the handler.\<close>

fun work_all :: "((MqMgr \<Rightarrow> mq_env) \<times> string) list \<Rightarrow> node \<Rightarrow> (bool list \<times> node) option" where
  "work_all [] st = Some ([], st)"
| "work_all ((ev, msg) # ms) st = (case RequestHandler_ClusterWork (ev (ns_mq st)) msg st of
     None \<Rightarrow> None
   | Some (b, st1) \<Rightarrow> (case work_all ms st1 of None \<Rightarrow> None | Some (bs, st2) \<Rightarrow> Some (b # bs, st2)))"

lemma work_all_post_all:
  assumes "post_all CommMgr_SendMsg (dp_m_uri st) (map (\<lambda>x. (fst x, c_str (snd x))) ms) (ns_mq st) = Some (rs, ds, mq1)"
  shows "work_all ms st = Some (replicate (length ms) True, st\<lparr>ns_mq := mq1, posted := posted st @ ds\<rparr>)"
  using assms
proof (induction ms arbitrary: st rs ds)
  case (Cons x ms)
  from Cons.prems obtain r d m1 rs' ds' where
    1: "CommMgr_SendMsg (fst x (ns_mq st)) (dp_m_uri st) (c_str (snd x)) (ns_mq st) = Some (r, d, m1)"
      "post_all CommMgr_SendMsg (dp_m_uri st) (map (\<lambda>x. (fst x, c_str (snd x))) ms) m1 = Some (rs', ds', mq1)"
      "ds = (case d of None \<Rightarrow> [] | Some x \<Rightarrow> [x]) @ ds'"
    by (auto split: option.splits)
  let ?st1 = "st\<lparr>ns_mq := m1, posted := posted st @ (case d of None \<Rightarrow> [] | Some x \<Rightarrow> [x])\<rparr>"
  from Cons.IH [of ?st1] 1 have "work_all ms ?st1 = Some (replicate (length ms) True, ?st1\<lparr>ns_mq := mq1, posted := posted ?st1 @ ds'\<rparr>)"
    by simp
  with 1 show ?case by (cases x) (simp add: RequestHandler_ClusterWork_def dp_send_message_def)
qed simp

lemma new_node_fields [simp]:
  "ns_mq NodeServer_new = MqMgr_new" "posted NodeServer_new = []" "ns_bregister_ok NodeServer_new = False"
  by (simp_all add: NodeServer_new_def)

lemma StartServer_done:
  assumes "NodeServer_StartServer e info st = Done (SWARTZ_OK, st')"
    and "mgr_ok (ns_mq st)" and "fresh_env (se_mq e) (ns_mq st)"
  shows "\<exists>r st1. dp_init (se_mq e) (mqIP info) (mqPort info) (mqQueue info)
      (st\<lparr>ns_nodeInfo := info, ns_sem := Some True\<rparr>) = Some (r, st1) \<and>
    st' = st1\<lparr>ns_hThread := True, ns_hRegisterThread := True, ns_hThreadPool := True\<rparr>"
proof -
  let ?st1 = "st\<lparr>ns_nodeInfo := info, ns_sem := Some True\<rparr>"
  have a: "NODE_INFO_assign i info = info" for i by (simp add: NODE_INFO_assign_def)
  from dp_init_ok [of ?st1 "se_mq e" "mqIP info" "mqPort info" "mqQueue info"] assms(2,3) obtain r s where
    "dp_init (se_mq e) (mqIP info) (mqPort info) (mqQueue info) ?st1 = Some (r, s)" by auto
  with assms(1) show ?thesis
    by (auto simp: NodeServer_StartServer_def a Let_def SWARTZ_OK_def SWARTZ_ERR_def split: if_splits outcome.splits)
qed

lemma node_forwards_start:
  assumes "NodeServer_StartServer e info NodeServer_new = Done (SWARTZ_OK, st)"
  shows "mgr_ok (ns_mq st) \<and> dp_m_uri st = dp_uri (mqIP info) (mqPort info) (mqQueue info) \<and> posted st = []"
proof -
  have nf: "mgr_ok (ns_mq NodeServer_new)" "fresh_env (se_mq e) (ns_mq NodeServer_new)"
    by (simp add: new_mgr_ok) (simp add: fresh_env_def MqMgr_new_def split: option.split)
  from StartServer_done [OF assms nf] dp_init_ok [where ip = "mqIP info" and prt = "mqPort info" and q = "mqQueue info"
      and st = "NodeServer_new\<lparr>ns_nodeInfo := info, ns_sem := Some True\<rparr>" and env = "se_mq e"] nf
  show ?thesis by auto
qed

section \<open>Properties\<close>

text \<open>A started node answers every piece of work with success, and what reaches the broker
  is exactly the texts (up to their first null byte) of the requests whose send the library
  reported as done, in order, all on the configured queue: nothing is duplicated, reordered or
  sent elsewhere. The answer does not depend on whether the send worked.\<close>

lemma node_forwards_work:
  assumes start: "NodeServer_StartServer e info NodeServer_new = Done (SWARTZ_OK, st)"
    and ip: "CHR ''/'' \<notin> set (mqIP info)" and q: "mqQueue info \<noteq> []"
    and fresh: "\<forall>x \<in> set ms. \<forall>s. mgr_ok s \<longrightarrow> fresh_env (fst x s) s"
  shows "\<exists>rs st'. work_all ms st = Some (replicate (length ms) True, st') \<and> length rs = length ms \<and>
    posted st' = map (\<lambda>x. (MQ_MODE_QUEUE, mqQueue info, c_str (snd (snd x)))) (filter (\<lambda>x. fst x = (0::int)) (zip rs ms)) \<and>
    mgr_ok (ns_mq st')"
proof -
  from node_forwards_start [OF start]
  have st: "mgr_ok (ns_mq st)" "dp_m_uri st = dp_uri (mqIP info) (mqPort info) (mqQueue info)" "posted st = []" by auto
  let ?ms = "map (\<lambda>x. (fst x, c_str (snd x))) ms"
  have f: "\<forall>x \<in> set ?ms. \<forall>s. mgr_ok s \<longrightarrow> fresh_env (fst x s) s" using fresh by auto
  from comm_mgr.post_all_exact [OF st(1) canonical_dp_uri f, of "mqIP info" "mqPort info" "mqQueue info"] obtain rs mq1 where
    p: "post_all CommMgr_SendMsg (dp_m_uri st) ?ms (ns_mq st) =
        Some (rs, map (\<lambda>x. url_target (dp_m_uri st) (snd (snd x))) (filter (\<lambda>x. fst x = 0) (zip rs ?ms)), mq1)"
      "length rs = length ms" "mgr_ok mq1" unfolding st(2) by auto
  have "map (\<lambda>x. url_target (dp_m_uri st) (snd (snd x))) (filter (\<lambda>x. fst x = 0) (zip rs ?ms)) =
      map (\<lambda>x. (MQ_MODE_QUEUE, mqQueue info, c_str (snd (snd x)))) (filter (\<lambda>x. fst x = 0) (zip rs ms))"
    unfolding st(2) url_target_dp [OF ip q] by (simp add: zip_map2 filter_map comp_def case_prod_beta)
  with work_all_post_all [OF p(1)] p(2,3) st(3) show ?thesis by auto
qed

definition demo_start :: start_env where
  "demo_start = \<lparr>se_sem = True, se_mq = demo_env 1, se_service = True, se_register = True, se_pool = True, se_serve_ends = False\<rparr>"

definition demo_node :: node where
  "demo_node = (case NodeServer_StartServer demo_start dcnode_info NodeServer_new of
     Done (_, st) \<Rightarrow> st | Blocked \<Rightarrow> NodeServer_new | Undefined \<Rightarrow> NodeServer_new)"

definition no_new :: "MqMgr \<Rightarrow> mq_env" where
  "no_new s = (demo_env 1)\<lparr>env_new_prod := None\<rparr>"

lemma demo_started: "NodeServer_StartServer demo_start dcnode_info NodeServer_new = Done (SWARTZ_OK, demo_node)"
  by (simp add: demo_node_def NodeServer_StartServer_def demo_start_def dp_init_def CommMgr_Init_def MqMgr_Init_def
      case_prod_beta Let_def)

theorem node_forwards_work_witness:
  "\<exists>rs st'. work_all [(no_new, ''a''), (no_new, ''b'')] demo_node = Some ([True, True], st') \<and> length rs = 2 \<and>
    posted st' = map (\<lambda>x. (MQ_MODE_QUEUE, ''test'', c_str (snd (snd x))))
      (filter (\<lambda>x. fst x = (0::int)) (zip rs [(no_new, ''a''), (no_new, ''b'')]))"
  using node_forwards_work [OF demo_started, of "[(no_new, ''a''), (no_new, ''b'')]"]
  by (auto simp: dcnode_info_def NODE_INFO_new_def no_new_def fresh_env_def numeral_2_eq_2)

text \<open>A node whose broker is there loses nothing: when the connection, its producer and every
  send succeed, all the texts arrive on the configured queue, in the order they came in.\<close>

lemma healthy_node_posts_everything:
  assumes start: "NodeServer_StartServer e info NodeServer_new = Done (SWARTZ_OK, st)"
    and ip: "CHR ''/'' \<notin> set (mqIP info)" and q: "mqQueue info \<noteq> []"
    and env: "env_new_conn (se_mq e)" "env_conn (se_mq e) = Conn_Session s" "env_new_prod (se_mq e) = Some a"
      "env_create (se_mq e) = Created"
    and sends: "\<forall>x \<in> set ms. \<forall>m. env_make (fst x m) \<and> env_send (fst x m)"
  shows "\<exists>st'. work_all ms st = Some (replicate (length ms) True, st') \<and>
    posted st' = map (\<lambda>x. (MQ_MODE_QUEUE, mqQueue info, c_str (snd x))) ms"
proof -
  let ?u = "dp_uri (mqIP info) (mqPort info) (mqQueue info)"
  have nf: "mgr_ok (ns_mq NodeServer_new)" "fresh_env (se_mq e) (ns_mq NodeServer_new)"
    by (simp add: new_mgr_ok) (simp add: fresh_env_def MqMgr_new_def split: option.split)
  from StartServer_done [OF start nf] env dp_uri_parses [OF ip q, of "mqPort info"]
  have st: "dp_m_uri st = ?u" "posted st = []" "m_mapProcucer (ns_mq st) ?u = Some a"
    "\<exists>p. prods (ns_mq st) a = Some p \<and> mp_session p = Some s \<and> mp_producer p \<and> mp_mode p = MQ_MODE_QUEUE \<and>
      mp_name p = mqQueue info"
    by (auto simp: dp_init_def CommMgr_defs MqMgr_Init_def MqMgr_AddProducer_def HasProducer_def AddConnection_def
        MqMgr_new_def MqConnection_Conn_def MqConnection_new_def MqConnection_AddProducer_def MqProducer_Create_def Let_def)
  then have one: "CommMgr_SendMsg en ?u m (ns_mq st) = Some (0, Some (MQ_MODE_QUEUE, mqQueue info, m), ns_mq st)"
    if "env_make en \<and> env_send en" for en m
    using that by (auto simp: CommMgr_defs MqMgr_SendMsg_def producer_send_def MqProducer_SendMsg_def)
  have "post_all CommMgr_SendMsg ?u (map (\<lambda>x. (fst x, c_str (snd x))) ms) (ns_mq st) =
      Some (replicate (length ms) 0, map (\<lambda>x. (MQ_MODE_QUEUE, mqQueue info, c_str (snd x))) ms, ns_mq st)"
    using sends by (induction ms) (auto simp: one)
  from work_all_post_all [of st, unfolded st(1), OF this] st(2) show ?thesis by auto
qed

theorem healthy_node_posts_everything_witness:
  "\<exists>st'. work_all [(no_new, ''a''), (no_new, ''b'')] demo_node = Some ([True, True], st') \<and>
    posted st' = [(MQ_MODE_QUEUE, ''test'', ''a''), (MQ_MODE_QUEUE, ''test'', ''b'')]"
  using healthy_node_posts_everything [OF demo_started, of 1 1 "[(no_new, ''a''), (no_new, ''b'')]"]
  by (auto simp: dcnode_info_def NODE_INFO_new_def no_new_def demo_env_def demo_start_def c_str_def)

text \<open>The heartbeat thread as a state machine. A turn asks for a registration exactly when
  the node is not registered; after it the node counts as registered exactly when its heartbeat
  was acknowledged in this turn and it was registered or could register before. So a refused or
  lost heartbeat always leads to a new registration in the next turn, and nothing else in the
  node changes.\<close>

lemma heartbeat_state_machine:
  "SendHeartBeat_turn xread c1 c2 st = st\<lparr>ns_bregister_ok :=
     (ns_bregister_ok st \<or> RegisterClient xread c1 st) \<and> NodeServer_HeartBeatWork xread c2 st\<rparr> \<and>
   (\<not> NodeServer_HeartBeatWork xread c2 st \<longrightarrow>
     ns_bregister_ok (SendHeartBeat_turn xread c3 c4 (SendHeartBeat_turn xread c1 c2 st)) =
       (RegisterClient xread c3 st \<and> NodeServer_HeartBeatWork xread c4 st))"
proof -
  have "RegisterClient xread c (st\<lparr>ns_bregister_ok := b\<rparr>) = RegisterClient xread c st"
    "NodeServer_HeartBeatWork xread c (st\<lparr>ns_bregister_ok := b\<rparr>) = NodeServer_HeartBeatWork xread c st" for b c
    by (simp_all add: NodeServer_HeartBeatWork_def RegisterClient_def)
  then show ?thesis by (simp add: turn_effect)
qed

definition down_peer :: peer where
  "down_peer = \<lparr>peer_open = False, peer_answer = (\<lambda>_. Inl TTransportException), peer_close = True\<rparr>"

theorem heartbeat_state_machine_witness:
  "\<not> ns_bregister_ok (SendHeartBeat_turn (rthrow TTransportException) down_peer down_peer
     (SendHeartBeat_turn (rthrow TTransportException) down_peer down_peer (NodeServer_new\<lparr>ns_bregister_ok := True\<rparr>)))"
proof -
  have "\<not> NodeServer_HeartBeatWork (rthrow TTransportException) down_peer st" for st
    by (simp add: NodeServer_HeartBeatWork_def down_peer_def)
  with heartbeat_state_machine [of "rthrow TTransportException" down_peer down_peer
      "NodeServer_new\<lparr>ns_bregister_ok := True\<rparr>" down_peer down_peer] show ?thesis by blast
qed

text \<open>The loop ends only on the stop flag: with a list of observed turns it has returned
  exactly when one of them saw the flag.\<close>

lemma heartbeat_loop_ends_on_stop:
  "SendHeartBeat xread turns st = None \<longleftrightarrow> list_all (\<lambda>t. \<not> snd (snd t)) turns"
proof (induction turns arbitrary: st)
  case (Cons t turns)
  obtain c1 c2 b where "t = (c1, c2, b)" by (cases t)
  with Cons show ?case by (cases b) (simp_all add: Let_def)
qed simp

text \<open>What a start leaves behind. When the semaphore cannot be made, an error is returned at
  once. When the service thread cannot be created, everything is taken down again and an error
  is returned. When only the heartbeat thread cannot be created, the call does not return as long
  as the service thread serves, since it joins that thread.\<close>

lemma StartServer_failures:
  "(\<not> se_sem e \<longrightarrow> NodeServer_StartServer e info NodeServer_new =
      Done (SWARTZ_ERR, NodeServer_new\<lparr>ns_nodeInfo := info, ns_sem := Some False\<rparr>)) \<and>
   (se_sem e \<and> \<not> se_service e \<longrightarrow> (\<exists>st. NodeServer_StartServer e info NodeServer_new = Done (SWARTZ_ERR, st) \<and>
      ns_mq st = MqMgr_new \<and> ns_sem st = Some False \<and> \<not> ns_hThread st \<and> ns_bstop st)) \<and>
   (se_sem e \<and> se_service e \<and> \<not> se_register e \<and> \<not> se_serve_ends e \<longrightarrow>
      NodeServer_StartServer e info NodeServer_new = Blocked)"
proof -
  let ?n = "NodeServer_new\<lparr>ns_nodeInfo := info, ns_sem := Some True\<rparr>"
  have a: "NODE_INFO_assign i info = info" for i by (simp add: NODE_INFO_assign_def)
  have nf: "mgr_ok (ns_mq ?n)" "fresh_env (se_mq e) (ns_mq ?n)"
    by (simp add: new_mgr_ok) (simp add: fresh_env_def MqMgr_new_def split: option.split)
  from dp_init_ok [OF nf, of "mqIP info" "mqPort info" "mqQueue info"] obtain r st1 where
    i: "dp_init (se_mq e) (mqIP info) (mqPort info) (mqQueue info) ?n = Some (r, st1)" "mgr_ok (ns_mq st1)"
      "st1 = ?n\<lparr>dp_m_uri := dp_m_uri st1, ns_mq := ns_mq st1\<rparr>" by auto
  then have s: "ns_sem st1 = Some True" by (metis node.select_convs(5) node.surjective node.update_convs(5,8,9))
  from Fini_ok [OF i(2)] have fini: "CommMgr_Fini (ns_mq st1) = Some MqMgr_new"
    by (auto simp: CommMgr_defs MqMgr_Fini_def MqMgr_new_def)
  show ?thesis
    by (simp add: NodeServer_StartServer_def a i(1) s fini NodeServer_StopServer_def dp_uninit_def Let_def)
qed

theorem StartServer_failures_witness:
  "NodeServer_StartServer (demo_start\<lparr>se_register := False\<rparr>) dcnode_info NodeServer_new = Blocked"
  using StartServer_failures [of "demo_start\<lparr>se_register := False\<rparr>" dcnode_info] by (simp add: demo_start_def)

end
