(* ===== verification/Cluster.thy ===== *)
theory Cluster
  imports Http_Server Node_Server
begin

text \<open>
  Nodes and server put together. A peer of the network is the processor at the other end of
  the connection: the bytes of a framed call go into \<^verbatim>\<open>RegistProcessor\<close> or
  \<^verbatim>\<open>RequestProcessor\<close> over the real handlers, and what it flushes comes back. A processor
  that throws or returns \<^verbatim>\<open>false\<close> closes the connection.
\<close>

section \<open>The server as a node sees it\<close>

definition answer_of :: "(texception + byte list option) \<times> 's \<Rightarrow> texception + byte list" where
  "answer_of r = (case fst r of Inr (Some out) \<Rightarrow> Inr out | _ \<Rightarrow> Inl TTransportException)"

definition server_process ::
    "(app_error \<Rightarrow> string \<Rightarrow> writer) \<Rightarrow> int \<Rightarrow> byte list \<Rightarrow> DcServer \<Rightarrow> (texception + byte list option) \<times> DcServer" where
  "server_process xwrite now = RegistProcessor_process TBinaryProtocol xwrite (RegistHandler now)"

definition server_peer :: "(app_error \<Rightarrow> string \<Rightarrow> writer) \<Rightarrow> int \<Rightarrow> DcServer \<Rightarrow> peer" where
  "server_peer xwrite now sv = \<lparr>peer_open = True, peer_answer = (\<lambda>bs. answer_of (server_process xwrite now bs sv)),
     peer_close = True\<rparr>"

text \<open>The server after a call whose message was written (or not, when the writer threw).\<close>

definition server_after :: "(app_error \<Rightarrow> string \<Rightarrow> writer) \<Rightarrow> int \<Rightarrow> writer \<Rightarrow> DcServer \<Rightarrow> DcServer" where
  "server_after xwrite now w sv = (case w of Inl _ \<Rightarrow> sv | Inr (_, bs) \<Rightarrow> snd (server_process xwrite now bs sv))"

text \<open>
  One turn of the heartbeat thread against the server: it registers at tick \<open>t1\<close> when
  it is not registered, and sends its heartbeat at tick \<open>t2\<close> when it is by then.
\<close>

definition node_turn ::
    "(app_error \<times> string) reader \<Rightarrow> (app_error \<Rightarrow> string \<Rightarrow> writer) \<Rightarrow> int \<Rightarrow> int \<Rightarrow> node \<times> DcServer \<Rightarrow> node \<times> DcServer" where
  "node_turn xread xwrite t1 t2 = (\<lambda>(st, sv).
     let reg = RegistClient_send_registClient TBinaryProtocol (node_client_info (ns_nodeInfo st));
         beat = RegistClient_send_heartbeat TBinaryProtocol (node_heartbeat_info (ns_nodeInfo st));
         c1 = server_peer xwrite t1 sv;
         sv1 = (if ns_bregister_ok st then sv else server_after xwrite t1 reg sv);
         c2 = server_peer xwrite t2 sv1;
         sv2 = (if ns_bregister_ok st \<or> RegisterClient xread c1 st then server_after xwrite t2 beat sv1 else sv1)
     in (SendHeartBeat_turn xread c1 c2 st, sv2))"

section \<open>A node as the server sees it\<close>

text \<open>\<open>None\<close> is a node whose process went wrong.\<close>

definition node_handler :: "(MqMgr \<Rightarrow> mq_env) \<Rightarrow> string \<Rightarrow> node option \<Rightarrow> (string + bool) \<times> node option" where
  "node_handler ev msg st = (case Option.bind st (\<lambda>n. RequestHandler_ClusterWork (ev (ns_mq n)) msg n) of
     None \<Rightarrow> (Inl [], None) | Some (b, n') \<Rightarrow> (Inr b, Some n'))"

definition node_process ::
    "(app_error \<Rightarrow> string \<Rightarrow> writer) \<Rightarrow> (MqMgr \<Rightarrow> mq_env) \<Rightarrow> byte list \<Rightarrow> node option
     \<Rightarrow> (texception + byte list option) \<times> node option" where
  "node_process xwrite ev = RequestProcessor_process TBinaryProtocol xwrite (node_handler ev)"

definition node_peer :: "(app_error \<Rightarrow> string \<Rightarrow> writer) \<Rightarrow> (MqMgr \<Rightarrow> mq_env) \<Rightarrow> node \<Rightarrow> peer" where
  "node_peer xwrite ev n = \<lparr>peer_open = True, peer_answer = (\<lambda>bs. answer_of (node_process xwrite ev bs (Some n))), peer_close = True\<rparr>"

definition node_after :: "(app_error \<Rightarrow> string \<Rightarrow> writer) \<Rightarrow> (MqMgr \<Rightarrow> mq_env) \<Rightarrow> string \<Rightarrow> node \<Rightarrow> node option" where
  "node_after xwrite ev msg n = (case RequestClient_send_ClusterWork TBinaryProtocol msg of
     Inl _ \<Rightarrow> Some n | Inr (_, bs) \<Rightarrow> snd (node_process xwrite ev bs (Some n)))"

section \<open>Calls that can be written\<close>

lemma send_registClient_Inr:
  "length (NodeIp i) \<le> 2147483647 \<Longrightarrow>
     \<exists>n bs. RegistClient_send_registClient TBinaryProtocol (node_client_info i) = Inr (n, bs)"
  by (simp add: RegistClient_send_registClient_def rpc_send_def Regist_registClient_pargs_write_def tracked_write_def
      ClientInfo_write_def node_client_info_def ClientInfo_new_def wseq_def writeMessageBegin_def writeFieldBegin_def
      writeByte_def writeI16_def writeI32_def writeString_def writeFieldStop_def wreturn_def TBinaryProtocol_def)

lemma send_heartbeat_Inr:
  "length (NodeIp i) \<le> 2147483647 \<Longrightarrow>
     \<exists>n bs. RegistClient_send_heartbeat TBinaryProtocol (node_heartbeat_info i) = Inr (n, bs)"
  by (simp add: RegistClient_send_heartbeat_def rpc_send_def Regist_heartbeat_pargs_write_def tracked_write_def
      HeartBeatInfo_write_def node_heartbeat_info_def HeartBeatInfo_new_def wseq_def writeMessageBegin_def writeFieldBegin_def
      writeByte_def writeI16_def writeI32_def writeString_def writeFieldStop_def wreturn_def TBinaryProtocol_def)

lemma send_ClusterWork_Inr:
  "length msg \<le> 2147483647 \<Longrightarrow> \<exists>n bs. RequestClient_send_ClusterWork TBinaryProtocol msg = Inr (n, bs)"
  by (simp add: RequestClient_send_ClusterWork_def rpc_send_def Request_ClusterWork_pargs_write_def tracked_write_def
      wseq_def writeMessageBegin_def writeFieldBegin_def
      writeByte_def writeI16_def writeI32_def writeString_def writeFieldStop_def wreturn_def TBinaryProtocol_def)

section \<open>The three calls end to end\<close>

definition info_key :: "NODE_INFO \<Rightarrow> string \<times> int32" where
  "info_key i = (NodeIp i, word_of_int (NodePort i))"

lemma received_keys:
  "(ci_Ip (ClientInfo_received (node_client_info i)), ci_Port (ClientInfo_received (node_client_info i))) = info_key i"
  "(hb_Ip (HeartBeatInfo_received (node_heartbeat_info i)), hb_Port (HeartBeatInfo_received (node_heartbeat_info i))) = info_key i"
  by (simp_all add: ClientInfo_received_def node_client_info_def HeartBeatInfo_received_def node_heartbeat_info_def info_key_def)

lemma register_call:
  assumes "length (NodeIp (ns_nodeInfo st)) \<le> 2147483647"
  shows "RegisterClient xread (server_peer xwrite now sv) st"
    and "last_seen (server_after xwrite now
        (RegistClient_send_registClient TBinaryProtocol (node_client_info (ns_nodeInfo st))) sv) =
      (last_seen sv)(info_key (ns_nodeInfo st) \<mapsto> now)"
proof -
  let ?ci = "node_client_info (ns_nodeInfo st)"
  obtain n bs where s: "RegistClient_send_registClient TBinaryProtocol ?ci = Inr (n, bs)"
    using send_registClient_Inr [OF assms] by blast
  obtain r sv' where h: "RegisterWork (ClientInfo_received ?ci) now sv = (r, sv')"
    by (cases "RegisterWork (ClientInfo_received ?ci) now sv")
  have r: "r = RegistResult_SUCCESS" using h by (auto simp: RegisterWork_def Let_def split: prod.splits)
  have "if_registClient (RegistHandler now) (ClientInfo_received ?ci) sv = (Inr r, sv')"
    by (simp add: RegistHandler_def h)
  from registClient_call_roundtrip [where xwrite = xwrite and xread = xread, OF s this] obtain out k where
    p: "server_process xwrite now bs sv = (Inr (Some out), sv')"
      "RegistClient_recv_registClient TBinaryProtocol xread out = Inr (r, k, [])"
    unfolding server_process_def by blast
  from p s r show "RegisterClient xread (server_peer xwrite now sv) st"
    by (simp add: RegisterClient_def server_peer_def answer_of_def)
  show "last_seen (server_after xwrite now (RegistClient_send_registClient TBinaryProtocol ?ci) sv) =
      (last_seen sv)(info_key (ns_nodeInfo st) \<mapsto> now)"
    using last_seen_RegisterWork [of "ClientInfo_received ?ci" now sv] p(1) s
    by (simp add: server_after_def h received_keys)
qed

lemma heartbeat_call:
  assumes "length (NodeIp (ns_nodeInfo st)) \<le> 2147483647"
  shows "NodeServer_HeartBeatWork xread (server_peer xwrite now sv) st \<longleftrightarrow> info_key (ns_nodeInfo st) \<in> dom (last_seen sv)"
    and "last_seen (server_after xwrite now
        (RegistClient_send_heartbeat TBinaryProtocol (node_heartbeat_info (ns_nodeInfo st))) sv) =
      (if info_key (ns_nodeInfo st) \<in> dom (last_seen sv) then (last_seen sv)(info_key (ns_nodeInfo st) \<mapsto> now) else last_seen sv)"
proof -
  let ?hb = "node_heartbeat_info (ns_nodeInfo st)"
  obtain n bs where s: "RegistClient_send_heartbeat TBinaryProtocol ?hb = Inr (n, bs)"
    using send_heartbeat_Inr [OF assms] by blast
  obtain b sv' where h: "HeartBeatWork (HeartBeatInfo_received ?hb) now sv = (b, sv')"
    by (cases "HeartBeatWork (HeartBeatInfo_received ?hb) now sv")
  have "if_heartbeat (RegistHandler now) (HeartBeatInfo_received ?hb) sv = (Inr b, sv')"
    by (simp add: RegistHandler_def h)
  from heartbeat_call_roundtrip [where xwrite = xwrite and xread = xread, OF s this] obtain out k where
    p: "server_process xwrite now bs sv = (Inr (Some out), sv')"
      "RegistClient_recv_heartbeat TBinaryProtocol xread out = Inr (b, k, [])"
    unfolding server_process_def by blast
  show "NodeServer_HeartBeatWork xread (server_peer xwrite now sv) st \<longleftrightarrow> info_key (ns_nodeInfo st) \<in> dom (last_seen sv)"
    using HeartBeatWork_result [of "HeartBeatInfo_received ?hb" now sv] p s
    by (simp add: NodeServer_HeartBeatWork_def server_peer_def answer_of_def h received_keys)
  show "last_seen (server_after xwrite now (RegistClient_send_heartbeat TBinaryProtocol ?hb) sv) =
      (if info_key (ns_nodeInfo st) \<in> dom (last_seen sv) then (last_seen sv)(info_key (ns_nodeInfo st) \<mapsto> now) else last_seen sv)"
    using last_seen_HeartBeatWork [of "HeartBeatInfo_received ?hb" now sv] p(1) s
    by (simp add: server_after_def h received_keys)
qed

lemma work_call:
  assumes "length msg \<le> 2147483647" and "RequestHandler_ClusterWork (ev (ns_mq n)) msg n = Some (b, n')"
  shows "ClusterWorkProc xread (node_peer xwrite ev n) msg = b" and "node_after xwrite ev msg n = Some n'"
proof -
  obtain k bs where s: "RequestClient_send_ClusterWork TBinaryProtocol msg = Inr (k, bs)"
    using send_ClusterWork_Inr [OF assms(1)] by blast
  have "node_handler ev msg (Some n) = (Inr b, Some n')" using assms(2) by (simp add: node_handler_def)
  from ClusterWork_call_roundtrip [where xwrite = xwrite and xread = xread and iface = "node_handler ev", OF s this] obtain out j where
    p: "node_process xwrite ev bs (Some n) = (Inr (Some out), Some n')"
      "RequestClient_recv_ClusterWork TBinaryProtocol xread out = Inr (b, j, [])"
    unfolding node_process_def by blast
  show "ClusterWorkProc xread (node_peer xwrite ev n) msg = b"
    using p s by (simp add: ClusterWorkProc_def node_peer_def answer_of_def)
  show "node_after xwrite ev msg n = Some n'" using p s by (simp add: node_after_def)
qed

section \<open>A turn of the node against the server\<close>

lemma node_turn_effect:
  assumes "length (NodeIp (ns_nodeInfo st)) \<le> 2147483647" and "node_turn xread xwrite t1 t2 (st, sv) = (st', sv')"
  shows "st' = st\<lparr>ns_bregister_ok := \<not> ns_bregister_ok st \<or> info_key (ns_nodeInfo st) \<in> dom (last_seen sv)\<rparr>"
    and "last_seen sv' = (if ns_bregister_ok st' then (last_seen sv)(info_key (ns_nodeInfo st) \<mapsto> t2) else last_seen sv)"
proof -
  note calls = register_call [OF assms(1)] heartbeat_call [OF assms(1)]
  show 1: "st' = st\<lparr>ns_bregister_ok := \<not> ns_bregister_ok st \<or> info_key (ns_nodeInfo st) \<in> dom (last_seen sv)\<rparr>"
    using assms(2) by (auto simp: node_turn_def Let_def turn_effect calls split: if_splits)
  show "last_seen sv' = (if ns_bregister_ok st' then (last_seen sv)(info_key (ns_nodeInfo st) \<mapsto> t2) else last_seen sv)"
    using assms(2) unfolding 1 by (auto simp: node_turn_def Let_def calls split: if_splits)
qed

section \<open>Any bytes\<close>

text \<open>A processor over handlers that keep an invariant keeps it on every input.\<close>

lemma rpc_process_keeps:
  assumes "I st" and "\<And>args. I (snd (handler args st))"
  shows "I (snd (rpc_process p xw name args_read result_write handler seqid inp st))"
  using assms by (auto simp: rpc_process_def split: sum.splits prod.splits) (metis snd_conv)+

lemma RegistProcessor_keeps:
  assumes I: "I st" and r: "\<And>ci. I (snd (if_registClient iface ci st))" and h: "\<And>hb. I (snd (if_heartbeat iface hb st))"
  shows "I (snd (RegistProcessor_process p xw iface inp st))"
proof -
  have "I (snd (dispatchCall p xw (RegistProcessor_processMap p xw iface) fname seqid rest st))" for fname seqid rest
    using I r h
    by (auto simp: dispatchCall_def RegistProcessor_processMap_def unknown_method_def RegistProcessor_process_registClient_def
        RegistProcessor_process_heartbeat_def intro: rpc_process_keeps split: sum.splits)
  then show ?thesis
    using I by (auto simp: RegistProcessor_process_def dispatch_process_def split: sum.splits prod.splits) (metis snd_conv)+
qed

lemma wseq_throws: "wseq a b = Inl e \<Longrightarrow> a = Inl e \<or> b = Inl e"
  by (auto simp: wseq_def split: sum.splits)

lemma message_begin_not_budget: "writeMessageBegin p name ty seqid \<noteq> Inl Loop_Budget_Exhausted"
  by (auto simp: writeMessageBegin_def wseq_def writeI32_def writeString_def writeByte_def wreturn_def split: sum.splits if_splits)

lemma results_not_budget:
  "Regist_registClient_result_write r \<noteq> Inl Loop_Budget_Exhausted" "Regist_heartbeat_result_write b \<noteq> Inl Loop_Budget_Exhausted"
  unfolding Regist_registClient_result_write_def Regist_heartbeat_result_write_def
  by (auto simp: wseq_def writeFieldBegin_def writeByte_def writeI16_def writeI32_def writeBool_def writeFieldStop_def wreturn_def
      split: option.splits)

lemma rpc_process_not_budget:
  assumes xw: "\<And>t m. xw t m \<noteq> Inl Loop_Budget_Exhausted" and rd: "reader_total args_read"
    and res: "\<And>r. result_write r \<noteq> Inl Loop_Budget_Exhausted"
  shows "fst (rpc_process p xw name args_read result_write handler seqid inp st) \<noteq> Inl Loop_Budget_Exhausted"
  using rd xw res message_begin_not_budget
  by (auto simp: rpc_process_def reader_total_def split: sum.splits prod.splits dest!: wseq_throws)

lemma RegistProcessor_not_budget:
  assumes xw: "\<And>t m. xw t m \<noteq> Inl Loop_Budget_Exhausted"
  shows "fst (RegistProcessor_process p xw iface inp st) \<noteq> Inl Loop_Budget_Exhausted"
proof -
  have "reader_total (skip p (recursion_limit p) T_STRUCT)" by (rule reader_fin)
  then have "fst (unknown_method p xw fname seqid rest st) \<noteq> Inl Loop_Budget_Exhausted" for fname seqid rest
    using xw message_begin_not_budget
    by (auto simp: unknown_method_def reader_total_def split: sum.splits dest!: wseq_throws)
  note unk = this
  have "fst (rpc_process p xw ''registClient'' (Regist_registClient_args_read p) Regist_registClient_result_write h seqid rest st)
        \<noteq> Inl Loop_Budget_Exhausted"
    and "fst (rpc_process p xw ''heartbeat'' (Regist_heartbeat_args_read p) Regist_heartbeat_result_write h' seqid rest st)
        \<noteq> Inl Loop_Budget_Exhausted" for h h' seqid rest
    by (rule rpc_process_not_budget; intro xw reader_fin results_not_budget)+
  with unk have "fst (dispatchCall p xw (RegistProcessor_processMap p xw iface) fname seqid rest st) \<noteq> Inl Loop_Budget_Exhausted"
    for fname seqid rest
    by (simp add: dispatchCall_def RegistProcessor_processMap_def RegistProcessor_process_registClient_def
        RegistProcessor_process_heartbeat_def)
  moreover have "reader_total (readMessageBegin p)" by (rule reader_fin)
  ultimately show ?thesis
    by (auto simp: RegistProcessor_process_def dispatch_process_def reader_total_def split: sum.splits prod.splits) (metis fst_conv)+
qed

section \<open>A node that is up\<close>

text \<open>
  The node holds a producer for the URL of its configuration. \<open>delivers\<close>: the producer is
  connected and the client makes and sends the message.
\<close>

definition node_up :: "node \<Rightarrow> bool" where
  "node_up n \<longleftrightarrow> mgr_ok (ns_mq n) \<and>
     dp_m_uri n = dp_uri (mqIP (ns_nodeInfo n)) (mqPort (ns_nodeInfo n)) (mqQueue (ns_nodeInfo n)) \<and>
     CHR ''/'' \<notin> set (mqIP (ns_nodeInfo n)) \<and> mqQueue (ns_nodeInfo n) \<noteq> [] \<and> m_mapProcucer (ns_mq n) (dp_m_uri n) \<noteq> None"

definition delivers :: "mq_env \<Rightarrow> node \<Rightarrow> bool" where
  "delivers e n \<longleftrightarrow> (case m_mapProcucer (ns_mq n) (dp_m_uri n) of
     None \<Rightarrow> False
   | Some a \<Rightarrow> (case prods (ns_mq n) a of
       None \<Rightarrow> False | Some p \<Rightarrow> mp_session p \<noteq> None \<and> env_make e \<and> mp_producer p \<and> env_send e))"

lemma node_up_work:
  assumes "node_up n"
  shows "RequestHandler_ClusterWork e msg n = Some (True, n\<lparr>posted := posted n @
    (if delivers e n then [(MQ_MODE_QUEUE, mqQueue (ns_nodeInfo n), c_str msg)] else [])\<rparr>)"
proof -
  let ?i = "ns_nodeInfo n" and ?u = "dp_m_uri n"
  from assms obtain a where ok: "mgr_ok (ns_mq n)" and a: "m_mapProcucer (ns_mq n) ?u = Some a" by (auto simp: node_up_def)
  have u: "ParseMqUri ?u = Some (mqIP ?i @ '':'' @ show_int (mqPort ?i), mqQueue ?i, MQ_MODE_QUEUE)" "canonical ?u"
    using assms by (auto simp: node_up_def dp_uri_parses canonical_dp_uri)
  from cached_listed [OF ok u(2,1) a] obtain p where
    p: "prods (ns_mq n) a = Some p" "mp_name p = mqQueue ?i" "mp_mode p = MQ_MODE_QUEUE" by blast
  show ?thesis
    by (auto simp: RequestHandler_ClusterWork_def dp_send_message_def CommMgr_defs MqMgr_SendMsg_def a producer_send_def p
        MqProducer_SendMsg_def delivers_def)
qed

lemma demo_node_info: "ns_nodeInfo demo_node = dcnode_info"
  and demo_node_up: "node_up demo_node"
  and demo_node_delivers: "delivers (no_new (ns_mq demo_node)) demo_node"
proof -
  have u: "ParseMqUri (dp_uri ''127.0.0.1'' 61616 ''test'') = Some (''127.0.0.1'' @ '':'' @ show_int 61616, ''test'', MQ_MODE_QUEUE)"
    by (rule dp_uri_parses) simp_all
  have mq: "mgr_ok (ns_mq demo_node)"
    using node_forwards_start [OF demo_started] by simp
  have info: "ns_nodeInfo demo_node = dcnode_info"
    and rest: "dp_m_uri demo_node = dp_uri ''127.0.0.1'' 61616 ''test''"
    "m_mapProcucer (ns_mq demo_node) (dp_uri ''127.0.0.1'' 61616 ''test'') = Some 1"
    "\<exists>p. prods (ns_mq demo_node) 1 = Some p \<and> mp_session p = Some 1 \<and> mp_producer p"
    by (simp_all add: demo_node_def NodeServer_StartServer_def demo_start_def dp_init_def CommMgr_defs MqMgr_Init_def
        MqMgr_AddProducer_def dcnode_info_def NODE_INFO_new_def NODE_INFO_assign_def u HasProducer_def AddConnection_def
        MqMgr_new_def NodeServer_new_def MqConnection_Conn_def MqConnection_new_def MqConnection_AddProducer_def
        MqProducer_Create_def demo_env_def Let_def)
  from info show "ns_nodeInfo demo_node = dcnode_info" .
  from info rest mq show "node_up demo_node" "delivers (no_new (ns_mq demo_node)) demo_node"
    by (auto simp: node_up_def delivers_def dcnode_info_def NODE_INFO_new_def no_new_def demo_env_def)
qed

end
