(* ===== verification/X_Logger.thy ===== *)
theory X_Logger
  imports Dc_Prelude
begin

text \<open>
  The log wrapper \<^verbatim>\<open>xlogger.cpp\<close>: formatting into a buffer that grows until the text
  fits, and \<^verbatim>\<open>log4cxx_package\<close>, which checks its arguments and hands one line to log4cxx.
  What the C library formats and whether memory is there come from outside; log4cxx is the
  list of lines it was given.
\<close>

datatype LOG_LEVEL = LOG_TRACE | LOG_DEBUG | LOG_INFO | LOG_WARN | LOG_ERROR | LOG_FATAL

text \<open>\<^verbatim>\<open>level\<close> as the integer it is passed as; others than 0 to 5 name no constructor.\<close>

definition level_of :: "int \<Rightarrow> LOG_LEVEL option" where
  "level_of i = (if i < 0 \<or> i > 5 then None
     else Some ([LOG_TRACE, LOG_DEBUG, LOG_INFO, LOG_WARN, LOG_ERROR, LOG_FATAL] ! nat i))"

section \<open>ensure_log_complete\<close>

text \<open>
  One call of \<^verbatim>\<open>vsnprintf\<close>: the text of the format and its arguments (\<open>None\<close>: an
  encoding error), the buffer's size; the return value and the string in the buffer.
\<close>

definition vsnprintf :: "nat \<Rightarrow> string option \<Rightarrow> int \<times> string" where
  "vsnprintf sz full = (case full of
     None \<Rightarrow> (-1, [])
   | Some t \<Rightarrow> if length t \<le> 2147483647 then (int (length t), c_str (take (sz - 1) t)) else (-1, []))"

text \<open>The value of \<^verbatim>\<open>(int)uiSize\<close>.\<close>

definition as_int :: "nat \<Rightarrow> int" where
  "as_int u = (if u < 2147483648 then int u else int u - 4294967296)"

text \<open>
  The loop on what each turn sees: the text \<^verbatim>\<open>vsnprintf\<close> formats in it (the argument
  list is passed on unchanged, although a first call may have consumed it) and whether the next
  allocation succeeds. \<open>None\<close>: still in the loop when the list ends.
\<close>

fun ensure_loop :: "nat \<Rightarrow> (string option \<times> bool) list \<Rightarrow> string option" where
  "ensure_loop uiSize [] = None"
| "ensure_loop uiSize ((full, alloc) # rest) =
     (let (iNum, pcBuff) = vsnprintf uiSize full in
      if iNum > -1 \<and> iNum < as_int uiSize then Some pcBuff
      else (let uiSize' = (if iNum > -1 then nat (iNum + 1) else (uiSize * 2) mod 4294967296) in
        if \<not> alloc then Some [] else ensure_loop uiSize' rest))"

definition ensure_log_complete :: "bool \<Rightarrow> bool \<Rightarrow> (string option \<times> bool) list \<Rightarrow> string option" where
  "ensure_log_complete format alloc turns =
     (if \<not> format then Some [] else if \<not> alloc then Some [] else ensure_loop 1024 turns)"

section \<open>log_init and log4cxx_package\<close>

record xlogger =
  g_log_init :: int
  configured :: nat
  log_lines :: "(LOG_LEVEL \<times> string \<times> string) list"

definition xlogger_new :: xlogger where
  "xlogger_new = \<lparr>g_log_init = 0, configured = 0, log_lines = []\<rparr>"

definition log_init :: "xlogger \<Rightarrow> xlogger" where
  "log_init st = (if g_log_init st = 1 then st else st\<lparr>configured := Suc (configured st), g_log_init := 1\<rparr>)"

text \<open>A call: level, user, file, function, line, whether there is a format, and the formatter's turns.\<close>

record log_call =
  lc_level :: int
  lc_user :: string
  lc_file :: "string option"
  lc_function :: "string option"
  lc_line :: int
  lc_format :: bool
  lc_alloc :: bool
  lc_turns :: "(string option \<times> bool) list"

definition log4cxx_package :: "log_call \<Rightarrow> xlogger \<Rightarrow> xlogger option" where
  "log4cxx_package c st0 =
     (let st = log_init st0 in
      case level_of (lc_level c) of
        None \<Rightarrow> Some st
      | Some level \<Rightarrow> (case (lc_file c, lc_function c, lc_format c) of
          (Some file, Some function, True) \<Rightarrow>
            (let acTmp = take 28 (show_int (lc_line c)) in
             case ensure_log_complete (lc_format c) (lc_alloc c) (lc_turns c) of
               None \<Rightarrow> None
             | Some text \<Rightarrow> Some (st\<lparr>log_lines := log_lines st @
                 [(level, lc_user c, ''['' @ file @ '':'' @ acTmp @ '' '' @ function @ ''] '' @ text)]\<rparr>))
        | _ \<Rightarrow> Some st))"

section \<open>Properties\<close>

lemma first_fit:
  assumes "length t \<le> 1023"
  shows "ensure_loop 1024 ((Some t, a) # rest) = Some (c_str t)"
  using assms by (simp add: vsnprintf_def as_int_def)

lemma second_fit:
  assumes "1023 < length t" and "length t < 2147483647"
  shows "ensure_loop 1024 ((Some t, True) # (Some t, a) # rest) = Some (c_str t)"
proof -
  have "nat (int (length t) + 1) = Suc (length t)" by simp
  with assms show ?thesis by (simp add: vsnprintf_def as_int_def)
qed

text \<open>A log text is never cut: whatever the formatter makes of the format (below the 2 GB
  limit of its return value), the text is complete after at most two turns of the loop, provided
  that the second turn formats the same text and the memory is there.\<close>

lemma log_text_complete:
  assumes "length t < 2147483647"
  shows "ensure_log_complete True True ((Some t, True) # (Some t, True) # rest) = Some (c_str t)"
proof (cases "length t \<le> 1023")
  case True
  then show ?thesis by (simp add: ensure_log_complete_def first_fit del: ensure_loop.simps)
next
  case False
  with assms show ?thesis by (simp add: ensure_log_complete_def second_fit del: ensure_loop.simps)
qed

theorem log_text_complete_witness:
  "ensure_log_complete True True [(Some ''start NodeServer success!'', True), (Some ''start NodeServer success!'', True)]
     = Some (c_str ''start NodeServer success!'')"
  using log_text_complete [of "''start NodeServer success!''" "[]"] by simp

text \<open>A format the C library refuses traps the caller: as long as every call of vsnprintf
  fails and memory is there, the loop goes on, however many turns pass.\<close>

lemma refused_format_never_returns:
  "ensure_loop u (replicate n (None, True)) = None"
  by (induction n arbitrary: u) (simp_all add: vsnprintf_def Let_def)

text \<open>log4cxx is configured by the first log call and never again, whatever the calls are,
  and each call adds at most one line, at the level and for the user it names.\<close>

lemma log_calls_bounded:
  assumes "fold (\<lambda>c s. Option.bind s (log4cxx_package c)) cs (Some xlogger_new) = Some st"
  shows "configured st = (if cs = [] then 0 else 1) \<and> length (log_lines st) \<le> length cs \<and>
    (\<forall>x \<in> set (log_lines st). \<exists>c \<in> set cs. level_of (lc_level c) = Some (fst x) \<and> lc_user c = fst (snd x))"
proof -
  have "configured st = (if cs = [] then 0 else 1) \<and> g_log_init st = (if cs = [] then 0 else 1) \<and>
      length (log_lines st) \<le> length cs \<and>
      (\<forall>x \<in> set (log_lines st). \<exists>c \<in> set cs. level_of (lc_level c) = Some (fst x) \<and> lc_user c = fst (snd x))"
    using assms
  proof (induction cs arbitrary: st rule: rev_induct)
    case (snoc c cs)
    then obtain s1 where s1: "fold (\<lambda>c s. Option.bind s (log4cxx_package c)) cs (Some xlogger_new) = Some s1"
      and st: "log4cxx_package c s1 = Some st" by (auto simp: bind_eq_Some_conv)
    from snoc.IH [OF s1] st show ?case
      by (auto simp: log4cxx_package_def log_init_def Let_def split: option.splits if_splits prod.splits bool.splits; blast)
  qed (auto simp: xlogger_new_def)
  then show ?thesis by blast
qed

definition demo_call :: log_call where
  "demo_call = \<lparr>lc_level = 2, lc_user = ''dcnode'', lc_file = Some ''NodeServer.cpp'', lc_function = Some ''StartService'',
     lc_line = 164, lc_format = True, lc_alloc = True, lc_turns = [(Some ''hello'', True)]\<rparr>"

theorem log_calls_bounded_witness:
  "configured (the (Option.bind (Some xlogger_new) (log4cxx_package demo_call))) = 1"
proof -
  obtain st where st: "log4cxx_package demo_call xlogger_new = Some st"
    by (simp add: demo_call_def log4cxx_package_def level_of_def ensure_log_complete_def first_fit Let_def del: ensure_loop.simps)
  then have "fold (\<lambda>c s. Option.bind s (log4cxx_package c)) [demo_call] (Some xlogger_new) = Some st" by simp
  from log_calls_bounded [OF this] st show ?thesis by simp
qed

end
