(* ===== verification/Thrift_Transport.thy ===== *)
theory Thrift_Transport
  imports Thrift_Binary
begin

text \<open>
  The buffered transport under the protocol (\<^verbatim>\<open>TBufferTransports.h\<close>, \<^verbatim>\<open>TTransport.h\<close>):
  the fast paths of \<^verbatim>\<open>TBufferBase\<close>, which every transport of the two programs derives from,
  and the \<^verbatim>\<open>readAll\<close> loop. The slow paths are virtual and live in the Thrift library: they
  are arguments, with the behaviour the headers document as the hypotheses \<open>slow_read_ok\<close>
  and \<open>slow_borrow_ok\<close>. The lemmas show that however a peer's bytes arrive in pieces, the
  protocol reads what it would read from all of them in a row, which is how
  \<open>Thrift_Binary\<close> models it.
\<close>

section \<open>Buffers\<close>

text \<open>
  The bytes from \<^verbatim>\<open>rBase_\<close> to \<^verbatim>\<open>rBound_\<close>, those written below \<^verbatim>\<open>wBase_\<close>, the room from
  there to \<^verbatim>\<open>wBound_\<close>, and the state of the derived class.
\<close>

record 'u tbuffer =
  rbuf :: "byte list"
  wdone :: "byte list"
  wroom :: nat
  derived :: 'u

type_synonym 's read_op = "nat \<Rightarrow> 's \<Rightarrow> texception + byte list \<times> 's"

definition setReadBuffer :: "byte list \<Rightarrow> 'u tbuffer \<Rightarrow> 'u tbuffer" where
  "setReadBuffer buf st = st\<lparr>rbuf := buf\<rparr>"

definition setWriteBuffer :: "nat \<Rightarrow> 'u tbuffer \<Rightarrow> 'u tbuffer" where
  "setWriteBuffer len st = st\<lparr>wdone := [], wroom := len\<rparr>"

definition TBufferBase_read :: "'u tbuffer read_op \<Rightarrow> 'u tbuffer read_op" where
  "TBufferBase_read readSlow len st =
     (if len \<le> length (rbuf st) then Inr (take len (rbuf st), st\<lparr>rbuf := drop len (rbuf st)\<rparr>)
      else readSlow len st)"

text \<open>The loop of \<^verbatim>\<open>readAll\<close>; \<open>need\<close> is \<^verbatim>\<open>len - have\<close>.\<close>

function transport_readAll :: "'s read_op \<Rightarrow> 's read_op" where
  "transport_readAll read need st =
     (if need = 0 then Inr ([], st)
      else (case read need st of
          Inl e \<Rightarrow> Inl e
        | Inr (got, st') \<Rightarrow>
            if got = [] then Inl TTransportException
            else (case transport_readAll read (need - length got) st' of
                Inl e \<Rightarrow> Inl e | Inr (later, st'') \<Rightarrow> Inr (got @ later, st''))))"
  by pat_completeness auto
termination
  by (relation "measure (\<lambda>(read, need, st). need)") (auto simp: length_greater_0_conv [symmetric] simp del: length_greater_0_conv)

declare transport_readAll.simps [simp del]

definition TBufferBase_readAll :: "'u tbuffer read_op \<Rightarrow> 'u tbuffer read_op" where
  "TBufferBase_readAll readSlow len st =
     (if len \<le> length (rbuf st) then Inr (take len (rbuf st), st\<lparr>rbuf := drop len (rbuf st)\<rparr>)
      else transport_readAll (TBufferBase_read readSlow) len st)"

definition TBufferBase_write :: "(byte list \<Rightarrow> 'u tbuffer \<Rightarrow> texception + 'u tbuffer) \<Rightarrow> byte list \<Rightarrow> 'u tbuffer \<Rightarrow> texception + 'u tbuffer" where
  "TBufferBase_write writeSlow buf st =
     (if length buf \<le> wroom st then Inr (st\<lparr>wdone := wdone st @ buf, wroom := wroom st - length buf\<rparr>)
      else writeSlow buf st)"

text \<open>\<^verbatim>\<open>borrow\<close>: a pointer to the bytes buffered, or null.\<close>

type_synonym 'u borrow_op = "nat \<Rightarrow> 'u tbuffer \<Rightarrow> byte list option \<times> 'u tbuffer"

definition TBufferBase_borrow :: "'u borrow_op \<Rightarrow> 'u borrow_op" where
  "TBufferBase_borrow borrowSlow len st =
     (if len \<le> length (rbuf st) then (Some (rbuf st), st) else borrowSlow len st)"

definition TBufferBase_consume :: "nat \<Rightarrow> 'u tbuffer \<Rightarrow> texception + 'u tbuffer" where
  "TBufferBase_consume len st =
     (if len \<le> length (rbuf st) then Inr (st\<lparr>rbuf := drop len (rbuf st)\<rparr>) else Inl TTransportException)"

text \<open>The end of \<^verbatim>\<open>readStringBody\<close>, for a positive size.\<close>

definition read_string_bytes :: "'u borrow_op \<Rightarrow> 'u tbuffer read_op \<Rightarrow> 'u tbuffer read_op" where
  "read_string_bytes borrowSlow readSlow sz st = (case TBufferBase_borrow borrowSlow sz st of
     (Some buf, st1) \<Rightarrow> map_sum id (\<lambda>st2. (take sz buf, st2)) (TBufferBase_consume sz st1)
   | (None, st1) \<Rightarrow> TBufferBase_readAll readSlow sz st1)"

section \<open>What the slow paths promise\<close>

text \<open>All bytes still to come: those buffered, and what the derived class will deliver.\<close>

definition pending :: "('u \<Rightarrow> byte list) \<Rightarrow> 'u tbuffer \<Rightarrow> byte list" where
  "pending tail st = rbuf st @ tail (derived st)"

text \<open>
  A slow read returns at least one byte as long as there are bytes to come, at most as many as
  asked for, in order, and none at the end.
\<close>

definition slow_read_ok :: "('u \<Rightarrow> byte list) \<Rightarrow> 'u tbuffer read_op \<Rightarrow> bool" where
  "slow_read_ok tail readSlow \<longleftrightarrow> (\<forall>len st. length (rbuf st) < len \<longrightarrow>
     (\<exists>bs st'. readSlow len st = Inr (bs, st') \<and> length bs \<le> len \<and>
        pending tail st = bs @ pending tail st' \<and> (bs = [] \<longrightarrow> pending tail st = [])))"

text \<open>A slow borrow takes nothing away, and what it lends is at the front of the buffer and long enough.\<close>

definition slow_borrow_ok :: "('u \<Rightarrow> byte list) \<Rightarrow> 'u borrow_op \<Rightarrow> bool" where
  "slow_borrow_ok tail borrowSlow \<longleftrightarrow> (\<forall>len st r st'. borrowSlow len st = (r, st') \<longrightarrow>
     pending tail st' = pending tail st \<and> (\<forall>buf. r = Some buf \<longrightarrow> rbuf st' = buf \<and> len \<le> length buf))"

section \<open>Pieces do not matter\<close>

definition flat_read :: "('s \<Rightarrow> byte list) \<Rightarrow> nat \<Rightarrow> 's \<Rightarrow> texception + byte list \<times> 's \<Rightarrow> bool" where
  "flat_read pend n st r \<longleftrightarrow> (case readAll n (pend st) of
     Inl e \<Rightarrow> r = Inl e
   | Inr (bs, _, rest) \<Rightarrow> (\<exists>st'. r = Inr (bs, st') \<and> pend st' = rest))"

lemma TBufferBase_read_some:
  assumes "slow_read_ok tail readSlow"
  obtains bs st' where "TBufferBase_read readSlow len st = Inr (bs, st')" "length bs \<le> len"
    "pending tail st = bs @ pending tail st'" "bs = [] \<Longrightarrow> 0 < len \<Longrightarrow> pending tail st = []"
proof (cases "len \<le> length (rbuf st)")
  case True
  then show ?thesis
    by (intro that [of "take len (rbuf st)" "st\<lparr>rbuf := drop len (rbuf st)\<rparr>"]) (auto simp: TBufferBase_read_def pending_def)
next
  case False
  then obtain bs st' where "readSlow len st = Inr (bs, st')" "length bs \<le> len"
    "pending tail st = bs @ pending tail st'" "bs = [] \<longrightarrow> pending tail st = []"
    using assms unfolding slow_read_ok_def by (meson not_le)
  with False show ?thesis by (intro that [of bs st']) (simp_all add: TBufferBase_read_def)
qed

lemma transport_readAll_flat:
  assumes "slow_read_ok tail readSlow"
  shows "flat_read (pending tail) n st (transport_readAll (TBufferBase_read readSlow) n st)"
proof (induction n arbitrary: st rule: less_induct)
  case (less n)
  show ?case
  proof (cases "n = 0")
    case True
    then show ?thesis by (simp add: transport_readAll.simps flat_read_def readAll_def)
  next
    case False
    obtain bs st' where r: "TBufferBase_read readSlow n st = Inr (bs, st')" "length bs \<le> n"
      "pending tail st = bs @ pending tail st'" "bs = [] \<Longrightarrow> 0 < n \<Longrightarrow> pending tail st = []"
      using TBufferBase_read_some [OF assms, of n st] by metis
    show ?thesis
    proof (cases "bs = []")
      case True
      then show ?thesis using r False by (simp add: transport_readAll.simps flat_read_def readAll_def)
    next
      case bs: False
      then have "n - length bs < n" using False by (cases bs) auto
      from less.IH [OF this, of st'] r bs False show ?thesis
        by (subst transport_readAll.simps)
           (auto simp: flat_read_def readAll_def split: if_splits)
    qed
  qed
qed

lemma TBufferBase_readAll_flat:
  assumes "slow_read_ok tail readSlow"
  shows "flat_read (pending tail) n st (TBufferBase_readAll readSlow n st)"
proof (cases "n \<le> length (rbuf st)")
  case True
  then show ?thesis by (simp add: TBufferBase_readAll_def flat_read_def readAll_def pending_def)
next
  case False
  then show ?thesis using transport_readAll_flat [OF assms] by (simp add: TBufferBase_readAll_def)
qed

text \<open>C27: However the bytes of a message arrive, the protocol reads the same. Reading a number of
  bytes through the buffered transport, and reading the bytes of a string by borrowing them from
  the buffer or else by reading them, give exactly what reading from the whole remaining stream
  in one piece gives: the same bytes with the same rest to come, or the same exception when the
  stream is too short.\<close>

theorem reading_in_pieces_is_reading_at_once:
  assumes "slow_read_ok tail readSlow" and "slow_borrow_ok tail borrowSlow"
  shows "flat_read (pending tail) n st (TBufferBase_readAll readSlow n st) \<and>
    flat_read (pending tail) n st (read_string_bytes borrowSlow readSlow n st)"
proof -
  obtain r st1 where b: "TBufferBase_borrow borrowSlow n st = (r, st1)" by fastforce
  then have p: "pending tail st1 = pending tail st" "\<And>buf. r = Some buf \<Longrightarrow> rbuf st1 = buf \<and> n \<le> length buf"
    using assms(2) by (auto simp: TBufferBase_borrow_def slow_borrow_ok_def split: if_splits)
  have "flat_read (pending tail) n st (read_string_bytes borrowSlow readSlow n st)"
  proof (cases r)
    case None
    then show ?thesis using b p(1) TBufferBase_readAll_flat [OF assms(1), of n st1]
      by (simp add: read_string_bytes_def flat_read_def)
  next
    case (Some buf)
    then have "rbuf st1 = buf" "n \<le> length buf" using p(2) by auto
    then have "flat_read (pending tail) n st1 (map_sum id (\<lambda>st2. (take n buf, st2)) (TBufferBase_consume n st1))"
      by (simp add: TBufferBase_consume_def flat_read_def readAll_def pending_def)
    then show ?thesis using Some b p(1) by (simp add: read_string_bytes_def flat_read_def)
  qed
  with TBufferBase_readAll_flat [OF assms(1)] show ?thesis by blast
qed

text \<open>A derived class for the witness: the stream arrives in pieces, a slow read hands on what is left of the buffer and then one piece after the other.\<close>

fun first_piece :: "byte list list \<Rightarrow> byte list \<times> byte list list" where
  "first_piece [] = ([], [])"
| "first_piece (c # cs) = (if c = [] then first_piece cs else (c, cs))"

definition piece_readSlow :: "byte list list tbuffer read_op" where
  "piece_readSlow len st =
     (if rbuf st \<noteq> [] then Inr (rbuf st, st\<lparr>rbuf := []\<rparr>)
      else (case first_piece (derived st) of (c, cs) \<Rightarrow> Inr (take len c, st\<lparr>rbuf := drop len c, derived := cs\<rparr>)))"

lemma first_piece_concat: "first_piece cs = (c, ds) \<Longrightarrow> concat cs = c @ concat ds \<and> (c = [] \<longrightarrow> concat cs = [])"
  by (induction cs arbitrary: c) (auto split: if_splits)

lemma piece_readSlow_ok: "slow_read_ok concat piece_readSlow"
  unfolding slow_read_ok_def
proof (intro allI impI)
  fix len and st :: "byte list list tbuffer" assume len: "length (rbuf st) < len"
  obtain c cs where c: "first_piece (derived st) = (c, cs)" by fastforce
  show "\<exists>bs st'. piece_readSlow len st = Inr (bs, st') \<and> length bs \<le> len \<and>
      pending concat st = bs @ pending concat st' \<and> (bs = [] \<longrightarrow> pending concat st = [])"
    using len c first_piece_concat [OF c]
    by (cases "rbuf st = []") (auto simp: piece_readSlow_def pending_def simp del: concat_eq_Nil_conv Nil_eq_concat_conv)
qed

theorem reading_in_pieces_is_reading_at_once_witness:
  "map_sum id fst (TBufferBase_readAll piece_readSlow 4 \<lparr>rbuf = [1], wdone = [], wroom = 0, derived = [[2, 3], [], [4, 5]]\<rparr>)
     = Inr [1, 2, 3, 4 :: byte]"
proof -
  have "slow_borrow_ok concat (\<lambda>len st. (None, st))" by (simp add: slow_borrow_ok_def)
  from reading_in_pieces_is_reading_at_once [OF piece_readSlow_ok this, of 4 "\<lparr>rbuf = [1], wdone = [], wroom = 0, derived = [[2, 3], [], [4, 5]]\<rparr>"]
  show ?thesis by (auto simp: flat_read_def readAll_def pending_def)
qed

end
