(* ===== verification/Thrift_Values.thy ===== *)
theory Thrift_Values
  imports Thrift_Common
begin

text \<open>
  The writers of \<^verbatim>\<open>TBinaryProtocol.tcc\<close> that the two services do not call themselves, for
  the types a newer version of their interface may use, and what they are for: a peer that
  knows fewer fields skips the rest. A Thrift value of any type is written as a generated
  \<^verbatim>\<open>write\<close> method writes it, and \<open>skip\<close> takes exactly its bytes; so a struct is read
  the same whatever unknown fields a newer peer puts in it.
\<close>

section \<open>Writers\<close>

definition toWire64 :: "int64 \<Rightarrow> byte list" where
  "toWire64 w = map (\<lambda>i. ucast (drop_bit (8 * i) w)) [7, 6, 5, 4, 3, 2, 1, 0]"

definition writeI64 :: "int64 \<Rightarrow> writer" where
  "writeI64 i = wreturn 8 (toWire64 i)"

text \<open>A double is its 64 bits, as in \<open>readDouble\<close>.\<close>

definition writeDouble :: "int64 \<Rightarrow> writer" where
  "writeDouble bits = wreturn 8 (toWire64 bits)"

definition writeMapBegin :: "TType \<Rightarrow> TType \<Rightarrow> uint32 \<Rightarrow> writer" where
  "writeMapBegin keyType valType sz = wseqs [writeByte keyType, writeByte valType, writeI32 sz]"

definition writeListBegin :: "TType \<Rightarrow> uint32 \<Rightarrow> writer" where
  "writeListBegin elemType sz = wseqs [writeByte elemType, writeI32 sz]"

definition writeSetBegin :: "TType \<Rightarrow> uint32 \<Rightarrow> writer" where
  "writeSetBegin elemType sz = wseqs [writeByte elemType, writeI32 sz]"

lemma fromWire_toWire64 [wire_simps]: "fromWire (toWire64 w) 0 = w"
proof (rule bit_word_eqI)
  fix n assume "n < LENGTH(64)"
  then consider "n < 8" | "8 \<le> n" "n < 16" | "16 \<le> n" "n < 24" | "24 \<le> n" "n < 32"
    | "32 \<le> n" "n < 40" | "40 \<le> n" "n < 48" | "48 \<le> n" "n < 56" | "56 \<le> n" "n < 64"
    by fastforce
  then show "bit (fromWire (toWire64 w) (0 :: int64)) n = bit w n"
    by cases (auto simp: toWire64_def bit_simps)
qed

lemma length_toWire64 [simp]: "length (toWire64 i) = 8"
  by (simp add: toWire64_def)

lemma readI64_wire [wire_simps]: "readI64 (toWire64 i @ s) = Inr (i, 8, s)"
  by (simp add: readI64_def rbind_step readAll_append rreturn_def wire_simps)

lemma readDouble_wire [wire_simps]: "readDouble (toWire64 i @ s) = Inr (i, 8, s)"
  by (simp add: readDouble_def rbind_step readAll_append rreturn_def wire_simps)

lemma writer_exact_containers [writer_ok]:
  "writer_exact (writeI64 i)" "writer_exact (writeDouble i)" "writer_exact (writeMapBegin k v n)"
  "writer_exact (writeListBegin e n)" "writer_exact (writeSetBegin e n)"
  by (auto simp: writeI64_def writeDouble_def writeMapBegin_def writeListBegin_def writeSetBegin_def
      wreturn_def writer_exact_def wseq_def writeByte_def writeI32_def)

interpretation i64: wire_codec writeI64 readI64 "\<lambda>i. i"
  using writer_exact_containers(1) by unfold_locales (auto simp: writeI64_def wreturn_def wire_simps intro: reader_ok)

interpretation dbl: wire_codec writeDouble readDouble "\<lambda>i. i"
  using writer_exact_containers(2) by unfold_locales (auto simp: writeDouble_def wreturn_def wire_simps intro: reader_ok)

section \<open>Values\<close>

text \<open>
  What one can send: every type of the protocol. Containers carry the types of their elements,
  which go on the wire even when there are none.
\<close>

datatype tvalue =
    TV_Bool bool
  | TV_Byte int8
  | TV_I16 int16
  | TV_I32 int32
  | TV_I64 int64
  | TV_Double int64
  | TV_String string
  | TV_Struct "(int16 \<times> tvalue) list"
  | TV_Map TType TType "(tvalue \<times> tvalue) list"
  | TV_Set TType "tvalue list"
  | TV_List TType "tvalue list"

fun type_of :: "tvalue \<Rightarrow> TType" where
  "type_of (TV_Bool _) = T_BOOL"
| "type_of (TV_Byte _) = T_BYTE"
| "type_of (TV_I16 _) = T_I16"
| "type_of (TV_I32 _) = T_I32"
| "type_of (TV_I64 _) = T_I64"
| "type_of (TV_Double _) = T_DOUBLE"
| "type_of (TV_String _) = T_STRING"
| "type_of (TV_Struct _) = T_STRUCT"
| "type_of (TV_Map _ _ _) = T_MAP"
| "type_of (TV_Set _ _) = T_SET"
| "type_of (TV_List _ _) = T_LIST"

text \<open>How a generated \<^verbatim>\<open>write\<close> method writes a value: the size of a container as \<^verbatim>\<open>uint32_t\<close>.\<close>

fun write_value :: "tvalue \<Rightarrow> writer" where
  "write_value (TV_Bool v) = writeBool v"
| "write_value (TV_Byte v) = writeByte v"
| "write_value (TV_I16 v) = writeI16 v"
| "write_value (TV_I32 v) = writeI32 v"
| "write_value (TV_I64 v) = writeI64 v"
| "write_value (TV_Double v) = writeDouble v"
| "write_value (TV_String v) = writeString v"
| "write_value (TV_Struct fs) =
     wseqs (map (\<lambda>(fid, v). wseq (writeFieldBegin (type_of v) fid) (write_value v)) fs @ [writeFieldStop])"
| "write_value (TV_Map kt vt es) =
     wseq (writeMapBegin kt vt (of_nat (length es))) (wseqs (map (\<lambda>(k, v). wseq (write_value k) (write_value v)) es))"
| "write_value (TV_Set et es) = wseq (writeSetBegin et (of_nat (length es))) (wseqs (map write_value es))"
| "write_value (TV_List et es) = wseq (writeListBegin et (of_nat (length es))) (wseqs (map write_value es))"

fun depth_of :: "tvalue \<Rightarrow> nat" where
  "depth_of (TV_Struct fs) = Suc (foldr max (map (\<lambda>(_, v). depth_of v) fs) 0)"
| "depth_of (TV_Map _ _ es) = Suc (foldr max (map (\<lambda>(k, v). max (depth_of k) (depth_of v)) es) 0)"
| "depth_of (TV_Set _ es) = Suc (foldr max (map depth_of es) 0)"
| "depth_of (TV_List _ es) = Suc (foldr max (map depth_of es) 0)"
| "depth_of _ = 1"

text \<open>The elements of a container have the types it announces, and their number is one the reader accepts.\<close>

fun value_ok :: "tvalue \<Rightarrow> bool" where
  "value_ok (TV_Struct fs) = list_all (\<lambda>(_, v). value_ok v) fs"
| "value_ok (TV_Map kt vt es) = (length es \<le> 2147483647 \<and>
     list_all (\<lambda>(k, v). type_of k = kt \<and> type_of v = vt \<and> value_ok k \<and> value_ok v) es)"
| "value_ok (TV_Set et es) = (length es \<le> 2147483647 \<and> list_all (\<lambda>v. type_of v = et \<and> value_ok v) es)"
| "value_ok (TV_List et es) = (length es \<le> 2147483647 \<and> list_all (\<lambda>v. type_of v = et \<and> value_ok v) es)"
| "value_ok _ = True"

section \<open>Skipping\<close>

lemma wseq_Inr:
  "wseq a b = Inr (n, bs) \<longleftrightarrow> (\<exists>n1 b1 n2 b2. a = Inr (n1, b1) \<and> b = Inr (n2, b2) \<and> n = n1 + n2 \<and> bs = b1 @ b2)"
  by (auto simp: wseq_def split: sum.splits)

lemma writer_exact_write_value [writer_ok]: "writer_exact (write_value v)"
  by (induction v rule: write_value.induct) (auto intro!: writer_ok)

lemma depth_of_le:
  "foldr max (map f xs) 0 \<le> (k :: nat) \<longleftrightarrow> (\<forall>x\<in>set xs. f x \<le> k)"
  by (induction xs) auto

definition skips :: "nat \<Rightarrow> tvalue \<Rightarrow> bool" where
  "skips k v \<longleftrightarrow> (\<forall>n bs s. write_value v = Inr (n, bs) \<longrightarrow>
     (\<exists>m. skip TBinaryProtocol k (type_of v) (bs @ s) = Inr ((), m, s)))"

lemma repeat_written:
  assumes "\<forall>x\<in>set xs. \<forall>n bs s. f x = Inr (n, bs) \<longrightarrow> (\<exists>m. rd (bs @ s) = Inr ((), m, s))"
    and "wseqs (map f xs) = Inr (n, bs)"
  shows "\<exists>m. repeat_reader (length xs) rd (bs @ s) = Inr ((), m, s)"
  using assms
proof (induction xs arbitrary: n bs)
  case Nil
  then show ?case by (simp add: rreturn_def)
next
  case (Cons x xs)
  then obtain n1 b1 n2 b2 where b: "f x = Inr (n1, b1)" "wseqs (map f xs) = Inr (n2, b2)" "bs = b1 @ b2"
    by (auto simp: wseq_Inr)
  with Cons obtain m1 where "rd (b1 @ b2 @ s) = Inr ((), m1, b2 @ s)" by fastforce
  moreover from Cons b obtain m2 where "repeat_reader (length xs) rd (b2 @ s) = Inr ((), m2, s)" by fastforce
  ultimately show ?case using b by (simp add: rbind_step)
qed

lemma fields_written:
  assumes "\<forall>(fid, v)\<in>set fs. skips k v"
    and "wseqs (map (\<lambda>(fid, v). wseq (writeFieldBegin (type_of v) fid) (write_value v)) fs @ [writeFieldStop]) = Inr (n, bs)"
  shows "\<exists>m. read_fields (\<lambda>fid ftype _. skip TBinaryProtocol k ftype) () (bs @ s) = Inr ((), m, s)"
  using assms
proof (induction fs arbitrary: n bs)
  case Nil
  then show ?case by (auto simp: writeFieldStop_def writeByte_def wreturn_def wseq_Inr read_fields_stop)
next
  case (Cons f fs)
  obtain fid v where f: "f = (fid, v)" by fastforce
  with Cons.prems obtain n1 b1 n2 b2 where b: "write_value v = Inr (n1, b1)"
    "wseqs (map (\<lambda>(fid, v). wseq (writeFieldBegin (type_of v) fid) (write_value v)) fs @ [writeFieldStop]) = Inr (n2, b2)"
    "bs = type_of v # toWire16 fid @ b1 @ b2"
    by (auto simp: wseq_Inr writeFieldBegin_def writeByte_def writeI16_def wreturn_def)
  obtain m1 where "skip TBinaryProtocol k (type_of v) (b1 @ b2 @ s) = Inr ((), m1, b2 @ s)"
    using Cons.prems(1) f b(1) by (fastforce simp: skips_def)
  moreover have "\<exists>m. read_fields (\<lambda>fid ftype _. skip TBinaryProtocol k ftype) () (b2 @ s) = Inr ((), m, s)"
    using Cons b by auto
  moreover have "type_of v \<noteq> T_STOP" by (cases v) (simp_all add: ttype_defs)
  moreover have "switch_exact (\<lambda>fid ftype (_ :: unit). skip TBinaryProtocol k ftype)"
    by (simp add: switch_exact_def reader_exact_skip)
  ultimately show ?case unfolding b(3) append_Cons append_assoc by (intro read_fields_stepI)
qed

lemma checkContainerSize_small:
  "n \<le> 2147483647 \<Longrightarrow> checkContainerSize TBinaryProtocol (of_nat n) s = Inr (of_nat n, 0, s)"
  by (simp add: checkContainerSize_def of_nat_int32_bound TBinaryProtocol_def rreturn_def)

lemma read_container_begins:
  assumes "n \<le> 2147483647"
  shows "readMapBegin TBinaryProtocol (a # b # toWire32 (of_nat n) @ s) = Inr ((a, b, of_nat n), 6, s)"
    and "readSetBegin TBinaryProtocol (a # toWire32 (of_nat n) @ s) = Inr ((a, of_nat n), 5, s)"
    and "readListBegin TBinaryProtocol (a # toWire32 (of_nat n) @ s) = Inr ((a, of_nat n), 5, s)"
  by (simp_all add: readMapBegin_def readSetBegin_def readListBegin_def rbind_step readByte_wire readI32_wire
      checkContainerSize_small [OF assms] rreturn_def)

lemma skips_scalar:
  "skips (Suc k) (TV_Bool b)" "skips (Suc k) (TV_Byte i8)" "skips (Suc k) (TV_I16 i16)" "skips (Suc k) (TV_I32 i32)"
  "skips (Suc k) (TV_I64 i64)" "skips (Suc k) (TV_Double d)" "skips (Suc k) (TV_String str)"
  by (auto simp: skips_def rvoid_def rbind_step rreturn_def ttype_defs writeBool_def writeByte_def writeI16_def
      writeI32_def writeI64_def writeDouble_def writeString_Inr wreturn_def wire_simps)

lemma skips_struct: "\<forall>(fid, v)\<in>set fs. skips k v \<Longrightarrow> skips (Suc k) (TV_Struct fs)"
  using fields_written [of fs k] by (auto simp: skips_def ttype_defs)

lemma count_added:
  "\<exists>m. r = Inr (v, m, s) \<Longrightarrow> \<exists>m. (case r of Inl e \<Rightarrow> Inl e | Inr (b, n', t) \<Rightarrow> Inr (b, c + n', t)) = Inr (v, m, s)"
  by auto

lemma skips_list:
  assumes "length es \<le> 2147483647" and "\<forall>v\<in>set es. type_of v = et \<and> skips k v"
  shows "skips (Suc k) (TV_Set et es)" and "skips (Suc k) (TV_List et es)"
proof -
  have r: "\<exists>m. repeat_reader (length es) (skip TBinaryProtocol k et) (bs @ s) = Inr ((), m, s)"
    if "wseqs (map write_value es) = Inr (n, bs)" for n bs s
    using assms(2) that by (intro repeat_written [of es write_value]) (auto simp: skips_def)
  show "skips (Suc k) (TV_Set et es)"
    using assms(1) by (auto simp: skips_def ttype_defs wseq_Inr writeSetBegin_def writeByte_def writeI32_def wreturn_def
      rbind_step [where m = "readSetBegin _", OF read_container_begins(2)] of_nat_int32_bound intro!: count_added r)
  show "skips (Suc k) (TV_List et es)"
    using assms(1) by (auto simp: skips_def ttype_defs wseq_Inr writeListBegin_def writeByte_def writeI32_def wreturn_def
      rbind_step [where m = "readListBegin _", OF read_container_begins(3)] of_nat_int32_bound intro!: count_added r)
qed

lemma skips_map:
  assumes "length es \<le> 2147483647" and "\<forall>(a, b)\<in>set es. type_of a = kt \<and> type_of b = vt \<and> skips k a \<and> skips k b"
  shows "skips (Suc k) (TV_Map kt vt es)"
proof -
  let ?w = "\<lambda>(a, b). wseq (write_value a) (write_value b)"
  let ?rd = "rbind (skip TBinaryProtocol k kt) (\<lambda>_. skip TBinaryProtocol k vt)"
  have "\<forall>x\<in>set es. \<forall>n bs s. ?w x = Inr (n, bs) \<longrightarrow> (\<exists>m. ?rd (bs @ s) = Inr ((), m, s))"
  proof (clarsimp simp: wseq_Inr)
    fix a b n1 b1 n2 b2 s
    assume e: "(a, b) \<in> set es" and w: "write_value a = Inr (n1, b1)" "write_value b = Inr (n2, b2)"
    from assms(2) e have t: "type_of a = kt" "type_of b = vt" "skips k a" "skips k b" by auto
    from t(1,3) w obtain m1 where "skip TBinaryProtocol k kt (b1 @ b2 @ s) = Inr ((), m1, b2 @ s)"
      unfolding skips_def by blast
    moreover from t(2,4) w obtain m2 where "skip TBinaryProtocol k vt (b2 @ s) = Inr ((), m2, s)"
      unfolding skips_def by blast
    ultimately show "\<exists>m. ?rd (b1 @ b2 @ s) = Inr ((), m, s)" by (simp add: rbind_step)
  qed
  from repeat_written [OF this] assms(1) show ?thesis
    by (auto simp: skips_def ttype_defs wseq_Inr writeMapBegin_def writeByte_def writeI32_def wreturn_def
      rbind_step [where m = "readMapBegin _", OF read_container_begins(1)] of_nat_int32_bound intro!: count_added)
qed

lemma written_values_are_skipped: "value_ok v \<Longrightarrow> depth_of v \<le> k \<Longrightarrow> skips k v"
proof (induction v arbitrary: k rule: value_ok.induct)
  case (1 fs)
  then obtain k' where k: "k = Suc k'" by (cases k) auto
  with 1 show ?case by (fastforce simp: depth_of_le list_all_iff intro!: skips_struct)
next
  case (2 kt vt es)
  then obtain k' where k: "k = Suc k'" by (cases k) auto
  with 2 show ?case by (fastforce simp: depth_of_le list_all_iff intro!: skips_map)
next
  case (3 et es)
  then obtain k' where k: "k = Suc k'" by (cases k) auto
  with 3 show ?case by (auto simp: depth_of_le list_all_iff intro!: skips_list)
next
  case (4 et es)
  then obtain k' where k: "k = Suc k'" by (cases k) auto
  with 4 show ?case by (auto simp: depth_of_le list_all_iff intro!: skips_list)
qed (auto simp: Suc_le_eq gr0_conv_Suc intro: skips_scalar)

lemma skip_written:
  assumes "value_ok v" and "depth_of v \<le> k" and "write_value v = Inr (n, bs)"
  shows "skip TBinaryProtocol k (type_of v) (bs @ s) = Inr ((), n, s)"
  using written_values_are_skipped [OF assms(1,2)] assms(3)
  by (intro exact_read_written [OF reader_exact_skip writer_exact_write_value assms(3)]) (auto simp: skips_def)

section \<open>Unknown fields\<close>

lemma type_of_no_stop: "type_of v \<noteq> T_STOP"
  by (cases v) (simp_all add: ttype_defs)

text \<open>C26: A newer node can talk to an older server, and the reverse: in a registration record, a
  field with an identifier the reader does not know is skipped, whatever its type and however
  deep its value as far as the recursion limit goes. What is read is what would be read without the
  field, only the byte count grows by the three bytes of the field header and the bytes of the
  value. The same holds for a known field that carries a value of another type.\<close>

theorem unknown_fields_are_skipped:
  assumes "value_ok v" and "depth_of v < k" and "write_value v = Inr (n, bs)"
    and "fid = 1 \<or> fid = 3 \<Longrightarrow> type_of v \<noteq> T_STRING" and "fid = 2 \<Longrightarrow> type_of v \<noteq> T_I32"
  shows "ClientInfo_read TBinaryProtocol k o' (type_of v # toWire16 fid @ bs @ s) =
    (case ClientInfo_read TBinaryProtocol k o' s of
       Inl e \<Rightarrow> Inl e | Inr (info, m, t) \<Rightarrow> Inr (info, 3 + (n + m), t))"
proof -
  from assms(2) obtain k' where k: "k = Suc k'" "depth_of v \<le> k'" by (cases k) auto
  have "ClientInfo_field TBinaryProtocol k' fid (type_of v) o' (bs @ s) = Inr (o', n, s)"
    using assms(4,5) skip_written [OF assms(1) k(2) assms(3), of s]
    by (auto simp: ClientInfo_field_def rbind_step rreturn_def)
  from read_fields_step [OF ClientInfo_switch_exact type_of_no_stop this] show ?thesis
    by (simp add: ClientInfo_read_def tracked_read_def k)
qed

theorem unknown_fields_are_skipped_witness:
  "\<exists>n bs m info t. write_value (TV_Map T_STRING T_LIST [(TV_String ''load'', TV_List T_I64 [TV_I64 7, TV_I64 9])]) = Inr (n, bs) \<and>
     ClientInfo_read TBinaryProtocol 64 ClientInfo_new (T_MAP # toWire16 9 @ bs @ [T_STOP]) = Inr (info, m, t) \<and>
     info = ClientInfo_new \<and> t = []"
proof -
  let ?v = "TV_Map T_STRING T_LIST [(TV_String ''load'', TV_List T_I64 [TV_I64 7, TV_I64 9])]"
  obtain n bs where w: "write_value ?v = Inr (n, bs)"
    by (simp add: wseq_Inr writeMapBegin_def writeListBegin_def writeByte_def writeI32_def writeI64_def writeString_Inr wreturn_def)
  have "ClientInfo_read TBinaryProtocol 64 ClientInfo_new [T_STOP] = Inr (ClientInfo_new, 1, [])"
    by (simp add: ClientInfo_read_def tracked_read_def numeral_eq_Suc read_fields_stop)
  with unknown_fields_are_skipped [of ?v 64 n bs 9 ClientInfo_new "[T_STOP]"] w show ?thesis
    by (simp add: ttype_defs)
qed

end
