(* ===== verification/Thrift_Concurrent.thy ===== *)
theory Thrift_Concurrent
  imports Thrift_Rpc
begin

text \<open>
  The rest of the generated services (\<^verbatim>\<open>Regist.cpp\<close>, \<^verbatim>\<open>Regist.h\<close>, \<^verbatim>\<open>Request.cpp\<close>,
  \<^verbatim>\<open>Request.h\<close>): argument structs as values that write themselves, result structs that read
  themselves, the interface over several handlers, and the concurrent clients, with which
  threads share one connection. The book-keeping of the concurrent clients
  (\<^verbatim>\<open>TConcurrentClientSyncInfo\<close>) is in the Thrift library and is an argument; what the
  clients rely on is \<open>sync_ok\<close>. Threads run one turn of the receive loop at a time, in any
  order, because the loop holds the read mutex except while it waits for work.
\<close>

section \<open>Structs in the other direction\<close>

definition Regist_registClient_args_write :: "tproto \<Rightarrow> Regist_registClient_args \<Rightarrow> writer" where
  "Regist_registClient_args_write p a = tracked_write (recursion_limit p) (\<lambda>k.
     wseqs [writeFieldBegin T_STRUCT 1, ClientInfo_write k (rca_clientInfo a), writeFieldStop])"

definition Regist_heartbeat_args_write :: "tproto \<Rightarrow> Regist_heartbeat_args \<Rightarrow> writer" where
  "Regist_heartbeat_args_write p a = tracked_write (recursion_limit p) (\<lambda>k.
     wseqs [writeFieldBegin T_STRUCT 1, HeartBeatInfo_write k (rha_heartbeatInfo a), writeFieldStop])"

definition Request_ClusterWork_args_write :: "tproto \<Rightarrow> Request_ClusterWork_args \<Rightarrow> writer" where
  "Request_ClusterWork_args_write p a = tracked_write (recursion_limit p) (\<lambda>_.
     wseqs [writeFieldBegin T_STRING 1, writeString (rcw_msg a), writeFieldStop])"

text \<open>A result reads into itself: what it held stays when the field is absent.\<close>

definition Regist_registClient_result_read :: "tproto \<Rightarrow> RegistResult option \<Rightarrow> RegistResult option reader" where
  "Regist_registClient_result_read p r = tracked_read (recursion_limit p)
     (\<lambda>k. read_fields (Regist_registClient_presult_field p k) r)"

definition Regist_heartbeat_result_read :: "tproto \<Rightarrow> bool option \<Rightarrow> bool option reader" where
  "Regist_heartbeat_result_read p r = tracked_read (recursion_limit p)
     (\<lambda>k. read_fields (Regist_heartbeat_presult_field p k) r)"

definition Request_ClusterWork_result_read :: "tproto \<Rightarrow> bool option \<Rightarrow> bool option reader" where
  "Request_ClusterWork_result_read p r = tracked_read (recursion_limit p)
     (\<lambda>k. read_fields (Request_ClusterWork_presult_field p k) r)"

lemma args_write_as_pargs:
  "Regist_registClient_args_write p a = Regist_registClient_pargs_write p (rca_clientInfo a)"
  "Regist_heartbeat_args_write p b = Regist_heartbeat_pargs_write p (rha_heartbeatInfo b)"
  "Request_ClusterWork_args_write p c = Request_ClusterWork_pargs_write p (rcw_msg c)"
  by (simp_all add: Regist_registClient_args_write_def Regist_registClient_pargs_write_def
      Regist_heartbeat_args_write_def Regist_heartbeat_pargs_write_def
      Request_ClusterWork_args_write_def Request_ClusterWork_pargs_write_def)

lemma result_read_as_presult:
  "Regist_registClient_result_read p None = Regist_registClient_presult_read p"
  "Regist_heartbeat_result_read p None = Regist_heartbeat_presult_read p"
  "Request_ClusterWork_result_read p None = Request_ClusterWork_presult_read p"
  by (simp_all add: Regist_registClient_result_read_def Regist_registClient_presult_read_def
      Regist_heartbeat_result_read_def Regist_heartbeat_presult_read_def
      Request_ClusterWork_result_read_def Request_ClusterWork_presult_read_def)

section \<open>Several handlers behind one interface\<close>

text \<open>
  The loop of the \<^verbatim>\<open>Multiface\<close> methods: all handlers run in order, the last one's value is
  returned, and an exception ends the call. With no handler \<^verbatim>\<open>sz - 1\<close> wraps around and the
  vector is read out of range, \<open>None\<close>.
\<close>

fun multiface_call :: "('a \<Rightarrow> 's \<Rightarrow> (string + 'r) \<times> 's) list \<Rightarrow> 'a \<Rightarrow> 's \<Rightarrow> ((string + 'r) \<times> 's) option" where
  "multiface_call [] a st = None"
| "multiface_call [h] a st = Some (h a st)"
| "multiface_call (h # hs) a st = (case h a st of
     (Inl what, st') \<Rightarrow> Some (Inl what, st') | (Inr _, st') \<Rightarrow> multiface_call hs a st')"

definition RegistMultiface_registClient ::
    "'s RegistIf list \<Rightarrow> ClientInfo \<Rightarrow> 's \<Rightarrow> ((string + RegistResult) \<times> 's) option" where
  "RegistMultiface_registClient ifaces = multiface_call (map if_registClient ifaces)"

definition RegistMultiface_heartbeat ::
    "'s RegistIf list \<Rightarrow> HeartBeatInfo \<Rightarrow> 's \<Rightarrow> ((string + bool) \<times> 's) option" where
  "RegistMultiface_heartbeat ifaces = multiface_call (map if_heartbeat ifaces)"

definition RequestMultiface_ClusterWork ::
    "(string \<Rightarrow> 's \<Rightarrow> (string + bool) \<times> 's) list \<Rightarrow> string \<Rightarrow> 's \<Rightarrow> ((string + bool) \<times> 's) option" where
  "RequestMultiface_ClusterWork ifaces = multiface_call ifaces"

lemma multiface_call_all:
  assumes "\<forall>h\<in>set hs. \<forall>s. \<exists>r. fst (h a s) = Inr r"
  shows "multiface_call (hs @ [h]) a st = Some (h a (fold (\<lambda>h s. snd (h a s)) hs st))"
  using assms
proof (induction hs arbitrary: st)
  case (Cons h' hs)
  then obtain r where "fst (h' a st) = Inr r" by fastforce
  with Cons show ?case by (cases hs) (auto split: prod.splits)
qed simp

section \<open>Concurrent clients\<close>

type_synonym header = "string \<times> TMessageType \<times> int32"

record 'y sync_info =
  generateSeqId :: "'y \<Rightarrow> texception + int32 \<times> 'y"
  getPending :: "'y \<Rightarrow> texception + header option \<times> 'y"
  updatePending :: "header \<Rightarrow> 'y \<Rightarrow> 'y"

text \<open>Sending: a fresh sequence number, then the message under the write mutex.\<close>

definition concurrent_send ::
    "'y sync_info \<Rightarrow> tproto \<Rightarrow> string \<Rightarrow> ('a \<Rightarrow> writer) \<Rightarrow> 'a \<Rightarrow> 'y \<Rightarrow> texception + int32 \<times> byte list \<times> 'y" where
  "concurrent_send S p name pargs_write a y = (case generateSeqId S y of
     Inl e \<Rightarrow> Inl e
   | Inr (cseqid, y') \<Rightarrow> (case wseqs [writeMessageBegin p name T_CALL cseqid, pargs_write a] of
         Inl e \<Rightarrow> Inl e | Inr (_, bs) \<Rightarrow> Inr (cseqid, bs, y')))"

text \<open>
  One turn of the receive loop. \<open>Inl\<close> is an exception that leaves without a commit: the
  connection is in a bad state. \<open>Not_Mine\<close> hands the header over and waits for work.
\<close>

datatype 'r recv_out = Returned 'r | App_Exception app_error string | Not_Mine

definition recv_mine ::
    "tproto \<Rightarrow> (app_error \<times> string) reader \<Rightarrow> string \<Rightarrow> 'r option reader \<Rightarrow> string \<Rightarrow> TMessageType
     \<Rightarrow> 'r recv_out reader" where
  "recv_mine p xread name presult_read fname mtype =
     (if mtype = T_EXCEPTION then rbind xread (\<lambda>(t, m). rreturn (App_Exception t m))
      else rbind (if mtype \<noteq> T_REPLY then skip p (recursion_limit p) T_STRUCT else rreturn ()) (\<lambda>_.
        if fname \<noteq> name
        then rbind (skip p (recursion_limit p) T_STRUCT) (\<lambda>_. rthrow (TProtocolException INVALID_DATA))
        else rbind presult_read (\<lambda>result. case result of
            Some v \<Rightarrow> rreturn (Returned v)
          | None \<Rightarrow> rthrow (TApplicationException MISSING_RESULT (name @ '' failed: unknown result'')))))"

definition recv_header ::
    "'y sync_info \<Rightarrow> tproto \<Rightarrow> (app_error \<times> string) reader \<Rightarrow> string \<Rightarrow> 'r option reader \<Rightarrow> int32
     \<Rightarrow> header \<Rightarrow> 'y \<Rightarrow> byte list \<Rightarrow> texception + 'r recv_out \<times> 'y \<times> byte list" where
  "recv_header S p xread name presult_read seqid h y inp = (case h of (fname, mtype, rseqid) \<Rightarrow>
     if seqid = rseqid then
       (case recv_mine p xread name presult_read fname mtype inp of
          Inl e \<Rightarrow> Inl e | Inr (r, _, rest) \<Rightarrow> Inr (r, y, rest))
     else Inr (Not_Mine, updatePending S h y, inp))"

definition recv_turn ::
    "'y sync_info \<Rightarrow> tproto \<Rightarrow> (app_error \<times> string) reader \<Rightarrow> string \<Rightarrow> 'r option reader \<Rightarrow> int32
     \<Rightarrow> 'y \<Rightarrow> byte list \<Rightarrow> texception + 'r recv_out \<times> 'y \<times> byte list" where
  "recv_turn S p xread name presult_read seqid y inp = (case getPending S y of
     Inl e \<Rightarrow> Inl e
   | Inr (Some h, y') \<Rightarrow> recv_header S p xread name presult_read seqid h y' inp
   | Inr (None, y') \<Rightarrow> (case readMessageBegin p inp of
         Inl e \<Rightarrow> Inl e
       | Inr (h, _, rest) \<Rightarrow> recv_header S p xread name presult_read seqid h y' rest))"

definition RegistConcurrentClient_send_registClient ::
    "'y sync_info \<Rightarrow> tproto \<Rightarrow> ClientInfo \<Rightarrow> 'y \<Rightarrow> texception + int32 \<times> byte list \<times> 'y" where
  "RegistConcurrentClient_send_registClient S p = concurrent_send S p ''registClient'' (Regist_registClient_pargs_write p)"

definition RegistConcurrentClient_recv_registClient ::
    "'y sync_info \<Rightarrow> tproto \<Rightarrow> (app_error \<times> string) reader \<Rightarrow> int32 \<Rightarrow> 'y \<Rightarrow> byte list
     \<Rightarrow> texception + RegistResult recv_out \<times> 'y \<times> byte list" where
  "RegistConcurrentClient_recv_registClient S p xread =
     recv_turn S p xread ''registClient'' (Regist_registClient_presult_read p)"

definition RegistConcurrentClient_send_heartbeat ::
    "'y sync_info \<Rightarrow> tproto \<Rightarrow> HeartBeatInfo \<Rightarrow> 'y \<Rightarrow> texception + int32 \<times> byte list \<times> 'y" where
  "RegistConcurrentClient_send_heartbeat S p = concurrent_send S p ''heartbeat'' (Regist_heartbeat_pargs_write p)"

definition RegistConcurrentClient_recv_heartbeat ::
    "'y sync_info \<Rightarrow> tproto \<Rightarrow> (app_error \<times> string) reader \<Rightarrow> int32 \<Rightarrow> 'y \<Rightarrow> byte list
     \<Rightarrow> texception + bool recv_out \<times> 'y \<times> byte list" where
  "RegistConcurrentClient_recv_heartbeat S p xread =
     recv_turn S p xread ''heartbeat'' (Regist_heartbeat_presult_read p)"

definition RequestConcurrentClient_send_ClusterWork ::
    "'y sync_info \<Rightarrow> tproto \<Rightarrow> string \<Rightarrow> 'y \<Rightarrow> texception + int32 \<times> byte list \<times> 'y" where
  "RequestConcurrentClient_send_ClusterWork S p = concurrent_send S p ''ClusterWork'' (Request_ClusterWork_pargs_write p)"

definition RequestConcurrentClient_recv_ClusterWork ::
    "'y sync_info \<Rightarrow> tproto \<Rightarrow> (app_error \<times> string) reader \<Rightarrow> int32 \<Rightarrow> 'y \<Rightarrow> byte list
     \<Rightarrow> texception + bool recv_out \<times> 'y \<times> byte list" where
  "RequestConcurrentClient_recv_ClusterWork S p xread =
     recv_turn S p xread ''ClusterWork'' (Request_ClusterWork_presult_read p)"

section \<open>Threads sharing a connection\<close>

datatype regist_reply = Regist_Reply RegistResult | Beat_Reply bool

datatype regist_method = Call_registClient | Call_heartbeat

datatype thread_state = Calling regist_method | Got regist_reply | Threw app_error string | Broke texception

record 'y connection =
  c_sync :: 'y
  c_input :: "byte list"
  c_threads :: "int32 \<rightharpoonup> thread_state"

text \<open>A thread is named by the sequence number of its call. It runs one turn; a thread that is done does nothing.\<close>

definition finish_turn ::
    "('r \<Rightarrow> regist_reply) \<Rightarrow> int32 \<Rightarrow> texception + 'r recv_out \<times> 'y \<times> byte list \<Rightarrow> 'y connection \<Rightarrow> 'y connection" where
  "finish_turn f i r s = (case r of
     Inl e \<Rightarrow> s\<lparr>c_threads := (c_threads s)(i \<mapsto> Broke e)\<rparr>
   | Inr (Returned v, y, inp) \<Rightarrow> s\<lparr>c_sync := y, c_input := inp, c_threads := (c_threads s)(i \<mapsto> Got (f v))\<rparr>
   | Inr (App_Exception t m, y, inp) \<Rightarrow> s\<lparr>c_sync := y, c_input := inp, c_threads := (c_threads s)(i \<mapsto> Threw t m)\<rparr>
   | Inr (Not_Mine, y, inp) \<Rightarrow> s\<lparr>c_sync := y, c_input := inp\<rparr>)"

definition conn_turn ::
    "'y sync_info \<Rightarrow> (app_error \<times> string) reader \<Rightarrow> int32 \<Rightarrow> 'y connection \<Rightarrow> 'y connection" where
  "conn_turn S xread i s = (case c_threads s i of
     Some (Calling Call_registClient) \<Rightarrow> finish_turn Regist_Reply i
       (RegistConcurrentClient_recv_registClient S TBinaryProtocol xread i (c_sync s) (c_input s)) s
   | Some (Calling Call_heartbeat) \<Rightarrow> finish_turn Beat_Reply i
       (RegistConcurrentClient_recv_heartbeat S TBinaryProtocol xread i (c_sync s) (c_input s)) s
   | _ \<Rightarrow> s)"

text \<open>What the clients rely on: one pending header, taken by whoever looks next.\<close>

definition sync_ok :: "'y sync_info \<Rightarrow> ('y \<Rightarrow> header option) \<Rightarrow> bool" where
  "sync_ok S pend \<longleftrightarrow> (\<forall>y. \<exists>y'. getPending S y = Inr (pend y, y') \<and> pend y' = None) \<and>
     (\<forall>h y. pend (updatePending S h y) = Some h)"

text \<open>The reply a processor writes for a call.\<close>

fun method_of :: "regist_reply \<Rightarrow> regist_method" where
  "method_of (Regist_Reply _) = Call_registClient"
| "method_of (Beat_Reply _) = Call_heartbeat"

fun method_name :: "regist_method \<Rightarrow> string" where
  "method_name Call_registClient = ''registClient''"
| "method_name Call_heartbeat = ''heartbeat''"

fun result_bytes :: "regist_reply \<Rightarrow> writer" where
  "result_bytes (Regist_Reply r) = Regist_registClient_result_write (Some r)"
| "result_bytes (Beat_Reply b) = Regist_heartbeat_result_write (Some b)"

definition reply_message :: "int32 \<times> regist_reply \<Rightarrow> writer" where
  "reply_message = (\<lambda>(seqid, v). wseqs [writeMessageBegin TBinaryProtocol (method_name (method_of v)) T_REPLY seqid, result_bytes v])"

definition written :: "writer \<Rightarrow> byte list" where
  "written w = (case w of Inl _ \<Rightarrow> [] | Inr (_, bs) \<Rightarrow> bs)"

lemma method_name_short: "length (method_name c) \<le> 2147483647"
  by (cases c) simp_all

lemma result_bytes_ok: "\<exists>n. result_bytes v = Inr (n, written (result_bytes v))"
  using result_writable(1) [of "case v of Regist_Reply r \<Rightarrow> r"] result_writable(2) [of "case v of Beat_Reply b \<Rightarrow> b"]
  by (cases v) (auto simp: written_def)

lemma reply_message_header:
  "readMessageBegin TBinaryProtocol (written (reply_message (i, v)) @ s) =
     Inr ((method_name (method_of v), T_REPLY, i), 12 + of_nat (length (method_name (method_of v))), written (result_bytes v) @ s)"
proof -
  let ?name = "method_name (method_of v)"
  obtain n where r: "result_bytes v = Inr (n, written (result_bytes v))" using result_bytes_ok by blast
  have st: "strict_write TBinaryProtocol" by (simp add: TBinaryProtocol_def)
  have h: "writeMessageBegin TBinaryProtocol ?name T_REPLY i = Inr (12 + of_nat (length ?name),
      toWire32 (VERSION_1 OR T_REPLY) @ toWire32 (of_nat (length ?name)) @ map byte_of_char ?name @ toWire32 i)"
    by (simp add: writeMessageBegin_Inr [OF st] method_name_short)
  have "written (reply_message (i, v)) = toWire32 (VERSION_1 OR T_REPLY) @ toWire32 (of_nat (length ?name)) @
      map byte_of_char ?name @ toWire32 i @ written (result_bytes v)"
    unfolding reply_message_def prod.case wseqs.simps h by (subst r) (simp add: written_def wseq_def)
  then show ?thesis
    using readMessageBegin_wire [of TBinaryProtocol ?name T_REPLY i "written (result_bytes v) @ s"] method_name_short [of "method_of v"]
    by simp
qed

text \<open>The next message is the reply \<open>v\<close> to \<open>i\<close>, still unread or with its header already read.\<close>

definition next_is :: "('y \<Rightarrow> header option) \<Rightarrow> int32 \<Rightarrow> regist_reply \<Rightarrow> byte list \<Rightarrow> 'y connection \<Rightarrow> bool" where
  "next_is pend i v rest s \<longleftrightarrow>
     pend (c_sync s) = None \<and> c_input s = written (reply_message (i, v)) @ rest \<or>
     pend (c_sync s) = Some (method_name (method_of v), T_REPLY, i) \<and> c_input s = written (result_bytes v) @ rest"

lemma recv_turn_header:
  assumes "sync_ok S pend" and "next_is pend i v rest s"
  obtains y where "pend y = None" "recv_turn S TBinaryProtocol xread name rd j (c_sync s) (c_input s) =
    recv_header S TBinaryProtocol xread name rd j (method_name (method_of v), T_REPLY, i) y (written (result_bytes v) @ rest)"
proof -
  from assms(1) obtain y where y: "getPending S (c_sync s) = Inr (pend (c_sync s), y)" "pend y = None"
    unfolding sync_ok_def by blast
  from assms(2) y(1) have "recv_turn S TBinaryProtocol xread name rd j (c_sync s) (c_input s) =
    recv_header S TBinaryProtocol xread name rd j (method_name (method_of v), T_REPLY, i) y (written (result_bytes v) @ rest)"
    by (auto simp: next_is_def recv_turn_def reply_message_header)
  with y(2) show thesis by (rule that)
qed

lemma turn_mine:
  assumes S: "sync_ok S pend" and n: "next_is pend i v rest s" and c: "c_threads s i = Some (Calling (method_of v))"
  shows "\<exists>y. pend y = None \<and> conn_turn S xread i s =
    s\<lparr>c_sync := y, c_input := rest, c_threads := (c_threads s)(i \<mapsto> Got v)\<rparr>"
proof (cases v)
  case (Regist_Reply r)
  obtain y where y: "pend y = None" "RegistConcurrentClient_recv_registClient S TBinaryProtocol xread i (c_sync s) (c_input s) =
    recv_header S TBinaryProtocol xread ''registClient'' (Regist_registClient_presult_read TBinaryProtocol) i
      (method_name (method_of v), T_REPLY, i) y (written (result_bytes v) @ rest)"
    unfolding RegistConcurrentClient_recv_registClient_def by (rule recv_turn_header [OF S n])
  obtain m where "Regist_registClient_result_write (Some r) = Inr (m, written (result_bytes v))"
    using result_bytes_ok [of v] Regist_Reply by auto
  from registClient_rpc.res.read_written [OF this, of rest] y c Regist_Reply show ?thesis
    by (auto simp: conn_turn_def recv_header_def recv_mine_def rbind_step rreturn_def finish_turn_def tmessage_defs)
next
  case (Beat_Reply b)
  obtain y where y: "pend y = None" "RegistConcurrentClient_recv_heartbeat S TBinaryProtocol xread i (c_sync s) (c_input s) =
    recv_header S TBinaryProtocol xread ''heartbeat'' (Regist_heartbeat_presult_read TBinaryProtocol) i
      (method_name (method_of v), T_REPLY, i) y (written (result_bytes v) @ rest)"
    unfolding RegistConcurrentClient_recv_heartbeat_def by (rule recv_turn_header [OF S n])
  obtain m where "Regist_heartbeat_result_write (Some b) = Inr (m, written (result_bytes v))"
    using result_bytes_ok [of v] Beat_Reply by auto
  from heartbeat_rpc.res.read_written [OF this, of rest] y c Beat_Reply show ?thesis
    by (auto simp: conn_turn_def recv_header_def recv_mine_def rbind_step rreturn_def finish_turn_def tmessage_defs)
qed

lemma turn_other:
  assumes S: "sync_ok S pend" and n: "next_is pend i v rest s" and j: "j \<noteq> i"
  shows "next_is pend i v rest (conn_turn S xread j s) \<and> c_threads (conn_turn S xread j s) = c_threads s"
proof -
  have h: "\<exists>y. pend y = Some (method_name (method_of v), T_REPLY, i) \<and>
      recv_turn S TBinaryProtocol xread name rd j (c_sync s) (c_input s) = Inr (Not_Mine, y, written (result_bytes v) @ rest)"
    for name and rd :: "'r option reader"
  proof -
    obtain y where "recv_turn S TBinaryProtocol xread name rd j (c_sync s) (c_input s) =
      recv_header S TBinaryProtocol xread name rd j (method_name (method_of v), T_REPLY, i) y (written (result_bytes v) @ rest)"
      by (rule recv_turn_header [OF S n])
    with S j show ?thesis by (auto simp: recv_header_def sync_ok_def)
  qed
  show ?thesis
    using n h [of "''registClient''" "Regist_registClient_presult_read TBinaryProtocol"]
      h [of "''heartbeat''" "Regist_heartbeat_presult_read TBinaryProtocol"]
    by (auto simp: conn_turn_def RegistConcurrentClient_recv_registClient_def RegistConcurrentClient_recv_heartbeat_def
        finish_turn_def next_is_def split: option.splits thread_state.splits regist_method.splits)
qed

text \<open>The outstanding calls in the order of their replies, and any schedule of turns.\<close>

definition conn_inv :: "('y \<Rightarrow> header option) \<Rightarrow> (int32 \<times> regist_reply) list \<Rightarrow> 'y connection \<Rightarrow> bool" where
  "conn_inv pend rs s \<longleftrightarrow> distinct (map fst rs) \<and>
     (\<forall>(i, v)\<in>set rs. c_threads s i = Some (Calling (method_of v))) \<and>
     (\<forall>i c. c_threads s i = Some (Calling c) \<longrightarrow> i \<in> fst ` set rs) \<and>
     (case rs of [] \<Rightarrow> True | (i, v) # rs' \<Rightarrow> next_is pend i v (concat (map (\<lambda>r. written (reply_message r)) rs')) s)"

definition conn_run :: "'y sync_info \<Rightarrow> (app_error \<times> string) reader \<Rightarrow> int32 list \<Rightarrow> 'y connection \<Rightarrow> 'y connection" where
  "conn_run S xread sched s = fold (conn_turn S xread) sched s"

lemma conn_invI:
  assumes "distinct (map fst rs)" and "\<And>i v. (i, v) \<in> set rs \<Longrightarrow> c_threads s i = Some (Calling (method_of v))"
    and "\<And>i c. c_threads s i = Some (Calling c) \<Longrightarrow> i \<in> fst ` set rs"
    and "pend (c_sync s) = None" and "c_input s = concat (map (\<lambda>r. written (reply_message r)) rs)"
  shows "conn_inv pend rs s"
  using assms by (auto simp: conn_inv_def next_is_def split: list.splits)

lemma conn_turn_idle: "\<forall>c. c_threads s j \<noteq> Some (Calling c) \<Longrightarrow> conn_turn S xread j s = s"
  by (auto simp: conn_turn_def split: option.splits thread_state.splits)

lemma conn_inv_turn:
  assumes S: "sync_ok S pend" and inv: "conn_inv pend rs s"
  obtains "conn_inv pend rs (conn_turn S xread j s)" "c_threads (conn_turn S xread j s) = c_threads s"
      "rs \<noteq> [] \<longrightarrow> fst (hd rs) \<noteq> j"
    | v rs' where "rs = (j, v) # rs'" "conn_inv pend rs' (conn_turn S xread j s)"
      "c_threads (conn_turn S xread j s) = (c_threads s)(j \<mapsto> Got v)"
proof (cases rs)
  case Nil
  then have "conn_turn S xread j s = s" using inv by (intro conn_turn_idle) (auto simp: conn_inv_def)
  with inv Nil show thesis by (intro that(1)) simp_all
next
  case (Cons r rs')
  obtain i v where r: "r = (i, v)" by fastforce
  let ?rest = "concat (map (\<lambda>r. written (reply_message r)) rs')"
  have n: "next_is pend i v ?rest s" and c: "c_threads s i = Some (Calling (method_of v))" using inv Cons r by (auto simp: conn_inv_def)
  show thesis
  proof (cases "j = i")
    case True
    from turn_mine [OF S n c, of xread] obtain y where "pend y = None"
      and t: "conn_turn S xread i s = s\<lparr>c_sync := y, c_input := ?rest, c_threads := (c_threads s)(i \<mapsto> Got v)\<rparr>" by blast
    moreover have d: "distinct (map fst rs')" "i \<notin> fst ` set rs'"
      and w: "\<And>j u. (j, u) \<in> set rs' \<Longrightarrow> c_threads s j = Some (Calling (method_of u))"
      and o: "\<And>j c. c_threads s j = Some (Calling c) \<Longrightarrow> j = i \<or> j \<in> fst ` set rs'"
      using inv Cons r by (auto simp: conn_inv_def)
    moreover have "j \<noteq> i" if "(j, u) \<in> set rs'" for j u using d(2) that by force
    ultimately have "conn_inv pend rs' (conn_turn S xread i s)"
      by (intro conn_invI) (auto split: if_splits dest: o)
    with t show thesis using True Cons r by (intro that(2)) auto
  next
    case False
    from turn_other [OF S n False] have "next_is pend i v ?rest (conn_turn S xread j s)"
      "c_threads (conn_turn S xread j s) = c_threads s" by auto
    with inv Cons r False show thesis by (intro that(1)) (auto simp: conn_inv_def)
  qed
qed

lemma conn_inv_run:
  assumes S: "sync_ok S pend"
  shows "conn_inv pend rs s \<Longrightarrow> \<exists>served rs'. rs = served @ rs' \<and> conn_inv pend rs' (conn_run S xread sched s) \<and>
     (\<forall>(i, v)\<in>set served. c_threads (conn_run S xread sched s) i = Some (Got v)) \<and>
     (\<forall>i. i \<notin> fst ` set rs \<longrightarrow> c_threads (conn_run S xread sched s) i = c_threads s i) \<and>
     (rs \<noteq> [] \<and> fst (hd rs) \<in> set sched \<longrightarrow> served \<noteq> [])"
proof (induction sched arbitrary: rs s)
  case Nil
  then show ?case by (intro exI [of _ "[]"] exI [of _ rs]) (simp add: conn_run_def)
next
  case (Cons j sched)
  have run: "conn_run S xread (j # sched) s = conn_run S xread sched (conn_turn S xread j s)" by (simp add: conn_run_def)
  from S Cons.prems show ?case
  proof (cases rule: conn_inv_turn [where j = j and xread = xread])
    case 1
    from Cons.IH [OF 1(1)] show ?thesis unfolding run using 1(2,3) by auto
  next
    case (2 v rs')
    from Cons.IH [OF 2(2)] obtain served rs'' where h: "rs' = served @ rs''"
      "conn_inv pend rs'' (conn_run S xread sched (conn_turn S xread j s))"
      "\<forall>(i, v)\<in>set served. c_threads (conn_run S xread sched (conn_turn S xread j s)) i = Some (Got v)"
      "\<forall>i. i \<notin> fst ` set rs' \<longrightarrow> c_threads (conn_run S xread sched (conn_turn S xread j s)) i = c_threads (conn_turn S xread j s) i"
      by blast
    have "j \<notin> fst ` set rs'" using Cons.prems 2(1) by (auto simp: conn_inv_def)
    with h 2 show ?thesis unfolding run by (intro exI [of _ "(j, v) # served"] exI [of _ rs'']) auto
  qed
qed

lemma conn_run_append: "conn_run S xread (a @ b) s = conn_run S xread b (conn_run S xread a s)"
  by (simp add: conn_run_def)

lemma conn_run_rounds:
  assumes S: "sync_ok S pend"
  shows "conn_inv pend rs s \<Longrightarrow> length rs \<le> length rounds \<Longrightarrow> \<forall>r\<in>set rounds. fst ` set rs \<subseteq> set r \<Longrightarrow>
    \<forall>(i, v)\<in>set rs. c_threads (conn_run S xread (concat rounds) s) i = Some (Got v)"
proof (induction rounds arbitrary: rs s)
  case (Cons r rounds)
  let ?s = "conn_run S xread r s"
  from conn_inv_run [OF S Cons.prems(1), of xread r] obtain served rs' where h: "rs = served @ rs'" "conn_inv pend rs' ?s"
    "\<forall>(i, v)\<in>set served. c_threads ?s i = Some (Got v)" "rs \<noteq> [] \<and> fst (hd rs) \<in> set r \<longrightarrow> served \<noteq> []" by blast
  have "rs \<noteq> [] \<longrightarrow> served \<noteq> []" using h(4) Cons.prems(3) by (cases rs) auto
  then have len: "length rs' \<le> length rounds" using h(1) Cons.prems(2) by (cases served) auto
  have later: "\<forall>(i, v)\<in>set rs'. c_threads (conn_run S xread (concat rounds) ?s) i = Some (Got v)"
    using Cons.prems(3) h(1) by (intro Cons.IH [OF h(2) len]) auto
  have "\<forall>i. i \<notin> fst ` set rs' \<longrightarrow> c_threads (conn_run S xread (concat rounds) ?s) i = c_threads ?s i"
    using conn_inv_run [OF S h(2), of xread "concat rounds"] by blast
  moreover have "fst ` set served \<inter> fst ` set rs' = {}" using Cons.prems(1) h(1) by (simp add: conn_inv_def)
  then have "\<forall>x\<in>set served. fst x \<notin> fst ` set rs'" by blast
  ultimately have "\<forall>(i, v)\<in>set served. c_threads (conn_run S xread (concat rounds) ?s) i = Some (Got v)"
    using h(3) by fastforce
  with later show ?case unfolding h(1) set_append concat.simps conn_run_append by (simp add: ball_Un)
qed simp

text \<open>C25: Threads that share one connection through the concurrent client get their own answers.
  Let any number of registration and heartbeat calls with distinct sequence numbers be
  outstanding, and the replies arrive in any order. However the threads' turns of the receive
  loop interleave, a thread is either still calling or has returned exactly the value of the
  reply to its own call; and after as many rounds as there are calls, in each of which every
  thread had a turn, all of them have returned.\<close>

theorem replies_reach_their_callers:
  assumes "sync_ok S pend" and "distinct (map fst rs)" and "pend y = None"
    and "s = \<lparr>c_sync = y, c_input = concat (map (\<lambda>r. written (reply_message r)) rs),
      c_threads = map_of (map (\<lambda>(i, v). (i, Calling (method_of v))) rs)\<rparr>"
  shows "(\<forall>sched. \<forall>(i, v)\<in>set rs. c_threads (conn_run S xread sched s) i \<in> {Some (Calling (method_of v)), Some (Got v)}) \<and>
    (\<forall>rounds. length rs \<le> length rounds \<and> (\<forall>r\<in>set rounds. fst ` set rs \<subseteq> set r) \<longrightarrow>
       (\<forall>(i, v)\<in>set rs. c_threads (conn_run S xread (concat rounds) s) i = Some (Got v)))"
proof -
  let ?ts = "map (\<lambda>(i, v). (i, Calling (method_of v))) rs"
  have d: "distinct (map fst ?ts)" using assms(2) by (simp add: comp_def case_prod_beta)
  have "c_threads s i = Some (Calling (method_of v))" if "(i, v) \<in> set rs" for i v
    using map_of_is_SomeI [OF d, of i "Calling (method_of v)"] that assms(4) by force
  moreover have "i \<in> fst ` set rs" if "c_threads s i = Some (Calling c)" for i c
    using map_of_SomeD [of ?ts i "Calling c"] that assms(4) by force
  ultimately have "conn_inv pend rs s" using assms(2-4) by (intro conn_invI) simp_all
  note inv = this
  have "c_threads (conn_run S xread sched s) i \<in> {Some (Calling (method_of v)), Some (Got v)}"
    if "(i, v) \<in> set rs" for sched i v
  proof -
    from conn_inv_run [OF assms(1) inv] obtain served rs' where "rs = served @ rs'" "conn_inv pend rs' (conn_run S xread sched s)"
      "\<forall>(i, v)\<in>set served. c_threads (conn_run S xread sched s) i = Some (Got v)" by blast
    with that show ?thesis by (auto simp: conn_inv_def)
  qed
  moreover have "\<forall>(i, v)\<in>set rs. c_threads (conn_run S xread (concat rounds) s) i = Some (Got v)"
    if "length rs \<le> length rounds" "\<forall>r\<in>set rounds. fst ` set rs \<subseteq> set r" for rounds
    using conn_run_rounds [OF assms(1) inv that] .
  ultimately show ?thesis by blast
qed

text \<open>For the witness: the pending header alone, and two calls answered in the opposite order.\<close>

definition demo_sync :: "header option sync_info" where
  "demo_sync = \<lparr>generateSeqId = (\<lambda>y. Inr (1, y)), getPending = (\<lambda>y. Inr (y, None)), updatePending = (\<lambda>h y. Some h)\<rparr>"

definition demo_replies :: "(int32 \<times> regist_reply) list" where
  "demo_replies = [(2, Beat_Reply True), (1, Regist_Reply RegistResult_SUCCESS)]"

theorem replies_reach_their_callers_witness:
  "c_threads (conn_run demo_sync (\<lambda>_. Inl TTransportException) [1, 2, 1, 2]
     \<lparr>c_sync = None, c_input = concat (map (\<lambda>r. written (reply_message r)) demo_replies),
      c_threads = map_of (map (\<lambda>(i, v). (i, Calling (method_of v))) demo_replies)\<rparr>) 1 = Some (Got (Regist_Reply RegistResult_SUCCESS))"
proof -
  have "sync_ok demo_sync id" by (simp add: sync_ok_def demo_sync_def)
  from replies_reach_their_callers [OF this _ _ refl, of demo_replies None, THEN conjunct2, rule_format, of "[[1, 2], [1, 2]]"]
  show ?thesis by (auto simp: demo_replies_def)
qed

end
