(* ===== verification/Json_Itoa.thy ===== *)
theory Json_Itoa
  imports Dc_Prelude
begin

text \<open>
  rapidjson's conversion of integers to decimal (\<^verbatim>\<open>internal/itoa.h\<close>): two digits at a time
  out of a table of two hundred characters, on machine words. The lemmas show that it prints what
  the definition of decimal notation prints, for every word, and that the text fits the buffers the
  writer reserves for it.
\<close>

unbundle bit_operations_syntax

section \<open>Conversion\<close>

definition cDigitsLut :: string where
  "cDigitsLut =
     ''0001020304050607080910111213141516171819'' @
     ''2021222324252627282930313233343536373839'' @
     ''4041424344454647484950515253545556575859'' @
     ''6061626364656667686970717273747576777879'' @
     ''8081828384858687888990919293949596979899''"

definition digits_lut :: "uint32 \<Rightarrow> char" where
  "digits_lut i = cDigitsLut ! unat i"

text \<open>The index of a pair of digits: \<^verbatim>\<open>v << 1\<close>.\<close>

definition shl1 :: "uint32 \<Rightarrow> uint32" where
  "shl1 v = push_bit 1 v"

text \<open>\<^verbatim>\<open>'0' + static_cast<char>(a)\<close>\<close>

definition char_plus_0 :: "uint32 \<Rightarrow> char" where
  "char_plus_0 a = char_of (48 + unat a)"

text \<open>A digit that is written only from a bound on.\<close>

definition put_if :: "bool \<Rightarrow> char \<Rightarrow> string" where
  "put_if b c = (if b then [c] else [])"

text \<open>The statements that write the four digits of a number below 10000.\<close>

definition put_four :: "uint32 \<Rightarrow> string" where
  "put_four c = (let d3 = shl1 (c div 100); d4 = shl1 (c mod 100) in
     [digits_lut d3, digits_lut (d3 + 1), digits_lut d4, digits_lut (d4 + 1)])"

definition u32toa :: "uint32 \<Rightarrow> string" where
  "u32toa val =
     (if val < 10000 then
        let d1 = shl1 (val div 100); d2 = shl1 (val mod 100) in
        put_if (val \<ge> 1000) (digits_lut d1) @ put_if (val \<ge> 100) (digits_lut (d1 + 1)) @
        put_if (val \<ge> 10) (digits_lut d2) @ [digits_lut (d2 + 1)]
      else if val < 100000000 then
        let b = val div 10000; c = val mod 10000;
            d1 = shl1 (b div 100); d2 = shl1 (b mod 100) in
        put_if (val \<ge> 10000000) (digits_lut d1) @ put_if (val \<ge> 1000000) (digits_lut (d1 + 1)) @
        put_if (val \<ge> 100000) (digits_lut d2) @ [digits_lut (d2 + 1)] @ put_four c
      else
        let a = val div 100000000; val' = val mod 100000000;
            b = val' div 10000; c = val' mod 10000 in
        (if a \<ge> 10 then let i = shl1 a in [digits_lut i, digits_lut (i + 1)] else [char_plus_0 a]) @
        put_four b @ put_four c)"

definition i32toa :: "int32 \<Rightarrow> string" where
  "i32toa val = (if sint val < 0 then CHR ''-'' # u32toa (NOT val + 1) else u32toa val)"

definition u64toa :: "64 word \<Rightarrow> string" where
  "u64toa val =
     (let kTen8 = 100000000; kTen16 = kTen8 * kTen8 in
      if val < kTen8 then
        let v = ucast val in
        if v < 10000 then
          let d1 = shl1 (v div 100); d2 = shl1 (v mod 100) in
          put_if (v \<ge> 1000) (digits_lut d1) @ put_if (v \<ge> 100) (digits_lut (d1 + 1)) @
          put_if (v \<ge> 10) (digits_lut d2) @ [digits_lut (d2 + 1)]
        else
          let b = v div 10000; c = v mod 10000;
              d1 = shl1 (b div 100); d2 = shl1 (b mod 100) in
          put_if (val \<ge> 10000000) (digits_lut d1) @ put_if (val \<ge> 1000000) (digits_lut (d1 + 1)) @
          put_if (val \<ge> 100000) (digits_lut d2) @ [digits_lut (d2 + 1)] @ put_four c
      else if val < kTen16 then
        let v0 = ucast (val div kTen8); v1 = ucast (val mod kTen8);
            b0 = v0 div 10000; c0 = v0 mod 10000;
            d1 = shl1 (b0 div 100); d2 = shl1 (b0 mod 100);
            d3 = shl1 (c0 div 100); d4 = shl1 (c0 mod 100);
            b1 = v1 div 10000; c1 = v1 mod 10000 in
        put_if (val \<ge> kTen8 * 10000000) (digits_lut d1) @ put_if (val \<ge> kTen8 * 1000000) (digits_lut (d1 + 1)) @
        put_if (val \<ge> kTen8 * 100000) (digits_lut d2) @ put_if (val \<ge> kTen8 * 10000) (digits_lut (d2 + 1)) @
        put_if (val \<ge> kTen8 * 1000) (digits_lut d3) @ put_if (val \<ge> kTen8 * 100) (digits_lut (d3 + 1)) @
        put_if (val \<ge> kTen8 * 10) (digits_lut d4) @ put_if (val \<ge> kTen8) (digits_lut (d4 + 1)) @
        put_four b1 @ put_four c1
      else
        let a = ucast (val div kTen16); val' = val mod kTen16;
            v0 = ucast (val' div kTen8); v1 = ucast (val' mod kTen8);
            b0 = v0 div 10000; c0 = v0 mod 10000; b1 = v1 div 10000; c1 = v1 mod 10000 in
        (if a < 10 then [char_plus_0 a]
         else if a < 100 then let i = shl1 a in [digits_lut i, digits_lut (i + 1)]
         else if a < 1000 then let i = shl1 (a mod 100) in
           [char_plus_0 (a div 100), digits_lut i, digits_lut (i + 1)]
         else let i = shl1 (a div 100); j = shl1 (a mod 100) in
           [digits_lut i, digits_lut (i + 1), digits_lut j, digits_lut (j + 1)]) @
        put_four b0 @ put_four c0 @ put_four b1 @ put_four c1)"

definition i64toa :: "int64 \<Rightarrow> string" where
  "i64toa val = (if sint val < 0 then CHR ''-'' # u64toa (NOT val + 1) else u64toa val)"

section \<open>Decimal notation\<close>

text \<open>The digit with weight \<open>w\<close>, a power of ten.\<close>

definition dig :: "nat \<Rightarrow> nat \<Rightarrow> char" where
  "dig n w = digit_char (n div w mod 10)"

lemma lut_pair:
  assumes "n < 100"
  shows "cDigitsLut ! (2 * n) = digit_char (n div 10)" and "cDigitsLut ! Suc (2 * n) = digit_char (n mod 10)"
proof -
  have "list_all (\<lambda>n. cDigitsLut ! (2 * n) = digit_char (n div 10) \<and> cDigitsLut ! Suc (2 * n) = digit_char (n mod 10)) [0..<100]"
    by code_simp
  with assms show "cDigitsLut ! (2 * n) = digit_char (n div 10)" "cDigitsLut ! Suc (2 * n) = digit_char (n mod 10)"
    by (simp_all add: list_all_iff)
qed

lemma unat_shl1: "unat v < 2147483648 \<Longrightarrow> unat (shl1 v) = 2 * unat v"
  by (simp add: shl1_def push_bit_eq_mult unat_word_ariths)

lemma digits_lut_pair:
  assumes "unat v < 100"
  shows "digits_lut (shl1 v) = digit_char (unat v div 10)"
    and "digits_lut (shl1 v + 1) = digit_char (unat v mod 10)"
proof -
  have d: "unat (shl1 v) = 2 * unat v" using assms by (intro unat_shl1) simp
  then show "digits_lut (shl1 v) = digit_char (unat v div 10)" using lut_pair(1) [OF assms] by (simp add: digits_lut_def)
  have "unat (shl1 v + 1) = Suc (2 * unat v)" using d assms by (simp add: unat_word_ariths)
  then show "digits_lut (shl1 v + 1) = digit_char (unat v mod 10)" using lut_pair(2) [OF assms] by (simp add: digits_lut_def)
qed

lemma char_plus_0_digit: "unat a < 10 \<Longrightarrow> char_plus_0 a = digit_char (unat a)"
proof -
  have "list_all (\<lambda>n. char_of (48 + n) = digit_char n) [0..<10]" by code_simp
  then show "unat a < 10 \<Longrightarrow> char_plus_0 a = digit_char (unat a)" by (simp add: list_all_iff char_plus_0_def)
qed

lemma show_nat_digit: "n < 10 \<Longrightarrow> show_nat n = [digit_char n]"
  by (subst show_nat.simps) simp

lemma show_nat_step: "10 \<le> n \<Longrightarrow> show_nat n = show_nat (n div 10) @ [digit_char (n mod 10)]"
  by (subst show_nat.simps) simp

definition four_digits :: "nat \<Rightarrow> string" where
  "four_digits c = [dig c 1000, dig c 100, dig c 10, dig c 1]"

lemma show_nat_four:
  assumes "0 < n" and "c < 10000"
  shows "show_nat (10000 * n + c) = show_nat n @ four_digits c"
proof -
  have 1: "show_nat (10 * m + d) = show_nat m @ [digit_char d]" if "0 < m" "d < 10" for m d
    using show_nat_step [of "10 * m + d"] that by simp
  define n1 where "n1 = 10 * n + c div 1000"
  define n2 where "n2 = 10 * n1 + c div 100 mod 10"
  define n3 where "n3 = 10 * n2 + c div 10 mod 10"
  have pos: "0 < n1" "0 < n2" "0 < n3" using assms(1) by (simp_all add: n1_def n2_def n3_def)
  have "c = 10 * (c div 10) + c mod 10" "c div 10 = 10 * (c div 100) + c div 10 mod 10" "c div 100 = 10 * (c div 1000) + c div 100 mod 10"
    using mult_div_mod_eq [of 10 c] mult_div_mod_eq [of 10 "c div 10"] mult_div_mod_eq [of 10 "c div 100"]
    by (simp_all flip: div_mult2_eq)
  moreover have "10000 * n + c = 10 * (10 * (10 * (10 * n + z) + t) + s) + r"
    if "c = 10 * x + r" "x = 10 * y + s" "y = 10 * z + t" for x y z r s t :: nat using that by simp
  ultimately have "10000 * n + c = 10 * n3 + c mod 10" unfolding n1_def n2_def n3_def by blast
  then have "show_nat (10000 * n + c) = show_nat n3 @ [digit_char (c mod 10)]" using 1 [OF pos(3)] by simp
  moreover have "show_nat n3 = show_nat n2 @ [digit_char (c div 10 mod 10)]" using 1 [OF pos(2)] by (simp add: n3_def)
  moreover have "show_nat n2 = show_nat n1 @ [digit_char (c div 100 mod 10)]" using 1 [OF pos(1)] by (simp add: n2_def)
  moreover have "show_nat n1 = show_nat n @ [digit_char (c div 1000)]" using 1 [OF assms(1)] assms(2) by (simp add: n1_def)
  moreover have "c div 1000 mod 10 = c div 1000" using assms(2) by simp
  ultimately show ?thesis by (simp add: four_digits_def dig_def)
qed

lemma show_nat_upto_four:
  assumes "n < 10000"
  shows "show_nat n = put_if (n \<ge> 1000) (dig n 1000) @ put_if (n \<ge> 100) (dig n 100) @ put_if (n \<ge> 10) (dig n 10) @ [dig n 1]"
proof -
  consider "n < 10" | "10 \<le> n" "n < 100" | "100 \<le> n" "n < 1000" | "1000 \<le> n" by linarith
  then show ?thesis
  proof cases
    case 1
    then show ?thesis by (simp add: show_nat_digit put_if_def dig_def)
  next
    case 2
    then show ?thesis by (simp add: show_nat_digit show_nat_step [of n] put_if_def dig_def)
  next
    case 3
    then show ?thesis
      by (simp add: show_nat_digit show_nat_step [of n] show_nat_step [of "n div 10"] put_if_def dig_def flip: div_mult2_eq)
  next
    case 4
    with assms show ?thesis
      by (simp add: show_nat_digit show_nat_step [of n] show_nat_step [of "n div 10"] show_nat_step [of "n div 100"]
          put_if_def dig_def flip: div_mult2_eq)
  qed
qed

lemma put_four_digits:
  assumes "unat c < 10000"
  shows "put_four c = four_digits (unat c)"
proof -
  have "unat (c div 100) < 100" "unat (c mod 100) < 100" using assms by (simp_all add: unat_div unat_mod)
  with assms show ?thesis
    by (simp add: put_four_def four_digits_def dig_def Let_def digits_lut_pair unat_div unat_mod flip: div_mult2_eq)
      (simp add: mod_mult2_eq [of "unat c" 10 10, simplified])
qed

section \<open>The conversion prints decimal notation\<close>

lemma upto_four_digits:
  assumes "unat b < 10000"
  shows "put_if (unat b \<ge> 1000) (digits_lut (shl1 (b div 100))) @ put_if (unat b \<ge> 100) (digits_lut (shl1 (b div 100) + 1)) @
    put_if (unat b \<ge> 10) (digits_lut (shl1 (b mod 100))) @ [digits_lut (shl1 (b mod 100) + 1)] = show_nat (unat b)"
proof -
  have "put_four b = four_digits (unat b)" by (rule put_four_digits [OF assms])
  then show ?thesis using show_nat_upto_four [OF assms] by (simp add: put_four_def four_digits_def Let_def)
qed

definition eight_digits :: "nat \<Rightarrow> string" where
  "eight_digits m = four_digits (m div 10000) @ four_digits (m mod 10000)"

lemma show_nat_eight:
  assumes "0 < n" and "m < 100000000"
  shows "show_nat (100000000 * n + m) = show_nat n @ eight_digits m"
proof -
  have "100000000 * n + m = 10000 * (10000 * n + m div 10000) + m mod 10000" by simp
  moreover have "show_nat (10000 * (10000 * n + m div 10000) + m mod 10000) = show_nat (10000 * n + m div 10000) @ four_digits (m mod 10000)"
    using assms by (intro show_nat_four) simp_all
  moreover have "show_nat (10000 * n + m div 10000) = show_nat n @ four_digits (m div 10000)"
    using assms by (intro show_nat_four) simp_all
  ultimately show ?thesis unfolding eight_digits_def by (metis append.assoc)
qed

lemma put_eight_digits:
  assumes "unat v < 100000000"
  shows "put_four (v div 10000) @ put_four (v mod 10000) = eight_digits (unat v)"
  using assms put_four_digits [of "v div 10000"] put_four_digits [of "v mod 10000"]
  by (simp add: eight_digits_def unat_div unat_mod)

lemma pair_decimal:
  assumes "10 \<le> unat a" and "unat a < 100"
  shows "[digits_lut (shl1 a), digits_lut (shl1 a + 1)] = show_nat (unat a)"
  using assms by (simp add: digits_lut_pair show_nat_step show_nat_digit)

text \<open>Up to eight digits without leading zeros, as both conversions write them.\<close>

lemma upto_eight_digits:
  assumes "10000 \<le> unat v" and "unat v < 100000000"
  shows "put_if (unat v \<ge> 10000000) (digits_lut (shl1 (v div 10000 div 100))) @
    put_if (unat v \<ge> 1000000) (digits_lut (shl1 (v div 10000 div 100) + 1)) @
    put_if (unat v \<ge> 100000) (digits_lut (shl1 (v div 10000 mod 100))) @ [digits_lut (shl1 (v div 10000 mod 100) + 1)] @
    put_four (v mod 10000) = show_nat (unat v)"
proof -
  have b: "unat (v div 10000) < 10000" and c: "unat (v mod 10000) < 10000" using assms by (simp_all add: unat_div unat_mod)
  have "show_nat (unat v) = show_nat (10000 * unat (v div 10000) + unat (v mod 10000))" by (simp add: unat_div unat_mod)
  also have "\<dots> = show_nat (unat (v div 10000)) @ four_digits (unat (v mod 10000))"
    using assms c by (intro show_nat_four) (simp_all add: unat_div div_greater_zero_iff)
  finally show ?thesis
    unfolding upto_four_digits [OF b, symmetric] put_four_digits [OF c, symmetric]
    by (simp add: unat_div less_eq_div_iff_mult_less_eq)
qed

lemma u32toa_decimal: "u32toa v = show_nat (unat v)"
proof -
  consider "v < 10000" | "10000 \<le> v" "v < 100000000" | "100000000 \<le> v" by fastforce
  then show ?thesis
  proof cases
    case 1
    then show ?thesis using upto_four_digits [of v] by (simp add: u32toa_def Let_def word_less_nat_alt word_le_nat_alt)
  next
    case 2
    then show ?thesis using upto_eight_digits [of v] by (simp add: u32toa_def Let_def word_less_nat_alt word_le_nat_alt)
  next
    case 3
    let ?a = "v div 100000000" and ?m = "v mod 100000000"
    have "unat v < 2 ^ 32" using unsigned_less [of v] by simp
    then have a: "0 < unat ?a" "unat ?a < 100" using 3 by (simp_all add: word_le_nat_alt unat_div div_greater_zero_iff)
    have m: "unat ?m < 100000000" by (simp add: unat_mod)
    have lead: "(if ?a \<ge> 10 then [digits_lut (shl1 ?a), digits_lut (shl1 ?a + 1)] else [char_plus_0 ?a]) = show_nat (unat ?a)"
      using a pair_decimal [of ?a] by (simp add: word_le_nat_alt char_plus_0_digit show_nat_digit not_le)
    have "\<not> v < 100000000" "\<not> v < 10000" using 3 by (simp_all add: word_less_nat_alt word_le_nat_alt)
    then have "u32toa v = show_nat (unat ?a) @ eight_digits (unat ?m)"
      unfolding lead [symmetric] put_eight_digits [OF m, symmetric] u32toa_def by (simp only: Let_def if_False)
    also have "\<dots> = show_nat (100000000 * unat ?a + unat ?m)" by (rule show_nat_eight [OF a(1) m, symmetric])
    finally show ?thesis by (simp add: unat_div unat_mod)
  qed
qed

text \<open>The sign: two's complement negation of the word is negation of the number, also for the least one.\<close>

lemma unat_negate:
  fixes v :: "'a::len word"
  shows "sint v < 0 \<Longrightarrow> unat (NOT v + 1) = nat (- sint v)" and "\<not> sint v < 0 \<Longrightarrow> unat v = nat (sint v)"
proof -
  have v: "of_int (sint v) = v" by simp
  have lo: "- (2 ^ (LENGTH('a) - 1)) \<le> sint v" and hi: "sint v < 2 ^ (LENGTH('a) - 1)"
    using sint_greater_eq [of v] sint_less [of v] by simp_all
  have two: "(2 :: int) ^ (LENGTH('a) - 1) < 2 ^ LENGTH('a)" by simp
  { assume "sint v < 0"
    have "NOT v + 1 = (of_int (- sint v) :: 'a word)" by (simp add: v flip: minus_eq_not_plus_1)
    then have "uint (NOT v + 1) = - sint v mod 2 ^ LENGTH('a)" by (simp only: uint_word_of_int take_bit_eq_mod)
    also have "\<dots> = - sint v" using \<open>sint v < 0\<close> lo two by (intro mod_pos_pos_trivial) linarith+
    finally show "unat (NOT v + 1) = nat (- sint v)" by (simp add: unat_eq_nat_uint)
  }
  { assume "\<not> sint v < 0"
    have "uint v = sint v mod 2 ^ LENGTH('a)" by (metis v uint_word_of_int take_bit_eq_mod)
    also have "\<dots> = sint v" using \<open>\<not> sint v < 0\<close> hi two by (intro mod_pos_pos_trivial) linarith+
    finally show "unat v = nat (sint v)" by (simp add: unat_eq_nat_uint)
  }
qed

lemma i32toa_decimal: "i32toa v = show_int (sint v)"
  by (auto simp: i32toa_def u32toa_decimal show_int_def unat_negate)

lemma unat_ucast_small: "unat v < 4294967296 \<Longrightarrow> unat (ucast v :: uint32) = unat (v :: 64 word)"
  by (simp add: unsigned_ucast_eq take_bit_nat_eq_self)

lemma lead_sixteen:
  assumes "0 < unat v" and "unat v < 100000000"
  shows "put_if (unat v \<ge> 10000000) (digits_lut (shl1 (v div 10000 div 100))) @
    put_if (unat v \<ge> 1000000) (digits_lut (shl1 (v div 10000 div 100) + 1)) @
    put_if (unat v \<ge> 100000) (digits_lut (shl1 (v div 10000 mod 100))) @
    put_if (unat v \<ge> 10000) (digits_lut (shl1 (v div 10000 mod 100) + 1)) @
    put_if (unat v \<ge> 1000) (digits_lut (shl1 (v mod 10000 div 100))) @
    put_if (unat v \<ge> 100) (digits_lut (shl1 (v mod 10000 div 100) + 1)) @
    put_if (unat v \<ge> 10) (digits_lut (shl1 (v mod 10000 mod 100))) @
    put_if (unat v \<ge> 1) (digits_lut (shl1 (v mod 10000 mod 100) + 1)) = show_nat (unat v)"
proof (cases "unat v < 10000")
  case True
  then have "v mod 10000 = v" by (simp add: unat_mod word_unat_eq_iff)
  then show ?thesis using True assms(1) upto_four_digits [of v] by (simp add: put_if_def Suc_le_eq)
next
  case False
  then show ?thesis using assms(2) upto_eight_digits [of v] by (simp add: put_if_def put_four_def Let_def)
qed

text \<open>The one to four digits in front of sixteen.\<close>

lemma lead_twenty:
  assumes "0 < unat a" and "unat a < 10000"
  shows "(if a < 10 then [char_plus_0 a]
    else if a < 100 then [digits_lut (shl1 a), digits_lut (shl1 a + 1)]
    else if a < 1000 then [char_plus_0 (a div 100), digits_lut (shl1 (a mod 100)), digits_lut (shl1 (a mod 100) + 1)]
    else [digits_lut (shl1 (a div 100)), digits_lut (shl1 (a div 100) + 1),
      digits_lut (shl1 (a mod 100)), digits_lut (shl1 (a mod 100) + 1)]) = show_nat (unat a)"
proof -
  have p: "unat (a div 100) < 100" "unat (a mod 100) < 100" using assms(2) by (simp_all add: unat_div unat_mod)
  consider "unat a < 10" | "10 \<le> unat a" "unat a < 100" | "100 \<le> unat a" "unat a < 1000" | "1000 \<le> unat a" by linarith
  then show ?thesis
  proof cases
    case 1
    then show ?thesis by (simp add: word_less_nat_alt char_plus_0_digit show_nat_digit)
  next
    case 2
    then show ?thesis using pair_decimal [of a] by (simp add: word_less_nat_alt)
  next
    case 3
    then have "char_plus_0 (a div 100) = digit_char (unat (a div 100))" by (intro char_plus_0_digit) (simp add: unat_div)
    with 3 upto_four_digits [of a] digits_lut_pair [OF p(1)] show ?thesis
      by (simp add: word_less_nat_alt put_if_def unat_div)
  next
    case 4
    then show ?thesis using assms(2) upto_four_digits [of a] by (simp add: word_less_nat_alt put_if_def)
  qed
qed

lemma u64toa_decimal: "u64toa v = show_nat (unat v)"
proof -
  consider "v < 100000000" | "100000000 \<le> v" "v < 10000000000000000" | "10000000000000000 \<le> v" by fastforce
  then show ?thesis
  proof cases
    case 1
    then have u: "unat (ucast v :: uint32) = unat v" by (intro unat_ucast_small) (simp add: word_less_nat_alt)
    have "u64toa v = u32toa (ucast v)" using 1 u
      by (simp add: u64toa_def u32toa_def Let_def word_less_nat_alt word_le_nat_alt)
    then show ?thesis by (simp add: u32toa_decimal u)
  next
    case 2
    let ?q = "v div 100000000" and ?r = "v mod 100000000"
    have n: "100000000 \<le> unat v" "unat v < 10000000000000000" using 2 by (simp_all add: word_less_nat_alt word_le_nat_alt)
    have q: "unat (ucast ?q :: uint32) = unat v div 100000000" using n by (subst unat_ucast_small) (simp_all add: unat_div)
    have r: "unat (ucast ?r :: uint32) = unat v mod 100000000" by (subst unat_ucast_small) (simp_all add: unat_mod less_trans [OF mod_less_divisor])
    have "0 < unat (ucast ?q :: uint32)" "unat (ucast ?q :: uint32) < 100000000" using n q by (simp_all add: div_greater_zero_iff)
    note lead = lead_sixteen [OF this]
    have "unat (ucast ?r :: uint32) < 100000000" using r by simp
    note tail = put_eight_digits [OF this]
    have "u64toa v = show_nat (unat (ucast ?q :: uint32)) @ eight_digits (unat (ucast ?r :: uint32))"
      unfolding lead [symmetric] tail [symmetric] using n q
      by (simp add: u64toa_def Let_def word_less_nat_alt word_le_nat_alt less_eq_div_iff_mult_less_eq)
    also have "\<dots> = show_nat (100000000 * (unat v div 100000000) + unat v mod 100000000)"
      unfolding q r using n by (intro show_nat_eight [symmetric]) (simp_all add: div_greater_zero_iff)
    finally show ?thesis by simp
  next
    case 3
    let ?a = "v div 10000000000000000" and ?m = "v mod 10000000000000000"
    have n: "10000000000000000 \<le> unat v" "unat v < 2 ^ 64" using 3 unsigned_less [of v] by (simp_all add: word_le_nat_alt)
    have a: "unat (ucast ?a :: uint32) = unat v div 10000000000000000" using n by (subst unat_ucast_small) (simp_all add: unat_div)
    have a': "0 < unat (ucast ?a :: uint32)" "unat (ucast ?a :: uint32) < 10000" using n a by (simp_all add: div_greater_zero_iff)
    define m where "m = unat v mod 10000000000000000"
    have m: "m < 10000000000000000" "unat ?m = m" by (simp_all add: m_def unat_mod)
    have q: "unat (ucast (?m div 100000000) :: uint32) = m div 100000000" using m by (subst unat_ucast_small) (simp_all add: unat_div)
    have r: "unat (ucast (?m mod 100000000) :: uint32) = m mod 100000000"
      using m by (subst unat_ucast_small) (simp_all add: unat_mod [of ?m] less_trans [OF mod_less_divisor])
    have "unat (ucast (?m div 100000000) :: uint32) < 100000000" "unat (ucast (?m mod 100000000) :: uint32) < 100000000"
      using m q r by simp_all
    note tail = this [THEN put_eight_digits]
    have "\<not> v < 100000000" "\<not> v < 100000000 * 100000000" using n by (simp_all add: word_less_nat_alt)
    then have "u64toa v = show_nat (unat (ucast ?a :: uint32)) @ eight_digits (m div 100000000) @ eight_digits (m mod 100000000)"
      unfolding lead_twenty [OF a', symmetric] q [symmetric] r [symmetric] tail [symmetric] u64toa_def
      by (simp add: Let_def)
    also have "\<dots> = show_nat (100000000 * (unat v div 10000000000000000) + m div 100000000) @ eight_digits (m mod 100000000)"
      using a a' m by (subst show_nat_eight) simp_all
    also have "\<dots> = show_nat (100000000 * (100000000 * (unat v div 10000000000000000) + m div 100000000) + m mod 100000000)"
      using a a' by (intro show_nat_eight [symmetric]) simp_all
    also have "100000000 * (100000000 * (unat v div 10000000000000000) + m div 100000000) + m mod 100000000
        = 10000000000000000 * (unat v div 10000000000000000) + m" by simp
    finally show ?thesis by (simp add: m_def)
  qed
qed

lemma i64toa_decimal: "i64toa v = show_int (sint v)"
  by (auto simp: i64toa_def u64toa_decimal show_int_def unat_negate)

text \<open>How long decimal notation is.\<close>

lemma show_nat_length: "n < 10 ^ k \<Longrightarrow> 0 < k \<Longrightarrow> length (show_nat n) \<le> k"
proof (induction k arbitrary: n)
  case (Suc k)
  show ?case
  proof (cases "n < 10")
    case False
    with Suc have "length (show_nat (n div 10)) \<le> k" by (cases k) auto
    with False show ?thesis by (simp add: show_nat_step)
  qed (simp add: show_nat_digit)
qed simp

text \<open>Integers are printed right and in place. For every machine word the table-driven
  conversions print the decimal notation of its value, signed or unsigned, 32 or 64 bits, the
  least signed number included; and the text is never longer than the 10, 11, 20 and 21 bytes the
  writer reserves for it.\<close>

lemma itoa_is_decimal:
  "u32toa u = show_nat (unat u) \<and> length (u32toa u) \<le> 10 \<and>
   i32toa i = show_int (sint i) \<and> length (i32toa i) \<le> 11 \<and>
   u64toa u' = show_nat (unat u') \<and> length (u64toa u') \<le> 20 \<and>
   i64toa i' = show_int (sint i') \<and> length (i64toa i') \<le> 21"
proof -
  have w: "unat (w :: uint32) < 2 ^ 32" "unat (w' :: 64 word) < 2 ^ 64" for w w'
    using unsigned_less [of w] unsigned_less [of w'] by simp_all
  have u32: "length (u32toa w) \<le> 10" for w
    unfolding u32toa_decimal by (rule show_nat_length [OF less_le_trans [OF w(1)]]) simp_all
  have u64: "length (u64toa w) \<le> 20" for w
    unfolding u64toa_decimal by (rule show_nat_length [OF less_le_trans [OF w(2)]]) simp_all
  have "length (i32toa i) \<le> 11" using u32 [of i] u32 [of "NOT i + 1"] by (simp add: i32toa_def)
  moreover have "length (i64toa i') \<le> 21" using u64 [of i'] u64 [of "NOT i' + 1"] by (simp add: i64toa_def)
  ultimately show ?thesis using u32 u64 by (simp add: u32toa_decimal i32toa_decimal u64toa_decimal i64toa_decimal)
qed

end
