(* ===== verification/Json_Writer.thy ===== *)
theory Json_Writer
  imports Json_Text Json_Itoa
begin

text \<open>
  The whole writer (\<^verbatim>\<open>writer.h\<close>) and \<^verbatim>\<open>GenericValue::Accept\<close> (\<^verbatim>\<open>document.h\<close>), which drives
  it through a document. A number is stored in a union of eight bytes with flags that say through
  which types it may be read. The conversion of doubles (Grisu) is an argument, \<open>None\<close> for a
  value that is not finite, which the writer refuses. The lemmas show that what is written for a
  document is its JSON text, and that reading it back gives the document.
\<close>

unbundle bit_operations_syntax

section \<open>Handler operations\<close>

definition jw_put :: "bool \<Rightarrow> string \<Rightarrow> jwriter \<Rightarrow> jwriter option" where
  "jw_put is_str t w = (case Prefix is_str w of None \<Rightarrow> None | Some w' \<Rightarrow> Some (w'\<lparr>os := os w' @ t\<rparr>))"

definition jw_Null :: "jwriter \<Rightarrow> jwriter option" where
  "jw_Null = jw_put False ''null''"

definition jw_Bool :: "bool \<Rightarrow> jwriter \<Rightarrow> jwriter option" where
  "jw_Bool b = jw_put False (if b then ''true'' else ''false'')"

definition jw_Int :: "int32 \<Rightarrow> jwriter \<Rightarrow> jwriter option" where
  "jw_Int i = jw_put False (i32toa i)"

definition jw_Uint :: "uint32 \<Rightarrow> jwriter \<Rightarrow> jwriter option" where
  "jw_Uint u = jw_put False (u32toa u)"

definition jw_Int64 :: "int64 \<Rightarrow> jwriter \<Rightarrow> jwriter option" where
  "jw_Int64 i64 = jw_put False (i64toa i64)"

definition jw_Uint64 :: "64 word \<Rightarrow> jwriter \<Rightarrow> jwriter option" where
  "jw_Uint64 u64 = jw_put False (u64toa u64)"

text \<open>The only operation that can return \<^verbatim>\<open>false\<close>: the prefix is written all the same.\<close>

definition jw_Double :: "('d \<Rightarrow> string option) \<Rightarrow> 'd \<Rightarrow> jwriter \<Rightarrow> (bool \<times> jwriter) option" where
  "jw_Double dtoa d w = (case Prefix False w of None \<Rightarrow> None
     | Some w' \<Rightarrow> (case dtoa d of None \<Rightarrow> Some (False, w') | Some t \<Rightarrow> Some (True, w'\<lparr>os := os w' @ t\<rparr>)))"

text \<open>With its length given, a string is written whole; the overload without one stops at a null character.\<close>

definition jw_String_len :: "string \<Rightarrow> jwriter \<Rightarrow> jwriter option" where
  "jw_String_len str = jw_put True (WriteString str)"

definition jw_StartArray :: "jwriter \<Rightarrow> jwriter option" where
  "jw_StartArray w = (case Prefix False w of None \<Rightarrow> None
     | Some w' \<Rightarrow> Some (w'\<lparr>os := os w' @ ''['', level_stack := \<lparr>valueCount = 0, inArray = True\<rparr> # level_stack w'\<rparr>))"

definition jw_EndArray :: "jwriter \<Rightarrow> jwriter option" where
  "jw_EndArray w = (case level_stack w of [] \<Rightarrow> None
     | l # ls \<Rightarrow> if \<not> inArray l then None else Some (w\<lparr>os := os w @ '']'', level_stack := ls\<rparr>))"

definition IsComplete :: "jwriter \<Rightarrow> bool" where
  "IsComplete w \<longleftrightarrow> hasRoot w \<and> level_stack w = []"

definition Writer_Reset :: "jwriter \<Rightarrow> jwriter" where
  "Writer_Reset w = w\<lparr>os := [], hasRoot := False, level_stack := []\<rparr>"

section \<open>Numbers in a union\<close>

record num_rep =
  n_u64 :: "64 word"
  kIntFlag :: bool
  kUintFlag :: bool
  kInt64Flag :: bool
  kUint64Flag :: bool

definition rep_int :: "int32 \<Rightarrow> num_rep" where
  "rep_int i = \<lparr>n_u64 = scast i, kIntFlag = True, kUintFlag = (sint i \<ge> 0), kInt64Flag = True, kUint64Flag = (sint i \<ge> 0)\<rparr>"

definition rep_uint :: "uint32 \<Rightarrow> num_rep" where
  "rep_uint u = \<lparr>n_u64 = ucast u, kIntFlag = (u AND 0x80000000 = 0), kUintFlag = True, kInt64Flag = True, kUint64Flag = True\<rparr>"

definition rep_int64 :: "int64 \<Rightarrow> num_rep" where
  "rep_int64 i64 = \<lparr>n_u64 = i64,
     kIntFlag = (if sint i64 \<ge> 0 then i64 AND 0xFFFFFFFF80000000 = 0 else sint i64 \<ge> sint (0xFFFFFFFF80000000 :: int64)),
     kUintFlag = (sint i64 \<ge> 0 \<and> i64 AND 0xFFFFFFFF00000000 = 0), kInt64Flag = True, kUint64Flag = (sint i64 \<ge> 0)\<rparr>"

definition rep_uint64 :: "64 word \<Rightarrow> num_rep" where
  "rep_uint64 u64 = \<lparr>n_u64 = u64, kIntFlag = (u64 AND 0xFFFFFFFF80000000 = 0), kUintFlag = (u64 AND 0xFFFFFFFF00000000 = 0),
     kInt64Flag = (u64 AND 0x8000000000000000 = 0), kUint64Flag = True\<rparr>"

text \<open>The branch of \<^verbatim>\<open>Accept\<close> for an integer: the first type that fits, read from the low bytes.\<close>

definition accept_int :: "num_rep \<Rightarrow> jwriter \<Rightarrow> jwriter option" where
  "accept_int r = (if kIntFlag r then jw_Int (ucast (n_u64 r))
     else if kUintFlag r then jw_Uint (ucast (n_u64 r))
     else if kInt64Flag r then jw_Int64 (n_u64 r)
     else jw_Uint64 (n_u64 r))"

fun accept_number :: "('d \<Rightarrow> string option) \<Rightarrow> 'd number \<Rightarrow> jwriter \<Rightarrow> (bool \<times> jwriter) option" where
  "accept_number dtoa (NDouble d) w = jw_Double dtoa d w"
| "accept_number dtoa (NInt i) w = map_option (Pair True) (accept_int (rep_int i) w)"
| "accept_number dtoa (NUint u) w = map_option (Pair True) (accept_int (rep_uint u) w)"
| "accept_number dtoa (NInt64 i) w = map_option (Pair True) (accept_int (rep_int64 i) w)"
| "accept_number dtoa (NUint64 u) w = map_option (Pair True) (accept_int (rep_uint64 u) w)"

section \<open>Accept\<close>

text \<open>The document as a sender of events: \<open>None\<close> a failed assertion, \<open>False\<close> the handler's refusal.\<close>

fun Accept :: "('d \<Rightarrow> string option) \<Rightarrow> 'd json \<Rightarrow> jwriter \<Rightarrow> (bool \<times> jwriter) option"
  and Accept_elements :: "('d \<Rightarrow> string option) \<Rightarrow> 'd json list \<Rightarrow> jwriter \<Rightarrow> (bool \<times> jwriter) option"
  and Accept_members :: "('d \<Rightarrow> string option) \<Rightarrow> (string \<times> 'd json) list \<Rightarrow> jwriter \<Rightarrow> (bool \<times> jwriter) option" where
  "Accept dtoa JNull w = map_option (Pair True) (jw_Null w)"
| "Accept dtoa (JBool b) w = map_option (Pair True) (jw_Bool b w)"
| "Accept dtoa (JObject ms) w = (case jw_StartObject w of None \<Rightarrow> None
     | Some w1 \<Rightarrow> (case Accept_members dtoa ms w1 of
         None \<Rightarrow> None
       | Some (False, w2) \<Rightarrow> Some (False, w2)
       | Some (True, w2) \<Rightarrow> map_option (Pair True) (jw_EndObject w2)))"
| "Accept dtoa (JArray vs) w = (case jw_StartArray w of None \<Rightarrow> None
     | Some w1 \<Rightarrow> (case Accept_elements dtoa vs w1 of
         None \<Rightarrow> None
       | Some (False, w2) \<Rightarrow> Some (False, w2)
       | Some (True, w2) \<Rightarrow> map_option (Pair True) (jw_EndArray w2)))"
| "Accept dtoa (JString str) w = map_option (Pair True) (jw_String_len str w)"
| "Accept dtoa (JNumber n) w = accept_number dtoa n w"
| "Accept_elements dtoa [] w = Some (True, w)"
| "Accept_elements dtoa (v # vs) w = (case Accept dtoa v w of
     None \<Rightarrow> None | Some (False, w') \<Rightarrow> Some (False, w') | Some (True, w') \<Rightarrow> Accept_elements dtoa vs w')"
| "Accept_members dtoa [] w = Some (True, w)"
| "Accept_members dtoa ((key, v) # ms) w = (case jw_String_len key w of
     None \<Rightarrow> None
   | Some w1 \<Rightarrow> (case Accept dtoa v w1 of
       None \<Rightarrow> None | Some (False, w') \<Rightarrow> Some (False, w') | Some (True, w') \<Rightarrow> Accept_members dtoa ms w'))"

section \<open>Numbers are printed whatever type they are read through\<close>

lemma high_bits_zero:
  fixes w :: "'a::len word"
  assumes "m = NOT (mask n)" and "n < LENGTH('a)"
  shows "w AND m = 0 \<longleftrightarrow> uint w < 2 ^ n"
proof -
  have "w AND NOT (mask n) = 0 \<longleftrightarrow> take_bit n w = w" by (auto simp: bit_eq_iff bit_simps)
  also have "\<dots> \<longleftrightarrow> uint w < 2 ^ n" by (simp add: word_uint_eq_iff unsigned_take_bit_eq take_bit_int_eq_self_iff)
  finally show ?thesis using assms(1) by simp
qed

lemma narrow_sint:
  assumes "- (2 ^ 31) \<le> sint (w :: int64)" and "sint w < 2 ^ 31"
  shows "sint (ucast w :: int32) = sint w"
proof -
  have "(ucast w :: int32) = scast w" by (rule bit_word_eqI) (simp add: bit_simps)
  then show ?thesis using assms by (simp add: signed_scast_eq signed_take_bit_int_eq_self)
qed

lemma sint_small: "uint (w :: 'a::len word) < 2 ^ (LENGTH('a) - 1) \<Longrightarrow> sint w = uint w"
  using order_trans [OF _ uint_ge_0 [of w], of "- (2 ^ (LENGTH('a) - 1))"]
  by (simp add: sint_uint signed_take_bit_int_eq_self)

lemma narrow_uint: "uint (w :: 64 word) < 2 ^ 32 \<Longrightarrow> uint (ucast w :: uint32) = uint w"
  by (simp add: unsigned_ucast_eq take_bit_int_eq_self)

lemma accept_rep_int: "accept_int (rep_int i) = jw_put False (show_int (sint i))"
proof -
  have "ucast (scast i :: 64 word) = i" by (rule bit_word_eqI) (simp add: bit_simps)
  then show ?thesis by (simp add: accept_int_def rep_int_def jw_Int_def i32toa_decimal)
qed

lemma utoa_uint: "u32toa u = show_int (uint u)" "u64toa u' = show_int (uint u')"
  by (simp_all add: u32toa_decimal u64toa_decimal show_int_def)

lemmas accept_int_simps = accept_int_def jw_Int_def jw_Uint_def jw_Int64_def jw_Uint64_def i32toa_decimal i64toa_decimal utoa_uint

lemma accept_rep_uint: "accept_int (rep_uint u) = jw_put False (show_int (uint u))"
proof -
  have c: "ucast (ucast u :: 64 word) = u" by (rule bit_word_eqI) (simp add: bit_simps)
  have m: "u AND 0x80000000 = 0 \<longleftrightarrow> uint u < 2 ^ 31" by (rule high_bits_zero) (simp_all add: mask_eq_decr_exp)
  show ?thesis using sint_small [of u] m by (cases "uint u < 2 ^ 31") (simp_all add: accept_int_simps rep_uint_def c)
qed

lemma masks64:
  "(w :: 64 word) AND 0xFFFFFFFF80000000 = 0 \<longleftrightarrow> uint w < 2 ^ 31" "w AND 0xFFFFFFFF00000000 = 0 \<longleftrightarrow> uint w < 2 ^ 32"
  "w AND 0x8000000000000000 = 0 \<longleftrightarrow> uint w < 2 ^ 63"
  by (rule high_bits_zero; simp add: mask_eq_decr_exp; fail)+

lemma accept_rep_uint64: "accept_int (rep_uint64 u) = jw_put False (show_int (uint u))"
proof -
  have s: "sint u = uint u" if "uint u < 2 ^ 63" using that sint_small [of u] by simp
  consider "uint u < 2 ^ 31" | "2 ^ 31 \<le> uint u" "uint u < 2 ^ 32" | "2 ^ 32 \<le> uint u" "uint u < 2 ^ 63" | "2 ^ 63 \<le> uint u" by linarith
  then show ?thesis
  proof cases
    case 1
    then have "sint (ucast u :: int32) = uint u" using s narrow_sint [of u] uint_ge_0 [of u] by simp
    then show ?thesis using 1 by (simp add: accept_int_simps rep_uint64_def masks64)
  next
    case 2
    then show ?thesis using narrow_uint [of u] by (simp add: accept_int_simps rep_uint64_def masks64)
  next
    case 3
    then show ?thesis using s by (simp add: accept_int_simps rep_uint64_def masks64)
  next
    case 4
    then show ?thesis by (simp add: accept_int_simps rep_uint64_def masks64)
  qed
qed

lemma accept_rep_int64: "accept_int (rep_int64 i) = jw_put False (show_int (sint i))"
proof -
  have s: "uint i = sint i" if "sint i \<ge> 0" 
  proof -
    have "uint i = int (unat i)" by simp
    also have "\<dots> = sint i" using that by (simp only: unat_negate(2) not_less nat_0_le)
    finally show ?thesis .
  qed
  have b: "sint (0xFFFFFFFF80000000 :: int64) = - (2 ^ 31)" by simp
  consider "sint i < - (2 ^ 31)" | "- (2 ^ 31) \<le> sint i" "sint i < 0" | "0 \<le> sint i" "sint i < 2 ^ 31"
    | "2 ^ 31 \<le> sint i" "sint i < 2 ^ 32" | "2 ^ 32 \<le> sint i" by linarith
  then show ?thesis
  proof cases
    case 1
    then show ?thesis by (simp add: accept_int_simps rep_int64_def masks64 b)
  next
    case 2
    then show ?thesis using narrow_sint [of i] by (simp add: accept_int_simps rep_int64_def masks64 b)
  next
    case 3
    then show ?thesis using narrow_sint [of i] s by (simp add: accept_int_simps rep_int64_def masks64)
  next
    case 4
    then show ?thesis using narrow_uint [of i] s by (simp add: accept_int_simps rep_int64_def masks64)
  next
    case 5
    then show ?thesis using s by (simp add: accept_int_simps rep_int64_def masks64)
  qed
qed

lemma accept_number_text:
  "\<forall>d. n \<noteq> NDouble d \<Longrightarrow> accept_number dtoa n w = map_option (Pair True) (jw_put False (show_int (int_of_number n)) w)"
  by (cases n) (simp_all add: accept_rep_int accept_rep_uint accept_rep_int64 accept_rep_uint64)

section \<open>What is written for a document\<close>

text \<open>Documents without doubles, and what their numbers become when they are read again.\<close>

fun integral :: "'d json \<Rightarrow> bool" and integral_member :: "string \<times> 'd json \<Rightarrow> bool" where
  "integral (JNumber n) = (\<forall>d. n \<noteq> NDouble d)"
| "integral (JArray vs) = list_all integral vs"
| "integral (JObject ms) = list_all integral_member ms"
| "integral JNull = True"
| "integral (JBool b) = True"
| "integral (JString str) = True"
| "integral_member (key, v) = integral v"

fun retyped :: "'d json \<Rightarrow> 'd json" and retyped_member :: "string \<times> 'd json \<Rightarrow> string \<times> 'd json" where
  "retyped (JNumber n) = JNumber (number_of_int (int_of_number n))"
| "retyped (JArray vs) = JArray (map retyped vs)"
| "retyped (JObject ms) = JObject (map retyped_member ms)"
| "retyped JNull = JNull"
| "retyped (JBool b) = JBool b"
| "retyped (JString str) = JString str"
| "retyped_member (key, v) = (key, retyped v)"

definition after_sep :: "nat \<Rightarrow> string list \<Rightarrow> string" where
  "after_sep c ts = (if ts = [] \<or> c = 0 then commas ts else CHR '','' # commas ts)"

lemma after_sep_simps:
  "after_sep c [] = []" "after_sep c (t # ts) = (if c = 0 then [] else '','') @ t @ after_sep (Suc c) ts"
  by (cases ts; simp add: after_sep_def)+

lemma Prefix_str: "Prefix False w = Some w1 \<Longrightarrow> Prefix True w = Some w1"
  by (auto simp: Prefix_def Let_def split: list.splits if_splits)

lemma Accept_text:
  "Prefix False w = Some w1 \<Longrightarrow> integral v \<Longrightarrow> Accept dtoa v w = Some (True, w1\<lparr>os := os w1 @ json_text v\<rparr>)"
  "level_stack w = \<lparr>valueCount = c, inArray = True\<rparr> # ls \<Longrightarrow> list_all integral vs \<Longrightarrow> Accept_elements dtoa vs w =
    Some (True, w\<lparr>os := os w @ after_sep c (map json_text vs), level_stack := \<lparr>valueCount = c + length vs, inArray = True\<rparr> # ls\<rparr>)"
  "level_stack w = \<lparr>valueCount = 2 * c, inArray = False\<rparr> # ls \<Longrightarrow> list_all integral_member ms \<Longrightarrow> Accept_members dtoa ms w =
    Some (True, w\<lparr>os := os w @ after_sep c (map member_text ms), level_stack := \<lparr>valueCount = 2 * (c + length ms), inArray = False\<rparr> # ls\<rparr>)"
proof (induction dtoa v w and dtoa vs w and dtoa ms w arbitrary: w1 and c ls and c ls rule: Accept_Accept_elements_Accept_members.induct)
  case (1 dtoa w)
  then show ?case by (simp add: jw_Null_def jw_put_def)
next
  case (2 dtoa b w)
  then show ?case by (simp add: jw_Bool_def jw_put_def)
next
  case (3 dtoa ms w)
  let ?w = "w1\<lparr>os := os w1 @ ''{'', level_stack := \<lparr>valueCount = 0, inArray = False\<rparr> # level_stack w1\<rparr>"
  have s: "jw_StartObject w = Some ?w" using 3(2) by (simp add: jw_StartObject_def)
  from 3(1) [OF s, of 0 "level_stack w1"] 3(3) have "Accept_members dtoa ms ?w = Some (True, ?w\<lparr>os := os ?w @ after_sep 0 (map member_text ms),
      level_stack := \<lparr>valueCount = 2 * length ms, inArray = False\<rparr> # level_stack w1\<rparr>)" by simp
  then show ?case using s by (simp add: jw_EndObject_def after_sep_def)
next
  case (4 dtoa vs w)
  let ?w = "w1\<lparr>os := os w1 @ ''['', level_stack := \<lparr>valueCount = 0, inArray = True\<rparr> # level_stack w1\<rparr>"
  have s: "jw_StartArray w = Some ?w" using 4(2) by (simp add: jw_StartArray_def)
  from 4(1) [OF s, of 0 "level_stack w1"] 4(3) have "Accept_elements dtoa vs ?w = Some (True, ?w\<lparr>os := os ?w @ after_sep 0 (map json_text vs),
      level_stack := \<lparr>valueCount = length vs, inArray = True\<rparr> # level_stack w1\<rparr>)" by simp
  then show ?case using s by (simp add: jw_EndArray_def after_sep_def)
next
  case (5 dtoa str w)
  then show ?case by (simp add: jw_String_len_def jw_put_def Prefix_str)
next
  case (6 dtoa n w)
  then show ?case by (simp add: accept_number_text jw_put_def)
next
  case (7 dtoa w)
  then show ?case by (simp add: after_sep_simps)
next
  case (8 dtoa v vs w)
  let ?w1 = "w\<lparr>os := os w @ (if c = 0 then [] else '',''), level_stack := \<lparr>valueCount = Suc c, inArray = True\<rparr> # ls\<rparr>"
  have "Prefix False w = Some ?w1" using 8(3) by (simp add: Prefix_def)
  from 8(1) [OF this] 8(4) have v: "Accept dtoa v w = Some (True, ?w1\<lparr>os := os ?w1 @ json_text v\<rparr>)" by simp
  from 8(2) [OF v refl, of "Suc c" ls] 8(4) show ?case using v by (simp add: after_sep_simps)
next
  case (9 dtoa w)
  then show ?case by (simp add: after_sep_simps)
next
  case (10 dtoa key v ms w)
  let ?w1 = "w\<lparr>os := os w @ (if c = 0 then [] else '','') @ WriteString key, level_stack := \<lparr>valueCount = Suc (2 * c), inArray = False\<rparr> # ls\<rparr>"
  let ?w2 = "?w1\<lparr>os := os ?w1 @ '':'', level_stack := \<lparr>valueCount = 2 * Suc c, inArray = False\<rparr> # ls\<rparr>"
  have k: "jw_String_len key w = Some ?w1" using 10(3) by (simp add: jw_String_len_def jw_put_def Prefix_def)
  have "Prefix False ?w1 = Some ?w2" by (simp add: Prefix_def)
  from 10(1) [OF k this] 10(4) have v: "Accept dtoa v ?w1 = Some (True, ?w2\<lparr>os := os ?w2 @ json_text v\<rparr>)" by simp
  from 10(2) [OF k v refl, of "Suc c" ls] 10(4) show ?case using k v by (simp add: after_sep_simps)
qed

lemma int_of_number_bounds:
  "- (2 ^ 63) \<le> int_of_number n" "int_of_number n < 2 ^ 64"
proof -
  have a: "- 2147483648 \<le> sint w" "sint w < 2147483648" "0 \<le> uint w" "uint w < 4294967296" for w :: "32 word"
    using sint_greater_eq [of w] sint_less [of w] uint_bounded [of w] by simp_all
  have b: "- 9223372036854775808 \<le> sint w" "sint w < 9223372036854775808" "0 \<le> uint w" "uint w < 18446744073709551616" for w :: "64 word"
    using sint_greater_eq [of w] sint_less [of w] uint_bounded [of w] by simp_all
  have "- 9223372036854775808 \<le> int_of_number n \<and> int_of_number n < 18446744073709551616"
  proof (cases n)
    case (NInt w) then show ?thesis using a(1,2) [of w] by simp
  next
    case (NUint w) then show ?thesis using a(4) [of w] order_trans [OF _ a(3) [of w]] by simp
  next
    case (NInt64 w) then show ?thesis using b(1,2) [of w] by simp
  next
    case (NUint64 w) then show ?thesis using b(4) [of w] order_trans [OF _ b(3) [of w]] by simp
  qed simp
  then show "- (2 ^ 63) \<le> int_of_number n" "int_of_number n < 2 ^ 64" by simp_all
qed

lemma int_of_number_retyped: "int_of_number (number_of_int (int_of_number n) :: 'd number) = int_of_number n"
  by (rule int_of_number_of_int [OF int_of_number_bounds])

lemma reader_number_of_int: "- (2 ^ 63) \<le> n \<Longrightarrow> n < 2 ^ 64 \<Longrightarrow> reader_number (number_of_int n :: 'd number)"
  using int_of_number_of_int [of n, where 'd = 'd] by (auto simp: number_of_int_def split: if_splits)

lemma retyped_text:
  fixes v :: "'d json" and m :: "string \<times> 'd json"
  shows "json_text (retyped v) = json_text v" "member_text (retyped_member m) = member_text m"
proof (induction v and m rule: json_text_member_text.induct)
  case (3 n)
  then show ?case by (simp add: int_of_number_retyped)
qed (simp_all cong: map_cong)

lemma retyped_printable:
  fixes v :: "'d json" and m :: "string \<times> 'd json"
  shows "printable (retyped v)" "printable_member (retyped_member m)"
proof (induction v and m rule: json_text_member_text.induct)
  case (3 n)
  then show ?case using reader_number_of_int [OF int_of_number_bounds] by simp
qed (simp_all add: list_all_iff)

lemma retyped_id:
  fixes v :: "'d json" and m :: "string \<times> 'd json"
  shows "printable v \<Longrightarrow> retyped v = v" "printable_member m \<Longrightarrow> retyped_member m = m"
proof (induction v and m rule: json_text_member_text.induct)
  case (3 n)
  then show ?case using number_of_int_of_number by simp
qed (auto simp: list_all_iff map_idI)

text \<open>C14: Documents survive the library's own writer and reader. For any document without doubles,
  however deep, Accept drives the writer without a failed assertion to a complete text, in which
  each number is printed through whichever of the four integer types its flags select first; and
  parsing that text, with any white space around it, gives the document back, each number in
  the type the reader chooses for its value. A document that came from the reader comes back
  unchanged.\<close>

theorem written_documents_are_read_back:
  assumes "integral v" "list_all json_ws ws" "list_all json_ws ws'"
  shows "\<exists>w. Accept dtoa v Writer_new = Some (True, w) \<and> IsComplete w \<and>
    Document_Parse fp (ws @ os w @ ws') = Inr (retyped v) \<and> (printable v \<longrightarrow> retyped v = v)"
proof -
  have "Prefix False Writer_new = Some (Writer_new\<lparr>hasRoot := True\<rparr>)" by (simp add: Prefix_def Writer_new_def)
  from Accept_text(1) [OF this assms(1)]
  have a: "Accept dtoa v Writer_new = Some (True, \<lparr>os = json_text v, level_stack = [], hasRoot = True\<rparr>)"
    by (simp add: Writer_new_def)
  have "Document_Parse fp (ws @ json_text v @ ws') = Inr (retyped v)"
    using document_text_parses [OF retyped_printable(1) assms(2,3), of fp v] by (simp add: retyped_text)
  with a show ?thesis by (simp add: IsComplete_def retyped_id)
qed

definition demo_value :: "unit json" where
  "demo_value = JObject [(''indexCode'', JString ''131''), (''n'', JArray [JNumber (NInt (- 5)), JNumber (NUint64 (2 ^ 64 - 1)), JNull])]"

theorem written_documents_are_read_back_witness:
  "\<exists>w. Accept (\<lambda>_. None) demo_value Writer_new = Some (True, w) \<and> Document_Parse demo_fpu ('' '' @ os w @ [CHR 0x0A]) = Inr demo_value"
proof -
  have "printable demo_value" by (simp add: demo_value_def)
  then show ?thesis
    using written_documents_are_read_back [of demo_value "'' ''" "[CHR 0x0A]" "\<lambda>_. None" demo_fpu]
    by (auto simp: demo_value_def json_ws_def)
qed

end
