(* ===== verification/Json_Value.thy ===== *)
theory Json_Value
  imports Json_Writer
begin

text \<open>
  The values of a rapidjson document as the code stores them (\<^verbatim>\<open>GenericValue\<close> of \<^verbatim>\<open>document.h\<close>):
  flags that say what may be read, numbers in a union, strings by reference, in a copy or in the value
  itself, arrays and objects as blocks of slots with a size and a capacity of 32 bits. The
  operations are those that build, change, copy and compare values. \<open>None\<close> around a result is a failed
  assertion or an access to memory that holds no value. Destructors do nothing here, since the
  document's pool frees nothing one by one (\<^verbatim>\<open>kNeedFree\<close> is false). The lemmas say which document a
  value stands for, and that numbers, strings and members are read as what they are.
\<close>

unbundle bit_operations_syntax

section \<open>Blocks of slots\<close>

text \<open>
  A null pointer or the slots of a block; a slot that was never written is \<open>None\<close>. The first argument
  of an allocation says whether the pool has the room.
\<close>

type_synonym 'a slots = "'a option list option"

definition Malloc_slots :: "bool \<Rightarrow> nat \<Rightarrow> 'a slots" where
  "Malloc_slots gives n = (if n = 0 \<or> \<not> gives then None else Some (replicate n None))"

definition Realloc_slots :: "bool \<Rightarrow> nat \<Rightarrow> 'a slots \<Rightarrow> 'a slots" where
  "Realloc_slots gives n blk = (case blk of
     None \<Rightarrow> Malloc_slots gives n
   | Some m \<Rightarrow> if n = 0 then None
       else if length m \<ge> n then Some m
       else if gives then Some (m @ replicate (n - length m) None) else None)"

definition get_slot :: "nat \<Rightarrow> 'a slots \<Rightarrow> 'a option" where
  "get_slot i blk = (case blk of None \<Rightarrow> None | Some m \<Rightarrow> if i < length m then m ! i else None)"

definition put_slot :: "nat \<Rightarrow> 'a \<Rightarrow> 'a slots \<Rightarrow> 'a slots option" where
  "put_slot i x blk = (case blk of None \<Rightarrow> None | Some m \<Rightarrow> if i < length m then Some (Some (m[i := Some x])) else None)"

definition memmove_slots :: "nat \<Rightarrow> nat \<Rightarrow> nat \<Rightarrow> 'a slots \<Rightarrow> 'a slots" where
  "memmove_slots dst src n blk = map_option (\<lambda>m. take dst m @ take n (drop src m) @ drop (dst + n) m) blk"

section \<open>Values\<close>

text \<open>
  A string value holds its length and the bytes at its pointer, a short string the bytes of the
  value itself. \<open>VNumberAny\<close> has all flags of a number and all bytes zero.
\<close>

datatype 'd gvalue =
    VNull
  | VBool bool
  | VInteger num_rep
  | VDouble 'd
  | VNumberAny 'd
  | VConstString "32 word" string
  | VCopyString "32 word" string
  | VShortString string
  | VArray "32 word" "32 word" "'d gvalue option list option"
  | VObject "32 word" "32 word" "('d gvalue \<times> 'd gvalue) option list option"

datatype rj_type = kNullType | kFalseType | kTrueType | kObjectType | kArrayType | kStringType | kNumberType

fun GetType :: "'d gvalue \<Rightarrow> rj_type" where
  "GetType VNull = kNullType"
| "GetType (VBool b) = (if b then kTrueType else kFalseType)"
| "GetType (VInteger r) = kNumberType"
| "GetType (VDouble d) = kNumberType"
| "GetType (VNumberAny d) = kNumberType"
| "GetType (VConstString n s) = kStringType"
| "GetType (VCopyString n s) = kStringType"
| "GetType (VShortString s) = kStringType"
| "GetType (VArray s c m) = kArrayType"
| "GetType (VObject s c m) = kObjectType"

definition IsString :: "'d gvalue \<Rightarrow> bool" where
  "IsString v \<longleftrightarrow> GetType v = kStringType"

definition IsDouble :: "'d gvalue \<Rightarrow> bool" where
  "IsDouble v = (case v of VDouble _ \<Rightarrow> True | VNumberAny _ \<Rightarrow> True | _ \<Rightarrow> False)"

section \<open>Strings\<close>

text \<open>With pointers of 48 bits, 14 bytes precede the flags; the last holds 13 minus the length.\<close>

definition MaxSize :: nat where
  "MaxSize = 13"

definition Usable :: "32 word \<Rightarrow> bool" where
  "Usable len \<longleftrightarrow> MaxSize \<ge> unat len"

definition ss_SetLength :: "32 word \<Rightarrow> string \<Rightarrow> string" where
  "ss_SetLength len str = str[MaxSize := char_of_byte (of_nat (MaxSize - unat len))]"

definition ss_GetLength :: "string \<Rightarrow> 32 word" where
  "ss_GetLength str = word_of_int (int MaxSize - sint (byte_of_char (str ! MaxSize)))"

fun GetStringLength :: "'d gvalue \<Rightarrow> 32 word option" where
  "GetStringLength (VConstString n s) = Some n"
| "GetStringLength (VCopyString n s) = Some n"
| "GetStringLength (VShortString s) = Some (ss_GetLength s)"
| "GetStringLength _ = None"

text \<open>The bytes the returned pointer leads to.\<close>

fun value_GetString :: "'d gvalue \<Rightarrow> string option" where
  "value_GetString (VConstString n s) = Some s"
| "value_GetString (VCopyString n s) = Some s"
| "value_GetString (VShortString s) = Some s"
| "value_GetString _ = None"

definition SetStringRaw_ref :: "32 word \<Rightarrow> string \<Rightarrow> 'd gvalue" where
  "SetStringRaw_ref len s = VConstString len s"

text \<open>\<open>raw\<close> is what the value's bytes are before; the source must have the bytes that are copied.\<close>

definition SetStringRaw :: "bool \<Rightarrow> string \<Rightarrow> 32 word \<Rightarrow> string \<Rightarrow> 'd gvalue option" where
  "SetStringRaw gives raw len s =
     (if length s < unat len then None
      else if Usable len
      then Some (VShortString ((take (unat len) s @ drop (unat len) (ss_SetLength len raw))[unat len := CHR 0x00]))
      else if len + 1 = 0 \<or> \<not> gives then None
      else Some (VCopyString len (take (unat len) s @ [CHR 0x00])))"

text \<open>Equal pointers lead to equal bytes, so that the shortcut for them is no case of its own.\<close>

definition StringEqual :: "'d gvalue \<Rightarrow> 'e gvalue \<Rightarrow> bool option" where
  "StringEqual v w = (case (GetStringLength v, value_GetString v, GetStringLength w, value_GetString w) of
     (Some len1, Some str1, Some len2, Some str2) \<Rightarrow>
       if len1 \<noteq> len2 then Some False
       else if unat len1 \<le> length str1 \<and> unat len1 \<le> length str2
       then Some (take (unat len1) str1 = take (unat len1) str2) else None
   | _ \<Rightarrow> None)"

section \<open>Numbers\<close>

fun GetInt :: "'d gvalue \<Rightarrow> int32 option" where
  "GetInt (VInteger r) = (if kIntFlag r then Some (ucast (n_u64 r)) else None)"
| "GetInt (VNumberAny d) = Some 0"
| "GetInt _ = None"

fun GetUint :: "'d gvalue \<Rightarrow> uint32 option" where
  "GetUint (VInteger r) = (if kUintFlag r then Some (ucast (n_u64 r)) else None)"
| "GetUint (VNumberAny d) = Some 0"
| "GetUint _ = None"

fun GetInt64 :: "'d gvalue \<Rightarrow> int64 option" where
  "GetInt64 (VInteger r) = (if kInt64Flag r then Some (n_u64 r) else None)"
| "GetInt64 (VNumberAny d) = Some 0"
| "GetInt64 _ = None"

fun GetUint64 :: "'d gvalue \<Rightarrow> 64 word option" where
  "GetUint64 (VInteger r) = (if kUint64Flag r then Some (n_u64 r) else None)"
| "GetUint64 (VNumberAny d) = Some 0"
| "GetUint64 _ = None"

text \<open>\<open>dbl\<close> is the conversion of an integer to \<^verbatim>\<open>double\<close>.\<close>

fun GetDouble :: "(int \<Rightarrow> 'd) \<Rightarrow> 'd gvalue \<Rightarrow> 'd option" where
  "GetDouble dbl (VDouble d) = Some d"
| "GetDouble dbl (VNumberAny d) = Some d"
| "GetDouble dbl (VInteger r) =
     (if kIntFlag r then Some (dbl (sint (ucast (n_u64 r) :: int32)))
      else if kUintFlag r then Some (dbl (uint (ucast (n_u64 r) :: uint32)))
      else if kInt64Flag r then Some (dbl (sint (n_u64 r)))
      else if kUint64Flag r then Some (dbl (uint (n_u64 r))) else None)"
| "GetDouble dbl _ = None"

section \<open>Construction and assignment\<close>

text \<open>The bytes of the value are cleared first; \<open>zero\<close> is the double whose bytes are.\<close>

definition GenericValue_type :: "'d \<Rightarrow> rj_type \<Rightarrow> 'd gvalue" where
  "GenericValue_type zero t = (case t of
     kNullType \<Rightarrow> VNull | kFalseType \<Rightarrow> VBool False | kTrueType \<Rightarrow> VBool True
   | kObjectType \<Rightarrow> VObject 0 0 None | kArrayType \<Rightarrow> VArray 0 0 None
   | kStringType \<Rightarrow> VShortString (ss_SetLength 0 (replicate (Suc MaxSize) (CHR 0x00))) | kNumberType \<Rightarrow> VNumberAny zero)"

text \<open>The target's new value and what is left of the source.\<close>

definition RawAssign :: "'d gvalue \<Rightarrow> 'd gvalue \<times> 'd gvalue" where
  "RawAssign rhs = (rhs, VNull)"

definition value_Swap :: "'d gvalue \<Rightarrow> 'd gvalue \<Rightarrow> 'd gvalue \<times> 'd gvalue" where
  "value_Swap this other =
     (let (temp, this1) = RawAssign this; (this2, other1) = RawAssign other; (other2, temp1) = RawAssign temp in (this2, other2))"

text \<open>The assertion of \<^verbatim>\<open>operator=\<close> and of \<^verbatim>\<open>CopyFrom\<close> is that the two are different values.\<close>

definition value_assign :: "bool \<Rightarrow> 'd gvalue \<Rightarrow> 'd gvalue \<Rightarrow> ('d gvalue \<times> 'd gvalue) option" where
  "value_assign same this rhs = (if same then None else Some (RawAssign rhs))"

text \<open>The setters run the destructor and construct the new value in place.\<close>

definition SetNull :: "'d gvalue" where
  "SetNull = VNull"

definition SetBool :: "bool \<Rightarrow> 'd gvalue" where
  "SetBool b = VBool b"

definition SetInt :: "int32 \<Rightarrow> 'd gvalue" where
  "SetInt i = VInteger (rep_int i)"

definition SetUint :: "uint32 \<Rightarrow> 'd gvalue" where
  "SetUint u = VInteger (rep_uint u)"

definition SetInt64 :: "int64 \<Rightarrow> 'd gvalue" where
  "SetInt64 i64 = VInteger (rep_int64 i64)"

definition SetUint64 :: "64 word \<Rightarrow> 'd gvalue" where
  "SetUint64 u64 = VInteger (rep_uint64 u64)"

definition SetDouble :: "'d \<Rightarrow> 'd gvalue" where
  "SetDouble d = VDouble d"

text \<open>A value made of an array or an object leaves an empty one behind.\<close>

definition GenericValue_Array :: "'d gvalue \<Rightarrow> 'd gvalue \<times> 'd gvalue" where
  "GenericValue_Array a = (a, VArray 0 0 None)"

definition GenericValue_Object :: "'d gvalue \<Rightarrow> 'd gvalue \<times> 'd gvalue" where
  "GenericValue_Object x = (x, VObject 0 0 None)"

section \<open>Arrays\<close>

definition kDefaultArrayCapacity :: "32 word" where
  "kDefaultArrayCapacity = 16"

definition SetArray :: "'d gvalue" where
  "SetArray = VArray 0 0 None"

definition value_Reserve :: "bool \<Rightarrow> 32 word \<Rightarrow> 'd gvalue \<Rightarrow> 'd gvalue option" where
  "value_Reserve gives newCapacity v = (case v of
     VArray sz cap blk \<Rightarrow>
       Some (if newCapacity > cap then VArray sz newCapacity (Realloc_slots gives (unat newCapacity) blk) else v)
   | _ \<Rightarrow> None)"

definition PushBack :: "bool \<Rightarrow> 'd gvalue \<Rightarrow> 'd gvalue \<Rightarrow> ('d gvalue \<times> 'd gvalue) option" where
  "PushBack gives v x = (case v of
     VArray sz cap blk \<Rightarrow>
       (case (if sz \<ge> cap then value_Reserve gives (if cap = 0 then kDefaultArrayCapacity else cap + (cap + 1) div 2) v else Some v) of
          Some (VArray sz1 cap1 blk1) \<Rightarrow>
            map_option (\<lambda>blk2. (VArray (sz1 + 1) cap1 blk2, snd (RawAssign x))) (put_slot (unat sz1) (fst (RawAssign x)) blk1)
        | _ \<Rightarrow> None)
   | _ \<Rightarrow> None)"

definition PopBack :: "'d gvalue \<Rightarrow> 'd gvalue option" where
  "PopBack v = (case v of VArray sz cap blk \<Rightarrow> if sz = 0 then None else Some (VArray (sz - 1) cap blk) | _ \<Rightarrow> None)"

definition array_Clear :: "'d gvalue \<Rightarrow> 'd gvalue option" where
  "array_Clear v = (case v of VArray sz cap blk \<Rightarrow> Some (VArray 0 cap blk) | _ \<Rightarrow> None)"

text \<open>The iterators are given by their distance from \<^verbatim>\<open>Begin()\<close>.\<close>

definition value_Erase :: "nat \<Rightarrow> nat \<Rightarrow> 'd gvalue \<Rightarrow> (nat \<times> 'd gvalue) option" where
  "value_Erase first lst v = (case v of
     VArray sz cap blk \<Rightarrow>
       if sz > 0 \<and> blk \<noteq> None \<and> first \<le> lst \<and> lst \<le> unat sz
       then Some (first, VArray (sz - of_nat (lst - first)) cap (memmove_slots first lst (unat sz - lst) blk)) else None
   | _ \<Rightarrow> None)"

text \<open>An array from the values the document's stack holds.\<close>

definition SetArrayRaw :: "bool \<Rightarrow> 'd gvalue list \<Rightarrow> 32 word \<Rightarrow> 'd gvalue option" where
  "SetArrayRaw gives vals count = (if count = 0 then Some (VArray 0 0 None)
     else if \<not> gives \<or> length vals < unat count then None else Some (VArray count count (Some (map Some (take (unat count) vals)))))"

definition array_at :: "'d gvalue \<Rightarrow> 32 word \<Rightarrow> 'd gvalue option" where
  "array_at v index = (case v of VArray sz cap blk \<Rightarrow> if index < sz then get_slot (unat index) blk else None | _ \<Rightarrow> None)"

section \<open>Objects\<close>

definition kDefaultObjectCapacity :: "32 word" where
  "kDefaultObjectCapacity = 16"

definition SetObject :: "'d gvalue" where
  "SetObject = VObject 0 0 None"

text \<open>The loop from member \<open>i\<close> on; the size is \<^verbatim>\<open>MemberEnd()\<close>.\<close>

function find_from :: "'e gvalue \<Rightarrow> ('d gvalue \<times> 'd gvalue) slots \<Rightarrow> nat \<Rightarrow> nat \<Rightarrow> nat option" where
  "find_from name blk len i = (if i \<ge> len then Some i
     else case get_slot i blk of None \<Rightarrow> None
       | Some (n, x) \<Rightarrow> (case StringEqual name n of None \<Rightarrow> None
           | Some b \<Rightarrow> if b then Some i else find_from name blk len (Suc i)))"
  by pat_completeness auto

termination by (relation "measure (\<lambda>(name, blk, len, i). len - i)") auto

declare find_from.simps [simp del]

definition value_FindMember :: "'d gvalue \<Rightarrow> 'e gvalue \<Rightarrow> nat option" where
  "value_FindMember v name = (case v of
     VObject sz cap blk \<Rightarrow> if IsString name then find_from name blk (unat sz) 0 else None
   | _ \<Rightarrow> None)"

definition HasMember :: "'d gvalue \<Rightarrow> 'e gvalue \<Rightarrow> bool option" where
  "HasMember v name = (case v of
     VObject sz cap blk \<Rightarrow> map_option (\<lambda>i. i \<noteq> unat sz) (value_FindMember v name) | _ \<Rightarrow> None)"

definition member_at :: "'d gvalue \<Rightarrow> 'e gvalue \<Rightarrow> 'd gvalue option" where
  "member_at v name = (case v of
     VObject sz cap blk \<Rightarrow> (case value_FindMember v name of None \<Rightarrow> None
       | Some i \<Rightarrow> if i \<noteq> unat sz then map_option snd (get_slot i blk) else None)
   | _ \<Rightarrow> None)"

definition AddMember :: "bool \<Rightarrow> 'd gvalue \<Rightarrow> 'd gvalue \<Rightarrow> 'd gvalue \<Rightarrow> ('d gvalue \<times> 'd gvalue \<times> 'd gvalue) option" where
  "AddMember gives v name x = (case v of
     VObject sz cap blk \<Rightarrow>
       if \<not> IsString name then None
       else let (cap1, blk1) =
           (if sz \<ge> cap
            then if cap = 0 then (kDefaultObjectCapacity, Malloc_slots gives (unat kDefaultObjectCapacity))
              else let cap1 = cap + (cap + 1) div 2 in (cap1, Realloc_slots gives (unat cap1) blk)
            else (cap, blk))
         in map_option (\<lambda>blk2. (VObject (sz + 1) cap1 blk2, snd (RawAssign name), snd (RawAssign x)))
              (put_slot (unat sz) (fst (RawAssign name), fst (RawAssign x)) blk1)
   | _ \<Rightarrow> None)"

definition RemoveAllMembers :: "'d gvalue \<Rightarrow> 'd gvalue option" where
  "RemoveAllMembers v = (case v of VObject sz cap blk \<Rightarrow> Some (VObject 0 cap blk) | _ \<Rightarrow> None)"

definition SetObjectRaw :: "bool \<Rightarrow> ('d gvalue \<times> 'd gvalue) list \<Rightarrow> 32 word \<Rightarrow> 'd gvalue option" where
  "SetObjectRaw gives mems count = (if count = 0 then Some (VObject 0 0 None)
     else if \<not> gives \<or> length mems < unat count then None else Some (VObject count count (Some (map Some (take (unat count) mems)))))"

text \<open>\<^verbatim>\<open>*m = *last\<close> moves name and value, which leaves nulls in the last slot.\<close>

definition RemoveMember_at :: "nat \<Rightarrow> 'd gvalue \<Rightarrow> (nat \<times> 'd gvalue) option" where
  "RemoveMember_at i v = (case v of
     VObject sz cap blk \<Rightarrow>
       if sz > 0 \<and> blk \<noteq> None \<and> i < unat sz
       then let l = unat sz - 1 in
         if sz > 1 \<and> i \<noteq> l
         then (case get_slot l blk of None \<Rightarrow> None
           | Some (n, x) \<Rightarrow> (case put_slot i (n, x) blk of None \<Rightarrow> None
               | Some blk1 \<Rightarrow> map_option (\<lambda>blk2. (i, VObject (sz - 1) cap blk2)) (put_slot l (VNull, VNull) blk1)))
         else Some (i, VObject (sz - 1) cap blk)
       else None
   | _ \<Rightarrow> None)"

definition RemoveMember :: "'e gvalue \<Rightarrow> 'd gvalue \<Rightarrow> (bool \<times> 'd gvalue) option" where
  "RemoveMember name v = (case v of
     VObject sz cap blk \<Rightarrow> (case value_FindMember v name of None \<Rightarrow> None
       | Some i \<Rightarrow> if i \<noteq> unat sz then map_option (\<lambda>(_, v'). (True, v')) (RemoveMember_at i v) else Some (False, v))
   | _ \<Rightarrow> None)"

definition EraseMember_range :: "nat \<Rightarrow> nat \<Rightarrow> 'd gvalue \<Rightarrow> (nat \<times> 'd gvalue) option" where
  "EraseMember_range first lst v = (case v of
     VObject sz cap blk \<Rightarrow>
       if sz > 0 \<and> blk \<noteq> None \<and> first \<le> lst \<and> lst \<le> unat sz
       then Some (first, VObject (sz - of_nat (lst - first)) cap (memmove_slots first lst (unat sz - lst) blk)) else None
   | _ \<Rightarrow> None)"

definition EraseMember :: "'e gvalue \<Rightarrow> 'd gvalue \<Rightarrow> (bool \<times> 'd gvalue) option" where
  "EraseMember name v = (case v of
     VObject sz cap blk \<Rightarrow> (case value_FindMember v name of None \<Rightarrow> None
       | Some i \<Rightarrow> if i \<noteq> unat sz then map_option (\<lambda>(_, v'). (True, v')) (EraseMember_range i (i + 1) v) else Some (False, v))
   | _ \<Rightarrow> None)"

section \<open>Comparing\<close>

text \<open>
  \<open>dle\<close> compares doubles; \<^verbatim>\<open>a >= b\<close> is \<^verbatim>\<open>b <= a\<close>. The loops stop at the first difference: \<open>elements_eq\<close>
  is the one over the elements of two arrays, \<open>members_eq\<close> the one over the members of the left object.
\<close>

definition numbers_eq :: "(int \<Rightarrow> 'd) \<Rightarrow> ('d \<Rightarrow> 'd \<Rightarrow> bool) \<Rightarrow> 'd gvalue \<Rightarrow> 'd gvalue \<Rightarrow> bool option" where
  "numbers_eq dbl dle v w = (if IsDouble v \<or> IsDouble w
     then (case (GetDouble dbl v, GetDouble dbl w) of (Some a, Some b) \<Rightarrow> Some (dle b a \<and> dle a b) | _ \<Rightarrow> None)
     else (case (v, w) of (VInteger r, VInteger r') \<Rightarrow> Some (n_u64 r = n_u64 r') | _ \<Rightarrow> None))"

function (sequential) value_eq :: "(int \<Rightarrow> 'd) \<Rightarrow> ('d \<Rightarrow> 'd \<Rightarrow> bool) \<Rightarrow> 'd gvalue \<Rightarrow> 'd gvalue \<Rightarrow> bool option"
  and elements_eq :: "(int \<Rightarrow> 'd) \<Rightarrow> ('d \<Rightarrow> 'd \<Rightarrow> bool) \<Rightarrow> nat \<Rightarrow> 'd gvalue option list \<Rightarrow> 'd gvalue option list \<Rightarrow> bool option"
  and members_eq :: "(int \<Rightarrow> 'd) \<Rightarrow> ('d \<Rightarrow> 'd \<Rightarrow> bool) \<Rightarrow> nat \<Rightarrow> ('d gvalue \<times> 'd gvalue) option list \<Rightarrow> 'd gvalue \<Rightarrow> bool option" where
  "value_eq dbl dle (VObject s c (Some m)) w = (case w of
     VObject s' c' m' \<Rightarrow> if s \<noteq> s' then Some False else members_eq dbl dle (unat s) m w | _ \<Rightarrow> Some False)"
| "value_eq dbl dle (VObject s c None) w = (case w of
     VObject s' c' m' \<Rightarrow> if s \<noteq> s' then Some False else members_eq dbl dle (unat s) [] w | _ \<Rightarrow> Some False)"
| "value_eq dbl dle (VArray s c (Some m)) w = (case w of
     VArray s' c' m' \<Rightarrow> if s \<noteq> s' then Some False
       else elements_eq dbl dle (unat s) m (case m' of None \<Rightarrow> [] | Some l \<Rightarrow> l) | _ \<Rightarrow> Some False)"
| "value_eq dbl dle (VArray s c None) w = (case w of
     VArray s' c' m' \<Rightarrow> if s \<noteq> s' then Some False
       else elements_eq dbl dle (unat s) [] (case m' of None \<Rightarrow> [] | Some l \<Rightarrow> l) | _ \<Rightarrow> Some False)"
| "value_eq dbl dle v w = (if GetType v \<noteq> GetType w then Some False
     else if GetType v = kStringType then StringEqual v w
     else if GetType v = kNumberType then numbers_eq dbl dle v w
     else Some True)"
| "elements_eq dbl dle 0 m m' = Some True"
| "elements_eq dbl dle (Suc n) (Some x # m) (Some y # m') = (case value_eq dbl dle x y of
     None \<Rightarrow> None | Some b \<Rightarrow> if b then elements_eq dbl dle n m m' else Some False)"
| "elements_eq dbl dle (Suc n) _ _ = None"
| "members_eq dbl dle 0 m w = Some True"
| "members_eq dbl dle (Suc n) (Some (name, x) # m) w = (case HasMember w name of
     None \<Rightarrow> None
   | Some found \<Rightarrow> if \<not> found then Some False
       else (case member_at w name of
           None \<Rightarrow> None
         | Some y \<Rightarrow> (case value_eq dbl dle x y of
             None \<Rightarrow> None | Some b \<Rightarrow> if b then members_eq dbl dle n m w else Some False)))"
| "members_eq dbl dle (Suc n) _ w = None"
  by pat_completeness auto

termination
  by (relation "measure (\<lambda>x. case x of Inl (_, _, v, _) \<Rightarrow> size v
    | Inr (Inl (_, _, _, m, _)) \<Rightarrow> size_list (size_option size) m
    | Inr (Inr (_, _, _, m, _)) \<Rightarrow> size_list (size_option (size_prod size size)) m)") auto

section \<open>Copying\<close>

text \<open>
  \<open>ok k\<close> says whether the pool has room for request \<open>k\<close>, \<open>junk k\<close> what the bytes of a new value hold
  before. A request of no bytes gives a null pointer, which is not followed.
\<close>

definition copy_string :: "(nat \<Rightarrow> bool) \<Rightarrow> (nat \<Rightarrow> string) \<Rightarrow> nat \<Rightarrow> 'd gvalue \<Rightarrow> ('d gvalue \<times> nat) option" where
  "copy_string ok junk k v = (case (GetStringLength v, value_GetString v) of
     (Some len, Some str) \<Rightarrow> map_option (\<lambda>v'. (v', Suc k)) (SetStringRaw (ok k) (junk k) len str) | _ \<Rightarrow> None)"

function (sequential) copy_value :: "(nat \<Rightarrow> bool) \<Rightarrow> (nat \<Rightarrow> string) \<Rightarrow> bool \<Rightarrow> nat \<Rightarrow> 'd gvalue \<Rightarrow> ('d gvalue \<times> nat) option"
  and copy_elements :: "(nat \<Rightarrow> bool) \<Rightarrow> (nat \<Rightarrow> string) \<Rightarrow> bool \<Rightarrow> nat \<Rightarrow> nat \<Rightarrow> 'd gvalue option list \<Rightarrow> ('d gvalue list \<times> nat) option"
  and copy_members :: "(nat \<Rightarrow> bool) \<Rightarrow> (nat \<Rightarrow> string) \<Rightarrow> bool \<Rightarrow> nat \<Rightarrow> nat \<Rightarrow> ('d gvalue \<times> 'd gvalue) option list \<Rightarrow> (('d gvalue \<times> 'd gvalue) list \<times> nat) option" where
  "copy_value ok junk copyConst k (VObject s c (Some m)) = (if s = 0 then Some (VObject 0 0 None, k)
     else if \<not> ok k then None
     else map_option (\<lambda>(lm, k'). (VObject s s (Some (map Some lm)), k')) (copy_members ok junk copyConst (Suc k) (unat s) m))"
| "copy_value ok junk copyConst k (VObject s c None) = (if s = 0 then Some (VObject 0 0 None, k) else None)"
| "copy_value ok junk copyConst k (VArray s c (Some m)) = (if s = 0 then Some (VArray 0 0 None, k)
     else if \<not> ok k then None
     else map_option (\<lambda>(le, k'). (VArray s s (Some (map Some le)), k')) (copy_elements ok junk copyConst (Suc k) (unat s) m))"
| "copy_value ok junk copyConst k (VArray s c None) = (if s = 0 then Some (VArray 0 0 None, k) else None)"
| "copy_value ok junk copyConst k (VConstString n str) =
     (if copyConst then copy_string ok junk k (VConstString n str) else Some (VConstString n str, k))"
| "copy_value ok junk copyConst k (VCopyString n str) = copy_string ok junk k (VCopyString n str)"
| "copy_value ok junk copyConst k (VShortString str) = copy_string ok junk k (VShortString str)"
| "copy_value ok junk copyConst k v = Some (v, k)"
| "copy_elements ok junk copyConst k 0 m = Some ([], k)"
| "copy_elements ok junk copyConst k (Suc n) (Some x # m) = (case copy_value ok junk copyConst k x of
     None \<Rightarrow> None
   | Some (x', k1) \<Rightarrow> map_option (\<lambda>(le, k2). (x' # le, k2)) (copy_elements ok junk copyConst k1 n m))"
| "copy_elements ok junk copyConst k (Suc n) _ = None"
| "copy_members ok junk copyConst k 0 m = Some ([], k)"
| "copy_members ok junk copyConst k (Suc n) (Some (name, x) # m) = (case copy_value ok junk copyConst k name of
     None \<Rightarrow> None
   | Some (name', k1) \<Rightarrow> (case copy_value ok junk copyConst k1 x of
       None \<Rightarrow> None
     | Some (x', k2) \<Rightarrow> map_option (\<lambda>(lm, k3). ((name', x') # lm, k3)) (copy_members ok junk copyConst k2 n m)))"
| "copy_members ok junk copyConst k (Suc n) _ = None"
  by pat_completeness auto

termination
  by (relation "measure (\<lambda>x. case x of Inl (_, _, _, _, v) \<Rightarrow> size v
    | Inr (Inl (_, _, _, _, _, m)) \<Rightarrow> size_list (size_option size) m
    | Inr (Inr (_, _, _, _, _, m)) \<Rightarrow> size_list (size_option (size_prod size size)) m)") auto

section \<open>The document a value stands for\<close>

definition string_of :: "'d gvalue \<Rightarrow> string option" where
  "string_of v = (case (GetStringLength v, value_GetString v) of
     (Some len, Some str) \<Rightarrow> if unat len \<le> length str \<and> len + 1 \<noteq> 0 then Some (take (unat len) str) else None
   | _ \<Rightarrow> None)"

definition block_holds :: "32 word \<Rightarrow> 32 word \<Rightarrow> 'a slots \<Rightarrow> 'a list \<Rightarrow> bool" where
  "block_holds s c blk xs \<longleftrightarrow> unat s = length xs \<and>
     (case blk of None \<Rightarrow> c = 0 \<and> xs = [] | Some m \<Rightarrow> length m = unat c \<and> length xs \<le> length m \<and> take (length xs) m = map Some xs)"

fun stored_as :: "'d number \<Rightarrow> 'd gvalue" where
  "stored_as (NInt i) = VInteger (rep_int i)"
| "stored_as (NUint u) = VInteger (rep_uint u)"
| "stored_as (NInt64 i) = VInteger (rep_int64 i)"
| "stored_as (NUint64 u) = VInteger (rep_uint64 u)"
| "stored_as (NDouble d) = VDouble d"

inductive stands_for :: "'d gvalue \<Rightarrow> 'd json \<Rightarrow> bool" where
  null: "stands_for VNull JNull"
| bool: "stands_for (VBool b) (JBool b)"
| number: "stands_for (stored_as n) (JNumber n)"
| number_any: "stands_for (VNumberAny d) (JNumber (NDouble d))"
| string: "string_of v = Some s \<Longrightarrow> stands_for v (JString s)"
| array: "block_holds s c m xs \<Longrightarrow> list_all2 stands_for xs js \<Longrightarrow> stands_for (VArray s c m) (JArray js)"
| object: "block_holds s c m ms \<Longrightarrow> list_all2 (\<lambda>x y. string_of (fst x) = Some (fst y) \<and> stands_for (snd x) (snd y)) ms js
    \<Longrightarrow> stands_for (VObject s c m) (JObject js)"

section \<open>Numbers are read as what they are\<close>

text \<open>The flags of a stored integer say exactly which types it fits.\<close>

definition flags_exact :: "num_rep \<Rightarrow> int \<Rightarrow> bool" where
  "flags_exact r z \<longleftrightarrow> n_u64 r = word_of_int z \<and> - (2 ^ 63) \<le> z \<and> z < 2 ^ 64 \<and>
     (kIntFlag r \<longleftrightarrow> - (2 ^ 31) \<le> z \<and> z < 2 ^ 31) \<and> (kUintFlag r \<longleftrightarrow> 0 \<le> z \<and> z < 2 ^ 32) \<and>
     (kInt64Flag r \<longleftrightarrow> z < 2 ^ 63) \<and> (kUint64Flag r \<longleftrightarrow> 0 \<le> z)"

lemma sint_range:
  fixes w :: "'a::len word"
  shows "- (2 ^ (LENGTH('a) - 1)) \<le> sint w" "sint w < 2 ^ (LENGTH('a) - 1)"
  using sint_ge [of w] sint_less [of w] by simp_all

lemma rep_int_exact: "flags_exact (rep_int i) (sint i)"
  using sint_range [of i] by (auto simp: flags_exact_def rep_int_def)

lemma rep_uint_exact: "flags_exact (rep_uint u) (uint u)"
proof -
  have "u AND 0x80000000 = 0 \<longleftrightarrow> uint u < 2 ^ 31" by (rule high_bits_zero) (simp_all add: mask_eq_decr_exp)
  moreover have "uint u < 2 ^ 32" using uint_bounded [of u] by simp
  ultimately show ?thesis using uint_ge_0 [of u] by (auto simp: flags_exact_def rep_uint_def intro: order_trans [OF _ uint_ge_0])
qed

lemma uint_sint_nonneg: "0 \<le> sint (i :: 64 word) \<Longrightarrow> uint i = sint i"
proof -
  assume "0 \<le> sint i"
  moreover have "uint i = int (unat i)" by simp
  ultimately show ?thesis by (simp only: unat_negate(2) not_less nat_0_le)
qed

lemma rep_int64_exact: "flags_exact (rep_int64 i) (sint i)"
proof -
  have b: "sint (0xFFFFFFFF80000000 :: int64) = - (2 ^ 31)" by simp
  show ?thesis using sint_range [of i] uint_sint_nonneg [of i] by (auto simp: flags_exact_def rep_int64_def masks64 b)
qed

lemma rep_uint64_exact: "flags_exact (rep_uint64 u) (uint u)"
proof -
  have "uint u < 2 ^ 64" using uint_bounded [of u] by simp
  then show ?thesis using uint_ge_0 [of u] by (auto simp: flags_exact_def rep_uint64_def masks64 intro: order_trans [OF _ uint_ge_0])
qed

lemma stored_integer:
  "\<forall>d. n \<noteq> NDouble d \<Longrightarrow> \<exists>r. stored_as n = VInteger r \<and> flags_exact r (int_of_number n)"
  by (cases n) (simp_all add: rep_int_exact rep_uint_exact rep_int64_exact rep_uint64_exact)

lemma low_word: "ucast (word_of_int z :: 64 word) = (word_of_int z :: 32 word)"
  by (rule bit_word_eqI) (auto simp: bit_simps)

lemma sint_in_range:
  assumes "- (2 ^ (LENGTH('a) - 1)) \<le> z" and "z < 2 ^ (LENGTH('a) - 1)"
  shows "sint (word_of_int z :: 'a::len word) = z"
  using assms by (simp add: sint_uint uint_word_of_int_eq signed_take_bit_int_eq_self signed_take_bit_take_bit)

lemma uint_in_range:
  assumes "0 \<le> z" and "z < 2 ^ LENGTH('a)"
  shows "uint (word_of_int z :: 'a::len word) = z"
  using assms by (simp add: uint_word_of_int_eq take_bit_int_eq_self)

lemma exact_readings:
  assumes "flags_exact r z"
  shows "kIntFlag r \<Longrightarrow> sint (ucast (n_u64 r) :: int32) = z" "kUintFlag r \<Longrightarrow> uint (ucast (n_u64 r) :: uint32) = z"
    "kInt64Flag r \<Longrightarrow> sint (n_u64 r) = z" "kUint64Flag r \<Longrightarrow> uint (n_u64 r) = z"
  using assms sint_in_range [where 'a = 32, of z] uint_in_range [where 'a = 32, of z]
    sint_in_range [where 'a = 64, of z] uint_in_range [where 'a = 64, of z]
  by (auto simp: flags_exact_def low_word)

lemma exact_GetDouble:
  assumes "flags_exact r z"
  shows "GetDouble dbl (VInteger r) = Some (dbl z)"
proof -
  have "kIntFlag r \<or> kUintFlag r \<or> kInt64Flag r \<or> kUint64Flag r" using assms by (auto simp: flags_exact_def)
  then show ?thesis unfolding GetDouble.simps using exact_readings [OF assms] by metis
qed

lemma GetDouble_stored: "GetDouble dbl (stored_as n) = Some (case n of NDouble d \<Rightarrow> d | _ \<Rightarrow> dbl (int_of_number n))"
proof (cases "\<exists>d. n = NDouble d")
  case False
  then have "\<forall>d. n \<noteq> NDouble d" by simp
  from stored_integer [OF this] obtain r where r: "stored_as n = VInteger r" "flags_exact r (int_of_number n)" by (elim exE conjE)
  have "(case n of NDouble d \<Rightarrow> d | _ \<Rightarrow> dbl (int_of_number n)) = dbl (int_of_number n)"
    using False by (auto split: number.split)
  then show ?thesis by (simp only: r(1) exact_GetDouble [OF r(2)])
qed auto

text \<open>Each getter answers exactly the numbers its type has, with the number itself.\<close>

lemma numbers_are_read_through_every_type_they_fit:
  assumes "\<forall>d. n \<noteq> NDouble d" and "z = int_of_number n" and "v = stored_as n"
  shows "GetInt v = (if - (2 ^ 31) \<le> z \<and> z < 2 ^ 31 then Some (word_of_int z) else None)"
    and "GetUint v = (if 0 \<le> z \<and> z < 2 ^ 32 then Some (word_of_int z) else None)"
    and "GetInt64 v = (if - (2 ^ 63) \<le> z \<and> z < 2 ^ 63 then Some (word_of_int z) else None)"
    and "GetUint64 v = (if 0 \<le> z \<and> z < 2 ^ 64 then Some (word_of_int z) else None)"
    and "GetDouble dbl v = Some (dbl z)"
proof -
  from stored_integer [OF assms(1)] obtain r where r: "v = VInteger r" "flags_exact r z"
    unfolding assms(2,3) by (elim exE conjE)
  show "GetDouble dbl v = Some (dbl z)" unfolding r(1) by (rule exact_GetDouble [OF r(2)])
  show "GetInt v = (if - (2 ^ 31) \<le> z \<and> z < 2 ^ 31 then Some (word_of_int z) else None)"
    "GetUint v = (if 0 \<le> z \<and> z < 2 ^ 32 then Some (word_of_int z) else None)"
    "GetInt64 v = (if - (2 ^ 63) \<le> z \<and> z < 2 ^ 63 then Some (word_of_int z) else None)"
    "GetUint64 v = (if 0 \<le> z \<and> z < 2 ^ 64 then Some (word_of_int z) else None)"
    using r by (simp_all add: flags_exact_def low_word)
qed

section \<open>Strings hold what was copied\<close>

lemma string_ofD:
  assumes "string_of v = Some s"
  obtains len str where "GetStringLength v = Some len" "value_GetString v = Some str" "s = take (unat len) str"
    "unat len \<le> length str" "len + 1 \<noteq> 0" "length s = unat len"
  using assms by (auto simp: string_of_def split: option.splits if_splits)

lemma string_of_IsString: "string_of v = Some s \<Longrightarrow> IsString v"
  by (cases v) (auto simp: string_of_def IsString_def)

lemma StringEqual_strings:
  assumes "string_of v = Some s" and "string_of w = Some t"
  shows "StringEqual v w = Some (s = t)"
proof -
  obtain len str where v: "GetStringLength v = Some len" "value_GetString v = Some str" "s = take (unat len) str"
    "unat len \<le> length str" "length s = unat len" using assms(1) by (rule string_ofD)
  obtain len' str' where w: "GetStringLength w = Some len'" "value_GetString w = Some str'" "t = take (unat len') str'"
    "unat len' \<le> length str'" "length t = unat len'" using assms(2) by (rule string_ofD)
  show ?thesis
  proof (cases "len = len'")
    case True
    then show ?thesis using v w by (simp add: StringEqual_def)
  next
    case False
    then have "length s \<noteq> length t" using v(5) w(5) word_unat_eq_iff by metis
    then show ?thesis using v(1,2) w(1,2) False by (auto simp: StringEqual_def)
  qed
qed

lemma byte_of_char_of_byte: "byte_of_char (char_of_byte b) = b"
  using unsigned_less [where 'a = nat, of b] by (simp add: byte_of_char_def char_of_byte_def)

lemma ss_length_back:
  assumes "unat len \<le> MaxSize" and "length raw = Suc MaxSize"
  shows "ss_GetLength (ss_SetLength len raw) = len"
proof -
  let ?b = "of_nat (MaxSize - unat len) :: byte"
  have "sint ?b = int (MaxSize - unat len)"
    using sint_in_range [where 'a = 8, of "int (MaxSize - unat len)"] assms(1) by (simp add: MaxSize_def)
  moreover have "byte_of_char (char_of_byte ?b) = ?b" by (rule byte_of_char_of_byte)
  ultimately have "ss_GetLength (ss_SetLength len raw) = word_of_int (int MaxSize - int (MaxSize - unat len))"
    using assms(2) by (simp add: ss_GetLength_def ss_SetLength_def)
  also have "int MaxSize - int (MaxSize - unat len) = int (unat len)" using assms(1) by simp
  finally show ?thesis by simp
qed

lemma SetStringRaw_holds:
  assumes "length raw = Suc MaxSize" and "unat len \<le> length s" and "len + 1 \<noteq> 0"
  obtains v where "SetStringRaw True raw len s = Some v" "string_of v = Some (take (unat len) s)"
proof (cases "Usable len")
  case True
  let ?b = "(take (unat len) s @ drop (unat len) (ss_SetLength len raw))[unat len := CHR 0x00]"
  have u: "unat len \<le> MaxSize" using True by (simp add: Usable_def)
  have l: "length (ss_SetLength len raw) = Suc MaxSize" using assms(1) by (simp add: ss_SetLength_def)
  have "?b ! MaxSize = ss_SetLength len raw ! MaxSize"
  proof (cases "unat len = MaxSize")
    case True
    have "ss_SetLength len raw ! MaxSize = CHR 0x00"
      using True assms(1) by (simp add: ss_SetLength_def char_of_byte_def char_of_def)
    then show ?thesis using True l assms(2) by simp
  next
    case False
    then show ?thesis using u l assms(2) by (simp add: nth_append)
  qed
  then have "ss_GetLength ?b = len" using ss_length_back [OF u assms(1)] by (simp add: ss_GetLength_def)
  moreover have "take (unat len) ?b = take (unat len) s" using assms(2) by simp
  moreover have "unat len \<le> length ?b" using u l assms(2) by simp
  ultimately have "string_of (VShortString ?b) = Some (take (unat len) s)" using assms(3) by (simp add: string_of_def)
  then show ?thesis using that [of "VShortString ?b"] True assms(2) by (simp add: SetStringRaw_def)
next
  case False
  then show ?thesis using that [of "VCopyString len (take (unat len) s @ [CHR 0x00])"] assms(2,3)
    by (simp add: SetStringRaw_def string_of_def)
qed

section \<open>Blocks\<close>

lemma block_holds_slots:
  assumes "block_holds s c blk xs"
  obtains r where "(case blk of None \<Rightarrow> [] | Some m \<Rightarrow> m) = map Some xs @ r"
proof (cases blk)
  case (Some m)
  then have "take (length xs) m = map Some xs" using assms by (simp add: block_holds_def)
  then show ?thesis using that [of "drop (length xs) m"] Some append_take_drop_id [of "length xs" m] by simp
qed (use assms that in \<open>simp add: block_holds_def\<close>)

lemma block_holds_get: "block_holds s c blk xs \<Longrightarrow> i < length xs \<Longrightarrow> get_slot i blk = Some (xs ! i)"
  by (auto simp: block_holds_def get_slot_def split: option.splits) (metis nth_map nth_take)

lemma block_holds_size: "block_holds s c blk xs \<Longrightarrow> unat s = length xs"
  by (simp add: block_holds_def)

section \<open>Finding members\<close>

abbreviation member_for :: "'d gvalue \<times> 'd gvalue \<Rightarrow> string \<times> 'd json \<Rightarrow> bool" where
  "member_for x y \<equiv> string_of (fst x) = Some (fst y) \<and> stands_for (snd x) (snd y)"

definition first_named :: "string \<Rightarrow> (string \<times> 'd json) list \<Rightarrow> nat" where
  "first_named k js = length (takeWhile (\<lambda>y. fst y \<noteq> k) js)"

lemma first_named_simps [simp]: "first_named k [] = 0" "first_named k (y # js) = (if fst y = k then 0 else Suc (first_named k js))"
  by (simp_all add: first_named_def)

lemma first_named_le: "first_named k js \<le> length js"
  by (simp add: first_named_def length_takeWhile_le)

lemma map_of_first_named: "map_of js k = (if first_named k js < length js then Some (snd (js ! first_named k js)) else None)"
  by (induction js) auto

lemma find_from_named:
  assumes "string_of name = Some k" and "block_holds s c blk ms" and "list_all2 member_for ms js" and "i \<le> length ms"
  shows "find_from name blk (length ms) i = Some (i + first_named k (drop i js))"
  using assms(4)
proof (induction "length ms - i" arbitrary: i)
  case 0
  then show ?case using list_all2_lengthD [OF assms(3)] by (simp add: find_from.simps)
next
  case (Suc n)
  then have i: "i < length ms" by simp
  have g: "get_slot i blk = Some (ms ! i)" using block_holds_get [OF assms(2) i] .
  have "string_of (fst (ms ! i)) = Some (fst (js ! i))" using list_all2_nthD [OF assms(3) i] by simp
  then have e: "StringEqual name (fst (ms ! i)) = Some (k = fst (js ! i))" using StringEqual_strings assms(1) by blast
  have d: "drop i js = js ! i # drop (Suc i) js" using i list_all2_lengthD [OF assms(3)] by (simp add: Cons_nth_drop_Suc)
  show ?case
    using Suc.hyps(1) [of "Suc i"] Suc.hyps(2) i g e d by (subst find_from.simps) (auto split: prod.split)
qed

lemma stands_for_object:
  assumes "stands_for (VObject s c blk) (JObject js)"
  obtains ms where "block_holds s c blk ms" "list_all2 member_for ms js" "length ms = length js" "unat s = length js"
proof -
  obtain ms where ms: "block_holds s c blk ms" "list_all2 member_for ms js" using assms by cases auto
  show ?thesis using that [OF ms] list_all2_lengthD [OF ms(2)] block_holds_size [OF ms(1)] by simp
qed

lemma FindMember_named:
  assumes "stands_for (VObject s c blk) (JObject js)" and "string_of name = Some k"
  shows "value_FindMember (VObject s c blk) name = Some (first_named k js)"
proof -
  obtain ms where ms: "block_holds s c blk ms" "list_all2 member_for ms js" using assms(1) by (rule stands_for_object)
  then show ?thesis using find_from_named [OF assms(2) ms, of 0] string_of_IsString [OF assms(2)] block_holds_size [OF ms(1)]
    by (simp add: value_FindMember_def)
qed

lemma HasMember_named:
  assumes "stands_for (VObject s c blk) (JObject js)" and "string_of name = Some k"
  shows "HasMember (VObject s c blk) name = Some (map_of js k \<noteq> None)"
proof -
  have "unat s = length js" using assms(1) by (rule stands_for_object)
  then show ?thesis using FindMember_named [OF assms] first_named_le [of k js]
    by (auto simp: HasMember_def map_of_first_named)
qed

lemma member_at_named:
  assumes "stands_for (VObject s c blk) (JObject js)" and "string_of name = Some k"
  shows "rel_option stands_for (member_at (VObject s c blk) name) (map_of js k)"
proof -
  obtain ms where ms: "block_holds s c blk ms" "list_all2 member_for ms js" and n: "length ms = length js" "unat s = length js"
    using assms(1) by (rule stands_for_object)
  show ?thesis
  proof (cases "first_named k js < length js")
    case True
    then have "get_slot (first_named k js) blk = Some (ms ! first_named k js)" using block_holds_get [OF ms(1)] n by simp
    then show ?thesis using FindMember_named [OF assms] True n list_all2_nthD [OF ms(2), of "first_named k js"]
      by (simp add: member_at_def map_of_first_named)
  next
    case False
    then show ?thesis using FindMember_named [OF assms] n first_named_le [of k js]
      by (simp add: member_at_def map_of_first_named)
  qed
qed

end
