(* ===== verification/Json_Compare.thy ===== *)
theory Json_Compare
  imports Json_Value
begin

text \<open>
  What \<^verbatim>\<open>operator==\<close> of \<^verbatim>\<open>document.h\<close> decides on the documents two values stand for, that copying a value
  gives the same document, and where equality is none: with members of the same name, and between integers of different sign.
\<close>

section \<open>What comparing decides\<close>

text \<open>
  Equality of documents as the operator computes it: members are looked up by name, the first of a
  name counts; integers are compared by their 64 bits, and with a double as doubles.
\<close>

fun number_bits :: "'d number \<Rightarrow> 64 word" where
  "number_bits (NDouble d) = 0"
| "number_bits n = word_of_int (int_of_number n)"

definition number_eq :: "(int \<Rightarrow> 'd) \<Rightarrow> ('d \<Rightarrow> 'd \<Rightarrow> bool) \<Rightarrow> 'd number \<Rightarrow> 'd number \<Rightarrow> bool" where
  "number_eq dbl dle n n' = (let as_double = (\<lambda>n. case n of NDouble d \<Rightarrow> d | _ \<Rightarrow> dbl (int_of_number n));
       is_double = (\<lambda>n. case n of NDouble d \<Rightarrow> True | _ \<Rightarrow> False)
     in if is_double n \<or> is_double n' then dle (as_double n') (as_double n) \<and> dle (as_double n) (as_double n')
        else number_bits n = number_bits n')"

fun json_eq :: "(int \<Rightarrow> 'd) \<Rightarrow> ('d \<Rightarrow> 'd \<Rightarrow> bool) \<Rightarrow> 'd json \<Rightarrow> 'd json \<Rightarrow> bool"
  and json_elements_eq :: "(int \<Rightarrow> 'd) \<Rightarrow> ('d \<Rightarrow> 'd \<Rightarrow> bool) \<Rightarrow> 'd json list \<Rightarrow> 'd json list \<Rightarrow> bool"
  and json_members_eq :: "(int \<Rightarrow> 'd) \<Rightarrow> ('d \<Rightarrow> 'd \<Rightarrow> bool) \<Rightarrow> (string \<times> 'd json) list \<Rightarrow> (string \<times> 'd json) list \<Rightarrow> bool" where
  "json_eq dbl dle JNull j = (j = JNull)"
| "json_eq dbl dle (JBool b) j = (j = JBool b)"
| "json_eq dbl dle (JString s) j = (j = JString s)"
| "json_eq dbl dle (JNumber n) j = (case j of JNumber n' \<Rightarrow> number_eq dbl dle n n' | _ \<Rightarrow> False)"
| "json_eq dbl dle (JArray xs) j = (case j of JArray ys \<Rightarrow> json_elements_eq dbl dle xs ys | _ \<Rightarrow> False)"
| "json_eq dbl dle (JObject xs) j = (case j of JObject ys \<Rightarrow> length xs = length ys \<and> json_members_eq dbl dle xs ys | _ \<Rightarrow> False)"
| "json_elements_eq dbl dle [] ys = (ys = [])"
| "json_elements_eq dbl dle (x # xs) ys = (case ys of [] \<Rightarrow> False | y # ys' \<Rightarrow> json_eq dbl dle x y \<and> json_elements_eq dbl dle xs ys')"
| "json_members_eq dbl dle [] ys = True"
| "json_members_eq dbl dle ((k, x) # xs) ys =
     ((case map_of ys k of None \<Rightarrow> False | Some y \<Rightarrow> json_eq dbl dle x y) \<and> json_members_eq dbl dle xs ys)"

inductive_simps stands_for_simps:
  "stands_for v JNull" "stands_for v (JBool b)" "stands_for v (JNumber n)" "stands_for v (JString t)"
  "stands_for v (JArray js)" "stands_for v (JObject ms)"

lemma stored_type [simp]: "GetType (stored_as n) = kNumberType"
  by (cases n) simp_all

lemma stands_for_type:
  "stands_for v j \<Longrightarrow> GetType v = (case j of JNull \<Rightarrow> kNullType | JBool b \<Rightarrow> (if b then kTrueType else kFalseType)
     | JNumber n \<Rightarrow> kNumberType | JString s \<Rightarrow> kStringType | JArray js \<Rightarrow> kArrayType | JObject ms \<Rightarrow> kObjectType)"
  by (induction rule: stands_for.induct) (auto dest: string_of_IsString simp: IsString_def)

lemma flat_eq:
  "GetType v \<noteq> kArrayType \<Longrightarrow> GetType v \<noteq> kObjectType \<Longrightarrow>
   value_eq dbl dle v w = (if GetType v \<noteq> GetType w then Some False
     else if GetType v = kStringType then StringEqual v w
     else if GetType v = kNumberType then numbers_eq dbl dle v w else Some True)"
  by (cases v) simp_all

lemma numbers_eq_stands:
  assumes "stands_for v (JNumber n)" and "stands_for w (JNumber n')"
  shows "numbers_eq dbl dle v w = Some (number_eq dbl dle n n')"
proof -
  have d: "GetDouble dbl u = Some (case m of NDouble d \<Rightarrow> d | _ \<Rightarrow> dbl (int_of_number m))"
    "IsDouble u = (case m of NDouble d \<Rightarrow> True | _ \<Rightarrow> False)" if "stands_for u (JNumber m)" for u m
    using that GetDouble_stored [of dbl m] by (cases m; auto simp: stands_for_simps IsDouble_def)+
  have b: "\<exists>r. u = VInteger r \<and> n_u64 r = number_bits m" if "stands_for u (JNumber m)" "\<not> IsDouble u" for u m
    using that by (cases m) (auto simp: stands_for_simps IsDouble_def rep_int_def rep_uint_def rep_int64_def rep_uint64_def)
  show ?thesis
  proof (cases "IsDouble v \<or> IsDouble w")
    case True
    then show ?thesis using d [OF assms(1)] d [OF assms(2)] by (simp add: numbers_eq_def number_eq_def)
  next
    case False
    then show ?thesis using b [OF assms(1)] b [OF assms(2)] d(2) [OF assms(1)] d(2) [OF assms(2)]
      by (auto simp: numbers_eq_def number_eq_def)
  qed
qed

definition compares_as :: "(int \<Rightarrow> 'd) \<Rightarrow> ('d \<Rightarrow> 'd \<Rightarrow> bool) \<Rightarrow> 'd gvalue \<Rightarrow> 'd json \<Rightarrow> bool" where
  "compares_as dbl dle v j \<longleftrightarrow> (\<forall>w j'. stands_for w j' \<longrightarrow> value_eq dbl dle v w = Some (json_eq dbl dle j j'))"

lemma json_elements_eq_length: "json_elements_eq dbl dle xs ys \<Longrightarrow> length xs = length ys"
  by (induction xs arbitrary: ys) (auto split: list.splits)

lemma elements_eq_json:
  assumes "list_all2 (compares_as dbl dle) xs js" and "list_all2 stands_for ys js'" and "length xs = length ys"
  shows "elements_eq dbl dle (length xs) (map Some xs @ r) (map Some ys @ r') = Some (json_elements_eq dbl dle js js')"
  using assms
proof (induction xs js arbitrary: ys js' rule: list_all2_induct)
  case Nil
  then show ?case by simp
next
  case (Cons x xs j js)
  obtain y ys1 where ys: "ys = y # ys1" using Cons.prems(2) by (cases ys) auto
  obtain j1 js1 where js': "js' = j1 # js1" "stands_for y j1" "list_all2 stands_for ys1 js1"
    using Cons.prems(1) by (auto simp: ys list_all2_Cons1)
  have "value_eq dbl dle x y = Some (json_eq dbl dle j j1)" using Cons.hyps(1) js'(2) by (simp add: compares_as_def)
  then show ?case using Cons.IH [OF js'(3)] Cons.prems(2) by (simp add: ys js'(1))
qed

lemma members_eq_json:
  assumes "list_all2 (\<lambda>x y. string_of (fst x) = Some (fst y) \<and> compares_as dbl dle (snd x) (snd y)) ms js"
    and "stands_for (VObject s' c' blk') (JObject js')"
  shows "members_eq dbl dle (length ms) (map Some ms @ r) (VObject s' c' blk') = Some (json_members_eq dbl dle js js')"
  using assms(1)
proof (induction ms js rule: list_all2_induct)
  case Nil
  then show ?case by simp
next
  case (Cons x ms y js)
  obtain nm v where x: "x = (nm, v)" by (cases x)
  obtain k j where y: "y = (k, j)" by (cases y)
  have k: "string_of nm = Some k" and c: "compares_as dbl dle v j" using Cons.hyps(1) by (simp_all add: x y)
  show ?case
  proof (cases "map_of js' k")
    case None
    then show ?thesis using HasMember_named [OF assms(2) k] by (simp add: x y)
  next
    case (Some j1)
    then obtain w where w: "member_at (VObject s' c' blk') nm = Some w" "stands_for w j1"
      using member_at_named [OF assms(2) k] by (auto simp: option_rel_Some2)
    then have "value_eq dbl dle v w = Some (json_eq dbl dle j j1)" using c by (simp add: compares_as_def)
    then show ?thesis using HasMember_named [OF assms(2) k] w(1) Some Cons.IH by (simp add: x y)
  qed
qed

lemma value_eq_VArray:
  "value_eq dbl dle (VArray s c m) (VArray s' c' m') = (if s \<noteq> s' then Some False
     else elements_eq dbl dle (unat s) (case m of None \<Rightarrow> [] | Some l \<Rightarrow> l) (case m' of None \<Rightarrow> [] | Some l \<Rightarrow> l))"
  by (cases m) simp_all

lemma value_eq_VObject:
  "value_eq dbl dle (VObject s c m) (VObject s' c' m') = (if s \<noteq> s' then Some False
     else members_eq dbl dle (unat s) (case m of None \<Rightarrow> [] | Some l \<Rightarrow> l) (VObject s' c' m'))"
  by (cases m) simp_all

lemma value_eq_type: "GetType v \<noteq> GetType w \<Longrightarrow> value_eq dbl dle v w = Some False"
proof (cases v)
  case (VArray s c m)
  then show "GetType v \<noteq> GetType w \<Longrightarrow> ?thesis" by (cases m; cases w) simp_all
next
  case (VObject s c m)
  then show "GetType v \<noteq> GetType w \<Longrightarrow> ?thesis" by (cases m; cases w) simp_all
qed simp_all

lemma array_compares:
  assumes "block_holds s c m xs" and "list_all2 (compares_as dbl dle) xs js"
  shows "compares_as dbl dle (VArray s c m) (JArray js)"
  unfolding compares_as_def
proof (intro allI impI)
  fix w :: "'a gvalue" and j' assume w: "stands_for w j'"
  show "value_eq dbl dle (VArray s c m) w = Some (json_eq dbl dle (JArray js) j')"
  proof (cases "\<exists>ks. j' = JArray ks")
    case False
    then have "GetType w \<noteq> kArrayType" using stands_for_type [OF w] by (cases j') auto
    then show ?thesis using False value_eq_type [of "VArray s c m" w] by (cases j') auto
  next
    case True
    then obtain ks s' c' m' ys where j': "j' = JArray ks" and w': "w = VArray s' c' m'" "block_holds s' c' m' ys" "list_all2 stands_for ys ks"
      using w by (auto simp: stands_for_simps)
    obtain r where r: "(case m of None \<Rightarrow> [] | Some l \<Rightarrow> l) = map Some xs @ r" using assms(1) by (rule block_holds_slots)
    obtain r' where r': "(case m' of None \<Rightarrow> [] | Some l \<Rightarrow> l) = map Some ys @ r'" using w'(2) by (rule block_holds_slots)
    have l: "unat s = length xs" "unat s' = length ys" "length js = length xs" "length ks = length ys"
      using assms w'(2,3) by (auto simp: block_holds_size dest: list_all2_lengthD)
    then have "s = s' \<longleftrightarrow> length xs = length ys" by (simp add: word_unat_eq_iff)
    then show ?thesis
      using elements_eq_json [OF assms(2) w'(3), of r r'] l json_elements_eq_length [of dbl dle js ks]
      by (auto simp: value_eq_VArray r r' j' w'(1))
  qed
qed

lemma object_compares:
  assumes "block_holds s c m ms"
    and "list_all2 (\<lambda>x y. string_of (fst x) = Some (fst y) \<and> compares_as dbl dle (snd x) (snd y)) ms js"
  shows "compares_as dbl dle (VObject s c m) (JObject js)"
  unfolding compares_as_def
proof (intro allI impI)
  fix w :: "'a gvalue" and j' assume w: "stands_for w j'"
  show "value_eq dbl dle (VObject s c m) w = Some (json_eq dbl dle (JObject js) j')"
  proof (cases "\<exists>ks. j' = JObject ks")
    case False
    then have "GetType w \<noteq> kObjectType" using stands_for_type [OF w] by (cases j') auto
    then show ?thesis using False value_eq_type [of "VObject s c m" w] by (cases j') auto
  next
    case True
    then obtain ks s' c' m' where j': "j' = JObject ks" and w': "w = VObject s' c' m'" using w by (auto simp: stands_for_simps)
    have o: "stands_for (VObject s' c' m') (JObject ks)" using w by (simp add: j' w')
    obtain r where r: "(case m of None \<Rightarrow> [] | Some l \<Rightarrow> l) = map Some ms @ r" using assms(1) by (rule block_holds_slots)
    have "unat s' = length ks" using o by (rule stands_for_object)
    moreover have l: "unat s = length ms" "length js = length ms" using assms by (auto simp: block_holds_size dest: list_all2_lengthD)
    ultimately have "s = s' \<longleftrightarrow> length js = length ks" by (simp add: word_unat_eq_iff)
    then show ?thesis using members_eq_json [OF assms(2) o, of r] l by (auto simp: value_eq_VObject r j' w')
  qed
qed

lemma stands_for_compares: "stands_for v j \<Longrightarrow> compares_as dbl dle v j"
proof (induction rule: stands_for.induct)
  case (array s c m xs js)
  then show ?case by (auto intro!: array_compares elim: list_all2_mono)
next
  case (object s c m ms js)
  then show ?case by (auto intro!: object_compares elim: list_all2_mono)
next
  case (number n)
  have "value_eq dbl dle (stored_as n) w = Some (json_eq dbl dle (JNumber n) j')" if "stands_for w j'" for w j'
    using that numbers_eq_stands [OF stands_for.number [of n], of w] stands_for_type [OF that]
    by (cases j') (auto simp: flat_eq split: if_splits)
  then show ?case by (simp add: compares_as_def)
next
  case (number_any d)
  have "value_eq dbl dle (VNumberAny d) w = Some (json_eq dbl dle (JNumber (NDouble d)) j')" if "stands_for w j'" for w j'
    using that numbers_eq_stands [OF stands_for.number_any [of d], of w] stands_for_type [OF that]
    by (cases j') (auto simp: flat_eq split: if_splits)
  then show ?case by (simp add: compares_as_def)
next
  case (string v t)
  have "value_eq dbl dle v w = Some (json_eq dbl dle (JString t) j')" if "stands_for w j'" for w j'
    using that string_of_IsString [OF string] stands_for_type [OF that] StringEqual_strings [OF string, of w]
    by (cases j') (auto simp: flat_eq IsString_def stands_for_simps split: if_splits)
  then show ?case by (simp add: compares_as_def)
qed (auto simp: compares_as_def stands_for_type split: json.splits if_splits)

lemma value_eq_json:
  "stands_for v j \<Longrightarrow> stands_for w j' \<Longrightarrow> value_eq dbl dle v w = Some (json_eq dbl dle j j')"
  using stands_for_compares [of v j dbl dle] by (simp add: compares_as_def)

text \<open>No object has two members of one name.\<close>

fun named_once :: "'d json \<Rightarrow> bool" where
  "named_once (JArray js) = (\<forall>j \<in> set js. named_once j)"
| "named_once (JObject ms) = (distinct (map fst ms) \<and> (\<forall>m \<in> set ms. named_once (snd m)))"
| "named_once _ = True"

lemma json_elements_eq_all2: "json_elements_eq dbl dle xs ys = list_all2 (json_eq dbl dle) xs ys"
  by (induction xs arbitrary: ys) (auto split: list.split)

lemma json_members_eq_all:
  "json_members_eq dbl dle xs ys = (\<forall>(k, x) \<in> set xs. \<exists>y. map_of ys k = Some y \<and> json_eq dbl dle x y)"
  by (induction xs) (auto split: option.splits)

lemma number_eq_sym: "number_eq dbl dle n n' \<Longrightarrow> number_eq dbl dle n' n"
  by (cases n; cases n') (simp_all add: number_eq_def)

lemma json_eq_refl: "named_once j \<Longrightarrow> \<forall>d \<in> set_json j. dle d d \<Longrightarrow> json_eq dbl dle j j"
proof (induction j)
  case (JNumber n)
  then show ?case by (cases n) (simp_all add: number_eq_def)
next
  case (JArray js)
  then show ?case by (simp add: json_elements_eq_all2 list_all2_same)
next
  case (JObject ms)
  have "\<exists>y. map_of ms k = Some y \<and> json_eq dbl dle x y" if "(k, x) \<in> set ms" for k x
    using JObject that by (intro exI [of _ x]) (force intro: map_of_is_SomeI)
  then show ?case by (auto simp: json_members_eq_all)
qed simp_all

lemma same_names:
  assumes "distinct (map fst xs)" and "length xs = length ys" and "fst ` set xs \<subseteq> fst ` set ys"
  shows "distinct (map fst ys)" "fst ` set ys = fst ` set xs"
proof -
  have "card (fst ` set xs) = length ys" using assms(1,2) distinct_card [of "map fst xs"] by simp
  moreover have c: "card (fst ` set ys) \<le> length ys" using card_length [of "map fst ys"] by simp
  ultimately have "card (fst ` set ys) = length ys" using card_mono [OF _ assms(3)] by simp
  then show "distinct (map fst ys)" using card_distinct [of "map fst ys"] by simp
  show "fst ` set ys = fst ` set xs"
    using card_subset_eq [OF _ assms(3)] \<open>card (fst ` set xs) = length ys\<close> \<open>card (fst ` set ys) = length ys\<close> by simp
qed

lemma json_eq_sym: "named_once j \<Longrightarrow> json_eq dbl dle j j' \<Longrightarrow> json_eq dbl dle j' j"
proof (induction j arbitrary: j')
  case (JNumber n)
  then show ?case by (cases j') (auto intro: number_eq_sym)
next
  case (JArray js)
  then obtain ks where "j' = JArray ks" "list_all2 (json_eq dbl dle) js ks" by (cases j') (auto simp: json_elements_eq_all2)
  then show ?case using JArray by (auto simp: json_elements_eq_all2 list_all2_conv_all_nth)
next
  case (JObject ms)
  from JObject.prems(2) obtain ks where ks: "j' = JObject ks" "length ms = length ks" and m: "json_members_eq dbl dle ms ks"
    by (cases j') auto
  have ks3: "\<exists>y. map_of ks k = Some y \<and> json_eq dbl dle x y" if "(k, x) \<in> set ms" for k x
    using m that by (auto simp: json_members_eq_all)
  have sub: "fst ` set ms \<subseteq> fst ` set ks" using ks3 by (force dest: map_of_SomeD)
  have d: "distinct (map fst ms)" using JObject.prems(1) by simp
  note same = same_names [OF d ks(2) sub]
  have "\<exists>x. map_of ms k = Some x \<and> json_eq dbl dle y x" if y: "(k, y) \<in> set ks" for k y
  proof -
    have "k \<in> fst ` set ms" using y same(2) by force
    then obtain x where x: "(k, x) \<in> set ms" by force
    have "map_of ks k = Some y" using y same(1) by (simp add: map_of_is_SomeI)
    then have "json_eq dbl dle x y" using ks3 [OF x] by simp
    then have "json_eq dbl dle y x" using JObject.IH [OF x, of x y] JObject.prems(1) x by force
    then show ?thesis using x d by (simp add: map_of_is_SomeI)
  qed
  then show ?case by (auto simp: ks(1,2) json_members_eq_all)
qed auto

section \<open>Copies\<close>

definition copies_as :: "(nat \<Rightarrow> string) \<Rightarrow> bool \<Rightarrow> 'd gvalue \<Rightarrow> ('d gvalue \<Rightarrow> bool) \<Rightarrow> bool" where
  "copies_as junk cc v P \<longleftrightarrow> (\<forall>k. \<exists>v' k'. copy_value (\<lambda>_. True) junk cc k v = Some (v', k') \<and> P v')"

lemma copy_string_of:
  assumes "\<forall>k. length (junk k) = Suc MaxSize" and "string_of v = Some t"
  shows "copies_as junk cc v (\<lambda>v'. string_of v' = Some t)"
  unfolding copies_as_def
proof
  fix k
  obtain len str where v: "GetStringLength v = Some len" "value_GetString v = Some str" "t = take (unat len) str"
    "unat len \<le> length str" "len + 1 \<noteq> 0" using assms(2) by (rule string_ofD)
  obtain v' :: "'a gvalue" where v': "SetStringRaw True (junk k) len str = Some v'" "string_of v' = Some (take (unat len) str)"
    using SetStringRaw_holds [of "junk k" len str] assms(1) v(4,5) by blast
  then have "copy_string (\<lambda>_. True) junk k v = Some (v', Suc k)" using v(1,2) by (simp add: copy_string_def)
  then show "\<exists>v' k'. copy_value (\<lambda>_. True) junk cc k v = Some (v', k') \<and> string_of v' = Some t"
    using v v' assms(2) by (cases v) auto
qed

lemma copy_elements_all:
  "list_all2 (\<lambda>x j. copies_as junk cc x (\<lambda>x'. stands_for x' j)) xs js \<Longrightarrow>
   \<exists>xs' k'. copy_elements (\<lambda>_. True) junk cc k (length xs) (map Some xs @ r) = Some (xs', k') \<and> list_all2 stands_for xs' js"
proof (induction xs js arbitrary: k rule: list_all2_induct)
  case (Cons x xs j js)
  obtain x' k1 where x': "copy_value (\<lambda>_. True) junk cc k x = Some (x', k1)" "stands_for x' j"
    using Cons.hyps(1) unfolding copies_as_def by blast
  obtain xs' k2 where "copy_elements (\<lambda>_. True) junk cc k1 (length xs) (map Some xs @ r) = Some (xs', k2)" "list_all2 stands_for xs' js"
    using Cons.IH by blast
  then show ?case using x' by simp
qed simp

lemma copy_members_all:
  "list_all2 (\<lambda>x y. copies_as junk cc (fst x) (\<lambda>n. string_of n = Some (fst y)) \<and> copies_as junk cc (snd x) (\<lambda>v. stands_for v (snd y))) ms js \<Longrightarrow>
   \<exists>ms' k'. copy_members (\<lambda>_. True) junk cc k (length ms) (map Some ms @ r) = Some (ms', k') \<and> list_all2 member_for ms' js"
proof (induction ms js arbitrary: k rule: list_all2_induct)
  case (Cons x ms y js)
  obtain n v where x: "x = (n, v)" by (cases x)
  obtain n' k1 where n': "copy_value (\<lambda>_. True) junk cc k n = Some (n', k1)" "string_of n' = Some (fst y)"
    using Cons.hyps(1) unfolding copies_as_def x fst_conv by blast
  obtain v' k2 where v': "copy_value (\<lambda>_. True) junk cc k1 v = Some (v', k2)" "stands_for v' (snd y)"
    using Cons.hyps(1) unfolding copies_as_def x snd_conv by blast
  obtain ms' k3 where "copy_members (\<lambda>_. True) junk cc k2 (length ms) (map Some ms @ r) = Some (ms', k3)" "list_all2 member_for ms' js"
    using Cons.IH by blast
  then show ?case using n' v' by (simp add: x)
qed simp

lemma exact_block: "unat s = length xs \<Longrightarrow> s \<noteq> 0 \<Longrightarrow> block_holds s s (Some (map Some xs)) xs"
  by (simp add: block_holds_def)

lemma empty_block: "block_holds 0 0 None []"
  by (simp add: block_holds_def)

lemma copy_value_VArray:
  "copy_value ok junk cc k (VArray s c m) = (if s = 0 then Some (VArray 0 0 None, k) else case m of None \<Rightarrow> None
     | Some l \<Rightarrow> if \<not> ok k then None
        else map_option (\<lambda>(le, k'). (VArray s s (Some (map Some le)), k')) (copy_elements ok junk cc (Suc k) (unat s) l))"
  by (cases m) simp_all

lemma copy_value_VObject:
  "copy_value ok junk cc k (VObject s c m) = (if s = 0 then Some (VObject 0 0 None, k) else case m of None \<Rightarrow> None
     | Some l \<Rightarrow> if \<not> ok k then None
        else map_option (\<lambda>(lm, k'). (VObject s s (Some (map Some lm)), k')) (copy_members ok junk cc (Suc k) (unat s) l))"
  by (cases m) simp_all

lemma array_copies:
  assumes "block_holds s c m xs" and "list_all2 (\<lambda>x j. copies_as junk cc x (\<lambda>x'. stands_for x' j)) xs js"
  shows "copies_as junk cc (VArray s c m) (\<lambda>v. stands_for v (JArray js))"
  unfolding copies_as_def
proof
  fix k
  have l: "unat s = length xs" "length xs = length js" using assms by (simp_all add: block_holds_size list_all2_lengthD)
  show "\<exists>v' k'. copy_value (\<lambda>_. True) junk cc k (VArray s c m) = Some (v', k') \<and> stands_for v' (JArray js)"
  proof (cases "s = 0")
    case True
    then show ?thesis using l by (auto simp: copy_value_VArray intro: stands_for.array [OF empty_block])
  next
    case False
    then obtain sl where m: "m = Some sl" using assms(1) l by (cases m) (auto simp: block_holds_def unat_eq_0)
    obtain r where "sl = map Some xs @ r" using block_holds_slots [OF assms(1)] by (auto simp: m)
    then obtain xs' k' where "copy_elements (\<lambda>_. True) junk cc (Suc k) (unat s) sl = Some (xs', k')" "list_all2 stands_for xs' js"
      using copy_elements_all [OF assms(2), of "Suc k" r] l(1) by auto
    then show ?thesis using False l stands_for.array [OF exact_block, of s xs' js]
      by (auto simp: copy_value_VArray m dest: list_all2_lengthD)
  qed
qed

lemma object_copies:
  assumes "block_holds s c m ms"
    and "list_all2 (\<lambda>x y. copies_as junk cc (fst x) (\<lambda>n. string_of n = Some (fst y)) \<and> copies_as junk cc (snd x) (\<lambda>v. stands_for v (snd y))) ms js"
  shows "copies_as junk cc (VObject s c m) (\<lambda>v. stands_for v (JObject js))"
  unfolding copies_as_def
proof
  fix k
  have l: "unat s = length ms" "length ms = length js" using assms by (simp_all add: block_holds_size list_all2_lengthD)
  show "\<exists>v' k'. copy_value (\<lambda>_. True) junk cc k (VObject s c m) = Some (v', k') \<and> stands_for v' (JObject js)"
  proof (cases "s = 0")
    case True
    then show ?thesis using l by (auto simp: copy_value_VObject intro: stands_for.object [OF empty_block])
  next
    case False
    then obtain sl where m: "m = Some sl" using assms(1) l by (cases m) (auto simp: block_holds_def unat_eq_0)
    obtain r where "sl = map Some ms @ r" using block_holds_slots [OF assms(1)] by (auto simp: m)
    then obtain ms' k' where "copy_members (\<lambda>_. True) junk cc (Suc k) (unat s) sl = Some (ms', k')" "list_all2 member_for ms' js"
      using copy_members_all [OF assms(2), of "Suc k" r] l(1) by auto
    then show ?thesis using False l stands_for.object [OF exact_block, of s ms' js]
      by (auto simp: copy_value_VObject m dest: list_all2_lengthD)
  qed
qed

lemma copy_stands_for:
  assumes "\<forall>k. length (junk k) = Suc MaxSize"
  shows "stands_for v j \<Longrightarrow> copies_as junk cc v (\<lambda>v'. stands_for v' j)"
proof (induction rule: stands_for.induct)
  case (string v s)
  show ?case using copy_string_of [OF assms string, of cc] unfolding copies_as_def by (blast intro: stands_for.string)
next
  case (array s c m xs js)
  then show ?case by (auto intro!: array_copies elim: list_all2_mono)
next
  case (object s c m ms js)
  have "list_all2 (\<lambda>x y. copies_as junk cc (fst x) (\<lambda>n. string_of n = Some (fst y)) \<and> copies_as junk cc (snd x) (\<lambda>v. stands_for v (snd y))) ms js"
    using object(2) by (rule list_all2_mono) (simp add: copy_string_of [OF assms])
  with object(1) show ?case by (rule object_copies)
next
  case (number n)
  have "copy_value (\<lambda>_. True) junk cc k (stored_as n) = Some (stored_as n, k)" for k by (cases n) simp_all
  then show ?case by (simp add: copies_as_def stands_for.number)
qed (auto simp: copies_as_def intro: stands_for.intros)

text \<open>C16: A copy stands for the same document as the original, equals it both ways, compares with every
  other value as the original does, and equality found one way holds the other way too. The hypotheses: the members of
  each object have different names, no double is one that differs from itself, and the pool has room.
\<close>

theorem copies_are_equal:
  assumes "stands_for v j" and "named_once j" and "\<forall>d \<in> set_json j. dle d d" and "\<forall>k. length (junk k) = Suc MaxSize"
  shows "\<exists>v' k'. copy_value (\<lambda>_. True) junk copyConst k v = Some (v', k') \<and> stands_for v' j \<and>
     value_eq dbl dle v v' = Some True \<and> value_eq dbl dle v' v = Some True \<and>
     (\<forall>w j'. stands_for w j' \<longrightarrow> value_eq dbl dle v' w = value_eq dbl dle v w \<and>
       (value_eq dbl dle v w = Some True \<longrightarrow> value_eq dbl dle w v = Some True))"
proof -
  obtain v' k' where c: "copy_value (\<lambda>_. True) junk copyConst k v = Some (v', k')" "stands_for v' j"
    using copy_stands_for [OF assms(4,1), of copyConst] unfolding copies_as_def by blast
  have "json_eq dbl dle j j" using assms(2,3) by (rule json_eq_refl)
  then have "value_eq dbl dle v v' = Some True" "value_eq dbl dle v' v = Some True"
    using value_eq_json assms(1) c(2) by fastforce+
  moreover have "value_eq dbl dle v' w = value_eq dbl dle v w \<and> (value_eq dbl dle v w = Some True \<longrightarrow> value_eq dbl dle w v = Some True)"
    if "stands_for w j'" for w j'
    using value_eq_json [OF assms(1) that, of dbl dle] value_eq_json [OF c(2) that, of dbl dle] value_eq_json [OF that assms(1), of dbl dle]
      json_eq_sym [OF assms(2), of dbl dle j'] by simp
  ultimately show ?thesis using c by blast
qed

theorem copies_are_equal_witness:
  "let v = VArray 1 2 (Some [Some (VConstString 1 ''x''), None]) in
   \<exists>v' k'. copy_value (\<lambda>_. True) (\<lambda>_. replicate 14 (CHR 0x00)) True 0 v = Some (v', k') \<and>
     value_eq (\<lambda>_. 0 :: nat) (\<le>) v v' = Some True \<and> value_eq (\<lambda>_. 0) (\<le>) v' v = Some True"
proof -
  have "stands_for (VArray 1 2 (Some [Some (VConstString 1 ''x''), None]) :: nat gvalue) (JArray [JString ''x''])"
    by (rule stands_for.array [where xs = "[VConstString 1 ''x'']"])
      (simp_all add: block_holds_def stands_for_simps string_of_def)
  from copies_are_equal [OF this, of "(\<le>)" "\<lambda>_. replicate 14 (CHR 0x00)" True 0 "\<lambda>_. 0"]
  show ?thesis unfolding Let_def by (auto simp: MaxSize_def)
qed

text \<open>
  Where a name occurs twice, comparing is not symmetric, and an object with such members may
  well equal another one. Integers are compared by their 64 bits whatever their sign.
\<close>

lemma comparing_duplicates:
  assumes "stands_for v (JObject [(''a'', x), (''a'', x)])" and "stands_for w (JObject [(''a'', x), (''b'', y)])" and "json_eq dbl dle x x"
  shows "value_eq dbl dle v w = Some True" "value_eq dbl dle w v = Some False"
  using value_eq_json [OF assms(1,2), of dbl dle] value_eq_json [OF assms(2,1), of dbl dle] assms(3) by simp_all

lemma comparing_ignores_signs:
  "value_eq dbl dle (VInteger (rep_int (-1))) (VInteger (rep_uint64 0xFFFFFFFFFFFFFFFF)) = Some True"
  using value_eq_json [OF stands_for.number [of "NInt (-1)"] stands_for.number [of "NUint64 0xFFFFFFFFFFFFFFFF"], of dbl dle]
  by (simp add: number_eq_def)

end
