(* ===== verification/Json_Edit.thy ===== *)
theory Json_Edit
  imports Json_Compare
begin

text \<open>
  New values and the operations that change arrays and objects (\<^verbatim>\<open>document.h\<close>): on the document they
  do what lists of elements and members say, within the capacities the blocks have and grow to.
\<close>

section \<open>New values\<close>

lemma value_Swap_swaps: "value_Swap v w = (w, v)"
  by (simp add: value_Swap_def RawAssign_def)

lemma setters_stand_for:
  "stands_for SetNull JNull" "stands_for (SetBool b) (JBool b)" "stands_for (SetInt i) (JNumber (NInt i))"
  "stands_for (SetUint u) (JNumber (NUint u))" "stands_for (SetInt64 l) (JNumber (NInt64 l))"
  "stands_for (SetUint64 w) (JNumber (NUint64 w))" "stands_for (SetDouble d) (JNumber (NDouble d))"
  "stands_for SetArray (JArray [])" "stands_for SetObject (JObject [])"
  "stands_for (snd (GenericValue_Array v)) (JArray [])" "stands_for (snd (GenericValue_Object v)) (JObject [])"
  by (auto simp: SetNull_def SetBool_def SetInt_def SetUint_def SetInt64_def SetUint64_def SetDouble_def SetArray_def
    SetObject_def GenericValue_Array_def GenericValue_Object_def stands_for_simps intro: empty_block)

lemma GenericValue_type_stands_for:
  "GetType (GenericValue_type zero t) = t"
  "stands_for (GenericValue_type zero t) (case t of kNullType \<Rightarrow> JNull | kFalseType \<Rightarrow> JBool False | kTrueType \<Rightarrow> JBool True
     | kObjectType \<Rightarrow> JObject [] | kArrayType \<Rightarrow> JArray [] | kStringType \<Rightarrow> JString [] | kNumberType \<Rightarrow> JNumber (NDouble zero))"
proof -
  show "GetType (GenericValue_type zero t) = t" by (cases t) (simp_all add: GenericValue_type_def)
  have "ss_GetLength (ss_SetLength 0 (replicate (Suc MaxSize) (CHR 0x00))) = 0" by (rule ss_length_back) simp_all
  then have "string_of (VShortString (ss_SetLength 0 (replicate (Suc MaxSize) (CHR 0x00)))) = Some []" by (simp add: string_of_def)
  then show "stands_for (GenericValue_type zero t) (case t of kNullType \<Rightarrow> JNull | kFalseType \<Rightarrow> JBool False | kTrueType \<Rightarrow> JBool True
     | kObjectType \<Rightarrow> JObject [] | kArrayType \<Rightarrow> JArray [] | kStringType \<Rightarrow> JString [] | kNumberType \<Rightarrow> JNumber (NDouble zero))"
    by (cases t) (auto simp: GenericValue_type_def stands_for_simps intro: empty_block)
qed

lemma raw_blocks:
  assumes "list_all2 stands_for xs js" and "list_all2 member_for ms ks" and "length xs < 2 ^ 32" and "length ms < 2 ^ 32"
  shows "\<exists>v. SetArrayRaw True xs (of_nat (length xs)) = Some v \<and> stands_for v (JArray js)"
    and "\<exists>v. SetObjectRaw True ms (of_nat (length ms)) = Some v \<and> stands_for v (JObject ks)"
proof -
  have u: "unat (of_nat n :: 32 word) = n" "(of_nat n :: 32 word) = 0 \<longleftrightarrow> n = 0" if "n < 2 ^ 32" for n
    using that by (simp_all add: unat_of_nat word_unat_eq_iff)
  show "\<exists>v. SetArrayRaw True xs (of_nat (length xs)) = Some v \<and> stands_for v (JArray js)"
    using assms(1) u [OF assms(3)] stands_for.array [OF exact_block assms(1), of "of_nat (length xs)"] stands_for.array [OF empty_block]
    by (cases "xs = []") (simp_all add: SetArrayRaw_def)
  show "\<exists>v. SetObjectRaw True ms (of_nat (length ms)) = Some v \<and> stands_for v (JObject ks)"
    using assms(2) u [OF assms(4)] stands_for.object [OF exact_block assms(2), of "of_nat (length ms)"] stands_for.object [OF empty_block]
    by (cases "ms = []") (simp_all add: SetObjectRaw_def)
qed

lemma array_at_stands_for:
  assumes "stands_for v (JArray js)" and "unat i < length js"
  shows "\<exists>x. array_at v i = Some x \<and> stands_for x (js ! unat i)"
proof -
  obtain s c m xs where v: "v = VArray s c m" "block_holds s c m xs" "list_all2 stands_for xs js"
    using assms(1) by (auto simp: stands_for_simps)
  have l: "unat s = length js" "length xs = length js" using v(2,3) by (auto simp: block_holds_size dest: list_all2_lengthD)
  then show ?thesis using v(1) assms(2) block_holds_get [OF v(2)] list_all2_nthD [OF v(3)]
    by (simp add: array_at_def word_less_nat_alt)
qed

section \<open>Operations on blocks\<close>

lemma word_unat_add_1: "unat s < unat (c :: 32 word) \<Longrightarrow> unat (s + 1 :: 32 word) = Suc (unat s)"
proof -
  assume "unat s < unat c"
  moreover have "unat c < 2 ^ LENGTH(32)" by (rule unsigned_less)
  ultimately have "unat s + unat (1 :: 32 word) < 2 ^ LENGTH(32)" by (simp only: unat_1)
  then show ?thesis by (simp only: unat_word_ariths(1) mod_less) simp
qed

lemma word_unat_minus: "n \<le> unat s \<Longrightarrow> unat (s - of_nat n :: 32 word) = unat s - n"
proof -
  assume n: "n \<le> unat s"
  then have m: "unat (of_nat n :: 32 word) = n" using unsigned_less [where 'a = nat, of s] by (simp add: unat_of_nat)
  then have "of_nat n \<le> s" using n by (simp add: word_le_nat_alt)
  then show ?thesis using m by (simp add: unat_sub)
qed

lemma block_pointer: "block_holds s c blk xs \<Longrightarrow> xs \<noteq> [] \<Longrightarrow> blk \<noteq> None \<and> s > 0"
  by (auto simp: block_holds_def word_gt_0 split: option.splits)

lemma block_append:
  assumes "block_holds s c blk xs" and "unat s < unat c"
  obtains blk' where "put_slot (unat s) x blk = Some blk'" "block_holds (s + 1) c blk' (xs @ [x])"
proof -
  obtain m where m: "blk = Some m" "length m = unat c" "take (length xs) m = map Some xs" "unat s = length xs"
    using assms by (auto simp: block_holds_def split: option.splits)
  have "take (Suc (length xs)) (m[length xs := Some x]) = map Some (xs @ [x])"
    using m assms(2) by (simp add: take_Suc_conv_app_nth)
  then show ?thesis using that [of "Some (m[length xs := Some x])"] m assms(2) word_unat_add_1 [OF assms(2)]
    by (simp add: put_slot_def block_holds_def)
qed

lemma block_grow:
  assumes "block_holds s c blk xs" and "c < n"
  shows "block_holds s n (Realloc_slots True (unat n) blk) xs"
  using assms by (auto simp: block_holds_def Realloc_slots_def Malloc_slots_def word_less_nat_alt split: option.splits)

lemma block_full:
  assumes "block_holds s c blk xs" and "\<not> s < c" and "c \<noteq> 0" and "length xs < 2 ^ 31"
  shows "c < c + (c + 1) div 2" "c = s"
proof -
  have "unat c \<le> unat s" using assms(2) by (simp add: word_less_nat_alt)
  moreover have "unat s \<le> unat c" using assms(1) by (auto simp: block_holds_def split: option.splits)
  ultimately show e: "c = s" by (simp add: word_unat_eq_iff)
  have u: "unat c < 2 ^ 31" using assms(1,4) e by (simp add: block_holds_size)
  moreover have p: "0 < unat c" using assms(3) by (simp add: unat_gt_0)
  ultimately have "unat (c + 1) = Suc (unat c)" by (simp add: unat_word_ariths(1))
  then have d: "unat ((c + 1) div 2) = Suc (unat c) div 2" by (simp add: unat_div)
  then have "unat (c + (c + 1) div 2) = unat c + Suc (unat c) div 2" using u by (simp add: unat_word_ariths(1))
  then show "c < c + (c + 1) div 2" using p by (simp add: word_less_nat_alt)
qed

lemma take_butlast_map: "take (length xs) m = map Some xs \<Longrightarrow> length xs \<le> length m \<Longrightarrow> take (length xs - 1) m = map Some (butlast xs)"
  by (metis butlast_take diff_le_self map_butlast)

lemma block_pop: "block_holds s c blk xs \<Longrightarrow> xs \<noteq> [] \<Longrightarrow> block_holds (s - 1) c blk (butlast xs)"
  using word_unat_minus [of 1 s] take_butlast_map [of xs "the blk"]
  by (auto simp: block_holds_def Suc_le_eq split: option.splits)

lemma block_clear: "block_holds s c blk xs \<Longrightarrow> block_holds 0 c blk []"
  by (auto simp: block_holds_def split: option.splits)

lemma block_erase:
  assumes "block_holds s c blk xs" and "i \<le> l" and "l \<le> length xs"
  shows "block_holds (s - of_nat (l - i)) c (memmove_slots i l (unat s - l) blk) (take i xs @ drop l xs)"
proof -
  have u: "unat s = length xs" using assms(1) by (rule block_holds_size)
  then have "unat (s - of_nat (l - i)) = length xs - (l - i)" using word_unat_minus [of "l - i" s] assms(2,3) by simp
  moreover have "take (length xs - (l - i)) (take i m @ take (length xs - l) (drop l m) @ drop (i + (length xs - l)) m) = map Some (take i xs @ drop l xs)"
    if m: "take (length xs) m = map Some xs" "length xs \<le> length m" for m
  proof -
    have "take (length xs - l) (drop l m) = map Some (drop l xs)" using m assms by (simp add: take_drop drop_map)
    moreover have "take i m = map Some (take i xs)" using m assms(2,3) by (metis le_trans min.absorb1 take_map take_take)
    ultimately show ?thesis using assms(2,3) m by simp
  qed
  ultimately show ?thesis using assms u by (auto simp: block_holds_def memmove_slots_def split: option.splits)
qed

lemma block_swap_remove:
  assumes "block_holds s c blk xs" and "Suc i < length xs"
  obtains blk1 blk2 where "get_slot (length xs - 1) blk = Some (last xs)" "put_slot i (last xs) blk = Some blk1"
    "put_slot (length xs - 1) y blk1 = Some blk2" "block_holds (s - 1) c blk2 ((butlast xs)[i := last xs])"
proof -
  have ne: "xs \<noteq> []" using assms(2) by auto
  obtain m where m: "blk = Some m" "length m = unat c" "take (length xs) m = map Some xs" "unat s = length xs" "length xs \<le> length m"
    using assms by (auto simp: block_holds_def split: option.splits)
  have g: "get_slot (length xs - 1) blk = Some (last xs)" using block_holds_get [OF assms(1), of "length xs - 1"] ne by (simp add: last_conv_nth)
  have "take (length xs - 1) m = map Some (butlast xs)" using take_butlast_map m(3,5) by blast
  then have "take (length xs - 1) (m[i := Some (last xs), length xs - 1 := Some y]) = map Some ((butlast xs)[i := last xs])"
    by (simp add: take_update_swap map_update list_update_beyond)
  then show ?thesis using that [OF g, of "Some (m[i := Some (last xs)])" "Some (m[i := Some (last xs), length xs - 1 := Some y])"] m assms(2)
      word_unat_minus [of 1 s]
    by (simp add: put_slot_def block_holds_def)
qed

section \<open>Operations on documents\<close>

text \<open>The operations that change an array or an object, over values and over documents.\<close>

datatype ('n, 'v) value_op = OpReserve "32 word" | OpPushBack 'v | OpPopBack | OpErase nat nat | OpClear
  | OpAddMember 'n 'v | OpRemoveMember 'n | OpEraseMember 'n | OpRemoveAll

fun value_step :: "('d gvalue, 'd gvalue) value_op \<Rightarrow> 'd gvalue \<Rightarrow> 'd gvalue option" where
  "value_step (OpReserve n) v = value_Reserve True n v"
| "value_step (OpPushBack x) v = map_option fst (PushBack True v x)"
| "value_step OpPopBack v = PopBack v"
| "value_step (OpErase i l) v = map_option snd (value_Erase i l v)"
| "value_step OpClear v = array_Clear v"
| "value_step (OpAddMember n x) v = map_option fst (AddMember True v n x)"
| "value_step (OpRemoveMember n) v = map_option snd (RemoveMember n v)"
| "value_step (OpEraseMember n) v = map_option snd (EraseMember n v)"
| "value_step OpRemoveAll v = RemoveAllMembers v"

fun array_step :: "(string, 'd json) value_op \<Rightarrow> 'd json list \<Rightarrow> 'd json list option" where
  "array_step (OpReserve n) js = Some js"
| "array_step (OpPushBack j) js = Some (js @ [j])"
| "array_step OpPopBack js = (if js = [] then None else Some (butlast js))"
| "array_step (OpErase i l) js = (if js \<noteq> [] \<and> i \<le> l \<and> l \<le> length js then Some (take i js @ drop l js) else None)"
| "array_step OpClear js = Some []"
| "array_step _ js = None"

text \<open>\<^verbatim>\<open>RemoveMember\<close> puts the last member in the place of the removed one.\<close>

fun object_step :: "(string, 'd json) value_op \<Rightarrow> (string \<times> 'd json) list \<Rightarrow> (string \<times> 'd json) list option" where
  "object_step (OpAddMember k j) ms = Some (ms @ [(k, j)])"
| "object_step (OpRemoveMember k) ms = Some (if k \<notin> fst ` set ms then ms
     else if Suc (first_named k ms) = length ms then butlast ms else (butlast ms)[first_named k ms := last ms])"
| "object_step (OpEraseMember k) ms = Some (erase_first (\<lambda>m. fst m = k) ms)"
| "object_step OpRemoveAll ms = Some []"
| "object_step _ ms = None"

definition json_step :: "(string, 'd json) value_op \<Rightarrow> 'd json \<Rightarrow> 'd json option" where
  "json_step op j = (case j of JArray js \<Rightarrow> map_option JArray (array_step op js)
     | JObject ms \<Rightarrow> map_option JObject (object_step op ms) | _ \<Rightarrow> None)"

definition items :: "'d json \<Rightarrow> nat" where
  "items j = (case j of JArray js \<Rightarrow> length js | JObject ms \<Rightarrow> length ms | _ \<Rightarrow> 0)"

abbreviation op_for :: "('d gvalue, 'd gvalue) value_op \<Rightarrow> (string, 'd json) value_op \<Rightarrow> bool" where
  "op_for \<equiv> rel_value_op (\<lambda>n k. string_of n = Some k) stands_for"

lemma block_le: "block_holds s c m xs \<Longrightarrow> s \<le> c"
  by (auto simp: block_holds_def word_le_nat_alt split: option.splits)

lemma PushBack_array:
  assumes "block_holds s c m xs" and "length xs < 2 ^ 31"
  obtains s' c' m' where "PushBack True (VArray s c m) x = Some (VArray s' c' m', VNull)" "block_holds s' c' m' (xs @ [x])"
proof (cases "s < c")
  case True
  then have u: "unat s < unat c" and t: "\<not> c \<le> s" by (simp_all add: word_less_nat_alt word_le_nat_alt)
  obtain m' where "put_slot (unat s) x m = Some m'" "block_holds (s + 1) c m' (xs @ [x])"
    using block_append [OF assms(1) u] .
  then show ?thesis using that t by (simp add: PushBack_def RawAssign_def)
next
  case False
  let ?n = "if c = 0 then kDefaultArrayCapacity else c + (c + 1) div 2"
  have n: "c < ?n" using block_full(1) [OF assms(1) False _ assms(2)] by (simp add: kDefaultArrayCapacity_def word_gt_0)
  have u: "unat s < unat ?n" using n block_le [OF assms(1)] by (simp add: word_less_nat_alt word_le_nat_alt)
  obtain m' where "put_slot (unat s) x (Realloc_slots True (unat ?n) m) = Some m'" "block_holds (s + 1) ?n m' (xs @ [x])"
    using block_append [OF block_grow [OF assms(1) n] u] .
  then show ?thesis using that [of "s + 1" ?n m'] False n by (auto simp: PushBack_def RawAssign_def value_Reserve_def not_less)
qed

lemma AddMember_object:
  assumes "block_holds s c m ms" and "length ms < 2 ^ 31" and "IsString nm"
  obtains s' c' m' where "AddMember True (VObject s c m) nm x = Some (VObject s' c' m', VNull, VNull)" "block_holds s' c' m' (ms @ [(nm, x)])"
proof (cases "s < c")
  case True
  then have u: "unat s < unat c" and t: "\<not> c \<le> s" by (simp_all add: word_less_nat_alt word_le_nat_alt)
  obtain m' where "put_slot (unat s) (nm, x) m = Some m'" "block_holds (s + 1) c m' (ms @ [(nm, x)])"
    using block_append [OF assms(1) u] .
  then show ?thesis using that t assms(3) by (simp add: AddMember_def RawAssign_def)
next
  case False
  let ?n = "if c = 0 then kDefaultObjectCapacity else c + (c + 1) div 2"
  have n: "c < ?n" using block_full(1) [OF assms(1) False _ assms(2)] by (simp add: kDefaultObjectCapacity_def word_gt_0)
  have u: "unat s < unat ?n" using n block_le [OF assms(1)] by (simp add: word_less_nat_alt word_le_nat_alt)
  obtain m' where m': "put_slot (unat s) (nm, x) (Realloc_slots True (unat ?n) m) = Some m'" "block_holds (s + 1) ?n m' (ms @ [(nm, x)])"
    using block_append [OF block_grow [OF assms(1) n] u] .
  have "m = None \<or> m = Some []" if "c = 0" using assms(1) that by (auto simp: block_holds_def split: option.splits)
  then have "Realloc_slots True 16 m = Malloc_slots True 16" if "c = 0" using that by (auto simp: Realloc_slots_def Malloc_slots_def)
  then show ?thesis using that [of "s + 1" ?n m'] m' False assms(3)
    by (cases "c = 0") (auto simp: AddMember_def RawAssign_def Let_def not_less kDefaultObjectCapacity_def)
qed

lemma list_all2_butlast: "list_all2 P xs ys \<Longrightarrow> list_all2 P (butlast xs) (butlast ys)"
  by (simp add: butlast_conv_take list_all2_lengthD list_all2_takeI)

lemma list_all2_last: "list_all2 P xs ys \<Longrightarrow> xs \<noteq> [] \<Longrightarrow> P (last xs) (last ys)"
  by (cases "ys = []") (auto simp: last_conv_nth list_all2_conv_all_nth)

lemma first_named_in: "first_named k ms < length ms \<longleftrightarrow> k \<in> fst ` set ms"
  by (induction ms) auto

lemma erase_first_named:
  "erase_first (\<lambda>m. fst m = k) ms = take (first_named k ms) ms @ drop (Suc (first_named k ms)) ms"
  by (induction ms) auto

lemma array_step_stands_for:
  assumes "block_holds s c m xs" and "list_all2 stands_for xs js" and "op_for op op'" and "length js < 2 ^ 31"
  shows "rel_option stands_for (value_step op (VArray s c m)) (map_option JArray (array_step op' js))"
proof -
  have l: "unat s = length js" "length xs = length js" using assms(1,2) by (auto simp: block_holds_size dest: list_all2_lengthD)
  have z: "s = 0 \<longleftrightarrow> js = []" "xs = [] \<longleftrightarrow> js = []" using l by (auto simp: unat_eq_0)
  note arrayI = stands_for.array
  show ?thesis using assms(3)
  proof cases
    case (OpReserve n)
    then show ?thesis using arrayI [OF assms(1,2)] arrayI [OF block_grow [OF assms(1)] assms(2), of n] by (simp add: value_Reserve_def)
  next
    case (OpPushBack x j)
    have "length xs < 2 ^ 31" using l assms(4) by simp
    then obtain s' c' m' where "PushBack True (VArray s c m) x = Some (VArray s' c' m', VNull)" "block_holds s' c' m' (xs @ [x])"
      using PushBack_array [OF assms(1)] by blast
    moreover have "list_all2 stands_for (xs @ [x]) (js @ [j])" using assms(2) OpPushBack by (simp add: list_all2_appendI)
    ultimately show ?thesis using OpPushBack arrayI by simp blast
  next
    case OpPopBack
    then show ?thesis using arrayI [OF block_pop [OF assms(1)] list_all2_butlast [OF assms(2)]] l z by (auto simp: PopBack_def)
  next
    case (OpErase i r)
    have "stands_for (VArray (s - of_nat (r - i)) c (memmove_slots i r (unat s - r) m)) (JArray (take i js @ drop r js))" if "i \<le> r" "r \<le> length js"
      using that l by (intro arrayI [OF block_erase [OF assms(1)]] list_all2_appendI list_all2_takeI list_all2_dropI assms(2)) auto
    then show ?thesis using OpErase l z block_pointer [OF assms(1)] by (auto simp: value_Erase_def word_gt_0)
  next
    case OpClear
    then show ?thesis using arrayI [OF block_clear [OF assms(1)]] by (simp add: array_Clear_def)
  qed (simp_all add: AddMember_def RemoveMember_def EraseMember_def RemoveAllMembers_def)
qed

lemma RemoveMember_object:
  assumes "block_holds s c m ms" and "list_all2 member_for ms js" and "string_of n = Some k"
  shows "rel_option stands_for (map_option snd (RemoveMember n (VObject s c m))) (map_option JObject (object_step (OpRemoveMember k) js))"
proof -
  let ?i = "first_named k js"
  have o: "stands_for (VObject s c m) (JObject js)" using assms(1,2) by (rule stands_for.object)
  have l: "unat s = length js" "length ms = length js" using assms(1,2) by (auto simp: block_holds_size dest: list_all2_lengthD)
  have f: "value_FindMember (VObject s c m) n = Some ?i" using FindMember_named [OF o assms(3)] .
  consider "k \<notin> fst ` set js" | "Suc ?i = length js" "k \<in> fst ` set js" | "Suc ?i < length js" "k \<in> fst ` set js"
    using first_named_in [of k js] by linarith
  then show ?thesis
  proof cases
    case 1
    then have "?i = length js" using first_named_in [of k js] first_named_le [of k js] by linarith
    then show ?thesis using f o l 1 by (simp add: RemoveMember_def)
  next
    case 2
    then have ne: "ms \<noteq> []" using l by auto
    have "stands_for (VObject (s - 1) c m) (JObject (butlast js))"
      by (rule stands_for.object [OF block_pop [OF assms(1) ne] list_all2_butlast [OF assms(2)]])
    then show ?thesis using f l 2 block_pointer [OF assms(1) ne] by (auto simp: RemoveMember_def RemoveMember_at_def Let_def)
  next
    case 3
    then have ne: "ms \<noteq> []" and i: "Suc ?i < length ms" using l by auto
    obtain m1 m2 where m: "get_slot (length ms - 1) m = Some (last ms)" "put_slot ?i (last ms) m = Some m1"
      "put_slot (length ms - 1) (VNull, VNull) m1 = Some m2" "block_holds (s - 1) c m2 ((butlast ms)[?i := last ms])"
      using block_swap_remove [OF assms(1) i] .
    have "list_all2 member_for ((butlast ms)[?i := last ms]) ((butlast js)[?i := last js])"
      using list_all2_butlast [OF assms(2)] list_all2_last [OF assms(2) ne] by (rule list_all2_update_cong)
    then have "stands_for (VObject (s - 1) c m2) (JObject ((butlast js)[?i := last js]))" using stands_for.object [OF m(4)] by blast
    moreover have "s > 1" using i l by (simp add: word_less_nat_alt)
    ultimately show ?thesis using f l 3 m(1-3) block_pointer [OF assms(1) ne]
      by (cases "last ms") (auto simp: RemoveMember_def RemoveMember_at_def Let_def)
  qed
qed

lemma EraseMember_object:
  assumes "block_holds s c m ms" and "list_all2 member_for ms js" and "string_of n = Some k"
  shows "rel_option stands_for (map_option snd (EraseMember n (VObject s c m))) (map_option JObject (object_step (OpEraseMember k) js))"
proof -
  let ?i = "first_named k js"
  have o: "stands_for (VObject s c m) (JObject js)" using assms(1,2) by (rule stands_for.object)
  have l: "unat s = length js" "length ms = length js" using assms(1,2) by (auto simp: block_holds_size dest: list_all2_lengthD)
  have f: "value_FindMember (VObject s c m) n = Some ?i" using FindMember_named [OF o assms(3)] .
  show ?thesis
  proof (cases "?i < length js")
    case True
    then have ne: "ms \<noteq> []" using l by auto
    have "stands_for (VObject (s - of_nat (Suc ?i - ?i)) c (memmove_slots ?i (Suc ?i) (unat s - Suc ?i) m)) (JObject (take ?i js @ drop (Suc ?i) js))"
      using True l by (intro stands_for.object [OF block_erase [OF assms(1)]] list_all2_appendI list_all2_takeI list_all2_dropI assms(2)) auto
    then show ?thesis using f l True block_pointer [OF assms(1) ne] by (auto simp: EraseMember_def EraseMember_range_def erase_first_named)
  next
    case False
    then have "?i = length js" using first_named_le [of k js] by simp
    then show ?thesis using f l o by (simp add: EraseMember_def erase_first_named)
  qed
qed

lemma object_step_stands_for:
  assumes "block_holds s c m ms" and "list_all2 member_for ms js" and "op_for op op'" and "length js < 2 ^ 31"
  shows "rel_option stands_for (value_step op (VObject s c m)) (map_option JObject (object_step op' js))"
  using assms(3)
proof cases
  case (OpAddMember n x k j)
  have "length ms < 2 ^ 31" using assms(4) list_all2_lengthD [OF assms(2)] by simp
  then obtain s' c' m' where "AddMember True (VObject s c m) n x = Some (VObject s' c' m', VNull, VNull)" "block_holds s' c' m' (ms @ [(n, x)])"
    using AddMember_object [OF assms(1)] string_of_IsString OpAddMember by blast
  moreover have "list_all2 member_for (ms @ [(n, x)]) (js @ [(k, j)])" using assms(2) OpAddMember by (simp add: list_all2_appendI)
  ultimately show ?thesis using OpAddMember stands_for.object by simp blast
next
  case (OpRemoveMember n k)
  then show ?thesis using RemoveMember_object [OF assms(1,2)] by (simp del: object_step.simps)
next
  case (OpEraseMember n k)
  then show ?thesis using EraseMember_object [OF assms(1,2)] by simp
next
  case OpRemoveAll
  then show ?thesis using stands_for.object [OF block_clear [OF assms(1)]] by (simp add: RemoveAllMembers_def)
qed (simp_all add: value_Reserve_def PushBack_def PopBack_def value_Erase_def array_Clear_def)

text \<open>Operations one after the other; the first failed assertion ends the run.\<close>

fun value_run :: "('d gvalue, 'd gvalue) value_op list \<Rightarrow> 'd gvalue \<Rightarrow> 'd gvalue option" where
  "value_run [] v = Some v"
| "value_run (op # ops) v = Option.bind (value_step op v) (value_run ops)"

fun json_run :: "(string, 'd json) value_op list \<Rightarrow> 'd json \<Rightarrow> 'd json option" where
  "json_run [] j = Some j"
| "json_run (op # ops) j = Option.bind (json_step op j) (json_run ops)"

lemma step_stands_for:
  assumes "stands_for v j" and "op_for op op'" and "items j < 2 ^ 31"
  shows "rel_option stands_for (value_step op v) (json_step op' j)"
proof (cases "GetType v = kArrayType \<or> GetType v = kObjectType")
  case True
  from assms(1) show ?thesis
  proof cases
    case (array s c m xs js)
    then show ?thesis using array_step_stands_for [OF array(3,4) assms(2)] assms(3) by (simp add: json_step_def items_def)
  next
    case (object s c m ms js)
    then show ?thesis using object_step_stands_for [OF object(3,4) assms(2)] assms(3) by (simp add: json_step_def items_def)
  qed (use True in \<open>auto dest: string_of_IsString simp: IsString_def split: if_splits\<close>)
next
  case False
  have "value_step op v = None"
    using False by (cases op; cases v) (simp_all add: value_Reserve_def PushBack_def PopBack_def value_Erase_def array_Clear_def
      AddMember_def RemoveMember_def EraseMember_def RemoveAllMembers_def)
  moreover have "json_step op' j = None" using False stands_for_type [OF assms(1)] by (cases j) (simp_all add: json_step_def)
  ultimately show ?thesis by simp
qed

lemma erase_first_le: "length (erase_first P xs) \<le> length xs"
  by (induction xs) auto

lemma json_step_items: "json_step op j = Some j' \<Longrightarrow> items j' \<le> Suc (items j)"
  by (cases j; cases op) (auto simp: json_step_def items_def le_SucI erase_first_le split: if_splits)

text \<open>C15: The operations on arrays and objects, one after the other, do what they say to the document: a run over stored
  values fails exactly if the run over lists of elements and members does (an assertion on the kind of value, a range or an empty
  array), and else ends in a value that stands for its result, as long as the pool has room and no
  array or object passes 2147483648 items.
\<close>

theorem value_operations_refine_documents:
  assumes "stands_for v j" and "list_all2 op_for ops jops" and "items j + length ops \<le> 2 ^ 31"
  shows "rel_option stands_for (value_run ops v) (json_run jops j)"
  using assms(2,1,3)
proof (induction ops jops arbitrary: v j rule: list_all2_induct)
  case (Cons op ops jop jops)
  have "items j < 2 ^ 31" using Cons.prems(2) by simp
  note step = step_stands_for [OF Cons.prems(1) Cons.hyps(1) this]
  show ?case
  proof (cases "json_step jop j")
    case (Some j1)
    then obtain v1 where v1: "value_step op v = Some v1" "stands_for v1 j1" using step by (auto simp: option_rel_Some2)
    have "items j1 + length ops \<le> 2 ^ 31" using json_step_items [OF Some] Cons.prems(2) by simp
    then show ?thesis using Cons.IH [OF v1(2)] v1(1) Some by simp
  qed (use step in simp)
qed simp

theorem value_operations_refine_documents_witness:
  "\<exists>v. value_run [OpPushBack (VBool True), OpPushBack VNull, OpErase 0 1] (SetArray :: nat gvalue) = Some v \<and> stands_for v (JArray [JNull])"
  using value_operations_refine_documents [of "SetArray :: nat gvalue" "JArray []"
      "[OpPushBack (VBool True), OpPushBack VNull, OpErase 0 1]" "[OpPushBack (JBool True), OpPushBack JNull, OpErase 0 1]"]
  by (simp add: SetArray_def stands_for.array [OF empty_block] stands_for.null stands_for.bool items_def json_step_def option_rel_Some2)

end
