(* ===== verification/Json_Memory.thy ===== *)
theory Json_Memory
  imports Dc_Prelude
begin

unbundle bit_operations_syntax

text \<open>
  The memory below rapidjson: the pool that the values of a document come from
  (\<^verbatim>\<open>allocators.h\<close>) and the byte stack below its string buffer (\<^verbatim>\<open>internal/stack.h\<close>,
  \<^verbatim>\<open>stringbuffer.h\<close>). Sizes keep their 64 bits in the pool. An address is the number of a chunk,
  counted from the first, and the place in it after its header; whether the system gives a chunk
  of a size is an argument. \<open>None\<close> is a null pointer where a pointer is returned, and a
  dereferenced null pointer or a failed assertion around a whole result.
\<close>

section \<open>MemoryPoolAllocator\<close>

definition RAPIDJSON_ALIGN :: "64 word \<Rightarrow> 64 word" where
  "RAPIDJSON_ALIGN x = (x + 7) AND NOT 7"

record ChunkHeader =
  ch_capacity :: "64 word"
  ch_size :: "64 word"

type_synonym ptr = "nat \<times> 64 word"

record MemoryPool =
  chunks :: "ChunkHeader list"
  chunk_capacity :: "64 word"
  user_buffer :: bool
  pool_bytes :: "nat \<Rightarrow> nat \<Rightarrow> char"

definition header_size :: "64 word" where
  "header_size = RAPIDJSON_ALIGN 24"

definition AddChunk :: "(64 word \<Rightarrow> bool) \<Rightarrow> 64 word \<Rightarrow> MemoryPool \<Rightarrow> bool \<times> MemoryPool" where
  "AddChunk gives capacity p = (if gives (header_size + capacity)
     then (True, p\<lparr>chunks := \<lparr>ch_capacity = capacity, ch_size = 0\<rparr> # chunks p\<rparr>) else (False, p))"

definition pool_Malloc :: "(64 word \<Rightarrow> bool) \<Rightarrow> 64 word \<Rightarrow> MemoryPool \<Rightarrow> ptr option \<times> MemoryPool" where
  "pool_Malloc gives size0 p = (if size0 = 0 then (None, p)
     else let size = RAPIDJSON_ALIGN size0;
         full = (case chunks p of [] \<Rightarrow> True | h # _ \<Rightarrow> ch_size h + size > ch_capacity h);
         (ok, p1) = (if full then AddChunk gives (if chunk_capacity p > size then chunk_capacity p else size) p else (True, p))
       in if \<not> ok then (None, p1)
          else (case chunks p1 of
              [] \<Rightarrow> (None, p1)
            | h # cs \<Rightarrow> (Some (length cs, ch_size h), p1\<lparr>chunks := h\<lparr>ch_size := ch_size h + size\<rparr> # cs\<rparr>)))"

text \<open>\<^verbatim>\<open>memcpy\<close> of \<open>n\<close> bytes between places of the pool.\<close>

definition copy_bytes :: "ptr \<Rightarrow> ptr \<Rightarrow> nat \<Rightarrow> MemoryPool \<Rightarrow> MemoryPool" where
  "copy_bytes dst src n p = p\<lparr>pool_bytes := (\<lambda>c i.
     if c = fst dst \<and> unat (snd dst) \<le> i \<and> i < unat (snd dst) + n
     then pool_bytes p (fst src) (unat (snd src) + (i - unat (snd dst))) else pool_bytes p c i)\<rparr>"

definition pool_Realloc :: "(64 word \<Rightarrow> bool) \<Rightarrow> ptr option \<Rightarrow> 64 word \<Rightarrow> 64 word \<Rightarrow> MemoryPool \<Rightarrow> (ptr option \<times> MemoryPool) option" where
  "pool_Realloc gives originalPtr originalSize0 newSize0 p = (case originalPtr of
     None \<Rightarrow> Some (pool_Malloc gives newSize0 p)
   | Some a \<Rightarrow>
       if newSize0 = 0 then Some (None, p)
       else let originalSize = RAPIDJSON_ALIGN originalSize0; newSize = RAPIDJSON_ALIGN newSize0 in
         if originalSize \<ge> newSize then Some (Some a, p)
         else (case chunks p of
             [] \<Rightarrow> None
           | h # cs \<Rightarrow>
               if a = (length cs, ch_size h - originalSize) \<and> ch_size h + (newSize - originalSize) \<le> ch_capacity h
               then Some (Some a, p\<lparr>chunks := h\<lparr>ch_size := ch_size h + (newSize - originalSize)\<rparr> # cs\<rparr>)
               else (case pool_Malloc gives newSize p of
                   (None, p1) \<Rightarrow> Some (None, p1)
                 | (Some b, p1) \<Rightarrow> Some (Some b, copy_bytes b a (unat originalSize) p1))))"

text \<open>The chunks are given back up to the user's buffer, if there is one: it is the first chunk and stays, emptied.\<close>

fun clear_chunks :: "bool \<Rightarrow> ChunkHeader list \<Rightarrow> ChunkHeader list" where
  "clear_chunks user [] = []"
| "clear_chunks user [c] = (if user then [c\<lparr>ch_size := 0\<rparr>] else [])"
| "clear_chunks user (c # c' # cs) = clear_chunks user (c' # cs)"

definition pool_Clear :: "MemoryPool \<Rightarrow> MemoryPool" where
  "pool_Clear p = p\<lparr>chunks := clear_chunks (user_buffer p) (chunks p)\<rparr>"

definition pool_Size :: "MemoryPool \<Rightarrow> 64 word" where
  "pool_Size p = sum_list (map ch_size (chunks p))"

definition pool_Capacity :: "MemoryPool \<Rightarrow> 64 word" where
  "pool_Capacity p = sum_list (map ch_capacity (chunks p))"

definition MemoryPool_new :: "64 word \<Rightarrow> (nat \<Rightarrow> nat \<Rightarrow> char) \<Rightarrow> MemoryPool" where
  "MemoryPool_new chunkSize junk = \<lparr>chunks = [], chunk_capacity = chunkSize, user_buffer = False, pool_bytes = junk\<rparr>"

definition MemoryPool_with_buffer :: "64 word \<Rightarrow> 64 word \<Rightarrow> (nat \<Rightarrow> nat \<Rightarrow> char) \<Rightarrow> MemoryPool option" where
  "MemoryPool_with_buffer size0 chunkSize junk = (if size0 > 24
     then Some \<lparr>chunks = [\<lparr>ch_capacity = size0 - 24, ch_size = 0\<rparr>], chunk_capacity = chunkSize, user_buffer = True, pool_bytes = junk\<rparr>
     else None)"

section \<open>Stack and string buffer\<close>

text \<open>
  The stack's memory is \<open>None\<close> before the first expansion; a byte that was never written is
  \<open>None\<close>. \<open>gives\<close> says whether the system enlarges the block; if not, the code goes on with a
  null pointer.
\<close>

record rj_stack =
  stack_mem :: "char option list option"
  stackTop :: nat
  initialCapacity :: nat

definition stack_capacity :: "rj_stack \<Rightarrow> nat" where
  "stack_capacity s = (case stack_mem s of None \<Rightarrow> 0 | Some m \<Rightarrow> length m)"

definition Stack_new :: "nat \<Rightarrow> rj_stack" where
  "Stack_new cap = \<lparr>stack_mem = None, stackTop = 0, initialCapacity = cap\<rparr>"

definition Stack_Resize :: "(nat \<Rightarrow> bool) \<Rightarrow> nat \<Rightarrow> rj_stack \<Rightarrow> rj_stack option" where
  "Stack_Resize gives newCapacity s = (if newCapacity = 0 \<or> \<not> gives newCapacity then None
     else let old = (case stack_mem s of None \<Rightarrow> [] | Some m \<Rightarrow> m)
       in Some (s\<lparr>stack_mem := Some (take newCapacity old @ replicate (newCapacity - length old) None)\<rparr>))"

definition Stack_Expand :: "(nat \<Rightarrow> bool) \<Rightarrow> nat \<Rightarrow> rj_stack \<Rightarrow> rj_stack option" where
  "Stack_Expand gives n s =
     (let newCapacity = (case stack_mem s of None \<Rightarrow> initialCapacity s | Some m \<Rightarrow> length m + (length m + 1) div 2);
          newSize = stackTop s + n
      in Stack_Resize gives (if newCapacity < newSize then newSize else newCapacity) s)"

definition Stack_Reserve :: "(nat \<Rightarrow> bool) \<Rightarrow> nat \<Rightarrow> rj_stack \<Rightarrow> rj_stack option" where
  "Stack_Reserve gives n s = (if stackTop s + n > stack_capacity s then Stack_Expand gives n s else Some s)"

text \<open>The place of the new bytes and the stack.\<close>

definition Stack_PushUnsafe :: "nat \<Rightarrow> rj_stack \<Rightarrow> (nat \<times> rj_stack) option" where
  "Stack_PushUnsafe n s = (if stack_mem s = None \<or> stackTop s + n > stack_capacity s then None
     else Some (stackTop s, s\<lparr>stackTop := stackTop s + n\<rparr>))"

definition Stack_Push :: "(nat \<Rightarrow> bool) \<Rightarrow> nat \<Rightarrow> rj_stack \<Rightarrow> (nat \<times> rj_stack) option" where
  "Stack_Push gives n s = (case Stack_Reserve gives n s of None \<Rightarrow> None | Some s1 \<Rightarrow> Stack_PushUnsafe n s1)"

definition Stack_Pop :: "nat \<Rightarrow> rj_stack \<Rightarrow> rj_stack option" where
  "Stack_Pop n s = (if stackTop s \<ge> n then Some (s\<lparr>stackTop := stackTop s - n\<rparr>) else None)"

definition Stack_Clear :: "rj_stack \<Rightarrow> rj_stack" where
  "Stack_Clear s = s\<lparr>stackTop := 0\<rparr>"

definition Stack_ShrinkToFit :: "(nat \<Rightarrow> bool) \<Rightarrow> rj_stack \<Rightarrow> rj_stack option" where
  "Stack_ShrinkToFit gives s = (if stackTop s = 0 then Some (s\<lparr>stack_mem := None\<rparr>) else Stack_Resize gives (stackTop s) s)"

definition poke :: "nat \<Rightarrow> char \<Rightarrow> rj_stack \<Rightarrow> rj_stack option" where
  "poke i c s = (case stack_mem s of None \<Rightarrow> None | Some m \<Rightarrow> if i < length m then Some (s\<lparr>stack_mem := Some (m[i := Some c])\<rparr>) else None)"

definition Buffer_Put :: "(nat \<Rightarrow> bool) \<Rightarrow> char \<Rightarrow> rj_stack \<Rightarrow> rj_stack option" where
  "Buffer_Put gives c s = (case Stack_Push gives 1 s of None \<Rightarrow> None | Some (i, s1) \<Rightarrow> poke i c s1)"

definition Buffer_PutUnsafe :: "char \<Rightarrow> rj_stack \<Rightarrow> rj_stack option" where
  "Buffer_PutUnsafe c s = (case Stack_PushUnsafe 1 s of None \<Rightarrow> None | Some (i, s1) \<Rightarrow> poke i c s1)"

definition Buffer_ShrinkToFit :: "(nat \<Rightarrow> bool) \<Rightarrow> rj_stack \<Rightarrow> rj_stack option" where
  "Buffer_ShrinkToFit gives s = (case Buffer_Put gives (CHR 0x00) s of None \<Rightarrow> None
     | Some s1 \<Rightarrow> (case Stack_ShrinkToFit gives s1 of None \<Rightarrow> None | Some s2 \<Rightarrow> Stack_Pop 1 s2))"

text \<open>\<^verbatim>\<open>GetString\<close>: the bytes before the first null character; one that was never written is not a string.\<close>

fun read_string :: "char option list \<Rightarrow> string option" where
  "read_string [] = None"
| "read_string (None # m) = None"
| "read_string (Some c # m) = (if c = CHR 0x00 then Some [] else map_option (\<lambda>r. c # r) (read_string m))"

definition Buffer_GetString :: "(nat \<Rightarrow> bool) \<Rightarrow> rj_stack \<Rightarrow> (string \<times> rj_stack) option" where
  "Buffer_GetString gives s = (case Buffer_Put gives (CHR 0x00) s of None \<Rightarrow> None
     | Some s1 \<Rightarrow> (case Stack_Pop 1 s1 of None \<Rightarrow> None
       | Some s2 \<Rightarrow> (case stack_mem s2 of None \<Rightarrow> None | Some m \<Rightarrow> map_option (\<lambda>r. (r, s2)) (read_string m))))"

section \<open>Strings in the buffer\<close>

definition stack_rep :: "rj_stack \<Rightarrow> string \<Rightarrow> bool" where
  "stack_rep s xs \<longleftrightarrow> stackTop s = length xs \<and> (case stack_mem s of None \<Rightarrow> xs = [] | Some m \<Rightarrow> length xs \<le> length m \<and> take (length xs) m = map Some xs)"

lemma stack_rep_capacity: "stack_rep s xs \<Longrightarrow> length xs \<le> stack_capacity s"
  by (auto simp: stack_rep_def stack_capacity_def split: option.splits)

lemma Stack_new_rep: "stack_rep (Stack_new cap) []"
  by (simp add: stack_rep_def Stack_new_def)

lemma Stack_Resize_rep:
  assumes "stack_rep s xs" "length xs \<le> n" "n \<noteq> 0" "gives n"
  shows "\<exists>s'. Stack_Resize gives n s = Some s' \<and> stack_rep s' xs \<and> stack_capacity s' = n"
  using assms by (auto simp: Stack_Resize_def stack_rep_def stack_capacity_def split: option.splits)

text \<open>The capacity at least suffices, and it grows by half, so the cost of a byte stays bounded.\<close>

lemma Stack_Reserve_rep:
  assumes "stack_rep s xs" "\<forall>n. gives n"
  shows "\<exists>s'. Stack_Reserve gives n s = Some s' \<and> stack_rep s' xs \<and> length xs + n \<le> stack_capacity s'"
proof (cases "stackTop s + n > stack_capacity s")
  case True
  have len: "stackTop s = length xs" using assms(1) by (simp add: stack_rep_def)
  define cap where "cap = (case stack_mem s of None \<Rightarrow> initialCapacity s | Some m \<Rightarrow> length m + (length m + 1) div 2)"
  define c where "c = (if cap < length xs + n then length xs + n else cap)"
  have "length xs + n \<le> c" "c \<noteq> 0" using True len by (auto simp: c_def)
  then obtain s' where "Stack_Resize gives c s = Some s'" "stack_rep s' xs" "stack_capacity s' = c"
    using Stack_Resize_rep [of s xs c gives] assms by auto
  with True len \<open>length xs + n \<le> c\<close> show ?thesis by (auto simp: Stack_Reserve_def Stack_Expand_def Let_def c_def cap_def)
next
  case False
  then show ?thesis using assms(1) by (auto simp: Stack_Reserve_def stack_rep_def)
qed

lemma Buffer_PutUnsafe_rep:
  assumes "stack_rep s xs" "length xs < stack_capacity s"
  shows "\<exists>s'. Buffer_PutUnsafe c s = Some s' \<and> stack_rep s' (xs @ [c]) \<and> stack_capacity s' = stack_capacity s"
proof -
  obtain m where m: "stack_mem s = Some m" "length xs < length m" "take (length xs) m = map Some xs" "stackTop s = length xs"
    using assms by (auto simp: stack_rep_def stack_capacity_def split: option.splits)
  then have "take (Suc (length xs)) (m[length xs := Some c]) = map Some (xs @ [c])" by (simp add: take_Suc_conv_app_nth)
  with m show ?thesis by (simp add: Buffer_PutUnsafe_def Stack_PushUnsafe_def stack_capacity_def poke_def stack_rep_def)
qed

lemma Buffer_Put_rep:
  assumes "stack_rep s xs" "\<forall>n. gives n"
  shows "\<exists>s'. Buffer_Put gives c s = Some s' \<and> stack_rep s' (xs @ [c])"
proof -
  obtain s1 where s1: "Stack_Reserve gives 1 s = Some s1" "stack_rep s1 xs" "length xs + 1 \<le> stack_capacity s1"
    using Stack_Reserve_rep [OF assms] by blast
  with Buffer_PutUnsafe_rep [OF s1(2), of c] show ?thesis
    by (auto simp: Buffer_Put_def Stack_Push_def Buffer_PutUnsafe_def)
qed

lemma Stack_Pop_rep: "stack_rep s xs \<Longrightarrow> n \<le> length xs \<Longrightarrow> \<exists>s'. Stack_Pop n s = Some s' \<and> stack_rep s' (take (length xs - n) xs) \<and> stack_mem s' = stack_mem s"
  by (auto simp: Stack_Pop_def stack_rep_def take_map [symmetric] split: option.splits) (metis diff_le_self min.absorb1 take_take)

lemma Stack_Clear_rep: "stack_rep s xs \<Longrightarrow> stack_rep (Stack_Clear s) []"
  by (auto simp: Stack_Clear_def stack_rep_def split: option.splits)

lemma Buffer_ShrinkToFit_rep:
  assumes "stack_rep s xs" "\<forall>n. gives n"
  shows "\<exists>s'. Buffer_ShrinkToFit gives s = Some s' \<and> stack_rep s' xs"
proof -
  obtain s1 where s1: "Buffer_Put gives (CHR 0x00) s = Some s1" "stack_rep s1 (xs @ [CHR 0x00])" using Buffer_Put_rep [OF assms] by blast
  have "stackTop s1 = Suc (length xs)" using s1(2) by (simp add: stack_rep_def)
  then obtain s2 where s2: "Stack_ShrinkToFit gives s1 = Some s2" "stack_rep s2 (xs @ [CHR 0x00])"
    using Stack_Resize_rep [OF s1(2), of "Suc (length xs)" gives] assms(2) by (auto simp: Stack_ShrinkToFit_def)
  with s1 Stack_Pop_rep [OF s2(2), of 1] show ?thesis by (auto simp: Buffer_ShrinkToFit_def)
qed

lemma read_string_c_str: "take (Suc (length xs)) m = map Some (xs @ [CHR 0x00]) \<Longrightarrow> read_string m = Some (c_str xs)"
proof (induction xs arbitrary: m)
  case Nil
  then show ?case by (cases m) (auto simp: c_str_def)
next
  case (Cons x xs)
  then obtain m' where "m = Some x # m'" "take (Suc (length xs)) m' = map Some (xs @ [CHR 0x00])" by (cases m) auto
  with Cons.IH show ?case by (auto simp: c_str_def)
qed

lemma Buffer_GetString_rep:
  assumes "stack_rep s xs" "\<forall>n. gives n"
  shows "\<exists>s'. Buffer_GetString gives s = Some (c_str xs, s') \<and> stack_rep s' xs"
proof -
  obtain s1 where s1: "Buffer_Put gives (CHR 0x00) s = Some s1" "stack_rep s1 (xs @ [CHR 0x00])" using Buffer_Put_rep [OF assms] by blast
  obtain s2 where s2: "Stack_Pop 1 s1 = Some s2" "stack_rep s2 xs" "stack_mem s2 = stack_mem s1" using Stack_Pop_rep [OF s1(2), of 1] by auto
  obtain m where m: "stack_mem s1 = Some m" "take (Suc (length xs)) m = map Some (xs @ [CHR 0x00])"
    using s1(2) by (auto simp: stack_rep_def split: option.splits)
  with s1 s2 read_string_c_str [OF m(2)] show ?thesis by (simp add: Buffer_GetString_def)
qed

text \<open>
  What the program does with a buffer, and what each action does to the string in it. \<open>Op_Block\<close> is
  the writer's way of putting several characters: one reservation, then unchecked writes.
\<close>

datatype buf_op = Op_Put char | Op_Block string | Op_Drop nat | Op_Clear | Op_Shrink | Op_Show

fun put_all :: "string \<Rightarrow> rj_stack \<Rightarrow> rj_stack option" where
  "put_all [] s = Some s"
| "put_all (c # cs) s = (case Buffer_PutUnsafe c s of None \<Rightarrow> None | Some s1 \<Rightarrow> put_all cs s1)"

fun buf_step :: "(nat \<Rightarrow> bool) \<Rightarrow> buf_op \<Rightarrow> rj_stack \<Rightarrow> rj_stack option" where
  "buf_step gives (Op_Put c) s = Buffer_Put gives c s"
| "buf_step gives (Op_Block cs) s = (case Stack_Reserve gives (length cs) s of None \<Rightarrow> None | Some s1 \<Rightarrow> put_all cs s1)"
| "buf_step gives (Op_Drop n) s = Stack_Pop n s"
| "buf_step gives Op_Clear s = Some (Stack_Clear s)"
| "buf_step gives Op_Shrink s = Buffer_ShrinkToFit gives s"
| "buf_step gives Op_Show s = map_option snd (Buffer_GetString gives s)"

fun buf_run :: "(nat \<Rightarrow> bool) \<Rightarrow> buf_op list \<Rightarrow> rj_stack \<Rightarrow> rj_stack option" where
  "buf_run gives [] s = Some s"
| "buf_run gives (e # es) s = (case buf_step gives e s of None \<Rightarrow> None | Some s1 \<Rightarrow> buf_run gives es s1)"

fun text_step :: "buf_op \<Rightarrow> string \<Rightarrow> string option" where
  "text_step (Op_Put c) xs = Some (xs @ [c])"
| "text_step (Op_Block cs) xs = Some (xs @ cs)"
| "text_step (Op_Drop n) xs = (if n \<le> length xs then Some (take (length xs - n) xs) else None)"
| "text_step Op_Clear xs = Some []"
| "text_step Op_Shrink xs = Some xs"
| "text_step Op_Show xs = Some xs"

fun text_run :: "buf_op list \<Rightarrow> string \<Rightarrow> string option" where
  "text_run [] xs = Some xs"
| "text_run (e # es) xs = (case text_step e xs of None \<Rightarrow> None | Some ys \<Rightarrow> text_run es ys)"

lemma put_all_rep:
  "stack_rep s xs \<Longrightarrow> length xs + length cs \<le> stack_capacity s \<Longrightarrow> \<exists>s'. put_all cs s = Some s' \<and> stack_rep s' (xs @ cs)"
proof (induction cs arbitrary: s xs)
  case (Cons c cs)
  obtain s1 where "Buffer_PutUnsafe c s = Some s1" "stack_rep s1 (xs @ [c])" "stack_capacity s1 = stack_capacity s"
    using Buffer_PutUnsafe_rep [OF Cons.prems(1), of c] Cons.prems(2) by auto
  with Cons.IH [of s1 "xs @ [c]"] Cons.prems(2) show ?case by simp
qed simp

lemma buf_step_rep:
  assumes "stack_rep s xs" "\<forall>n. gives n" "text_step e xs = Some ys"
  shows "\<exists>s'. buf_step gives e s = Some s' \<and> stack_rep s' ys"
proof (cases e)
  case (Op_Put c)
  then show ?thesis using assms(3) Buffer_Put_rep [OF assms(1,2)] by auto
next
  case (Op_Block cs)
  obtain s1 where "Stack_Reserve gives (length cs) s = Some s1" "stack_rep s1 xs" "length xs + length cs \<le> stack_capacity s1"
    using Stack_Reserve_rep [OF assms(1,2)] by blast
  with put_all_rep [of s1 xs cs] assms(3) Op_Block show ?thesis by auto
next
  case (Op_Drop n)
  then show ?thesis using assms(3) Stack_Pop_rep [OF assms(1), of n] by (auto split: if_splits)
next
  case Op_Clear
  then show ?thesis using assms(3) Stack_Clear_rep [OF assms(1)] by auto
next
  case Op_Shrink
  then show ?thesis using assms(3) Buffer_ShrinkToFit_rep [OF assms(1,2)] by auto
next
  case Op_Show
  then show ?thesis using assms(3) Buffer_GetString_rep [OF assms(1,2)] by auto
qed

lemma buf_run_rep:
  "stack_rep s xs \<Longrightarrow> \<forall>n. gives n \<Longrightarrow> text_run es xs = Some ys \<Longrightarrow> \<exists>s'. buf_run gives es s = Some s' \<and> stack_rep s' ys"
proof (induction es arbitrary: s xs)
  case (Cons e es)
  obtain zs where zs: "text_step e xs = Some zs" "text_run es zs = Some ys" using Cons.prems(3) by (auto split: option.splits)
  obtain s1 where "buf_step gives e s = Some s1" "stack_rep s1 zs" using buf_step_rep [OF Cons.prems(1,2) zs(1)] by blast
  with Cons.IH [OF _ Cons.prems(2) zs(2)] show ?case by simp
qed simp

text \<open>C18: The string buffer below the JSON writer holds what was written. Start with an empty
  buffer of any initial capacity and put characters one at a time or in reserved blocks, drop
  some, clear it, shrink it, look at it, in any order: as long as memory is there, no assertion
  fails and no write leaves the memory of the buffer, and the string it shows at the end is what
  the same actions make of a string, up to its first null character.\<close>

theorem buffer_holds_what_was_written:
  assumes "\<forall>n. gives n" and "text_run es [] = Some txt"
  shows "\<exists>s s'. buf_run gives es (Stack_new cap) = Some s \<and> Buffer_GetString gives s = Some (c_str txt, s')"
proof -
  obtain s where s: "buf_run gives es (Stack_new cap) = Some s" "stack_rep s txt" using buf_run_rep [OF Stack_new_rep assms] by blast
  with Buffer_GetString_rep [OF s(2) assms(1)] show ?thesis by blast
qed

theorem buffer_holds_what_was_written_witness:
  "\<exists>s s'. buf_run (\<lambda>_. True) [Op_Put (CHR ''a''), Op_Block ''bcd'', Op_Drop 2, Op_Shrink, Op_Block ''x''] (Stack_new 2) = Some s \<and>
     Buffer_GetString (\<lambda>_. True) s = Some (''abx'', s')"
  using buffer_holds_what_was_written [of "\<lambda>_. True" "[Op_Put (CHR ''a''), Op_Block ''bcd'', Op_Drop 2, Op_Shrink, Op_Block ''x'']" "''abx''" 2]
  by (simp add: c_str_def)

section \<open>Blocks of the pool\<close>

text \<open>Rounding up to a multiple of eight.\<close>

lemma and_not_7: "unat ((x :: 64 word) AND NOT 7) = unat x div 8 * 8"
proof -
  have "(x AND NOT 7) + (x AND 7) = (x AND NOT 7) OR (x AND 7)" by (rule disjunctive_add_eq_or) (rule bit_word_eqI, auto simp: bit_simps)
  also have "\<dots> = x" by (rule bit_word_eqI) (auto simp: bit_simps)
  finally have sum: "x AND NOT 7 = x - (x AND 7)" by (metis add_diff_cancel_right')
  have "x AND 7 = take_bit 3 x" by (simp add: take_bit_eq_mask mask_eq_exp_minus_1)
  then have low: "unat (x AND 7) = unat x mod 8" by (simp add: unsigned_take_bit_eq) (simp add: take_bit_eq_mod)
  then have "x AND 7 \<le> x" by (simp add: word_le_nat_alt)
  then have "unat (x AND NOT 7) = unat x - unat x mod 8" unfolding sum using low by (simp add: unat_sub)
  then show ?thesis by (simp add: minus_mod_eq_div_mult)
qed

lemma ALIGN_unat:
  assumes "unat n \<le> 2 ^ 61"
  shows "unat (RAPIDJSON_ALIGN n) = (unat n + 7) div 8 * 8"
proof -
  have "unat (n + 7) = unat n + 7" using assms by (subst unat_add_lem [THEN iffD1]) auto
  then show ?thesis unfolding RAPIDJSON_ALIGN_def and_not_7 by simp
qed

lemma ALIGN_bounds:
  assumes "unat n \<le> 2 ^ 61"
  shows "unat n \<le> unat (RAPIDJSON_ALIGN n)" "unat (RAPIDJSON_ALIGN n) \<le> 2 ^ 61 + 7" "8 dvd unat (RAPIDJSON_ALIGN n)"
  using assms by (simp_all add: ALIGN_unat)

text \<open>A block is a chunk, a place and a length; the living blocks lie in their chunks, apart from each other.\<close>

type_synonym block = "nat \<times> nat \<times> nat"

definition apart :: "block \<Rightarrow> block \<Rightarrow> bool" where
  "apart = (\<lambda>(k, x, l) (k', x', l'). k \<noteq> k' \<or> x + l \<le> x' \<or> x' + l' \<le> x)"

definition inside :: "MemoryPool \<Rightarrow> block \<Rightarrow> bool" where
  "inside p = (\<lambda>(k, x, l). k < length (chunks p) \<and> 0 < l \<and> 8 dvd x \<and> x + l \<le> unat (ch_size (rev (chunks p) ! k)))"

definition chunk_ok :: "ChunkHeader \<Rightarrow> bool" where
  "chunk_ok h \<longleftrightarrow> unat (ch_size h) \<le> unat (ch_capacity h) \<and> 8 dvd unat (ch_size h) \<and> unat (ch_capacity h) \<le> 2 ^ 62"

definition pool_ok :: "MemoryPool \<Rightarrow> block set \<Rightarrow> bool" where
  "pool_ok p B \<longleftrightarrow> unat (chunk_capacity p) \<le> 2 ^ 62 \<and> list_all chunk_ok (chunks p) \<and> Ball B (inside p) \<and> pairwise apart B"

lemma apart_sym: "apart a b \<Longrightarrow> apart b a"
  by (auto simp: apart_def)

lemma inside_grow:
  assumes "inside p b" "chunks p = h # cs" "chunks p' = h' # cs" "unat (ch_size h) \<le> unat (ch_size h')"
  shows "inside p' b"
proof -
  obtain k x l where b: "b = (k, x, l)" by (cases b)
  show ?thesis using assms by (cases "k = length cs") (auto simp: b inside_def nth_append)
qed

lemma inside_chunk: "inside p b \<Longrightarrow> chunks p' = h # chunks p \<Longrightarrow> inside p' b"
  by (cases b) (auto simp: inside_def nth_append)

lemma AddChunk_ok:
  assumes "pool_ok p B" "AddChunk gives c p = (True, p1)" "unat c \<le> 2 ^ 62"
  shows "pool_ok p1 B \<and> pool_bytes p1 = pool_bytes p \<and> chunks p1 = \<lparr>ch_capacity = c, ch_size = 0\<rparr> # chunks p"
proof -
  have p1: "p1 = p\<lparr>chunks := \<lparr>ch_capacity = c, ch_size = 0\<rparr> # chunks p\<rparr>" using assms(2) by (simp add: AddChunk_def split: if_splits)
  have "inside p1 b" if "b \<in> B" for b using that assms(1) inside_chunk [of p b p1] by (simp add: pool_ok_def p1)
  then show ?thesis using assms(1,3) by (simp add: pool_ok_def p1 chunk_ok_def)
qed

text \<open>The head chunk hands out its next bytes.\<close>

lemma grow_ok:
  assumes "pool_ok p B" "chunks p = h # cs" "unat (ch_size h) + unat d \<le> unat (ch_capacity h)" "8 dvd unat d"
  shows "unat (ch_size h + d) = unat (ch_size h) + unat d" "pool_ok (p\<lparr>chunks := h\<lparr>ch_size := ch_size h + d\<rparr> # cs\<rparr>) B"
proof -
  have h: "unat (ch_capacity h) \<le> 2 ^ 62" "8 dvd unat (ch_size h)" using assms(1,2) by (simp_all add: pool_ok_def chunk_ok_def)
  then show sum: "unat (ch_size h + d) = unat (ch_size h) + unat d" using assms(3) by (subst unat_add_lem [THEN iffD1]) simp_all
  let ?p = "p\<lparr>chunks := h\<lparr>ch_size := ch_size h + d\<rparr> # cs\<rparr>"
  have "inside ?p b" if "b \<in> B" for b
    using that assms(1,2) sum inside_grow [of p b h cs ?p "h\<lparr>ch_size := ch_size h + d\<rparr>"] by (simp add: pool_ok_def)
  then show "pool_ok ?p B" using assms h sum by (simp add: pool_ok_def chunk_ok_def)
qed

lemma new_block_ok:
  assumes "pool_ok p B" "chunks p = h # cs" "unat (ch_size h) + unat d \<le> unat (ch_capacity h)" "8 dvd unat d" "d \<noteq> 0"
  shows "pool_ok (p\<lparr>chunks := h\<lparr>ch_size := ch_size h + d\<rparr> # cs\<rparr>) (insert (length cs, unat (ch_size h), unat d) B)"
    and "b \<in> B \<Longrightarrow> apart (length cs, unat (ch_size h), unat d) b"
proof -
  let ?b = "(length cs, unat (ch_size h), unat d)" and ?p = "p\<lparr>chunks := h\<lparr>ch_size := ch_size h + d\<rparr> # cs\<rparr>"
  note g = grow_ok [OF assms(1-4)]
  show far: "apart ?b b" if "b \<in> B" for b
  proof -
    obtain k x l where b: "b = (k, x, l)" by (cases b)
    have "inside p b" using that assms(1) by (simp add: pool_ok_def)
    then show ?thesis using assms(2) by (auto simp: apart_def inside_def b nth_append)
  qed
  have "8 dvd unat (ch_size h)" using assms(1,2) by (simp add: pool_ok_def chunk_ok_def)
  then have "inside ?p ?b" using assms(5) g(1) by (simp add: inside_def nth_append unat_gt_0)
  moreover have "pairwise apart (insert ?b B)" using far g(2) apart_sym by (simp add: pairwise_insert pool_ok_def)
  ultimately show "pool_ok ?p (insert ?b B)" using g(2) by (simp add: pool_ok_def)
qed

lemma pool_Malloc_ok:
  assumes "pool_ok p B" "n \<noteq> 0" "unat n \<le> 2 ^ 61" "pool_Malloc gives n p = (res, p')"
  shows "case res of None \<Rightarrow> p' = p
    | Some (k, x) \<Rightarrow> pool_ok p' (insert (k, unat x, unat (RAPIDJSON_ALIGN n)) B) \<and> (\<forall>b \<in> B. apart (k, unat x, unat (RAPIDJSON_ALIGN n)) b) \<and> pool_bytes p' = pool_bytes p"
proof -
  define d where "d = RAPIDJSON_ALIGN n"
  have d: "unat n \<le> unat d" "unat d \<le> 2 ^ 61 + 7" "8 dvd unat d" using ALIGN_bounds [OF assms(3)] by (simp_all add: d_def)
  have "d \<noteq> 0" using d(1) assms(2) by (auto simp: unat_eq_0)
  define full where "full = (case chunks p of [] \<Rightarrow> True | h # _ \<Rightarrow> ch_size h + d > ch_capacity h)"
  define c where "c = (if chunk_capacity p > d then chunk_capacity p else d)"
  have c: "unat c \<le> 2 ^ 62" "unat d \<le> unat c" using d(2) assms(1) by (auto simp: c_def pool_ok_def word_less_nat_alt)
  define r where "r = (if full then AddChunk gives c p else (True, p))"
  obtain ok p1 where r: "r = (ok, p1)" by (cases r)
  have run: "pool_Malloc gives n p = (if \<not> ok then (None, p1) else (case chunks p1 of [] \<Rightarrow> (None, p1)
      | h # cs \<Rightarrow> (Some (length cs, ch_size h), p1\<lparr>chunks := h\<lparr>ch_size := ch_size h + d\<rparr> # cs\<rparr>)))"
    unfolding pool_Malloc_def Let_def d_def [symmetric] full_def [symmetric] c_def [symmetric] r_def [symmetric] r using assms(2) by simp
  show ?thesis
  proof (cases ok)
    case False
    then have "p1 = p" using r by (auto simp: r_def AddChunk_def split: if_splits)
    with False run assms(4) show ?thesis by auto
  next
    case True
    have "\<exists>h cs. pool_ok p1 B \<and> pool_bytes p1 = pool_bytes p \<and> chunks p1 = h # cs \<and> unat (ch_size h) + unat d \<le> unat (ch_capacity h)"
    proof (cases full)
      case full: True
      then have "AddChunk gives c p = (True, p1)" using r True by (simp add: r_def)
      from AddChunk_ok [OF assms(1) this c(1)] c(2) show ?thesis by simp
    next
      case False
      then obtain h cs where h: "chunks p = h # cs" "\<not> ch_size h + d > ch_capacity h" by (auto simp: full_def split: list.splits)
      have "unat (ch_size h) \<le> 2 ^ 62" using assms(1) h(1) by (simp add: pool_ok_def chunk_ok_def)
      then have "unat (ch_size h + d) = unat (ch_size h) + unat d" using d(2) by (subst unat_add_lem [THEN iffD1]) simp_all
      then show ?thesis using False r h assms(1) by (auto simp: r_def word_le_nat_alt not_less)
    qed
    then obtain h cs where p1: "pool_ok p1 B" "pool_bytes p1 = pool_bytes p" "chunks p1 = h # cs" "unat (ch_size h) + unat d \<le> unat (ch_capacity h)" by blast
    note nb = new_block_ok [OF p1(1,3,4) d(3) \<open>d \<noteq> 0\<close>]
    have "res = Some (length cs, ch_size h)" "p' = p1\<lparr>chunks := h\<lparr>ch_size := ch_size h + d\<rparr> # cs\<rparr>" using True run assms(4) p1(3) by simp_all
    then show ?thesis using nb p1(2) by (simp add: d_def)
  qed
qed

text \<open>What a block holds, and that copying into one block leaves those apart from it alone.\<close>

definition holds :: "MemoryPool \<Rightarrow> block \<Rightarrow> nat \<Rightarrow> char" where
  "holds p = (\<lambda>(k, x, l) i. pool_bytes p k (x + i))"

definition same_bytes :: "MemoryPool \<Rightarrow> MemoryPool \<Rightarrow> block \<Rightarrow> bool" where
  "same_bytes p p' b \<longleftrightarrow> (\<forall>i < snd (snd b). holds p' b i = holds p b i)"

lemma copy_bytes_holds:
  assumes "n \<le> l"
  shows "i < n \<Longrightarrow> holds (copy_bytes (k', x') (k, x) n p) (k', unat x', l) i = pool_bytes p k (unat x + i)"
    and "apart (k', unat x', l) b \<Longrightarrow> same_bytes p (copy_bytes (k', x') (k, x) n p) b"
  using assms by (auto simp: holds_def copy_bytes_def same_bytes_def apart_def split: prod.splits)

lemma ALIGN_idem:
  assumes "unat n \<le> 2 ^ 60"
  shows "RAPIDJSON_ALIGN (RAPIDJSON_ALIGN n) = RAPIDJSON_ALIGN n" "unat (RAPIDJSON_ALIGN n) \<le> 2 ^ 61"
proof -
  have b: "unat (RAPIDJSON_ALIGN n) = (unat n + 7) div 8 * 8" using assms by (intro ALIGN_unat) simp
  then show l: "unat (RAPIDJSON_ALIGN n) \<le> 2 ^ 61" using assms by simp
  have "unat (RAPIDJSON_ALIGN (RAPIDJSON_ALIGN n)) = unat (RAPIDJSON_ALIGN n)" using ALIGN_unat [OF l] b by simp
  then show "RAPIDJSON_ALIGN (RAPIDJSON_ALIGN n) = RAPIDJSON_ALIGN n" by (simp add: unsigned_word_eqI)
qed

lemma expand_ok:
  assumes "pool_ok p B" "chunks p = h # cs" "(length cs, x, l) \<in> B" "x + l = unat (ch_size h)"
    and "unat (ch_size h) + unat d \<le> unat (ch_capacity h)" "8 dvd unat d"
  shows "pool_ok (p\<lparr>chunks := h\<lparr>ch_size := ch_size h + d\<rparr> # cs\<rparr>) (insert (length cs, x, l + unat d) (B - {(length cs, x, l)}))"
proof -
  let ?p = "p\<lparr>chunks := h\<lparr>ch_size := ch_size h + d\<rparr> # cs\<rparr>" and ?b = "(length cs, x, l)" and ?b' = "(length cs, x, l + unat d)"
  note g = grow_ok [OF assms(1,2,5,6)]
  have in1: "inside p b" if "b \<in> B" for b using that assms(1) by (simp add: pool_ok_def)
  have "inside ?p ?b'" using in1 [OF assms(3)] g(1) assms(2,4) by (simp add: inside_def nth_append)
  moreover have far: "apart ?b' b" if "b \<in> B - {?b}" for b
  proof -
    obtain k y m where b: "b = (k, y, m)" by (cases b)
    have "apart ?b b" using that assms(1,3) by (auto simp: pool_ok_def pairwise_def)
    moreover have "inside p b" using in1 that by simp
    ultimately show ?thesis using assms(2,4) by (auto simp: apart_def inside_def b nth_append)
  qed
  have "pairwise apart (insert ?b' (B - {?b}))"
    using far apart_sym g(2) by (simp add: pairwise_insert pool_ok_def pairwise_subset [of apart B "B - {?b}"])
  ultimately show ?thesis using g(2) by (simp add: pool_ok_def)
qed

lemma shrink_ok:
  assumes "pool_ok p B" "(k, x, l) \<in> B" "0 < l'" "l' \<le> l"
  shows "pool_ok p (insert (k, x, l') (B - {(k, x, l)}))"
proof -
  have "inside p (k, x, l')" using assms by (force simp: pool_ok_def inside_def)
  moreover have far: "apart (k, x, l') b" if "b \<in> B - {(k, x, l)}" for b
  proof -
    have "apart (k, x, l) b" using that assms(1,2) by (auto simp: pool_ok_def pairwise_def)
    then show ?thesis using assms(4) by (cases b) (auto simp: apart_def)
  qed
  have "pairwise apart (insert (k, x, l') (B - {(k, x, l)}))"
    using far apart_sym assms(1) by (simp add: pairwise_insert pool_ok_def pairwise_subset [of apart B "B - {(k, x, l)}"])
  ultimately show ?thesis using assms(1) by (simp add: pool_ok_def)
qed

lemma pool_Realloc_ok:
  assumes "pool_ok p B" "(k, unat x, l) \<in> B" "l = unat (RAPIDJSON_ALIGN m)" "unat m \<le> 2 ^ 60" "n \<noteq> 0" "unat n \<le> 2 ^ 60"
  shows "\<exists>res p'. pool_Realloc gives (Some (k, x)) m n p = Some (res, p') \<and> (case res of None \<Rightarrow> p' = p
    | Some (k', x') \<Rightarrow> pool_ok p' (insert (k', unat x', unat (RAPIDJSON_ALIGN n)) (B - {(k, unat x, l)})) \<and>
        ((k', x') = (k, x) \<or> (\<forall>b \<in> B. apart (k', unat x', unat (RAPIDJSON_ALIGN n)) b)) \<and>
        (\<forall>i < l. pool_bytes p' k' (unat x' + i) = pool_bytes p k (unat x + i)) \<and> (\<forall>b \<in> B - {(k, unat x, l)}. same_bytes p p' b))"
proof -
  define d e where "d = RAPIDJSON_ALIGN m" and "e = RAPIDJSON_ALIGN n"
  have l: "l = unat d" using assms(3) by (simp add: d_def)
  have e: "RAPIDJSON_ALIGN e = e" "unat e \<le> 2 ^ 61" "8 dvd unat e" "8 dvd unat d" "unat n \<le> unat e"
    using ALIGN_idem [OF assms(6)] ALIGN_bounds [of n] ALIGN_bounds [of m] assms(4,6) by (simp_all add: d_def e_def)
  have e0: "e \<noteq> 0" using e(5) assms(5) by (auto simp: unat_eq_0)
  have same: "same_bytes p p b" for b by (simp add: same_bytes_def)
  have b: "inside p (k, unat x, l)" using assms(1,2) by (simp add: pool_ok_def)
  then obtain h cs where h: "chunks p = h # cs" by (cases "chunks p") (auto simp: inside_def)
  show ?thesis
  proof (cases "e \<le> d")
    case True
    then have "unat e \<le> l" "0 < unat e" using e0 by (simp_all add: l word_le_nat_alt unat_gt_0)
    with shrink_ok [OF assms(1,2)] have "pool_ok p (insert (k, unat x, unat e) (B - {(k, unat x, l)}))" by blast
    then show ?thesis using True assms(5) same
      by (intro exI [of _ "Some (k, x)"] exI [of _ p]) (simp add: pool_Realloc_def d_def e_def)
  next
    case False
    then have de: "unat (e - d) = unat e - unat d" "unat d < unat e" by (simp_all add: unat_sub word_le_nat_alt)
    show ?thesis
    proof (cases "(k, x) = (length cs, ch_size h - d) \<and> ch_size h + (e - d) \<le> ch_capacity h")
      case True
      have k: "k = length cs" "x = ch_size h - d" using True by auto
      have le: "unat x + l \<le> unat (ch_size h)" using b h k(1) by (simp add: inside_def nth_append)
      then have "d \<le> ch_size h" by (simp add: l word_le_nat_alt)
      then have xl: "unat x + l = unat (ch_size h)" by (simp add: k(2) l unat_sub word_le_nat_alt)
      have "unat (ch_size h) \<le> 2 ^ 62" using assms(1) h by (simp add: pool_ok_def chunk_ok_def)
      then have "unat (ch_size h + (e - d)) = unat (ch_size h) + unat (e - d)" using de(1) e(2) by (subst unat_add_lem [THEN iffD1]) simp_all
      then have fits: "unat (ch_size h) + unat (e - d) \<le> unat (ch_capacity h)" using True by (simp add: word_le_nat_alt)
      have "8 dvd unat (e - d)" using e(3,4) de(1) by (simp add: dvd_diff_nat)
      from expand_ok [OF assms(1) h _ xl fits this] assms(2) k(1) have ok:
        "pool_ok (p\<lparr>chunks := h\<lparr>ch_size := ch_size h + (e - d)\<rparr> # cs\<rparr>) (insert (k, unat x, unat e) (B - {(k, unat x, l)}))"
        using de by (simp add: l)
      have "same_bytes p (p\<lparr>chunks := h\<lparr>ch_size := ch_size h + (e - d)\<rparr> # cs\<rparr>) b" for b by (auto simp: same_bytes_def holds_def split: prod.splits)
      with ok show ?thesis using True False assms(5) h
        by (intro exI [of _ "Some (k, x)"] exI [of _ "p\<lparr>chunks := h\<lparr>ch_size := ch_size h + (e - d)\<rparr> # cs\<rparr>"])
           (simp add: pool_Realloc_def d_def [symmetric] e_def [symmetric])
    next
      case move: False
      obtain res p1 where r: "pool_Malloc gives e p = (res, p1)" by (cases "pool_Malloc gives e p")
      note m = pool_Malloc_ok [OF assms(1) e0 e(2) r, unfolded e(1)]
      have run: "pool_Realloc gives (Some (k, x)) m n p = (case pool_Malloc gives e p of (None, p1) \<Rightarrow> Some (None, p1)
          | (Some b, p1) \<Rightarrow> Some (Some b, copy_bytes b (k, x) (unat d) p1))"
        unfolding pool_Realloc_def Let_def d_def [symmetric] e_def [symmetric] option.case h list.case
        by (simp only: if_not_P [OF move] if_not_P [OF assms(5)] if_not_P [OF False])
      show ?thesis
      proof (cases res)
        case None
        then show ?thesis using run r m by simp
      next
        case (Some y)
        obtain k' x' where y: "y = (k', x')" by (cases y)
        let ?nb = "(k', unat x', unat e)" and ?p = "copy_bytes (k', x') (k, x) (unat d) p1"
        have m': "pool_ok p1 (insert ?nb B)" "\<And>b. b \<in> B \<Longrightarrow> apart ?nb b" "pool_bytes p1 = pool_bytes p" using m Some y by auto
        have "pairwise apart (insert ?nb (B - {(k, unat x, l)}))" using m'(1) by (auto simp: pool_ok_def intro: pairwise_subset)
        then have ok: "pool_ok ?p (insert ?nb (B - {(k, unat x, l)}))" using m'(1) by (auto simp: pool_ok_def copy_bytes_def inside_def)
        have "holds ?p ?nb i = pool_bytes p k (unat x + i)" if "i < l" for i
          using that copy_bytes_holds(1) [of "unat d" "unat e" i k' x' k x p1] de(2) m'(3) by (simp add: l)
        moreover have "same_bytes p ?p b" if "b \<in> B" for b
          using copy_bytes_holds(2) [where n = "unat d" and k = k and x = x and p = p1, OF _ m'(2) [OF that]] de(2) m'(3) by (simp add: same_bytes_def holds_def)
        ultimately show ?thesis using run r Some y ok m'(2)
          by (intro exI [of _ "Some (k', x')"] exI [of _ ?p]) (simp add: holds_def e_def [symmetric])
      qed
    qed
  qed
qed

text \<open>
  A client of the pool: it keeps, for every block it owns, the bytes the block should hold. A new
  block holds whatever is there; a block that is enlarged holds the old bytes first; a request that
  fails leaves the client with what it had.
\<close>

definition block_bytes :: "MemoryPool \<Rightarrow> ptr \<Rightarrow> nat \<Rightarrow> string" where
  "block_bytes p a n = map (\<lambda>i. pool_bytes p (fst a) (unat (snd a) + i)) [0..<n]"

definition set_byte :: "ptr \<Rightarrow> nat \<Rightarrow> char \<Rightarrow> MemoryPool \<Rightarrow> MemoryPool" where
  "set_byte a i c p = p\<lparr>pool_bytes := (\<lambda>k j. if k = fst a \<and> j = unat (snd a) + i then c else pool_bytes p k j)\<rparr>"

inductive pool_run :: "(64 word \<Rightarrow> bool) \<Rightarrow> MemoryPool \<Rightarrow> (ptr \<rightharpoonup> string) \<Rightarrow> bool" for gives where
  run_new: "unat c \<le> 2 ^ 62 \<Longrightarrow> pool_run gives (MemoryPool_new c junk) Map.empty"
| run_buffer: "unat c \<le> 2 ^ 62 \<Longrightarrow> unat n \<le> 2 ^ 62 \<Longrightarrow> MemoryPool_with_buffer n c junk = Some p \<Longrightarrow> pool_run gives p Map.empty"
| run_Malloc: "pool_run gives p H \<Longrightarrow> n \<noteq> 0 \<Longrightarrow> unat n \<le> 2 ^ 60 \<Longrightarrow> pool_Malloc gives n p = (Some a, p') \<Longrightarrow>
    pool_run gives p' (H(a \<mapsto> block_bytes p' a (unat n)))"
| run_Malloc_fails: "pool_run gives p H \<Longrightarrow> unat n \<le> 2 ^ 60 \<Longrightarrow> pool_Malloc gives n p = (None, p') \<Longrightarrow> pool_run gives p' H"
| run_write: "pool_run gives p H \<Longrightarrow> H a = Some s \<Longrightarrow> i < length s \<Longrightarrow> pool_run gives (set_byte a i c p) (H(a \<mapsto> s[i := c]))"
| run_Realloc: "pool_run gives p H \<Longrightarrow> H a = Some s \<Longrightarrow> n \<noteq> 0 \<Longrightarrow> unat n \<le> 2 ^ 60 \<Longrightarrow>
    pool_Realloc gives (Some a) (word_of_nat (length s)) n p = Some (Some b, p') \<Longrightarrow>
    pool_run gives p' ((H(a := None))(b \<mapsto> take (unat n) s @ drop (length s) (block_bytes p' b (unat n))))"
| run_Realloc_fails: "pool_run gives p H \<Longrightarrow> H a = Some s \<Longrightarrow> unat n \<le> 2 ^ 60 \<Longrightarrow>
    pool_Realloc gives (Some a) (word_of_nat (length s)) n p = Some (None, p') \<Longrightarrow> pool_run gives p' H"
| run_Clear: "pool_run gives p H \<Longrightarrow> pool_run gives (pool_Clear p) Map.empty"

inductive_cases pool_run_cases: "pool_run gives p H"

definition block_of :: "ptr \<Rightarrow> string \<Rightarrow> block" where
  "block_of a s = (fst a, unat (snd a), unat (RAPIDJSON_ALIGN (word_of_nat (length s))))"

definition blocks :: "(ptr \<rightharpoonup> string) \<Rightarrow> block set" where
  "blocks H = {block_of a s |a s. H a = Some s}"

definition client_ok :: "MemoryPool \<Rightarrow> (ptr \<rightharpoonup> string) \<Rightarrow> bool" where
  "client_ok p H \<longleftrightarrow> pool_ok p (blocks H) \<and> (\<forall>a s. H a = Some s \<longrightarrow> s \<noteq> [] \<and> length s \<le> 2 ^ 60 \<and> block_bytes p a (length s) = s)"

lemma block_of_address: "block_of a s = block_of b t \<Longrightarrow> a = b"
  by (auto simp: block_of_def prod_eq_iff unsigned_word_eqI)

lemma unat_small: "n \<le> 2 ^ 60 \<Longrightarrow> unat (word_of_nat n :: 64 word) = n"
  by (simp add: unsigned_of_nat take_bit_nat_eq_self)

lemma block_of_length: "length s \<le> 2 ^ 60 \<Longrightarrow> length s \<le> snd (snd (block_of a s))"
  using ALIGN_bounds(1) [of "word_of_nat (length s)"] by (simp add: block_of_def unat_small)

lemma blocks_update: "blocks (H(a \<mapsto> s)) = insert (block_of a s) (blocks (H(a := None)))"
proof (rule set_eqI)
  fix b
  show "b \<in> blocks (H(a \<mapsto> s)) \<longleftrightarrow> b \<in> insert (block_of a s) (blocks (H(a := None)))"
    unfolding blocks_def mem_Collect_eq insert_iff fun_upd_apply by (metis option.distinct(1) option.inject)
qed

lemma blocks_remove: "H a = Some s \<Longrightarrow> blocks (H(a := None)) = blocks H - {block_of a s}"
  by (auto simp: blocks_def dest: block_of_address) (metis block_of_address option.inject)

lemma blocks_fresh: "H a = None \<Longrightarrow> blocks (H(a := None)) = blocks H"
  by (simp add: fun_upd_idem)

lemma block_in: "H a = Some s \<Longrightarrow> block_of a s \<in> blocks H"
  unfolding blocks_def by blast

lemma same_bytes_block:
  assumes "same_bytes p p' (block_of a s)" "length s \<le> 2 ^ 60"
  shows "block_bytes p' a (length s) = block_bytes p a (length s)"
  using assms(1) block_of_length [OF assms(2), of a] by (auto simp: same_bytes_def holds_def block_bytes_def block_of_def)

lemma client_okD:
  assumes "client_ok p H"
  shows "pool_ok p (blocks H)" and "H a = Some s \<Longrightarrow> s \<noteq> []" and "H a = Some s \<Longrightarrow> length s \<le> 2 ^ 60"
    and "H a = Some s \<Longrightarrow> block_bytes p a (length s) = s"
  using assms unfolding client_ok_def by blast+

lemma client_update:
  assumes "client_ok p H" "pool_ok p' (insert (block_of b t) (blocks (H(b := None))))"
    and "t \<noteq> []" "length t \<le> 2 ^ 60" "block_bytes p' b (length t) = t"
    and "\<And>a s. H a = Some s \<Longrightarrow> a \<noteq> b \<Longrightarrow> same_bytes p p' (block_of a s)"
  shows "client_ok p' (H(b \<mapsto> t))"
  unfolding client_ok_def
proof (intro conjI allI impI)
  show "pool_ok p' (blocks (H(b \<mapsto> t)))" using assms(2) by (simp only: blocks_update)
  fix a s
  assume a: "(H(b \<mapsto> t)) a = Some s"
  show "s \<noteq> []" using a client_okD(2) [OF assms(1)] assms(3) by (cases "a = b") auto
  show len: "length s \<le> 2 ^ 60" using a client_okD(3) [OF assms(1)] assms(4) by (cases "a = b") auto
  show "block_bytes p' a (length s) = s"
  proof (cases "a = b")
    case True
    then show ?thesis using a assms(5) by simp
  next
    case False
    then have "H a = Some s" using a by simp
    with client_okD(4) [OF assms(1)] same_bytes_block [OF assms(6) len] False show ?thesis by simp
  qed
qed

lemma client_fresh:
  assumes "client_ok p H" "\<forall>b \<in> blocks H. apart (block_of a s) b" "0 < snd (snd (block_of a s))"
  shows "H a = None"
proof (rule ccontr)
  assume "H a \<noteq> None"
  then obtain t where t: "H a = Some t" by auto
  then have "t \<noteq> []" "length t \<le> 2 ^ 60" using client_okD(2,3) [OF assms(1)] by blast+
  then have "0 < snd (snd (block_of a t))" using block_of_length [of t a] by (cases t) auto
  moreover have "apart (block_of a s) (block_of a t)" using assms(2) block_in [of H a t, OF t] by blast
  ultimately show False using assms(3) by (auto simp: apart_def block_of_def)
qed

lemma client_Malloc:
  assumes "client_ok p H" "n \<noteq> 0" "unat n \<le> 2 ^ 60" "pool_Malloc gives n p = (Some a, p')"
  shows "client_ok p' (H(a \<mapsto> block_bytes p' a (unat n)))"
proof -
  let ?s = "block_bytes p' a (unat n)"
  have len: "length ?s = unat n" by (simp add: block_bytes_def)
  have blk: "block_of a ?s = (fst a, unat (snd a), unat (RAPIDJSON_ALIGN n))" by (simp add: block_of_def len)
  have "pool_ok p (blocks H)" using assms(1) by (simp add: client_ok_def)
  from pool_Malloc_ok [OF this assms(2) _ assms(4)] assms(3) have m: "pool_ok p' (insert (block_of a ?s) (blocks H))"
      "\<forall>b \<in> blocks H. apart (block_of a ?s) b" "pool_bytes p' = pool_bytes p" unfolding blk by (cases a, simp)+
  have "H a = None" using m(1) by (intro client_fresh [OF assms(1) m(2)]) (simp add: pool_ok_def inside_def split: prod.splits)
  then show ?thesis using m(1,3) assms(2,3) len
    by (intro client_update [OF assms(1)]) (auto simp: blocks_fresh same_bytes_def holds_def unat_eq_0 simp flip: length_0_conv)
qed

lemma client_write:
  assumes "client_ok p H" "H a = Some s" "i < length s"
  shows "client_ok (set_byte a i c p) (H(a \<mapsto> s[i := c]))"
proof (rule client_update [OF assms(1)])
  note ok = client_okD(1) [OF assms(1)] and s = client_okD(3,4) [OF assms(1,2)]
  have same: "block_of a (s[i := c]) = block_of a s" by (simp add: block_of_def)
  show "pool_ok (set_byte a i c p) (insert (block_of a (s[i := c])) (blocks (H(a := None))))"
    using ok block_in [of H a s, OF assms(2)] unfolding blocks_remove [of H a s, OF assms(2)] same
    by (simp add: insert_absorb pool_ok_def inside_def set_byte_def)
  show "s[i := c] \<noteq> []" "length (s[i := c]) \<le> 2 ^ 60" using assms(3) s(1) by auto
  show "block_bytes (set_byte a i c p) a (length (s[i := c])) = s[i := c]"
  proof (rule nth_equalityI)
    fix j
    assume "j < length (block_bytes (set_byte a i c p) a (length (s[i := c])))"
    then show "block_bytes (set_byte a i c p) a (length (s[i := c])) ! j = s[i := c] ! j"
      using arg_cong [OF s(2), of "\<lambda>r. r ! j"] by (simp add: block_bytes_def set_byte_def nth_list_update)
  qed (simp add: block_bytes_def)
  fix b t
  assume b: "H b = Some t" "b \<noteq> a"
  then have "block_of b t \<noteq> block_of a s" using block_of_address by blast
  then have "apart (block_of a s) (block_of b t)" using ok block_in [of H b t, OF b(1)] block_in [of H a s, OF assms(2)] by (auto simp: pool_ok_def pairwise_def)
  then show "same_bytes p (set_byte a i c p) (block_of b t)"
    using block_of_length [OF s(1), of a] assms(3) by (auto simp: same_bytes_def holds_def set_byte_def apart_def block_of_def)
qed

lemma client_remove:
  assumes "client_ok p H"
  shows "client_ok p (H(a := None))"
proof -
  have "blocks (H(a := None)) \<subseteq> blocks H" unfolding blocks_def by (auto split: if_splits)
  then have "pool_ok p (blocks (H(a := None)))" using client_okD(1) [OF assms] by (auto simp: pool_ok_def intro: pairwise_subset)
  then show ?thesis using client_okD(2-4) [OF assms] unfolding client_ok_def by (metis fun_upd_apply option.distinct(1))
qed

lemma client_Realloc:
  assumes "client_ok p H" "H a = Some s" "n \<noteq> 0" "unat n \<le> 2 ^ 60"
    and "pool_Realloc gives (Some a) (word_of_nat (length s)) n p = Some (Some b, p')"
  shows "client_ok p' ((H(a := None))(b \<mapsto> take (unat n) s @ drop (length s) (block_bytes p' b (unat n))))"
proof -
  define t where "t = take (unat n) s @ drop (length s) (block_bytes p' b (unat n))"
  note s = client_okD(2-4) [OF assms(1,2)]
  have len: "length t = unat n" by (simp add: t_def block_bytes_def)
  have bt: "block_of b t = (fst b, unat (snd b), unat (RAPIDJSON_ALIGN n))" by (simp add: block_of_def len)
  have as: "(fst a, unat (snd a), unat (RAPIDJSON_ALIGN (word_of_nat (length s)))) = block_of a s" by (simp add: block_of_def)
  have r: "pool_ok p' (insert (block_of b t) (blocks H - {block_of a s}))" "b = a \<or> (\<forall>c \<in> blocks H. apart (block_of b t) c)"
    "\<forall>i < unat (RAPIDJSON_ALIGN (word_of_nat (length s))). pool_bytes p' (fst b) (unat (snd b) + i) = pool_bytes p (fst a) (unat (snd a) + i)"
    "\<forall>c \<in> blocks H - {block_of a s}. same_bytes p p' c"
    using pool_Realloc_ok [OF client_okD(1) [OF assms(1)], of "fst a" "snd a" _ "word_of_nat (length s)" n gives]
      block_in [of H a s, OF assms(2)] s(2) assms(3-5) unfolding bt
    by (auto simp: unat_small as prod_eq_iff)
  have "b = a \<or> H b = None" using r(1,2) client_fresh [OF assms(1), of b t] by (auto simp: pool_ok_def inside_def)
  then have rest: "blocks ((H(a := None))(b := None)) = blocks H - {block_of a s}"
    using blocks_remove [of H a s, OF assms(2)] by (cases "b = a") (auto simp: fun_upd_twist fun_upd_idem)
  have "block_bytes p' b (length t) = t"
  proof (rule nth_equalityI)
    fix j
    assume "j < length (block_bytes p' b (length t))"
    then have j: "j < unat n" by (simp add: block_bytes_def len)
    show "block_bytes p' b (length t) ! j = t ! j"
    proof (cases "j < length s")
      case True
      then have "pool_bytes p' (fst b) (unat (snd b) + j) = pool_bytes p (fst a) (unat (snd a) + j)"
        using r(3) block_of_length [OF s(2), of a] by (simp add: block_of_def)
      also have "\<dots> = s ! j" using True arg_cong [OF s(3), of "\<lambda>r. r ! j"] by (simp add: block_bytes_def)
      finally show ?thesis using True j unfolding len by (simp add: block_bytes_def t_def nth_append)
    next
      case False
      then show ?thesis using j unfolding len by (simp add: block_bytes_def t_def nth_append min_def)
    qed
  qed (simp add: block_bytes_def)
  moreover have "same_bytes p p' (block_of c u)" if "(H(a := None)) c = Some u" for c u
  proof -
    have "H c = Some u" "c \<noteq> a" using that by (auto split: if_splits)
    then have "block_of c u \<in> blocks H - {block_of a s}" using block_in block_of_address by blast
    then show ?thesis using r(4) by blast
  qed
  ultimately show ?thesis unfolding t_def [symmetric] using r(1) rest assms(3,4) len
    by (intro client_update [OF client_remove [OF assms(1)]]) (auto simp: unat_eq_0 simp flip: length_0_conv)
qed

lemma clear_chunks_ok: "list_all chunk_ok cs \<Longrightarrow> list_all chunk_ok (clear_chunks u cs)"
  by (induction u cs rule: clear_chunks.induct) (auto simp: chunk_ok_def)

lemma client_empty: "client_ok p Map.empty \<longleftrightarrow> unat (chunk_capacity p) \<le> 2 ^ 62 \<and> list_all chunk_ok (chunks p)"
  by (simp add: client_ok_def pool_ok_def blocks_def)

lemma pool_Malloc_None: "pool_ok p B \<Longrightarrow> unat n \<le> 2 ^ 60 \<Longrightarrow> pool_Malloc gives n p = (None, p') \<Longrightarrow> p' = p"
  using pool_Malloc_ok [of p B n gives None p'] by (cases "n = 0") (auto simp: pool_Malloc_def)

lemma client_Realloc_fails:
  assumes "client_ok p H" "H a = Some s" "unat n \<le> 2 ^ 60"
    and "pool_Realloc gives (Some a) (word_of_nat (length s)) n p = Some (None, p')"
  shows "p' = p"
proof (cases "n = 0")
  case True
  then show ?thesis using assms(4) by (simp add: pool_Realloc_def)
next
  case False
  note ok = client_okD [OF assms(1)]
  show ?thesis using pool_Realloc_ok [OF ok(1), of "fst a" "snd a" _ "word_of_nat (length s)" n gives] block_in [of H a s, OF assms(2)]
      ok(3) [OF assms(2)] assms(3,4) False by (auto simp: unat_small block_of_def)
qed

lemma pool_run_ok: "pool_run gives p H \<Longrightarrow> client_ok p H"
proof (induction rule: pool_run.induct)
  case (run_new c junk)
  then show ?case by (simp add: client_empty MemoryPool_new_def)
next
  case (run_buffer c n junk p)
  then have "unat (n - 24) \<le> 2 ^ 62" by (auto simp: MemoryPool_with_buffer_def unat_sub word_less_nat_alt word_le_nat_alt split: if_splits)
  with run_buffer show ?case by (auto simp: client_empty MemoryPool_with_buffer_def chunk_ok_def split: if_splits)
next
  case (run_Malloc p H n a p')
  then show ?case by (intro client_Malloc)
next
  case (run_Malloc_fails p H n p')
  then show ?case using pool_Malloc_None [OF client_okD(1)] by blast
next
  case (run_write p H a s i c)
  then show ?case by (intro client_write)
next
  case (run_Realloc p H a s n b p')
  then show ?case by (intro client_Realloc)
next
  case (run_Realloc_fails p H a s n p')
  then show ?case using client_Realloc_fails by blast
next
  case (run_Clear p H)
  then show ?case by (simp add: client_empty client_ok_def pool_ok_def pool_Clear_def clear_chunks_ok)
qed

text \<open>C17: The pool allocator below a JSON document keeps the blocks of its client apart. Start
  from a new pool, with or without a buffer of the user's, and allocate, enlarge, write and clear
  in any order, with the system refusing memory at any time: every block the client owns lies, at
  a multiple of eight bytes, inside the used part of its chunk, which is inside the chunk; it
  shares no byte with any other block; and it holds exactly the bytes the client wrote there, also
  after it was moved. (Sizes are bounded by a quarter of the address space, so that none wraps.)\<close>

theorem pool_blocks_keep_apart:
  assumes "pool_run gives p H" "H a = Some s"
  shows "fst a < length (chunks p) \<and> 8 dvd unat (snd a) \<and>
      unat (snd a) + length s \<le> unat (ch_size (rev (chunks p) ! fst a)) \<and> ch_size (rev (chunks p) ! fst a) \<le> ch_capacity (rev (chunks p) ! fst a) \<and>
      block_bytes p a (length s) = s \<and>
      (\<forall>b t. H b = Some t \<longrightarrow> b \<noteq> a \<longrightarrow> fst b = fst a \<longrightarrow> unat (snd a) + length s \<le> unat (snd b) \<or> unat (snd b) + length t \<le> unat (snd a))"
proof -
  note ok = client_okD [OF pool_run_ok [OF assms(1)]]
  have inn: "inside p (block_of a s)" using ok(1) block_in [of H a s, OF assms(2)] by (simp add: pool_ok_def)
  then have k: "fst a < length (chunks p)" by (simp add: inside_def block_of_def)
  then have "rev (chunks p) ! fst a \<in> set (chunks p)" by (metis length_rev nth_mem set_rev)
  then have "chunk_ok (rev (chunks p) ! fst a)" using ok(1) by (auto simp: pool_ok_def list_all_iff)
  then have cap: "ch_size (rev (chunks p) ! fst a) \<le> ch_capacity (rev (chunks p) ! fst a)" by (simp add: chunk_ok_def word_le_nat_alt)
  have la: "length s \<le> snd (snd (block_of a s))" by (rule block_of_length [OF ok(3) [OF assms(2)]])
  have "unat (snd a) + length s \<le> unat (snd b) \<or> unat (snd b) + length t \<le> unat (snd a)" if b: "H b = Some t" "b \<noteq> a" "fst b = fst a" for b t
  proof -
    have "block_of a s \<noteq> block_of b t" using b(2) block_of_address by metis
    moreover have "pairwise apart (blocks H)" using ok(1) by (simp add: pool_ok_def)
    ultimately have "apart (block_of a s) (block_of b t)"
      using pairwiseD block_in [of H a s, OF assms(2)] block_in [of H b t, OF b(1)] by metis
    then show ?thesis using la block_of_length [OF ok(3) [OF b(1)], of b] b(3) by (auto simp: apart_def block_of_def)
  qed
  then show ?thesis using k cap inn la ok(4) [OF assms(2)] by (auto simp: inside_def block_of_def)
qed

text \<open>Two blocks of a byte each; the first is written and then enlarged, which moves it behind the second.\<close>

theorem pool_blocks_keep_apart_witness:
  "\<exists>p H. pool_run (\<lambda>_. True) p H \<and> H (0, 8) = Some ''b'' \<and> H (0, 16) = Some (CHR ''a'' # replicate 8 (CHR 0x00)) \<and>
     block_bytes p (0, 16) 9 = CHR ''a'' # replicate 8 (CHR 0x00)"
proof -
  let ?g = "\<lambda>_ :: 64 word. True" and ?j = "\<lambda>(_ :: nat) (_ :: nat). CHR 0x00"
  define st where "st n f = \<lparr>chunks = [\<lparr>ch_capacity = 64, ch_size = n\<rparr>], chunk_capacity = 64, user_buffer = False, pool_bytes = f\<rparr>" for n f
  note ev = pool_Malloc_def pool_Realloc_def AddChunk_def RAPIDJSON_ALIGN_def MemoryPool_new_def copy_bytes_def
  have "pool_Malloc ?g 1 (MemoryPool_new 64 ?j) = (Some (0, 0), st 8 ?j)" by (simp add: ev st_def)
  from run_Malloc [OF run_new _ _ this] have 1: "pool_run ?g (st 8 ?j) [(0, 0) \<mapsto> [CHR 0x00]]" by (simp add: block_bytes_def st_def)
  have "pool_Malloc ?g 1 (st 8 ?j) = (Some (0, 8), st 16 ?j)" by (simp add: ev st_def)
  from run_Malloc [OF 1 _ _ this] have 2: "pool_run ?g (st 16 ?j) [(0, 0) \<mapsto> [CHR 0x00], (0, 8) \<mapsto> [CHR 0x00]]" by (simp add: block_bytes_def st_def)
  define f where "f = (\<lambda>k i. if k = (0 :: nat) \<and> i = (0 :: nat) then CHR ''a'' else if k = 0 \<and> i = 8 then CHR ''b'' else CHR 0x00)"
  have w: "set_byte (0, 8) 0 (CHR ''b'') (set_byte (0, 0) 0 (CHR ''a'') (st 16 ?j)) = st 16 f" by (auto simp: set_byte_def st_def f_def fun_eq_iff)
  have 3: "pool_run ?g (st 16 f) [(0, 0) \<mapsto> ''a'', (0, 8) \<mapsto> ''b'']"
    using run_write [OF run_write [OF 2, of "(0, 0)" "[CHR 0x00]" 0 "CHR ''a''"], of "(0, 8)" "[CHR 0x00]" 0 "CHR ''b''"]
    by (simp add: w fun_upd_twist)
  define p where "p = copy_bytes (0, 16) (0, 0) 8 (st 32 f)"
  have "pool_Realloc ?g (Some (0, 0)) (word_of_nat (length ''a'')) 9 (st 16 f) = Some (Some (0, 16), p)" by (simp add: ev st_def p_def)
  moreover have upt: "[0..<9 :: nat] = [0, 1, 2, 3, 4, 5, 6, 7, 8]" "replicate 8 (CHR 0x00) = map (\<lambda>_. CHR 0x00) [0, 1, 2, 3, 4, 5, 6, 7 :: nat]" by code_simp+
  moreover have "drop 1 (block_bytes p (0, 16) 9) = replicate 8 (CHR 0x00)"
    by (simp add: block_bytes_def p_def copy_bytes_def st_def f_def upt)
  ultimately have 4: "pool_run ?g p (([(0, 0) \<mapsto> ''a'', (0, 8) \<mapsto> ''b''])((0, 0) := None, (0, 16) \<mapsto> CHR ''a'' # replicate 8 (CHR 0x00)))"
    using run_Realloc [OF 3, of "(0, 0)" "''a''" 9 "(0, 16)" p] by simp
  from pool_blocks_keep_apart [OF this, of "(0, 16)" "CHR ''a'' # replicate 8 (CHR 0x00)"]
  have "block_bytes p (0, 16) 9 = CHR ''a'' # replicate 8 (CHR 0x00)" by simp
  with 4 show ?thesis by (intro exI conjI) (assumption, simp_all)
qed

end
