(* ===== verification/Xml_Printer.thy ===== *)
theory Xml_Printer
  imports Xml_Layout
begin

text \<open>
  The tinyxml2 printer (\<^verbatim>\<open>XMLPrinter\<close> and the \<^verbatim>\<open>Accept\<close> methods of \<^verbatim>\<open>tinyxml2.cpp\<close>): from
  the tree of nodes to the bytes of a file or of the memory buffer. \<open>buffer\<close> is what has been
  written, without the null character that ends the memory buffer; a string argument is what its
  pointer shows up to the null character. Nesting deeper than an \<^verbatim>\<open>int\<close> counts is outside the
  model. The last part shows that what is printed is a layout of the document, hence is parsed
  back to it.
\<close>

section \<open>XMLPrinter\<close>

record XMLPrinter =
  buffer :: string
  elementJustOpened :: bool
  open_names :: "string list"
  firstElement :: bool
  depth :: int
  textDepth :: int
  processEntities :: bool
  compactMode :: bool

definition XMLPrinter_new :: "bool \<Rightarrow> int \<Rightarrow> XMLPrinter" where
  "XMLPrinter_new compact d = \<lparr>buffer = [], elementJustOpened = False, open_names = [], firstElement = True,
     depth = d, textDepth = -1, processEntities = True, compactMode = compact\<rparr>"

definition ClearBuffer :: "XMLPrinter \<Rightarrow> XMLPrinter" where
  "ClearBuffer p = p\<lparr>buffer := [], firstElement := True\<rparr>"

text \<open>\<^verbatim>\<open>Write(data, size)\<close> with the bytes it names, \<^verbatim>\<open>Write(data)\<close> and \<^verbatim>\<open>Putc\<close>.\<close>

definition Write_size :: "string \<Rightarrow> XMLPrinter \<Rightarrow> XMLPrinter" where
  "Write_size data p = p\<lparr>buffer := buffer p @ data\<rparr>"

definition Write :: "string \<Rightarrow> XMLPrinter \<Rightarrow> XMLPrinter" where
  "Write data p = Write_size (c_str data) p"

definition Putc :: "char \<Rightarrow> XMLPrinter \<Rightarrow> XMLPrinter" where
  "Putc ch p = p\<lparr>buffer := buffer p @ [ch]\<rparr>"

definition PrintSpace :: "int \<Rightarrow> XMLPrinter \<Rightarrow> XMLPrinter" where
  "PrintSpace d p = (Write ''    '' ^^ nat d) p"

text \<open>The two tables of characters below \<^verbatim>\<open>ENTITY_RANGE\<close> that are written as entities.\<close>

definition entity_flag :: "bool \<Rightarrow> char \<Rightarrow> bool" where
  "entity_flag restricted c =
     (if restricted then c \<in> {CHR ''&'', CHR ''<'', CHR ''>''} else c \<in> set (map snd entities))"

definition entity_pattern :: "char \<Rightarrow> string option" where
  "entity_pattern c = map_option fst (find (\<lambda>e. snd e = c) entities)"

text \<open>
  The loop of \<^verbatim>\<open>PrintString\<close>: the bytes since the last entity are written together before
  the next entity; the result is what is left of them at the end.
\<close>

fun PrintString_loop :: "bool \<Rightarrow> string \<Rightarrow> string \<Rightarrow> XMLPrinter \<Rightarrow> string \<times> XMLPrinter" where
  "PrintString_loop restricted run [] p = (run, p)"
| "PrintString_loop restricted run (c # q) p =
     (if 0 < (of_char c :: nat) \<and> of_char c < (64 :: nat) \<and> entity_flag restricted c
      then (let p1 = Write_size run p;
                p2 = (case entity_pattern c of
                    Some pattern \<Rightarrow> Putc (CHR '';'') (Write_size pattern (Putc (CHR ''&'') p1))
                  | None \<Rightarrow> p1)
            in PrintString_loop restricted [] q p2)
      else PrintString_loop restricted (run @ [c]) q p)"

definition INT_MAX :: nat where
  "INT_MAX = 2147483647"

text \<open>
  Without entity processing \<^verbatim>\<open>q\<close> never leaves \<^verbatim>\<open>p\<close>, and the rest that is flushed is empty.
\<close>

definition PrintString :: "string \<Rightarrow> bool \<Rightarrow> XMLPrinter \<Rightarrow> XMLPrinter" where
  "PrintString str restricted p =
     (if processEntities p
      then (let (run, p1) = PrintString_loop restricted [] (c_str str) p
            in if run \<noteq> [] then Write_size (take INT_MAX run) p1 else p1)
      else Write_size [] p)"

definition SealElementIfJustOpened :: "XMLPrinter \<Rightarrow> XMLPrinter" where
  "SealElementIfJustOpened p =
     (if \<not> elementJustOpened p then p else Putc (CHR ''>'') (p\<lparr>elementJustOpened := False\<rparr>))"

definition OpenElement :: "string \<Rightarrow> bool \<Rightarrow> XMLPrinter \<Rightarrow> XMLPrinter" where
  "OpenElement name compact p =
     (let p1 = SealElementIfJustOpened p;
          p2 = p1\<lparr>open_names := name # open_names p1\<rparr>;
          p3 = (if textDepth p2 < 0 \<and> \<not> firstElement p2 \<and> \<not> compact then Putc (CHR 0x0A) p2 else p2);
          p4 = (if \<not> compact then PrintSpace (depth p3) p3 else p3);
          p5 = Write name (Write ''<'' p4)
      in p5\<lparr>elementJustOpened := True, firstElement := False, depth := depth p5 + 1\<rparr>)"

definition PushAttribute :: "string \<Rightarrow> string \<Rightarrow> XMLPrinter \<Rightarrow> XMLPrinter" where
  "PushAttribute name v p =
     Putc (CHR 0x22) (PrintString v False (Write [CHR ''='', CHR 0x22] (Write name (Putc (CHR '' '') p))))"

text \<open>\<open>None\<close>: no element is open, and the name is read from before the stack.\<close>

definition CloseElement :: "bool \<Rightarrow> XMLPrinter \<Rightarrow> XMLPrinter option" where
  "CloseElement compact p = (case open_names p of
     [] \<Rightarrow> None
   | name # rest \<Rightarrow>
       let p1 = p\<lparr>depth := depth p - 1, open_names := rest\<rparr>;
           p2 = (if elementJustOpened p1 then Write ''/>'' p1
                 else let p' = (if textDepth p1 < 0 \<and> \<not> compact then PrintSpace (depth p1) (Putc (CHR 0x0A) p1) else p1)
                      in Write ''>'' (Write name (Write ''</'' p')));
           p3 = (if textDepth p2 = depth p2 then p2\<lparr>textDepth := -1\<rparr> else p2);
           p4 = (if depth p3 = 0 \<and> \<not> compact then Putc (CHR 0x0A) p3 else p3)
       in Some (p4\<lparr>elementJustOpened := False\<rparr>))"

definition PushText :: "string \<Rightarrow> bool \<Rightarrow> XMLPrinter \<Rightarrow> XMLPrinter" where
  "PushText txt cdata p =
     (let p1 = SealElementIfJustOpened (p\<lparr>textDepth := depth p - 1\<rparr>)
      in if cdata then Write '']]>'' (Write txt (Write ''<![CDATA['' p1)) else PrintString txt True p1)"

text \<open>The three methods below start alike: seal the tag, begin a line.\<close>

definition push_line :: "XMLPrinter \<Rightarrow> XMLPrinter" where
  "push_line p =
     (let p1 = SealElementIfJustOpened p;
          p2 = (if textDepth p1 < 0 \<and> \<not> firstElement p1 \<and> \<not> compactMode p1
                then PrintSpace (depth p1) (Putc (CHR 0x0A) p1) else p1)
      in p2\<lparr>firstElement := False\<rparr>)"

definition PushComment :: "string \<Rightarrow> XMLPrinter \<Rightarrow> XMLPrinter" where
  "PushComment comment p = Write ''-->'' (Write comment (Write ''<!--'' (push_line p)))"

definition PushDeclaration :: "string \<Rightarrow> XMLPrinter \<Rightarrow> XMLPrinter" where
  "PushDeclaration v p = Write ''?>'' (Write v (Write ''<?'' (push_line p)))"

definition PushUnknown :: "string \<Rightarrow> XMLPrinter \<Rightarrow> XMLPrinter" where
  "PushUnknown v p = Putc (CHR ''>'') (Write v (Write ''<!'' (push_line p)))"

definition PushHeader :: "bool \<Rightarrow> bool \<Rightarrow> XMLPrinter \<Rightarrow> XMLPrinter" where
  "PushHeader writeBOM writeDec p =
     (let p1 = (if writeBOM then Write BOM p else p)
      in if writeDec then PushDeclaration (''xml version='' @ [CHR 0x22] @ ''1.0'' @ [CHR 0x22]) p1 else p1)"

section \<open>Visiting a document\<close>

text \<open>\<^verbatim>\<open>CompactMode(element)\<close> is the printer's own flag, for every element.\<close>

definition VisitEnter_element :: "string \<Rightarrow> (string \<times> string) list \<Rightarrow> XMLPrinter \<Rightarrow> XMLPrinter" where
  "VisitEnter_element name as p = fold (\<lambda>a. PushAttribute (fst a) (snd a)) as (OpenElement name (compactMode p) p)"

definition VisitExit_element :: "XMLPrinter \<Rightarrow> XMLPrinter option" where
  "VisitExit_element p = CloseElement (compactMode p) p"

fun XMLNode_Accept :: "xml_node \<Rightarrow> XMLPrinter \<Rightarrow> XMLPrinter option"
  and Accept_children :: "xml_node list \<Rightarrow> XMLPrinter \<Rightarrow> XMLPrinter option" where
  "XMLNode_Accept (XText cdata v) p = Some (PushText v cdata p)"
| "XMLNode_Accept (XComment v) p = Some (PushComment v p)"
| "XMLNode_Accept (XDeclaration v) p = Some (PushDeclaration v p)"
| "XMLNode_Accept (XUnknown v) p = Some (PushUnknown v p)"
| "XMLNode_Accept (XElem name as ks) p =
     (case Accept_children ks (VisitEnter_element name as p) of None \<Rightarrow> None | Some p1 \<Rightarrow> VisitExit_element p1)"
| "Accept_children [] p = Some p"
| "Accept_children (k # ks) p = (case XMLNode_Accept k p of None \<Rightarrow> None | Some p1 \<Rightarrow> Accept_children ks p1)"

definition VisitEnter_document :: "bool \<Rightarrow> bool \<Rightarrow> XMLPrinter \<Rightarrow> XMLPrinter" where
  "VisitEnter_document entities_on bom p =
     (let p1 = p\<lparr>processEntities := entities_on\<rparr> in if bom then PushHeader True False p1 else p1)"

definition XMLDocument_Accept :: "bool \<Rightarrow> bool \<Rightarrow> xml_node list \<Rightarrow> XMLPrinter \<Rightarrow> XMLPrinter option" where
  "XMLDocument_Accept entities_on bom doc p = Accept_children doc (VisitEnter_document entities_on bom p)"

text \<open>
  \<^verbatim>\<open>SaveFile\<close>: the error and the bytes of the file; the first argument says whether the file
  could be opened; an error of an earlier call is cleared.
\<close>

definition SaveFile :: "bool \<Rightarrow> bool \<Rightarrow> bool \<Rightarrow> xml_node list \<Rightarrow> bool \<Rightarrow> (XMLError \<times> string) option" where
  "SaveFile opened entities_on bom doc compact =
     (if \<not> opened then Some (XML_ERROR_FILE_COULD_NOT_BE_OPENED, [])
      else map_option (\<lambda>p. (XML_SUCCESS, buffer p)) (XMLDocument_Accept entities_on bom doc (XMLPrinter_new compact 0)))"

section \<open>What the steps write\<close>

lemma Write_plain: "CHR 0x00 \<notin> set s \<Longrightarrow> Write s p = p\<lparr>buffer := buffer p @ s\<rparr>"
  by (simp add: Write_def Write_size_def)

definition spaces :: "int \<Rightarrow> string" where
  "spaces d = concat (replicate (nat d) ''    '')"

lemma spaces_blank [simp]: "list_all is_blank (spaces d)"
  by (auto simp: spaces_def list_all_iff is_blank_def)

lemma newline_blank [simp]: "is_blank (CHR 0x0A)"
  by (simp add: is_blank_def)

lemma PrintSpace_text: "PrintSpace d p = p\<lparr>buffer := buffer p @ spaces d\<rparr>"
proof -
  have "(Write ''    '' ^^ n) p = p\<lparr>buffer := buffer p @ concat (replicate n ''    '')\<rparr>" for n
    by (induction n arbitrary: p) (simp_all add: funpow_Suc_right Write_plain del: funpow.simps(2))
  then show ?thesis by (simp add: PrintSpace_def spaces_def)
qed

definition entity_text :: "bool \<Rightarrow> string \<Rightarrow> string" where
  "entity_text restricted v = (if restricted then text_escape v else xml_escape v)"

lemma entity_text_Nil [simp]: "entity_text r [] = []"
  by (simp add: entity_text_def text_escape_def xml_escape_def)

lemma entity_text_Cons: "entity_text r (c # v) = (if r then text_char c else xml_char c) @ entity_text r v"
  by (simp add: entity_text_def text_escape_def xml_escape_def)

lemma flagged:
  assumes "entity_flag r c"
  shows "(0::nat) < of_char c \<and> of_char c < (64::nat) \<and>
    (\<exists>n. entity_pattern c = Some n \<and> (if r then text_char c else xml_char c) = CHR ''&'' # n @ '';'')"
proof -
  have "c \<in> {CHR 0x22, CHR ''&'', CHR 0x27, CHR ''<'', CHR ''>''}" "r \<longrightarrow> c \<noteq> CHR 0x22 \<and> c \<noteq> CHR 0x27"
    using assms by (auto simp: entity_flag_def entities_def split: if_splits)
  then show ?thesis by (elim insertE) (simp_all add: entity_pattern_def entities_def xml_char_def text_char_def)
qed

lemma not_flagged: "\<not> entity_flag r c \<Longrightarrow> (if r then text_char c else xml_char c) = [c]"
  by (simp add: entity_flag_def entities_def xml_char_def text_char_def split: if_splits)

lemma PrintString_loop_text:
  "\<exists>run' s. PrintString_loop r run v p = (run', p\<lparr>buffer := buffer p @ s\<rparr>) \<and> s @ run' = run @ entity_text r v \<and> length run' \<le> length run + length v"
proof (induction r run v p rule: PrintString_loop.induct)
  case (2 r run c q p)
  show ?case
  proof (cases "entity_flag r c")
    case True
    from flagged [OF this] obtain n where n: "(0::nat) < of_char c" "of_char c < (64::nat)" "entity_pattern c = Some n"
      "(if r then text_char c else xml_char c) = CHR ''&'' # n @ '';''" by blast
    let ?p = "Putc (CHR '';'') (Write_size n (Putc (CHR ''&'') (Write_size run p)))"
    obtain run' s where *: "PrintString_loop r [] q ?p = (run', ?p\<lparr>buffer := buffer ?p @ s\<rparr>)" "s @ run' = entity_text r q" "length run' \<le> length q"
      using 2(1) [OF conjI [OF n(1) conjI [OF n(2) True]] refl refl] n(3) by auto
    show ?thesis
      by (intro exI [of _ run'] exI [of _ "run @ CHR ''&'' # n @ '';'' @ s"])
         (use * n True in \<open>simp add: entity_text_Cons Putc_def Write_size_def\<close>)
  next
    case False
    then show ?thesis using 2(2) not_flagged [OF False] by (auto simp: entity_text_Cons)
  qed
qed simp

lemma PrintString_text:
  assumes "processEntities p" "plain_value v" "length v \<le> INT_MAX"
  shows "PrintString v r p = p\<lparr>buffer := buffer p @ entity_text r v\<rparr>"
proof -
  have "c_str v = v" using assms(2) by (simp add: plain_value_def)
  moreover obtain run s where "PrintString_loop r [] v p = (run, p\<lparr>buffer := buffer p @ s\<rparr>)" "s @ run = entity_text r v" "length run \<le> length v"
    using PrintString_loop_text [of r "[]" v p] by auto
  ultimately show ?thesis using assms by (auto simp: PrintString_def Write_size_def)
qed

definition seal :: "XMLPrinter \<Rightarrow> string" where
  "seal p = (if elementJustOpened p then ''>'' else [])"

lemma SealElementIfJustOpened_text: "SealElementIfJustOpened p = p\<lparr>buffer := buffer p @ seal p, elementJustOpened := False\<rparr>"
  by (simp add: SealElementIfJustOpened_def seal_def Putc_def)

text \<open>The white space before a tag, and before an end tag.\<close>

definition line_space :: "XMLPrinter \<Rightarrow> string" where
  "line_space p = (if textDepth p < 0 \<and> \<not> firstElement p \<and> \<not> compactMode p then CHR 0x0A # spaces (depth p) else [])"

definition tag_space :: "bool \<Rightarrow> XMLPrinter \<Rightarrow> string" where
  "tag_space c p = (if c then [] else (if textDepth p < 0 \<and> \<not> firstElement p then [CHR 0x0A] else []) @ spaces (depth p))"

definition end_space :: "bool \<Rightarrow> XMLPrinter \<Rightarrow> string" where
  "end_space c p = (if textDepth p < 0 \<and> \<not> c then CHR 0x0A # spaces (depth p - 1) else [])"

lemma spaces_are_blank [simp]:
  "list_all is_blank (line_space p)" "list_all is_blank (tag_space c p)" "list_all is_blank (end_space c p)"
  by (simp_all add: line_space_def tag_space_def end_space_def)

lemma push_line_text:
  "push_line p = p\<lparr>buffer := buffer p @ seal p @ line_space p, elementJustOpened := False, firstElement := False\<rparr>"
  by (cases p) (simp add: push_line_def SealElementIfJustOpened_text Putc_def PrintSpace_text Let_def line_space_def)

lemma OpenElement_text:
  assumes "xml_name n"
  shows "OpenElement n c p = p\<lparr>buffer := buffer p @ seal p @ tag_space c p @ CHR ''<'' # n, elementJustOpened := True,
     open_names := n # open_names p, firstElement := False, depth := depth p + 1\<rparr>"
  using xml_name_no_nul [OF assms]
  by (cases p) (simp add: OpenElement_def SealElementIfJustOpened_text Putc_def PrintSpace_text Write_plain Let_def tag_space_def)

lemma PushAttribute_text:
  assumes "xml_name n" "plain_value v" "length v \<le> INT_MAX" "processEntities p"
  shows "PushAttribute n v p = p\<lparr>buffer := buffer p @ attr_text (n, v)\<rparr>"
  using xml_name_no_nul [OF assms(1)]
  by (simp add: PushAttribute_def Putc_def Write_plain PrintString_text assms attr_text_def entity_text_def)

lemma PushAttributes_text:
  assumes "list_all (\<lambda>a. xml_name (fst a) \<and> plain_value (snd a)) as" "list_all (\<lambda>a. length (snd a) \<le> INT_MAX) as" "processEntities p"
  shows "fold (\<lambda>a. PushAttribute (fst a) (snd a)) as p = p\<lparr>buffer := buffer p @ concat (map attr_text as)\<rparr>"
  using assms by (induction as arbitrary: p) (simp_all add: PushAttribute_text)

lemma CloseElement_text:
  assumes "xml_name n" "open_names p = n # st"
  shows "CloseElement c p = Some (p\<lparr>buffer := buffer p @ (if elementJustOpened p then ''/>'' else end_space c p @ ''</'' @ n @ ''>'') @
         (if depth p = 1 \<and> \<not> c then [CHR 0x0A] else []),
       elementJustOpened := False, open_names := st, depth := depth p - 1,
       textDepth := (if textDepth p = depth p - 1 then -1 else textDepth p)\<rparr>)"
  using assms(2) xml_name_no_nul [OF assms(1)]
  by (cases p) (auto simp: CloseElement_def Putc_def PrintSpace_text Write_plain Let_def end_space_def)

section \<open>What is printed is a layout\<close>

definition is_elem :: "xml_node \<Rightarrow> bool" where
  "is_elem k = (case k of XElem _ _ _ \<Rightarrow> True | _ \<Rightarrow> False)"

text \<open>
  Which sibling may follow which: no text a text, since the two would be read as one, and in the
  mode with indentation no element a text, since the indentation would be read as its end.
\<close>

definition may_follow :: "bool \<Rightarrow> xml_node \<Rightarrow> xml_node \<Rightarrow> bool" where
  "may_follow compact a b \<longleftrightarrow> (is_text a \<longrightarrow> \<not> is_text b \<and> (compact \<or> \<not> is_elem b))"

fun printable_xml :: "bool \<Rightarrow> xml_node \<Rightarrow> bool" where
  "printable_xml compact (XElem n as ks) \<longleftrightarrow> xml_name n \<and> attrs_ok as \<and> list_all (\<lambda>a. length (snd a) \<le> INT_MAX) as \<and>
     list_all (\<lambda>k. \<not> is_declaration k) ks \<and> successively (may_follow compact) ks \<and> list_all (printable_xml compact) ks"
| "printable_xml compact (XText cdata v) \<longleftrightarrow> leaf_ok (XText cdata v) \<and> length v \<le> INT_MAX"
| "printable_xml compact k \<longleftrightarrow> leaf_ok k"

definition same_place :: "XMLPrinter \<Rightarrow> XMLPrinter \<Rightarrow> bool" where
  "same_place p q \<longleftrightarrow> depth q = depth p \<and> open_names q = open_names p \<and> processEntities q = processEntities p \<and> compactMode q = compactMode p"

text \<open>
  Where a printer stands before a node: in the document or in elements, and after a piece of
  text (\<open>t\<close>) only as the node allows and with the depth of the text noted.
\<close>

definition at_node :: "bool \<Rightarrow> xml_node \<Rightarrow> XMLPrinter \<Rightarrow> bool" where
  "at_node t e p \<longleftrightarrow> processEntities p \<and> 0 \<le> depth p \<and> (t \<longrightarrow> 0 \<le> textDepth p \<and> \<not> is_text e \<and> (compactMode p \<or> \<not> is_elem e))"

definition printed :: "bool \<Rightarrow> xml_node \<Rightarrow> XMLPrinter \<Rightarrow> XMLPrinter option \<Rightarrow> bool" where
  "printed t e p res \<longleftrightarrow> (\<exists>q ws s tr. res = Some q \<and> same_place p q \<and> \<not> elementJustOpened q \<and>
     (is_text e \<longrightarrow> textDepth q = depth p - 1) \<and> buffer q = buffer p @ seal p @ ws @ s @ tr \<and> lay_node e s \<and>
     list_all is_blank ws \<and> (t \<or> is_text e \<longrightarrow> ws = []) \<and> list_all is_blank tr \<and> (depth p \<noteq> 0 \<longrightarrow> tr = []))"

definition printed_kids :: "bool \<Rightarrow> xml_node list \<Rightarrow> XMLPrinter \<Rightarrow> XMLPrinter option \<Rightarrow> bool" where
  "printed_kids t ks p res \<longleftrightarrow> (\<exists>q t' s. res = Some q \<and> same_place p q \<and> elementJustOpened q = (elementJustOpened p \<and> ks = []) \<and>
     (t' \<longrightarrow> textDepth q = depth p - 1) \<and> buffer q = buffer p @ (if ks = [] then [] else seal p) @ s \<and> lay_kids t ks t' s)"

lemma leaf_printed:
  assumes "at_node t e p" "printable_xml (compactMode p) e" "\<not> is_elem e"
  shows "printed t e p (XMLNode_Accept e p)"
proof -
  have "leaf_ok e" using assms(2,3) by (cases e) (simp_all add: is_elem_def)
  then have lay: "lay_node e (leaf_text e)" by (rule lay_leaf)
  have td: "t \<longrightarrow> line_space p = []" using assms(1) by (auto simp: at_node_def line_space_def)
  have "\<exists>q. XMLNode_Accept e p = Some q \<and> same_place p q \<and> \<not> elementJustOpened q \<and> (is_text e \<longrightarrow> textDepth q = depth p - 1) \<and>
     buffer q = buffer p @ seal p @ (if is_text e \<or> (\<exists>v. e = XText True v) then [] else line_space p) @ leaf_text e"
    using assms by (cases e) (auto simp: is_elem_def is_text_def at_node_def same_place_def plain_value_def seal_def
        PushText_def PushComment_def PushDeclaration_def PushUnknown_def push_line_text SealElementIfJustOpened_text
        Write_plain PrintString_text Putc_def entity_text_def)
  then obtain q where q: "XMLNode_Accept e p = Some q" "same_place p q" "\<not> elementJustOpened q" "is_text e \<longrightarrow> textDepth q = depth p - 1"
     "buffer q = buffer p @ seal p @ (if is_text e \<or> (\<exists>v. e = XText True v) then [] else line_space p) @ leaf_text e" by blast
  with lay td show ?thesis unfolding printed_def
    by (intro exI [of _ q] exI [of _ "if is_text e \<or> (\<exists>v. e = XText True v) then [] else line_space p"] exI [of _ "leaf_text e"] exI [of _ "[]"]) simp
qed

definition at_kids :: "bool \<Rightarrow> xml_node list \<Rightarrow> XMLPrinter \<Rightarrow> bool" where
  "at_kids t ks p \<longleftrightarrow> processEntities p \<and> 0 < depth p \<and> (t \<longrightarrow> textDepth p = depth p - 1) \<and>
     (case ks of [] \<Rightarrow> True | k # _ \<Rightarrow> t \<longrightarrow> \<not> is_text k \<and> (compactMode p \<or> \<not> is_elem k)) \<and> successively (may_follow (compactMode p)) ks"

lemma at_kids_Cons: "at_kids t (k # ks) p \<Longrightarrow> at_node t k p"
  by (auto simp: at_kids_def at_node_def)

lemma printed_Cons:
  assumes "at_kids t (k # ks) p" "printed t k p (Some p1)" "at_kids (is_text k) ks p1 \<Longrightarrow> printed_kids (is_text k) ks p1 res"
  shows "printed_kids t (k # ks) p res"
proof -
  obtain ws s where k: "same_place p p1" "\<not> elementJustOpened p1" "is_text k \<longrightarrow> textDepth p1 = depth p - 1"
    "buffer p1 = buffer p @ seal p @ ws @ s" "lay_node k s" "list_all is_blank ws" "t \<or> is_text k \<longrightarrow> ws = []"
    using assms(1,2) by (auto simp: printed_def at_kids_def)
  have "at_kids (is_text k) ks p1"
    using assms(1) k(1,3) by (cases ks) (auto simp: at_kids_def same_place_def may_follow_def)
  from assms(3) [OF this, unfolded printed_kids_def] obtain q t' s' where q: "res = Some q" "same_place p1 q"
    "elementJustOpened q = (elementJustOpened p1 \<and> ks = [])" "t' \<longrightarrow> textDepth q = depth p1 - 1"
    "buffer q = buffer p1 @ (if ks = [] then [] else seal p1) @ s'" "lay_kids (is_text k) ks t' s'" by blast
  have "\<not> (t \<and> is_text k)" using assms(1) by (auto simp: at_kids_def)
  then have "lay_kids t (k # ks) t' (ws @ s @ s')" using k(5-7) q(6) by (intro lay_cons)
  with k(1,2,4) q show ?thesis unfolding printed_kids_def
    by (intro exI [of _ q] exI [of _ t'] exI [of _ "ws @ s @ s'"]) (simp add: same_place_def seal_def)
qed

lemma element_printed:
  assumes "at_node t (XElem n as ks) p" "xml_name n" "attrs_ok as" "list_all (\<lambda>a. length (snd a) \<le> INT_MAX) as"
    and "list_all (\<lambda>k. \<not> is_declaration k) ks"
    and kids: "printed_kids False ks (VisitEnter_element n as p) (Accept_children ks (VisitEnter_element n as p))"
  shows "printed t (XElem n as ks) p (XMLNode_Accept (XElem n as ks) p)"
proof -
  let ?c = "compactMode p" and ?p1 = "VisitEnter_element n as p"
  let ?tag = "CHR ''<'' # n @ concat (map attr_text as)"
  have p: "processEntities p" "0 \<le> depth p" "t \<longrightarrow> ?c" using assms(1) by (auto simp: at_node_def is_elem_def)
  have p1: "?p1 = p\<lparr>buffer := buffer p @ seal p @ tag_space ?c p @ ?tag, elementJustOpened := True,
      open_names := n # open_names p, firstElement := False, depth := depth p + 1\<rparr>"
    using assms(2-4) p(1) by (simp add: VisitEnter_element_def OpenElement_text PushAttributes_text attrs_ok_def)
  from kids [unfolded printed_kids_def] obtain q t' s where q: "Accept_children ks ?p1 = Some q" "same_place ?p1 q"
    "elementJustOpened q = (elementJustOpened ?p1 \<and> ks = [])" "t' \<longrightarrow> textDepth q = depth ?p1 - 1"
    "buffer q = buffer ?p1 @ (if ks = [] then [] else seal ?p1) @ s" "lay_kids False ks t' s" by blast
  have "seal ?p1 = ''>''" "elementJustOpened ?p1" "depth ?p1 - 1 = depth p" by (simp_all add: p1 seal_def)
  note q = q [unfolded this]
  have names: "open_names q = n # open_names p" "compactMode q = ?c" "depth q = depth p + 1" "processEntities q" using q(2) p1 p(1) by (simp_all add: same_place_def)
  define ending where "ending = (if ks = [] then ''/>'' else ''>'' @ s @ end_space ?c q @ ''</'' @ n @ ''>'')"
  define tr where "tr = (if depth p = 0 \<and> \<not> ?c then [CHR 0x0A] else [])"
  define q' where "q' = q\<lparr>buffer := buffer p @ seal p @ tag_space ?c p @ (?tag @ ending) @ tr,
       elementJustOpened := False, open_names := open_names p, depth := depth p,
       textDepth := (if textDepth q = depth p then -1 else textDepth q)\<rparr>"
  have "XMLNode_Accept (XElem n as ks) p = Some q'"
    using CloseElement_text [OF assms(2) names(1), of ?c] q(1,3,5) names p1
    by (cases "ks = []") (auto simp: q'_def VisitExit_element_def ending_def tr_def elim: lay_nilE)
  moreover have "same_place p q'" "\<not> elementJustOpened q'" "buffer q' = buffer p @ seal p @ tag_space ?c p @ (?tag @ ending) @ tr"
    using names p(1) by (simp_all add: q'_def same_place_def)
  moreover have "list_all is_blank tr" "depth p \<noteq> 0 \<longrightarrow> tr = []" by (simp_all add: tr_def)
  moreover have "lay_node (XElem n as ks) (?tag @ ending)"
  proof (cases "ks = []")
    case True
    with lay_empty [OF assms(2,3), of "[]"] show ?thesis by (simp add: ending_def)
  next
    case False
    have "t' \<longrightarrow> end_space ?c q = []" using q(4) p(2) by (auto simp: end_space_def)
    from lay_elem [OF assms(2,3) False assms(5) q(6) _ _ this, of "[]"] False show ?thesis by (simp add: ending_def)
  qed
  moreover have "t \<longrightarrow> tag_space ?c p = []" using p(3) by (auto simp: tag_space_def)
  ultimately show ?thesis unfolding printed_def
    by (intro exI [of _ q'] exI [of _ "tag_space ?c p"] exI [of _ "?tag @ ending"] exI [of _ tr]) (simp add: is_text_def)
qed

lemma all_printed:
  "(\<And>t. printable_xml (compactMode p) e \<Longrightarrow> at_node t e p \<Longrightarrow> printed t e p (XMLNode_Accept e p))"
  "(\<And>t. list_all (printable_xml (compactMode p')) ks \<Longrightarrow> at_kids t ks p' \<Longrightarrow> printed_kids t ks p' (Accept_children ks p'))"
proof (induction e p and ks p' rule: XMLNode_Accept_Accept_children.induct)
  case (5 name as ks p)
  have p1: "compactMode (VisitEnter_element name as p) = compactMode p" "depth (VisitEnter_element name as p) = depth p + 1"
     "processEntities (VisitEnter_element name as p)"
    using 5(2,3) by (simp_all add: VisitEnter_element_def OpenElement_text PushAttributes_text attrs_ok_def at_node_def)
  have "at_kids False ks (VisitEnter_element name as p)"
    using 5(2,3) p1 by (auto simp: at_kids_def at_node_def split: list.splits)
  with 5 p1 show ?case by (intro element_printed) simp_all
next
  case (6 p)
  then show ?case by (auto simp: printed_kids_def at_kids_def same_place_def intro!: lay_nil)
next
  case (7 k ks p)
  have k: "printed t k p (XMLNode_Accept k p)" using 7(1) 7(3,4) by (auto dest: at_kids_Cons)
  then obtain p1 where p1: "XMLNode_Accept k p = Some p1" "compactMode p1 = compactMode p" by (auto simp: printed_def same_place_def)
  with 7 k show ?case by (auto intro!: printed_Cons [of t k ks p p1])
qed (simp_all add: leaf_printed is_elem_def del: XMLNode_Accept.simps printable_xml.simps)

text \<open>
  In the document an element is followed by the end of its line, which the layout counts before
  the next node.
\<close>

lemma document_kids:
  assumes "list_all (printable_xml (compactMode p)) doc" "list_all (\<lambda>k. \<not> is_text k) doc" "list_all is_blank pre"
    and "processEntities p" "depth p = 0" "\<not> elementJustOpened p"
  shows "\<exists>q b s tr. Accept_children doc p = Some q \<and> buffer q = buffer p @ b \<and> pre @ b = s @ tr \<and> lay_kids False doc False s \<and> list_all is_blank tr"
  using assms
proof (induction doc arbitrary: p pre)
  case Nil
  then show ?case by (intro exI [of _ p] exI [of _ "[]"] exI [of _ pre]) (simp add: lay_nil)
next
  case (Cons k doc)
  have "at_node False k p" using Cons.prems by (simp add: at_node_def)
  then have "printed False k p (XMLNode_Accept k p)" using Cons.prems(1) by (intro all_printed(1)) simp_all
  then obtain p1 ws s tr where k: "XMLNode_Accept k p = Some p1" "same_place p p1" "\<not> elementJustOpened p1"
    "buffer p1 = buffer p @ ws @ s @ tr" "lay_node k s" "list_all is_blank ws" "list_all is_blank tr"
    using Cons.prems(6) by (auto simp: printed_def seal_def)
  from k(2) Cons.prems k(3,7) Cons.IH [of p1 tr] obtain q b s' tr' where q: "Accept_children doc p1 = Some q"
    "buffer q = buffer p1 @ b" "tr @ b = s' @ tr'" "lay_kids False doc False s'" "list_all is_blank tr'"
    by (auto simp: same_place_def)
  have "lay_kids False (k # doc) False ((pre @ ws) @ s @ s')"
    using Cons.prems(2,3) k(5,6) q(4) by (intro lay_cons) simp_all
  with k(1,4) q show ?case
    by (intro exI [of _ q] exI [of _ "ws @ s @ tr @ b"] exI [of _ "(pre @ ws) @ s @ s'"] exI [of _ tr']) simp
qed

lemma saved_layout:
  assumes "list_all (printable_xml compact) doc" "doc \<noteq> []" "decls_first True doc" "list_all (\<lambda>k. \<not> is_text k) doc"
  shows "\<exists>bytes. SaveFile True True bom doc compact = Some (XML_SUCCESS, bytes) \<and> lay_document bom doc bytes"
proof -
  define p where "p = VisitEnter_document True bom (XMLPrinter_new compact 0)"
  have "compactMode p = compact" "processEntities p" "depth p = 0" "\<not> elementJustOpened p" and b: "buffer p = (if bom then BOM else [])"
    by (simp_all add: p_def VisitEnter_document_def PushHeader_def Write_plain BOM_def XMLPrinter_new_def Let_def)
  then obtain q b s tr where "Accept_children doc p = Some q" "buffer q = buffer p @ b" "b = s @ tr" "lay_kids False doc False s" "list_all is_blank tr"
    using document_kids [of p doc "[]"] assms by auto
  then show ?thesis using assms(2-4) b by (auto simp: SaveFile_def XMLDocument_Accept_def lay_document_def simp flip: p_def)
qed

section \<open>Properties\<close>

text \<open>C29: What the library writes to a file it reads back from it. Take any document with
  declarations first and then comments, unknown tags and trees of elements, with attributes,
  texts, CDATA sections and comments nested in any way, whose strings can be written (names are
  names, no null or carriage return, no end mark inside a comment or a section, no text that is
  blank or next to another text); save it, compactly or with indentation, with or without a byte
  order mark. Loading the bytes of the file gives exactly that document. With indentation no
  element may follow directly on a text, because the spaces before its tag would join the text.\<close>

theorem saved_documents_are_loaded_back:
  assumes "list_all (printable_xml compact) doc" and "doc \<noteq> []" and "decls_first True doc" and "list_all (\<lambda>k. \<not> is_text k) doc"
  shows "\<exists>bytes. SaveFile True True bom doc compact = Some (XML_SUCCESS, bytes) \<and> LoadFile (File_Contents bytes) = Inr doc"
  using saved_layout [OF assms] LoadFile_layout by blast

definition demo_doc :: "xml_node list" where
  "demo_doc = [XDeclaration ''xml'', XComment '' 1 '',
     XElem ''a'' [(''q'', [CHR 0x22, CHR ''<''])] [XText False ''x & y'', XText True ''<z>'', XElem ''b'' [] [], XElem ''c'' [] [XElem ''d'' [] []]]]"

theorem saved_documents_are_loaded_back_witness:
  "\<exists>bytes. SaveFile True True True demo_doc False = Some (XML_SUCCESS, bytes) \<and> LoadFile (File_Contents bytes) = Inr demo_doc"
  by (rule saved_documents_are_loaded_back)
     (simp_all add: demo_doc_def xml_name_def attrs_ok_def plain_value_def ended_by_def INT_MAX_def IsNameStartChar_def IsNameChar_def is_digit_def
       is_blank_def is_declaration_def may_follow_def is_text_def is_elem_def)

text \<open>
  With indentation a text before an element does not survive, whatever the element: the spaces
  of the element's line are read as part of the text. And a document that does not process
  entities is written without its texts and attribute values.
\<close>

lemma indentation_joins_text:
  "map_option snd (SaveFile True True False [XElem ''a'' [] [XText False ''x'', XElem ''b'' [] []]] False) = Some (''<a>x    <b/></a>'' @ [CHR 0x0A])"
  by (simp add: SaveFile_def XMLDocument_Accept_def VisitEnter_document_def XMLPrinter_new_def VisitEnter_element_def VisitExit_element_def
    OpenElement_def CloseElement_def PushText_def PrintString_def SealElementIfJustOpened_def Putc_def PrintSpace_text Write_plain Write_size_def
    spaces_def entity_flag_def INT_MAX_def)

lemma no_entities_no_text: "\<not> processEntities p \<Longrightarrow> PrintString v r p = p"
  by (simp add: PrintString_def Write_size_def)

end
