(* ===== verification/Xml_Pool.thy ===== *)
theory Xml_Pool
  imports Dc_Prelude "HOL-Library.Multiset"
begin

text \<open>
  The two containers below the nodes of tinyxml2 (\<^verbatim>\<open>tinyxml2.h\<close>): \<^verbatim>\<open>DynArray\<close>, a growing array that
  begins in a buffer of its own, and \<^verbatim>\<open>MemPoolT\<close>, blocks of equal items with a list of the free
  ones threaded through the items themselves. A slot that was never written is \<open>None\<close>; an item is
  the number of its block and its place there.
\<close>

section \<open>DynArray\<close>

record 'a DynArray =
  mem :: "'a option list"
  da_size :: nat

definition DynArray_new :: "nat \<Rightarrow> 'a DynArray" where
  "DynArray_new initial = \<lparr>mem = replicate initial None, da_size = 0\<rparr>"

definition DynArray_Clear :: "'a DynArray \<Rightarrow> 'a DynArray" where
  "DynArray_Clear d = d\<lparr>da_size := 0\<rparr>"

text \<open>The capacity is doubled in an \<^verbatim>\<open>int\<close>; beyond half its range that is undefined.\<close>

definition EnsureCapacity :: "nat \<Rightarrow> 'a DynArray \<Rightarrow> 'a DynArray option" where
  "EnsureCapacity cap d =
     (if cap > length (mem d)
      then if cap > 2147483647 div 2 then None
           else Some (d\<lparr>mem := take (da_size d) (mem d) @ replicate (cap * 2 - da_size d) None\<rparr>)
      else Some d)"

definition Push :: "'a \<Rightarrow> 'a DynArray \<Rightarrow> 'a DynArray option" where
  "Push t d = map_option (\<lambda>d1. d1\<lparr>mem := (mem d1)[da_size d1 := Some t], da_size := da_size d1 + 1\<rparr>)
     (EnsureCapacity (da_size d + 1) d)"

text \<open>\<^verbatim>\<open>PushArr\<close> gives the place of the new slots, for the caller to write.\<close>

definition PushArr :: "nat \<Rightarrow> 'a DynArray \<Rightarrow> (nat \<times> 'a DynArray) option" where
  "PushArr cnt d = map_option (\<lambda>d1. (da_size d1, d1\<lparr>da_size := da_size d1 + cnt\<rparr>)) (EnsureCapacity (da_size d + cnt) d)"

definition da_get :: "nat \<Rightarrow> 'a DynArray \<Rightarrow> 'a option" where
  "da_get i d = (if i < da_size d then mem d ! i else None)"

definition Pop :: "'a DynArray \<Rightarrow> ('a \<times> 'a DynArray) option" where
  "Pop d = map_option (\<lambda>t. (t, d\<lparr>da_size := da_size d - 1\<rparr>)) (da_get (da_size d - 1) d)"

definition PopArr :: "nat \<Rightarrow> 'a DynArray \<Rightarrow> 'a DynArray option" where
  "PopArr cnt d = (if cnt \<le> da_size d then Some (d\<lparr>da_size := da_size d - cnt\<rparr>) else None)"

definition SwapRemove :: "nat \<Rightarrow> 'a DynArray \<Rightarrow> 'a DynArray option" where
  "SwapRemove i d = (if i < da_size d
     then Some (d\<lparr>mem := (mem d)[i := mem d ! (da_size d - 1)], da_size := da_size d - 1\<rparr>) else None)"

subsection \<open>Lists\<close>

definition da_list :: "'a DynArray \<Rightarrow> 'a list" where
  "da_list d = map the (take (da_size d) (mem d))"

definition da_ok :: "'a DynArray \<Rightarrow> bool" where
  "da_ok d \<longleftrightarrow> da_size d \<le> length (mem d) \<and> (\<forall>i < da_size d. mem d ! i \<noteq> None)"

lemma da_list_length [simp]: "da_ok d \<Longrightarrow> length (da_list d) = da_size d"
  by (simp add: da_list_def da_ok_def)

lemma da_list_nth: "da_ok d \<Longrightarrow> i < da_size d \<Longrightarrow> mem d ! i = Some (da_list d ! i)"
  by (auto simp: da_list_def da_ok_def)

lemma da_listI: "da_ok d \<Longrightarrow> length xs = da_size d \<Longrightarrow> (\<And>i. i < da_size d \<Longrightarrow> mem d ! i = Some (xs ! i)) \<Longrightarrow> da_list d = xs"
  by (rule nth_equalityI) (simp_all, metis da_list_nth option.inject)

lemma EnsureCapacity_keeps:
  assumes "da_ok d" "cap \<le> 2147483647 div 2"
  shows "\<exists>d'. EnsureCapacity cap d = Some d' \<and> da_ok d' \<and> da_size d' = da_size d \<and> cap \<le> length (mem d') \<and> (\<forall>i < da_size d. mem d' ! i = mem d ! i)"
  using assms by (auto simp: EnsureCapacity_def da_ok_def nth_append)

lemma DynArray_new_list: "da_ok (DynArray_new n) \<and> da_list (DynArray_new n) = []"
  by (simp add: DynArray_new_def da_ok_def da_list_def)

lemma Push_list:
  assumes "da_ok d" "Suc (da_size d) \<le> 2147483647 div 2"
  shows "\<exists>d'. Push t d = Some d' \<and> da_ok d' \<and> da_list d' = da_list d @ [t]"
proof -
  obtain d1 where d1: "EnsureCapacity (da_size d + 1) d = Some d1" "da_ok d1" "da_size d1 = da_size d" "Suc (da_size d) \<le> length (mem d1)"
    "\<forall>i < da_size d. mem d1 ! i = mem d ! i"
    using EnsureCapacity_keeps [OF assms(1), of "da_size d + 1"] assms(2) by auto
  let ?d = "d1\<lparr>mem := (mem d1)[da_size d1 := Some t], da_size := da_size d1 + 1\<rparr>"
  have ok: "da_ok ?d" using d1(2-4) by (auto simp: da_ok_def nth_list_update less_Suc_eq)
  have "da_list ?d = da_list d @ [t]"
    using d1(3-5) assms(1) by (intro da_listI [OF ok]) (auto simp: nth_append nth_list_update less_Suc_eq da_list_nth)
  with ok d1(1) show ?thesis by (auto simp: Push_def)
qed

lemma da_get_list: "da_ok d \<Longrightarrow> da_get i d = (if i < length (da_list d) then Some (da_list d ! i) else None)"
  by (simp add: da_get_def da_list_nth)

lemma da_shrink: "da_ok d \<Longrightarrow> n \<le> da_size d \<Longrightarrow> da_ok (d\<lparr>da_size := n\<rparr>) \<and> da_list (d\<lparr>da_size := n\<rparr>) = take n (da_list d)"
  by (auto simp: da_ok_def da_list_def take_map min_def)

lemma Pop_list:
  assumes "da_ok d"
  shows "Pop d = (if da_list d = [] then None else Some (last (da_list d), d\<lparr>da_size := da_size d - 1\<rparr>))"
    and "da_list d \<noteq> [] \<Longrightarrow> da_ok (d\<lparr>da_size := da_size d - 1\<rparr>) \<and> da_list (d\<lparr>da_size := da_size d - 1\<rparr>) = butlast (da_list d)"
proof -
  have len: "length (da_list d) = da_size d" using assms by simp
  then show "Pop d = (if da_list d = [] then None else Some (last (da_list d), d\<lparr>da_size := da_size d - 1\<rparr>))"
    using da_get_list [OF assms, of "da_size d - 1"] len by (cases "da_size d") (auto simp: Pop_def last_conv_nth)
  show "da_ok (d\<lparr>da_size := da_size d - 1\<rparr>) \<and> da_list (d\<lparr>da_size := da_size d - 1\<rparr>) = butlast (da_list d)"
    using da_shrink [OF assms, of "da_size d - 1"] len by (simp add: butlast_conv_take)
qed

text \<open>Removal by moving the last element into the gap.\<close>

definition swap_remove :: "nat \<Rightarrow> 'a list \<Rightarrow> 'a list" where
  "swap_remove i xs = butlast (xs[i := last xs])"

lemma SwapRemove_list:
  assumes "da_ok d" "i < length (da_list d)"
  shows "\<exists>d'. SwapRemove i d = Some d' \<and> da_ok d' \<and> da_list d' = swap_remove i (da_list d)"
proof -
  let ?d = "d\<lparr>mem := (mem d)[i := mem d ! (da_size d - 1)], da_size := da_size d - 1\<rparr>"
  have i: "i < da_size d" "da_size d \<le> length (mem d)" using assms by (simp_all add: da_ok_def)
  have ok: "da_ok ?d" using assms(1) i by (auto simp: da_ok_def nth_list_update)
  have "da_list ?d = swap_remove i (da_list d)"
    using assms(1) i
    by (intro da_listI [OF ok]) (auto simp: swap_remove_def nth_butlast nth_list_update last_conv_nth da_list_nth simp flip: length_greater_0_conv)
  with ok i show ?thesis by (auto simp: SwapRemove_def)
qed

lemma swap_remove_mset:
  assumes "i < length xs"
  shows "mset (swap_remove i xs) = mset xs - {#xs ! i#}"
proof -
  obtain ys z where xs: "xs = ys @ [z]" using assms by (cases xs rule: rev_cases) auto
  show ?thesis
  proof (cases "i = length ys")
    case False
    then have "i < length ys" using assms xs by simp
    then show ?thesis by (simp add: xs swap_remove_def list_update_append nth_append mset_update)
  qed (simp add: xs swap_remove_def)
qed

text \<open>The contract of an array that stands for a list.\<close>

locale list_array =
  fixes rep :: "'s \<Rightarrow> 'a list \<Rightarrow> bool" and bound :: nat
    and push :: "'a \<Rightarrow> 's \<Rightarrow> 's option" and get :: "nat \<Rightarrow> 's \<Rightarrow> 'a option" and cut :: "nat \<Rightarrow> 's \<Rightarrow> 's option"
  assumes rep_push: "rep s xs \<Longrightarrow> length xs < bound \<Longrightarrow> \<exists>s'. push t s = Some s' \<and> rep s' (xs @ [t])"
    and rep_get: "rep s xs \<Longrightarrow> get i s = (if i < length xs then Some (xs ! i) else None)"
    and rep_cut: "rep s xs \<Longrightarrow> i < length xs \<Longrightarrow> \<exists>s'. cut i s = Some s' \<and> rep s' (swap_remove i xs)"
begin

text \<open>What holds of an array used as a set: an element is found and taken out.\<close>

lemma cut_distinct:
  assumes "rep s xs" "distinct xs" "i < length xs"
  obtains s' xs' where "cut i s = Some s'" "rep s' xs'" "distinct xs'" "set xs' = set xs - {xs ! i}"
proof -
  obtain s' where s': "cut i s = Some s'" "rep s' (swap_remove i xs)" using rep_cut [OF assms(1,3)] by blast
  have m: "mset (swap_remove i xs) = mset (remove1 (xs ! i) xs)" using swap_remove_mset [OF assms(3)] by simp
  have "distinct (swap_remove i xs)" using mset_eq_imp_distinct_iff [OF m] assms(2) by simp
  moreover have "set (swap_remove i xs) = set xs - {xs ! i}" using mset_eq_setD [OF m] assms(2) by simp
  ultimately show thesis using s' that by blast
qed

end

definition da_rep :: "'a DynArray \<Rightarrow> 'a list \<Rightarrow> bool" where
  "da_rep d xs \<longleftrightarrow> da_ok d \<and> da_list d = xs"

interpretation da: list_array da_rep "2147483647 div 2" Push da_get SwapRemove
proof
  show "\<exists>s'. Push t s = Some s' \<and> da_rep s' (xs @ [t])" if "da_rep s xs" "length xs < 2147483647 div 2" for s xs and t :: 'a
    using that Push_list [of s t] by (auto simp: da_rep_def)
  show "da_get i s = (if i < length xs then Some (xs ! i) else None)" if "da_rep s xs" for s i and xs :: "'a list"
    using that da_get_list [of s i] by (auto simp: da_rep_def)
  show "\<exists>s'. SwapRemove i s = Some s' \<and> da_rep s' (swap_remove i xs)" if "da_rep s xs" "i < length xs" for s i and xs :: "'a list"
    using that SwapRemove_list [of s i] by (auto simp: da_rep_def)
qed

section \<open>MemPoolT\<close>

type_synonym item = "nat \<times> nat"

record MemPoolT =
  blockPtrs :: nat
  root :: "item option"
  item_next :: "item \<Rightarrow> item option"
  currentAllocs :: int
  nAllocs :: int
  maxAllocs :: int
  nUntracked :: int

definition MemPoolT_new :: MemPoolT where
  "MemPoolT_new = \<lparr>blockPtrs = 0, root = None, item_next = (\<lambda>_. None), currentAllocs = 0, nAllocs = 0, maxAllocs = 0, nUntracked = 0\<rparr>"

definition MemPoolT_Clear :: "MemPoolT \<Rightarrow> MemPoolT" where
  "MemPoolT_Clear p = p\<lparr>blockPtrs := 0, root := None, currentAllocs := 0, nAllocs := 0, maxAllocs := 0, nUntracked := 0\<rparr>"

text \<open>A new block: its items in order, the last one without a successor.\<close>

definition new_block :: "nat \<Rightarrow> MemPoolT \<Rightarrow> MemPoolT" where
  "new_block n p = p\<lparr>blockPtrs := blockPtrs p + 1, root := Some (blockPtrs p, 0),
     item_next := (\<lambda>(b, i). if b = blockPtrs p \<and> i < n then (if i < n - 1 then Some (b, i + 1) else None) else item_next p (b, i))\<rparr>"

definition Alloc :: "nat \<Rightarrow> MemPoolT \<Rightarrow> (item \<times> MemPoolT) option" where
  "Alloc n p = (let p1 = (if root p = None then new_block n p else p) in
     case root p1 of
       None \<Rightarrow> None
     | Some r \<Rightarrow> Some (r, p1\<lparr>root := item_next p1 r, currentAllocs := currentAllocs p1 + 1,
         maxAllocs := max (maxAllocs p1) (currentAllocs p1 + 1), nAllocs := nAllocs p1 + 1, nUntracked := nUntracked p1 + 1\<rparr>))"

definition Free :: "item \<Rightarrow> MemPoolT \<Rightarrow> MemPoolT" where
  "Free r p = p\<lparr>currentAllocs := currentAllocs p - 1, item_next := (item_next p)(r := root p), root := Some r\<rparr>"

definition SetTracked :: "MemPoolT \<Rightarrow> MemPoolT" where
  "SetTracked p = p\<lparr>nUntracked := nUntracked p - 1\<rparr>"

text \<open>What the owner of an item writes there lies over the link.\<close>

definition use_item :: "item \<Rightarrow> item option \<Rightarrow> MemPoolT \<Rightarrow> MemPoolT" where
  "use_item r junk p = p\<lparr>item_next := (item_next p)(r := junk)\<rparr>"

subsection \<open>The free list\<close>

fun chain :: "(item \<Rightarrow> item option) \<Rightarrow> item option \<Rightarrow> item list \<Rightarrow> bool" where
  "chain nx r [] \<longleftrightarrow> r = None"
| "chain nx r (x # xs) \<longleftrightarrow> r = Some x \<and> chain nx (nx x) xs"

lemma chain_cong: "(\<And>x. x \<in> set xs \<Longrightarrow> nx x = ny x) \<Longrightarrow> chain nx r xs = chain ny r xs"
  by (induction xs arbitrary: r) auto

definition pool_rep :: "nat \<Rightarrow> MemPoolT \<Rightarrow> item set \<Rightarrow> bool" where
  "pool_rep n p used \<longleftrightarrow> (\<exists>fs. chain (item_next p) (root p) fs \<and> distinct fs \<and> set fs \<inter> used = {} \<and>
     set fs \<union> used = {..<blockPtrs p} \<times> {..<n} \<and> currentAllocs p = int (card used))"

lemma pool_rep_new: "pool_rep n MemPoolT_new {}" "pool_rep n (MemPoolT_Clear p) {}"
  by (simp_all add: pool_rep_def MemPoolT_new_def MemPoolT_Clear_def)

lemma block_chain:
  assumes "\<And>i. i < n \<Longrightarrow> nx (b, i) = (if i < n - 1 then Some (b, i + 1) else None)"
  shows "m \<le> n \<Longrightarrow> m \<noteq> 0 \<Longrightarrow> chain nx (Some (b, n - m)) (map (Pair b) [n - m..<n])"
proof (induction m)
  case (Suc m)
  have up: "[n - Suc m..<n] = (n - Suc m) # [n - m..<n]" using Suc.prems by (simp add: upt_conv_Cons Suc_diff_Suc)
  have "nx (b, n - Suc m) = (if m = 0 then None else Some (b, n - m))" using assms [of "n - Suc m"] Suc.prems by auto
  then show ?case unfolding up using Suc by (cases "m = 0") simp_all
qed simp

lemma new_block_rep:
  assumes "pool_rep n p used" "0 < n" "root p = None"
  shows "pool_rep n (new_block n p) used"
proof -
  obtain fs where fs: "chain (item_next p) (root p) fs" "set fs \<inter> used = {}" "set fs \<union> used = {..<blockPtrs p} \<times> {..<n}" "currentAllocs p = int (card used)"
    using assms(1) by (auto simp: pool_rep_def)
  then have used: "used = {..<blockPtrs p} \<times> {..<n}" using assms(3) by (cases fs) auto
  let ?p = "new_block n p" and ?fs = "map (Pair (blockPtrs p)) [0..<n]"
  have "chain (item_next ?p) (Some (blockPtrs p, n - n)) (map (Pair (blockPtrs p)) [n - n..<n])"
    using assms(2) by (intro block_chain) (auto simp: new_block_def)
  then have "chain (item_next ?p) (root ?p) ?fs" by (simp add: new_block_def)
  moreover have "distinct ?fs" by (simp add: distinct_map inj_on_def)
  moreover have "set ?fs \<inter> used = {}" "set ?fs \<union> used = {..<blockPtrs ?p} \<times> {..<n}"
    by (auto simp: used new_block_def less_Suc_eq)
  moreover have "currentAllocs ?p = int (card used)" using fs(4) by (simp add: new_block_def)
  ultimately show ?thesis unfolding pool_rep_def by blast
qed

lemma finite_used: "pool_rep n p used \<Longrightarrow> finite used"
  by (auto simp: pool_rep_def intro: finite_subset [of used "{..<blockPtrs p} \<times> {..<n}"])

lemma Alloc_rep:
  assumes "pool_rep n p used" "0 < n"
  shows "\<exists>r p'. Alloc n p = Some (r, p') \<and> r \<notin> used \<and> pool_rep n p' (insert r used) \<and> nUntracked p' = nUntracked p + 1"
proof -
  define p1 where "p1 = (if root p = None then new_block n p else p)"
  have rep: "pool_rep n p1 used" using assms new_block_rep by (simp add: p1_def)
  have "root p1 \<noteq> None" by (auto simp: p1_def new_block_def)
  then obtain r fs where fs: "root p1 = Some r" "chain (item_next p1) (item_next p1 r) fs" "distinct (r # fs)" "set (r # fs) \<inter> used = {}"
    "set (r # fs) \<union> used = {..<blockPtrs p1} \<times> {..<n}" "currentAllocs p1 = int (card used)"
    using rep unfolding pool_rep_def by (auto elim: chain.elims)
  define p' where "p' = p1\<lparr>root := item_next p1 r, currentAllocs := currentAllocs p1 + 1,
      maxAllocs := max (maxAllocs p1) (currentAllocs p1 + 1), nAllocs := nAllocs p1 + 1, nUntracked := nUntracked p1 + 1\<rparr>"
  have "pool_rep n p' (insert r used)" unfolding pool_rep_def
    by (rule exI [of _ fs]) (use fs finite_used [OF rep] in \<open>auto simp: p'_def\<close>)
  moreover have "Alloc n p = Some (r, p')" using fs(1) by (simp add: Alloc_def Let_def p'_def flip: p1_def)
  moreover have "nUntracked p' = nUntracked p + 1" by (simp add: p'_def p1_def new_block_def)
  ultimately show ?thesis using fs(4) by auto
qed

lemma Free_rep:
  assumes "pool_rep n p used" "r \<in> used"
  shows "pool_rep n (Free r p) (used - {r})"
proof -
  obtain fs where fs: "chain (item_next p) (root p) fs" "distinct fs" "set fs \<inter> used = {}" "set fs \<union> used = {..<blockPtrs p} \<times> {..<n}"
    "currentAllocs p = int (card used)" using assms(1) by (auto simp: pool_rep_def)
  have "r \<notin> set fs" using fs(3) assms(2) by auto
  then have "chain ((item_next p)(r := root p)) (root p) fs" using fs(1) by (subst chain_cong [of fs _ "item_next p"]) auto
  moreover have "0 < card used" using finite_used [OF assms(1)] assms(2) by (auto simp: card_gt_0_iff)
  ultimately show ?thesis unfolding pool_rep_def using fs assms(2) \<open>r \<notin> set fs\<close> finite_used [OF assms(1)]
    by (intro exI [of _ "r # fs"]) (auto simp: Free_def of_nat_diff)
qed

lemma use_item_rep: "pool_rep n p used \<Longrightarrow> r \<in> used \<Longrightarrow> pool_rep n (use_item r junk p) used"
proof -
  assume *: "pool_rep n p used" "r \<in> used"
  then obtain fs where fs: "chain (item_next p) (root p) fs" "distinct fs" "set fs \<inter> used = {}" "set fs \<union> used = {..<blockPtrs p} \<times> {..<n}"
    "currentAllocs p = int (card used)" by (auto simp: pool_rep_def)
  have "r \<notin> set fs" using fs(3) *(2) by auto
  then have "chain ((item_next p)(r := junk)) (root p) fs" using fs(1) by (subst chain_cong [of fs _ "item_next p"]) auto
  with fs show ?thesis by (auto simp: pool_rep_def use_item_def)
qed

lemma SetTracked_rep: "pool_rep n p used \<Longrightarrow> pool_rep n (SetTracked p) used"
  by (simp add: pool_rep_def SetTracked_def)

end

