(* ===== verification/Xml_Attributes.thy ===== *)
theory Xml_Attributes
  imports Xml_Pool "HOL-Library.Monad_Syntax"
begin

text \<open>
  The attributes of the elements of a tinyxml2 document as the code links them (\<^verbatim>\<open>XMLElement\<close>,
  \<^verbatim>\<open>XMLAttribute\<close>): each element has the first attribute of a list, each attribute the next one,
  and all come from one pool of the document. \<open>None\<close> is a read or write through a pointer that is
  null or freed, or a loop that does not end. Strings that are copied end at their first null
  character. The second part relates the lists to lists of names and values.
\<close>

section \<open>Attribute lists\<close>

record XMLAttribute =
  at_name :: string
  at_value :: string
  at_next :: "item option"

record 'e attr_heap =
  attrs :: "item \<Rightarrow> XMLAttribute option"
  rootAttribute :: "'e \<Rightarrow> item option"
  attributePool :: MemPoolT

definition attr_heap_new :: "'e attr_heap" where
  "attr_heap_new = \<lparr>attrs = (\<lambda>_. None), rootAttribute = (\<lambda>_. None), attributePool = MemPoolT_new\<rparr>"

text \<open>The items of a block: 4096 bytes over the size of an attribute (a table pointer, two strings of 24 bytes, a number and two pointers).\<close>

definition attribute_items :: nat where
  "attribute_items = 4 * 1024 div 80"

definition upd_attr :: "item \<Rightarrow> (XMLAttribute \<Rightarrow> XMLAttribute) \<Rightarrow> 'e attr_heap \<Rightarrow> 'e attr_heap option" where
  "upd_attr a f h = (case attrs h a of None \<Rightarrow> None | Some x \<Rightarrow> Some (h\<lparr>attrs := (attrs h)(a \<mapsto> f x)\<rparr>))"

definition CreateAttribute :: "'e attr_heap \<Rightarrow> (item \<times> 'e attr_heap) option" where
  "CreateAttribute h = do {
     (a, pool) \<leftarrow> Alloc attribute_items (attributePool h);
     Some (a, h\<lparr>attrs := (attrs h)(a \<mapsto> \<lparr>at_name = [], at_value = [], at_next = None\<rparr>), attributePool := SetTracked pool\<rparr>)
   }"

definition free_attribute :: "item \<Rightarrow> 'e attr_heap \<Rightarrow> 'e attr_heap option" where
  "free_attribute a h = (if attrs h a = None then None
     else Some (h\<lparr>attrs := (attrs h)(a := None), attributePool := Free a (attributePool h)\<rparr>))"

text \<open>The search of the loops over a list: the attribute of that name, and the one before it or the last one.\<close>

partial_function (option) find_attr :: "string \<Rightarrow> item option \<Rightarrow> item option \<Rightarrow> 'e attr_heap \<Rightarrow> (item option \<times> item option) option" where
  "find_attr name prev cur h = (case cur of
     None \<Rightarrow> Some (prev, None)
   | Some a \<Rightarrow> do { x \<leftarrow> attrs h a; if at_name x = c_str name then Some (prev, Some a) else find_attr name (Some a) (at_next x) h })"

declare find_attr.simps [code]

definition XMLElement_FindAttribute :: "string \<Rightarrow> 'e \<Rightarrow> 'e attr_heap \<Rightarrow> item option option" where
  "XMLElement_FindAttribute name e h = map_option snd (find_attr name None (rootAttribute h e) h)"

text \<open>The value of an attribute, if there is one and it is the expected value, if one is given.\<close>

definition XMLElement_Attribute :: "string \<Rightarrow> string option \<Rightarrow> 'e \<Rightarrow> 'e attr_heap \<Rightarrow> string option option" where
  "XMLElement_Attribute name val e h = do {
     a \<leftarrow> XMLElement_FindAttribute name e h;
     (case a of
        None \<Rightarrow> Some None
      | Some a \<Rightarrow> do {
          x \<leftarrow> attrs h a;
          Some (if val = None \<or> at_value x = c_str (the val) then Some (at_value x) else None)
        })
   }"

definition FindOrCreateAttribute :: "string \<Rightarrow> 'e \<Rightarrow> 'e attr_heap \<Rightarrow> (item \<times> 'e attr_heap) option" where
  "FindOrCreateAttribute name e h = do {
     (last, attrib) \<leftarrow> find_attr name None (rootAttribute h e) h;
     (case attrib of
        Some a \<Rightarrow> Some (a, h)
      | None \<Rightarrow> do {
          (a, h) \<leftarrow> CreateAttribute h;
          h \<leftarrow> (case last of
              Some l \<Rightarrow> upd_attr l (\<lambda>x. x\<lparr>at_next := Some a\<rparr>) h
            | None \<Rightarrow> Some (h\<lparr>rootAttribute := (rootAttribute h)(e := Some a)\<rparr>));
          h \<leftarrow> upd_attr a (\<lambda>x. x\<lparr>at_name := c_str name\<rparr>) h;
          Some (a, h)
        })
   }"

definition XMLElement_SetAttribute :: "string \<Rightarrow> string \<Rightarrow> 'e \<Rightarrow> 'e attr_heap \<Rightarrow> 'e attr_heap option" where
  "XMLElement_SetAttribute name v e h = do {
     (a, h) \<leftarrow> FindOrCreateAttribute name e h;
     upd_attr a (\<lambda>x. x\<lparr>at_value := c_str v\<rparr>) h
   }"

definition XMLElement_DeleteAttribute :: "string \<Rightarrow> 'e \<Rightarrow> 'e attr_heap \<Rightarrow> 'e attr_heap option" where
  "XMLElement_DeleteAttribute name e h = do {
     (prev, attrib) \<leftarrow> find_attr name None (rootAttribute h e) h;
     (case attrib of
        None \<Rightarrow> Some h
      | Some a \<Rightarrow> do {
          x \<leftarrow> attrs h a;
          h \<leftarrow> (case prev of
              Some p \<Rightarrow> upd_attr p (\<lambda>y. y\<lparr>at_next := at_next x\<rparr>) h
            | None \<Rightarrow> Some (h\<lparr>rootAttribute := (rootAttribute h)(e := at_next x)\<rparr>));
          free_attribute a h
        })
   }"

text \<open>\<^verbatim>\<open>~XMLElement\<close>: all attributes, from the first.\<close>

partial_function (option) DestroyAttributes :: "'e \<Rightarrow> 'e attr_heap \<Rightarrow> 'e attr_heap option" where
  "DestroyAttributes e h = (case rootAttribute h e of
     None \<Rightarrow> Some h
   | Some a \<Rightarrow> do {
       x \<leftarrow> attrs h a;
       h \<leftarrow> free_attribute a h;
       DestroyAttributes e (h\<lparr>rootAttribute := (rootAttribute h)(e := at_next x)\<rparr>)
     })"

declare DestroyAttributes.simps [code]

section \<open>Lists of names and values\<close>

text \<open>
  A heap stands for a list of names and values for every element: the items of an element are a
  chain, no two chains share an item, the items in chains are those in use, and no element has two
  attributes of a name.
\<close>

definition next_of_attr :: "'e attr_heap \<Rightarrow> item \<Rightarrow> item option" where
  "next_of_attr h a = Option.bind (attrs h a) at_next"

definition pair_of :: "'e attr_heap \<Rightarrow> item \<Rightarrow> string \<times> string" where
  "pair_of h a = (at_name (the (attrs h a)), at_value (the (attrs h a)))"

definition attr_items :: "'e attr_heap \<Rightarrow> ('e \<Rightarrow> item list) \<Rightarrow> bool" where
  "attr_items h I \<longleftrightarrow> (\<forall>e. chain (next_of_attr h) (rootAttribute h e) (I e) \<and> distinct (I e)) \<and>
     (\<forall>e e'. e \<noteq> e' \<longrightarrow> set (I e) \<inter> set (I e') = {}) \<and> dom (attrs h) = (\<Union>e. set (I e)) \<and>
     pool_rep attribute_items (attributePool h) (dom (attrs h)) \<and> nUntracked (attributePool h) = 0"

definition c_pairs :: "(string \<times> string) list \<Rightarrow> bool" where
  "c_pairs xs \<longleftrightarrow> distinct (map fst xs) \<and> (\<forall>(n, v) \<in> set xs. c_str n = n \<and> c_str v = v)"

definition attr_state :: "'e attr_heap \<Rightarrow> ('e \<Rightarrow> (string \<times> string) list) \<Rightarrow> bool" where
  "attr_state h L \<longleftrightarrow> (\<exists>I. attr_items h I \<and> (\<forall>e. L e = map (pair_of h) (I e) \<and> c_pairs (L e)))"

lemma attr_state_new: "attr_state attr_heap_new (\<lambda>_. [])"
  unfolding attr_state_def
  by (rule exI [of _ "\<lambda>_. []"]) (simp add: attr_items_def attr_heap_new_def pool_rep_new c_pairs_def, simp add: MemPoolT_new_def)

text \<open>Chains: a new last item, an item taken out.\<close>

lemma chain_snoc: "chain nx r xs \<Longrightarrow> xs \<noteq> [] \<Longrightarrow> distinct (xs @ [a]) \<Longrightarrow> nx a = None \<Longrightarrow> chain (nx(last xs := Some a)) r (xs @ [a])"
proof (induction xs arbitrary: r)
  case (Cons x xs)
  show ?case
  proof (cases xs)
    case (Cons y ys)
    then have "x \<noteq> last xs" using Cons.prems(3) by auto
    with Cons Cons.IH [of "nx x"] Cons.prems show ?thesis by auto
  qed (use Cons.prems in auto)
qed simp

lemma chain_remove:
  "chain nx r (as @ a # bs) \<Longrightarrow> distinct (as @ a # bs) \<Longrightarrow>
   (if as = [] then chain nx (nx a) bs else chain (nx(last as := nx a)) r (as @ bs))"
proof (induction as arbitrary: r)
  case (Cons x as)
  have IH: "if as = [] then chain nx (nx a) bs else chain (nx(last as := nx a)) (nx x) (as @ bs)" using Cons by auto
  show ?case
  proof (cases as)
    case Nil
    then have "x \<notin> set bs" "chain nx (nx a) bs" using Cons.prems(2) IH by auto
    then have "chain (nx(x := nx a)) (nx a) bs" by (subst chain_cong [where ny = nx]) auto
    with Nil Cons.prems(1) show ?thesis by simp
  next
    case (Cons y ys)
    then have "x \<noteq> last as" using Cons.prems(2) by auto
    with Cons IH Cons.prems(1) show ?thesis by auto
  qed
qed simp

lemma find_attr_none:
  "chain (next_of_attr h) cur xs \<Longrightarrow> (\<And>a. a \<in> set xs \<Longrightarrow> a \<in> dom (attrs h) \<and> fst (pair_of h a) \<noteq> c_str n) \<Longrightarrow>
   find_attr n prev cur h = Some (if xs = [] then prev else Some (last xs), None)"
proof (induction xs arbitrary: cur prev)
  case Nil
  then show ?case by (subst find_attr.simps) simp
next
  case (Cons a xs)
  have "a \<in> dom (attrs h)" and n: "fst (pair_of h a) \<noteq> c_str n" using Cons.prems(2) by simp_all
  then obtain x where x: "attrs h a = Some x" by blast
  have cur: "cur = Some a" "chain (next_of_attr h) (at_next x) xs" using Cons.prems(1) x next_of_attr_def [of h a] by simp_all
  have "find_attr n (Some a) (at_next x) h = Some (if xs = [] then Some a else Some (last xs), None)"
    using Cons.prems(2) by (intro Cons.IH cur(2)) simp
  then show ?case using n x unfolding cur(1) by (subst find_attr.simps) (simp add: pair_of_def)
qed

lemma find_attr_some:
  "chain (next_of_attr h) cur (as @ a # bs) \<Longrightarrow> (\<And>b. b \<in> set as \<Longrightarrow> b \<in> dom (attrs h) \<and> fst (pair_of h b) \<noteq> c_str n) \<Longrightarrow>
   a \<in> dom (attrs h) \<Longrightarrow> fst (pair_of h a) = c_str n \<Longrightarrow>
   find_attr n prev cur h = Some (if as = [] then prev else Some (last as), Some a)"
proof (induction as arbitrary: cur prev)
  case Nil
  then show ?case by (subst find_attr.simps) (simp add: pair_of_def dom_def, force)
next
  case (Cons b as)
  have "b \<in> dom (attrs h)" and n: "fst (pair_of h b) \<noteq> c_str n" using Cons.prems(2) by simp_all
  then obtain x where x: "attrs h b = Some x" by blast
  have cur: "cur = Some b" "chain (next_of_attr h) (at_next x) (as @ a # bs)" using Cons.prems(1) x next_of_attr_def [of h b] by simp_all
  have "find_attr n (Some b) (at_next x) h = Some (if as = [] then Some b else Some (last as), Some a)"
    using Cons.prems(2-4) by (intro Cons.IH cur(2)) simp_all
  then show ?case using n x unfolding cur(1) by (subst find_attr.simps) (simp add: pair_of_def)
qed

text \<open>What a search finds in the list of an element.\<close>

lemma find_attr_items:
  assumes "attr_items h I" "distinct (map (fst \<circ> pair_of h) (I e))"
  obtains "\<forall>a \<in> set (I e). fst (pair_of h a) \<noteq> c_str n"
      "find_attr n None (rootAttribute h e) h = Some (if I e = [] then None else Some (last (I e)), None)"
    | as a bs x where "I e = as @ a # bs" "attrs h a = Some x" "at_name x = c_str n"
      "find_attr n None (rootAttribute h e) h = Some (if as = [] then None else Some (last as), Some a)"
      "\<forall>b \<in> set as \<union> set bs. fst (pair_of h b) \<noteq> c_str n"
proof (cases "\<exists>a \<in> set (I e). fst (pair_of h a) = c_str n")
  case True
  have ch: "chain (next_of_attr h) (rootAttribute h e) (I e)" and dm: "\<And>a. a \<in> set (I e) \<Longrightarrow> a \<in> dom (attrs h)"
    using assms(1) unfolding attr_items_def by blast+
  from True obtain a where "a \<in> set (I e)" and n: "fst (pair_of h a) = c_str n" by blast
  then obtain as bs where I: "I e = as @ a # bs" by (auto dest: split_list)
  then have others: "\<forall>b \<in> set as \<union> set bs. fst (pair_of h b) \<noteq> c_str n" using assms(2) n by (auto simp: in_set_conv_decomp)
  have a: "a \<in> dom (attrs h)" using dm [of a] I by simp
  then obtain x where x: "attrs h a = Some x" by auto
  have as: "b \<in> set as \<Longrightarrow> b \<in> dom (attrs h) \<and> fst (pair_of h b) \<noteq> c_str n" for b using others dm [of b] I by simp
  have "at_name x = c_str n" using n x by (simp add: pair_of_def)
  from that(2) [OF I x this find_attr_some [OF ch [unfolded I] as a n] others] show thesis .
next
  case False
  have ch: "chain (next_of_attr h) (rootAttribute h e) (I e)" and dm: "\<And>a. a \<in> set (I e) \<Longrightarrow> a \<in> dom (attrs h)"
    using assms(1) unfolding attr_items_def by blast+
  from that(1) False find_attr_none [OF ch, of n None] dm show thesis by blast
qed

section \<open>Operations on the lists\<close>

definition set_pair :: "string \<Rightarrow> string \<Rightarrow> (string \<times> string) list \<Rightarrow> (string \<times> string) list" where
  "set_pair n v xs = (if n \<in> fst ` set xs then map (\<lambda>p. if fst p = n then (n, v) else p) xs else xs @ [(n, v)])"

definition del_pair :: "string \<Rightarrow> (string \<times> string) list \<Rightarrow> (string \<times> string) list" where
  "del_pair n xs = filter (\<lambda>p. fst p \<noteq> n) xs"

lemma c_pairs_set: "c_pairs xs \<Longrightarrow> c_pairs (set_pair (c_str n) (c_str v) xs)"
proof -
  assume c: "c_pairs xs"
  have "map fst (map (\<lambda>p. if fst p = c_str n then (c_str n, c_str v) else p) xs) = map fst xs" by simp
  with c show ?thesis unfolding c_pairs_def set_pair_def by (auto simp: image_iff simp del: map_map)
qed

lemma c_pairs_del: "c_pairs xs \<Longrightarrow> c_pairs (del_pair n xs)"
  unfolding c_pairs_def del_pair_def by (auto intro: distinct_map_filter)

lemma attr_itemsD:
  assumes "attr_items h I"
  shows "chain (next_of_attr h) (rootAttribute h e) (I e)" "distinct (I e)" "e \<noteq> e' \<Longrightarrow> set (I e) \<inter> set (I e') = {}"
    "dom (attrs h) = (\<Union>e. set (I e))" "pool_rep attribute_items (attributePool h) (dom (attrs h))" "nUntracked (attributePool h) = 0"
  using assms unfolding attr_items_def by blast+

lemma attr_item_alive: "attr_items h I \<Longrightarrow> a \<in> set (I e) \<Longrightarrow> a \<in> dom (attrs h)"
  using attr_itemsD(4) [of h I] by auto

text \<open>Writing a value keeps the chains.\<close>

lemma value_items:
  assumes "attr_items h I" "attrs h a = Some x"
  shows "attr_items (h\<lparr>attrs := (attrs h)(a \<mapsto> x\<lparr>at_value := v\<rparr>)\<rparr>) I"
    and "pair_of (h\<lparr>attrs := (attrs h)(a \<mapsto> x\<lparr>at_value := v\<rparr>)\<rparr>) b = (if b = a then (at_name x, v) else pair_of h b)"
proof -
  let ?h = "h\<lparr>attrs := (attrs h)(a \<mapsto> x\<lparr>at_value := v\<rparr>)\<rparr>"
  have nx: "next_of_attr ?h = next_of_attr h" using assms(2) by (auto simp: next_of_attr_def fun_eq_iff)
  have dm: "dom (attrs ?h) = dom (attrs h)" using assms(2) by auto
  show "attr_items ?h I" unfolding attr_items_def nx dm using attr_itemsD [OF assms(1)] by simp
  show "pair_of ?h b = (if b = a then (at_name x, v) else pair_of h b)" by (simp add: pair_of_def)
qed

text \<open>A new item at the end of a chain.\<close>

lemma append_items:
  assumes "attr_items h I" "a \<notin> dom (attrs h)" "pool_rep attribute_items q (insert a (dom (attrs h)))" "nUntracked q = 0" "at_next y = None"
    and "attrs h' = (if I e = [] then (attrs h)(a \<mapsto> y) else (attrs h)(last (I e) := map_option (\<lambda>x. x\<lparr>at_next := Some a\<rparr>) (attrs h (last (I e))), a \<mapsto> y))"
    and "rootAttribute h' = (if I e = [] then (rootAttribute h)(e := Some a) else rootAttribute h)" "attributePool h' = q"
  shows "attr_items h' (I(e := I e @ [a]))" and "pair_of h' b = (if b = a then (at_name y, at_value y) else pair_of h b)"
proof -
  note it = attr_itemsD [OF assms(1)]
  have na: "a \<notin> set (I e')" for e' using attr_item_alive [OF assms(1)] assms(2) by blast
  have nx: "next_of_attr h' = (if I e = [] then next_of_attr h else (next_of_attr h)(last (I e) := Some a))"
  proof
    fix b
    have "I e \<noteq> [] \<Longrightarrow> last (I e) \<in> dom (attrs h)" using attr_item_alive [OF assms(1), of "last (I e)" e] by simp
    moreover have "attrs h a = None" using assms(2) by auto
    ultimately show "next_of_attr h' b = (if I e = [] then next_of_attr h else (next_of_attr h)(last (I e) := Some a)) b"
      using assms(5) na [of e] last_in_set [of "I e"] by (cases "I e = []"; cases "b = a") (auto simp: next_of_attr_def assms(6))
  qed
  have nxa: "next_of_attr h a = None" using assms(2) by (simp add: next_of_attr_def dom_def)
  have ch: "chain (next_of_attr h') (rootAttribute h' e') ((I(e := I e @ [a])) e')" for e'
  proof (cases "e' = e")
    case True
    show ?thesis
    proof (cases "I e = []")
      case empty: True
      then show ?thesis using nxa by (simp add: True nx assms(7))
    next
      case False
      then show ?thesis using chain_snoc [OF it(1) False _ nxa] it(2) [of e] na [of e] by (simp add: True nx assms(7))
    qed
  next
    case False
    have "chain (next_of_attr h') (rootAttribute h e') (I e') = chain (next_of_attr h) (rootAttribute h e') (I e')"
    proof (rule chain_cong)
      fix b assume "b \<in> set (I e')"
      then have "I e \<noteq> [] \<Longrightarrow> b \<noteq> last (I e)" using it(3) [OF False] last_in_set [of "I e"] by blast
      then show "next_of_attr h' b = next_of_attr h b" by (simp add: nx)
    qed
    then show ?thesis using False it(1) [of e'] by (simp add: assms(7))
  qed
  have dm: "dom (attrs h') = insert a (dom (attrs h))"
    using attr_item_alive [OF assms(1), of "last (I e)" e] by (auto simp: assms(6) split: if_splits)
  show "attr_items h' (I(e := I e @ [a]))"
    unfolding attr_items_def
  proof (intro conjI allI impI)
    show "chain (next_of_attr h') (rootAttribute h' e') ((I(e := I e @ [a])) e')" for e' by (rule ch)
    show "distinct ((I(e := I e @ [a])) e')" for e' using it(2) na by auto
    show "set ((I(e := I e @ [a])) e1) \<inter> set ((I(e := I e @ [a])) e2) = {}" if "e1 \<noteq> e2" for e1 e2
      using it(3) [OF that] na that by auto
    show "dom (attrs h') = (\<Union>e'. set ((I(e := I e @ [a])) e'))" unfolding dm it(4) by (auto split: if_splits)
    show "pool_rep attribute_items (attributePool h') (dom (attrs h'))" using assms(3,8) dm by simp
    show "nUntracked (attributePool h') = 0" using assms(4,8) by simp
  qed
  show "pair_of h' b = (if b = a then (at_name y, at_value y) else pair_of h b)"
    using attr_item_alive [OF assms(1), of "last (I e)" e] by (auto simp: pair_of_def assms(6))
qed

text \<open>An item taken out of its chain and freed.\<close>

lemma remove_items:
  assumes "attr_items h I" "I e = as @ a # bs" "attrs h a = Some x"
    and "attrs h' = (if as = [] then (attrs h)(a := None) else (attrs h)(last as := map_option (\<lambda>y. y\<lparr>at_next := at_next x\<rparr>) (attrs h (last as)), a := None))"
    and "rootAttribute h' = (if as = [] then (rootAttribute h)(e := at_next x) else rootAttribute h)" "attributePool h' = Free a (attributePool h)"
  shows "attr_items h' (I(e := as @ bs))" and "b \<noteq> a \<Longrightarrow> pair_of h' b = pair_of h b"
proof -
  note it = attr_itemsD [OF assms(1)]
  have d: "distinct (as @ a # bs)" using it(2) [of e] assms(2) by simp
  have las: "as \<noteq> [] \<Longrightarrow> last as \<in> dom (attrs h) \<and> last as \<noteq> a" using attr_item_alive [OF assms(1), of "last as" e] assms(2) d by auto
  have na: "e' \<noteq> e \<Longrightarrow> a \<notin> set (I e')" for e' using it(3) [of e' e] assms(2) by auto
  have nx: "next_of_attr h' b = (if as = [] then next_of_attr h else (next_of_attr h)(last as := next_of_attr h a)) b" if "b \<noteq> a" for b
    using that las assms(3) by (auto simp: next_of_attr_def assms(4))
  have ch: "chain (next_of_attr h') (rootAttribute h' e') ((I(e := as @ bs)) e')" for e'
  proof (cases "e' = e")
    case True
    have "chain (next_of_attr h) (rootAttribute h e) (as @ a # bs)" using it(1) [of e] assms(2) by simp
    note rm = chain_remove [OF this d]
    have "chain (next_of_attr h') (rootAttribute h' e) (as @ bs) =
        chain (if as = [] then next_of_attr h else (next_of_attr h)(last as := next_of_attr h a)) (rootAttribute h' e) (as @ bs)"
      using d by (intro chain_cong nx) auto
    with rm assms(3) show ?thesis by (cases "as = []") (simp_all add: True assms(5) next_of_attr_def [of h a])
  next
    case False
    have "chain (next_of_attr h') (rootAttribute h e') (I e') = chain (next_of_attr h) (rootAttribute h e') (I e')"
    proof (rule chain_cong)
      fix b assume b: "b \<in> set (I e')"
      have "as \<noteq> [] \<Longrightarrow> last as \<in> set (I e)" using assms(2) by simp
      then have "b \<noteq> a" "as \<noteq> [] \<Longrightarrow> b \<noteq> last as" using b na [OF False] it(3) [OF False] by blast+
      then show "next_of_attr h' b = next_of_attr h b" using nx by auto
    qed
    then show ?thesis using False it(1) [of e'] by (simp add: assms(5))
  qed
  have dm: "dom (attrs h') = dom (attrs h) - {a}" using las by (auto simp: assms(4) split: if_splits)
  show "attr_items h' (I(e := as @ bs))"
    unfolding attr_items_def
  proof (intro conjI allI impI)
    show "chain (next_of_attr h') (rootAttribute h' e') ((I(e := as @ bs)) e')" for e' by (rule ch)
    show "distinct ((I(e := as @ bs)) e')" for e' using it(2) d by auto
    show "set ((I(e := as @ bs)) e1) \<inter> set ((I(e := as @ bs)) e2) = {}" if "e1 \<noteq> e2" for e1 e2
      using it(3) [OF that] assms(2) that by (auto split: if_splits)
    have "set ((I(e := as @ bs)) e') = set (I e') - {a}" for e' using d na assms(2) by (cases "e' = e") auto
    then show "dom (attrs h') = (\<Union>e'. set ((I(e := as @ bs)) e'))" unfolding dm it(4) by blast
    show "pool_rep attribute_items (attributePool h') (dom (attrs h'))" unfolding dm assms(6)
      using assms(3) by (intro Free_rep it(5)) auto
    show "nUntracked (attributePool h') = 0" using it(6) by (simp add: assms(6) Free_def)
  qed
  show "b \<noteq> a \<Longrightarrow> pair_of h' b = pair_of h b" using las by (auto simp: pair_of_def assms(4))
qed

lemma CreateAttribute_items:
  assumes "attr_items h I"
  shows "\<exists>a q. CreateAttribute h = Some (a, h\<lparr>attrs := (attrs h)(a \<mapsto> \<lparr>at_name = [], at_value = [], at_next = None\<rparr>), attributePool := q\<rparr>) \<and>
    a \<notin> dom (attrs h) \<and> pool_rep attribute_items q (insert a (dom (attrs h))) \<and> nUntracked q = 0"
proof -
  note it = attr_itemsD [OF assms]
  obtain a p where "Alloc attribute_items (attributePool h) = Some (a, p)" "a \<notin> dom (attrs h)"
    "pool_rep attribute_items p (insert a (dom (attrs h)))" "nUntracked p = nUntracked (attributePool h) + 1"
    using Alloc_rep [OF it(5)] by (auto simp: attribute_items_def)
  then show ?thesis using it(6) SetTracked_rep by (intro exI [of _ a] exI [of _ "SetTracked p"]) (simp add: CreateAttribute_def, simp add: SetTracked_def)
qed

lemma c_pairs_items: "c_pairs (map (pair_of h) (I e)) \<Longrightarrow> distinct (map (fst \<circ> pair_of h) (I e))"
  by (simp add: c_pairs_def)

lemma SetAttribute_state:
  assumes "attr_state h L"
  shows "\<exists>h'. XMLElement_SetAttribute n v e h = Some h' \<and> attr_state h' (L(e := set_pair (c_str n) (c_str v) (L e)))"
proof -
  obtain I where I: "attr_items h I" "\<And>e. L e = map (pair_of h) (I e)" "\<And>e. c_pairs (L e)" using assms unfolding attr_state_def by metis
  have ok: "c_pairs ((L(e := set_pair (c_str n) (c_str v) (L e))) e')" for e' using I(3) c_pairs_set by simp
  have "distinct (map (fst \<circ> pair_of h) (I e))" using I(2,3) c_pairs_items by metis
  from I(1) this show ?thesis
  proof (cases rule: find_attr_items [where n = n])
    case 1
    obtain a q where a: "CreateAttribute h = Some (a, h\<lparr>attrs := (attrs h)(a \<mapsto> \<lparr>at_name = [], at_value = [], at_next = None\<rparr>), attributePool := q\<rparr>)"
      "a \<notin> dom (attrs h)" "pool_rep attribute_items q (insert a (dom (attrs h)))" "nUntracked q = 0"
      using CreateAttribute_items [OF I(1)] by blast
    define y where "y = \<lparr>at_name = c_str n, at_value = c_str v, at_next = None\<rparr>"
    define h' where "h' = h\<lparr>attrs := (if I e = [] then (attrs h)(a \<mapsto> y)
        else (attrs h)(last (I e) := map_option (\<lambda>x. x\<lparr>at_next := Some a\<rparr>) (attrs h (last (I e))), a \<mapsto> y)),
      rootAttribute := (if I e = [] then (rootAttribute h)(e := Some a) else rootAttribute h), attributePool := q\<rparr>"
    have la: "I e \<noteq> [] \<Longrightarrow> last (I e) \<noteq> a \<and> (\<exists>z. attrs h (last (I e)) = Some z)" using attr_item_alive [OF I(1), of "last (I e)" e] a(2) by auto
    have run: "XMLElement_SetAttribute n v e h = Some h'"
      using 1(2) a(1) la by (cases "I e = []") (auto simp: XMLElement_SetAttribute_def FindOrCreateAttribute_def upd_attr_def h'_def y_def fun_upd_twist)
    note ap = append_items [OF I(1) a(2-4), of y h' e]
    have it: "attr_items h' (I(e := I e @ [a]))" by (rule ap(1)) (simp_all add: h'_def y_def)
    have pr: "pair_of h' b = (if b = a then (c_str n, c_str v) else pair_of h b)" for b using ap(2) [of b] by (simp add: h'_def y_def)
    have na: "a \<notin> set (I e')" for e' using attr_item_alive [OF I(1)] a(2) by blast
    have "c_str n \<notin> fst ` set (L e)" using 1(1) I(2) by auto
    then have "(L(e := set_pair (c_str n) (c_str v) (L e))) e' = map (pair_of h') ((I(e := I e @ [a])) e')" for e'
      using I(2) na by (auto simp: set_pair_def pr)
    with run it ok show ?thesis unfolding attr_state_def by blast
  next
    case (2 as a bs x)
    let ?h = "h\<lparr>attrs := (attrs h)(a \<mapsto> x\<lparr>at_value := c_str v\<rparr>)\<rparr>"
    have run: "XMLElement_SetAttribute n v e h = Some ?h" using 2(2,4) by (simp add: XMLElement_SetAttribute_def FindOrCreateAttribute_def upd_attr_def)
    note vi = value_items [OF I(1) 2(2)]
    have na: "e' \<noteq> e \<Longrightarrow> a \<notin> set (I e')" for e' using attr_itemsD(3) [OF I(1), of e' e] 2(1) by auto
    have "a \<notin> set as \<union> set bs" using attr_itemsD(2) [OF I(1), of e] 2(1) by auto
    then have "map (pair_of ?h) (I e) = map (\<lambda>p. if fst p = c_str n then (c_str n, c_str v) else p) (map (pair_of h) (I e))"
      using 2 vi(2) [where v = "c_str v"] by (auto simp: pair_of_def [of h a])
    moreover have "c_str n \<in> fst ` set (L e)" using I(2) 2(1-3) by (force simp: pair_of_def)
    ultimately have "(L(e := set_pair (c_str n) (c_str v) (L e))) e' = map (pair_of ?h) (I e')" for e'
      using I(2) na vi(2) [where v = "c_str v"] by (auto simp: set_pair_def)
    with run vi(1) ok show ?thesis unfolding attr_state_def by blast
  qed
qed

lemma DeleteAttribute_state:
  assumes "attr_state h L"
  shows "\<exists>h'. XMLElement_DeleteAttribute n e h = Some h' \<and> attr_state h' (L(e := del_pair (c_str n) (L e)))"
proof -
  obtain I where I: "attr_items h I" "\<And>e. L e = map (pair_of h) (I e)" "\<And>e. c_pairs (L e)" using assms unfolding attr_state_def by metis
  have ok: "c_pairs ((L(e := del_pair (c_str n) (L e))) e')" for e' using I(3) c_pairs_del by simp
  have "distinct (map (fst \<circ> pair_of h) (I e))" using I(2,3) c_pairs_items by metis
  from I(1) this show ?thesis
  proof (cases rule: find_attr_items [where n = n])
    case 1
    then have "del_pair (c_str n) (L e) = L e" using I(2) by (auto simp: del_pair_def)
    with 1 assms show ?thesis by (simp add: XMLElement_DeleteAttribute_def)
  next
    case (2 as a bs x)
    define h' where "h' = h\<lparr>attrs := (if as = [] then (attrs h)(a := None)
        else (attrs h)(last as := map_option (\<lambda>y. y\<lparr>at_next := at_next x\<rparr>) (attrs h (last as)), a := None)),
      rootAttribute := (if as = [] then (rootAttribute h)(e := at_next x) else rootAttribute h), attributePool := Free a (attributePool h)\<rparr>"
    have d: "a \<notin> set as \<union> set bs" using attr_itemsD(2) [OF I(1), of e] 2(1) by auto
    have la: "as \<noteq> [] \<Longrightarrow> last as \<noteq> a \<and> (\<exists>z. attrs h (last as) = Some z)" using attr_item_alive [OF I(1), of "last as" e] 2(1) d by auto
    have run: "XMLElement_DeleteAttribute n e h = Some h'"
      using 2(2,4) la by (cases "as = []") (auto simp: XMLElement_DeleteAttribute_def upd_attr_def free_attribute_def h'_def)
    note rm = remove_items [OF I(1) 2(1,2), of h']
    have it: "attr_items h' (I(e := as @ bs))" by (rule rm(1)) (simp_all add: h'_def)
    have pr: "b \<noteq> a \<Longrightarrow> pair_of h' b = pair_of h b" for b using rm(2) [of b] by (simp add: h'_def)
    have same: "a \<notin> set xs \<Longrightarrow> map (pair_of h') xs = map (pair_of h) xs" for xs using pr by (intro map_cong) metis+
    have na: "e' \<noteq> e \<Longrightarrow> a \<notin> set (I e')" for e' using attr_itemsD(3) [OF I(1), of e' e] 2(1) by auto
    have "del_pair (c_str n) (L e) = map (pair_of h) (as @ bs)" using I(2) 2 by (auto simp: del_pair_def pair_of_def [of h a])
    then have "(L(e := del_pair (c_str n) (L e))) e' = map (pair_of h') ((I(e := as @ bs)) e')" for e'
      using I(2) d na [of e'] same [of "as @ bs"] same [of "I e'"] by (cases "e' = e") (simp_all del: map_append map_eq_conv)
    with run it ok show ?thesis unfolding attr_state_def by blast
  qed
qed

lemma Destroy_items:
  assumes "attr_items h I"
  shows "\<exists>h'. DestroyAttributes e h = Some h' \<and> attr_items h' (I(e := [])) \<and> (\<forall>b. b \<notin> set (I e) \<longrightarrow> pair_of h' b = pair_of h b) \<and>
    rootAttribute h' = (rootAttribute h)(e := None)"
  using assms
proof (induction "I e" arbitrary: I h)
  case Nil
  then have "rootAttribute h e = None" using attr_itemsD(1) [OF Nil.prems, of e] by simp
  moreover have "I(e := []) = I" using Nil.hyps by auto
  ultimately show ?case using Nil.prems by (subst DestroyAttributes.simps) (auto simp: fun_upd_idem)
next
  case (Cons a bs)
  have I: "I e = [] @ a # bs" using Cons.hyps(2) by simp
  have root: "rootAttribute h e = Some a" using attr_itemsD(1) [OF Cons.prems, of e] I by simp
  obtain x where x: "attrs h a = Some x" using attr_item_alive [OF Cons.prems, of a e] I by auto
  let ?h = "h\<lparr>attrs := (attrs h)(a := None), attributePool := Free a (attributePool h), rootAttribute := (rootAttribute h)(e := at_next x)\<rparr>"
  have it: "attr_items ?h (I(e := bs))" using remove_items(1) [OF Cons.prems I x, of ?h] by simp
  have pr: "b \<noteq> a \<Longrightarrow> pair_of ?h b = pair_of h b" for b using remove_items(2) [OF Cons.prems I x, of ?h b] by simp
  have "bs = (I(e := bs)) e" by simp
  from Cons.hyps(1) [OF this it] obtain h' where h': "DestroyAttributes e ?h = Some h'" "attr_items h' (I(e := []))"
    "\<And>b. b \<notin> set bs \<Longrightarrow> pair_of h' b = pair_of ?h b" "rootAttribute h' = (rootAttribute h)(e := None)" by auto
  have "DestroyAttributes e h = Some h'" using root x h'(1) by (subst DestroyAttributes.simps) (simp add: free_attribute_def)
  moreover have "b \<notin> set (I e) \<Longrightarrow> pair_of h' b = pair_of h b" for b using I h'(3) [of b] pr [of b] by simp
  ultimately show ?case using h'(2,4) by blast
qed

lemma Destroy_state:
  assumes "attr_state h L"
  shows "\<exists>h'. DestroyAttributes e h = Some h' \<and> attr_state h' (L(e := [])) \<and> rootAttribute h' = (rootAttribute h)(e := None)"
proof -
  obtain I where I: "attr_items h I" "\<And>e. L e = map (pair_of h) (I e)" "\<And>e. c_pairs (L e)" using assms unfolding attr_state_def by metis
  obtain h' where h': "DestroyAttributes e h = Some h'" "attr_items h' (I(e := []))" "\<And>b. b \<notin> set (I e) \<Longrightarrow> pair_of h' b = pair_of h b"
    "rootAttribute h' = (rootAttribute h)(e := None)" using Destroy_items [OF I(1), of e] by blast
  have "(L(e := [])) e' = map (pair_of h') ((I(e := [])) e') \<and> c_pairs ((L(e := [])) e')" for e'
  proof (cases "e' = e")
    case False
    then have "b \<in> set (I e') \<Longrightarrow> pair_of h' b = pair_of h b" for b using attr_itemsD(3) [OF I(1) False] h'(3) [of b] by blast
    then have "map (pair_of h') (I e') = map (pair_of h) (I e')" by (rule map_cong [OF refl])
    with False I(2,3) show ?thesis by simp
  qed (simp add: c_pairs_def)
  with h'(1,2,4) show ?thesis unfolding attr_state_def by blast
qed

lemma attr_root_none: "attr_state h L \<Longrightarrow> rootAttribute h e = None \<longleftrightarrow> L e = []"
proof -
  assume "attr_state h L"
  then obtain I where I: "attr_items h I" "L e = map (pair_of h) (I e)" unfolding attr_state_def by metis
  from attr_itemsD(1) [OF I(1), of e] show ?thesis by (cases "I e") (simp_all add: I(2))
qed

text \<open>The attributes of a set of elements only.\<close>

definition attr_dom :: "'e attr_heap \<Rightarrow> 'e set \<Rightarrow> bool" where
  "attr_dom h A \<longleftrightarrow> (\<exists>L. attr_state h L \<and> (\<forall>e. L e \<noteq> [] \<longrightarrow> e \<in> A))"

lemma attr_dom_new: "attr_dom attr_heap_new A"
  using attr_state_new unfolding attr_dom_def by fastforce

lemma attr_dom_out: "attr_dom h A \<Longrightarrow> e \<notin> A \<Longrightarrow> rootAttribute h e = None"
  using attr_root_none unfolding attr_dom_def by metis

lemma attr_dom_mono: "attr_dom h A \<Longrightarrow> (\<And>e. e \<in> A \<Longrightarrow> e \<notin> A' \<Longrightarrow> rootAttribute h e = None) \<Longrightarrow> attr_dom h A'"
  unfolding attr_dom_def by (metis attr_root_none)

lemma attr_dom_destroy:
  assumes "attr_dom h A"
  shows "\<exists>h'. DestroyAttributes e h = Some h' \<and> attr_dom h' A \<and> rootAttribute h' = (rootAttribute h)(e := None)"
proof -
  obtain L where L: "attr_state h L" "\<forall>e. L e \<noteq> [] \<longrightarrow> e \<in> A" using assms by (auto simp: attr_dom_def)
  obtain h' where "DestroyAttributes e h = Some h'" "attr_state h' (L(e := []))" "rootAttribute h' = (rootAttribute h)(e := None)"
    using Destroy_state [OF L(1)] by blast
  then show ?thesis using L(2) unfolding attr_dom_def by (metis fun_upd_apply)
qed

lemma map_of_split: "k \<notin> fst ` set xs \<Longrightarrow> map_of (xs @ (k, v) # ys) k = Some v"
  by (induction xs) auto

lemma Attribute_state:
  assumes "attr_state h L"
  shows "XMLElement_Attribute n val e h = Some (case map_of (L e) (c_str n) of None \<Rightarrow> None
    | Some w \<Rightarrow> if val = None \<or> w = c_str (the val) then Some w else None)"
proof -
  obtain I where I: "attr_items h I" "\<And>e. L e = map (pair_of h) (I e)" "\<And>e. c_pairs (L e)" using assms unfolding attr_state_def by metis
  have "distinct (map (fst \<circ> pair_of h) (I e))" using I(2,3) c_pairs_items by metis
  from I(1) this show ?thesis
  proof (cases rule: find_attr_items [where n = n])
    case 1
    then have "map_of (L e) (c_str n) = None" using I(2) by (auto simp: map_of_eq_None_iff)
    with 1 show ?thesis by (simp add: XMLElement_Attribute_def XMLElement_FindAttribute_def)
  next
    case (2 as a bs x)
    have "pair_of h a = (c_str n, at_value x)" using 2(2,3) by (simp add: pair_of_def)
    moreover have "c_str n \<notin> fst ` set (map (pair_of h) as)" using 2(5) by auto
    ultimately have "map_of (L e) (c_str n) = Some (at_value x)" using I(2) 2(1) by (simp add: map_of_split del: map_of_append set_map)
    with 2 show ?thesis by (simp add: XMLElement_Attribute_def XMLElement_FindAttribute_def)
  qed
qed

lemma attr_count:
  assumes "attr_state h L" "finite E" "\<And>e. e \<notin> E \<Longrightarrow> L e = []"
  shows "currentAllocs (attributePool h) = int (\<Sum>e \<in> E. length (L e))"
proof -
  obtain I where I: "attr_items h I" "\<And>e. L e = map (pair_of h) (I e)" using assms(1) unfolding attr_state_def by metis
  have "I e = []" if "e \<notin> E" for e using assms(3) [OF that] I(2) by simp
  then have "a \<in> set (I e) \<Longrightarrow> e \<in> E" for a e by (cases "e \<in> E") simp_all
  then have "dom (attrs h) = (\<Union>e \<in> E. set (I e))" unfolding attr_itemsD(4) [OF I(1)] by blast
  moreover have "card (\<Union>e \<in> E. set (I e)) = (\<Sum>e \<in> E. card (set (I e)))"
    using attr_itemsD(3) [OF I(1)] assms(2) by (intro card_UN_disjoint) auto
  moreover have "card (set (I e)) = length (L e)" for e using distinct_card [OF attr_itemsD(2) [OF I(1)], of e] I(2) by simp
  ultimately have "card (dom (attrs h)) = (\<Sum>e \<in> E. length (L e))" by simp
  with attr_itemsD(5) [OF I(1)] show ?thesis by (auto simp: pool_rep_def)
qed

lemma attr_dom_empty: "attr_dom h {} \<Longrightarrow> currentAllocs (attributePool h) = 0 \<and> nUntracked (attributePool h) = 0"
proof -
  assume "attr_dom h {}"
  then obtain L where L: "attr_state h L" "\<And>e. L e = []" by (auto simp: attr_dom_def)
  then have "nUntracked (attributePool h) = 0" unfolding attr_state_def attr_items_def by blast
  with attr_count [OF L(1), of "{}"] L(2) show ?thesis by simp
qed

section \<open>Properties\<close>

datatype 'e attr_op = Set_Attr 'e string string | Del_Attr 'e string | Destroy_Attrs 'e

fun attr_step :: "'e attr_op \<Rightarrow> 'e attr_heap \<Rightarrow> 'e attr_heap option" where
  "attr_step (Set_Attr e n v) h = XMLElement_SetAttribute n v e h"
| "attr_step (Del_Attr e n) h = XMLElement_DeleteAttribute n e h"
| "attr_step (Destroy_Attrs e) h = DestroyAttributes e h"

fun attr_run :: "'e attr_op list \<Rightarrow> 'e attr_heap \<Rightarrow> 'e attr_heap option" where
  "attr_run [] h = Some h"
| "attr_run (c # cs) h = Option.bind (attr_step c h) (attr_run cs)"

fun pairs_step :: "'e attr_op \<Rightarrow> ('e \<Rightarrow> (string \<times> string) list) \<Rightarrow> 'e \<Rightarrow> (string \<times> string) list" where
  "pairs_step (Set_Attr e n v) L = L(e := set_pair (c_str n) (c_str v) (L e))"
| "pairs_step (Del_Attr e n) L = L(e := del_pair (c_str n) (L e))"
| "pairs_step (Destroy_Attrs e) L = L(e := [])"

lemma attr_step_state: "attr_state h L \<Longrightarrow> \<exists>h'. attr_step c h = Some h' \<and> attr_state h' (pairs_step c L)"
  using SetAttribute_state [of h L] DeleteAttribute_state [of h L] Destroy_state [of h L] by (cases c) (simp_all, metis)

lemma attr_run_state: "attr_state h L \<Longrightarrow> \<exists>h'. attr_run cs h = Some h' \<and> attr_state h' (fold pairs_step cs L)"
proof (induction cs arbitrary: h L)
  case (Cons c cs)
  obtain h1 where "attr_step c h = Some h1" "attr_state h1 (pairs_step c L)" using attr_step_state [OF Cons.prems] by blast
  with Cons.IH show ?case by simp
qed simp



end
