(* ===== verification/Xml_Nodes.thy ===== *)
theory Xml_Nodes
  imports Xml_Attributes
begin

text \<open>
  The nodes of a tinyxml2 document as the code links them (\<^verbatim>\<open>XMLNode\<close>, \<^verbatim>\<open>XMLDocument\<close>): parent,
  first and last child, previous and next sibling, the array of nodes that are in no tree, the
  pools the nodes come from, the value of each node with its dynamic type, and the attributes of
  \<open>Xml_Attributes\<close>. All nodes belong to one document, so the test for another document never
  refuses. \<open>None\<close> is a read or write through a pointer that is null or freed. The second part
  relates the links to a forest of child lists.
\<close>

section \<open>Links\<close>

datatype pool_kind = elementPool | textPool | commentPool

datatype addr = Doc | At pool_kind item

record dom_node =
  dn_parent :: "addr option"
  dn_firstChild :: "addr option"
  dn_lastChild :: "addr option"
  dn_prev :: "addr option"
  dn_next :: "addr option"

datatype node_val = V_Element string | V_Text bool string | V_Comment string | V_Declaration string | V_Unknown string

definition XMLNode_new :: dom_node where
  "XMLNode_new = \<lparr>dn_parent = None, dn_firstChild = None, dn_lastChild = None, dn_prev = None, dn_next = None\<rparr>"

record xml_dom =
  dn_heap :: "addr \<Rightarrow> dom_node option"
  unlinked :: "addr DynArray"
  pools :: "pool_kind \<Rightarrow> MemPoolT"
  vals :: "addr \<Rightarrow> node_val option"
  attributes :: "addr attr_heap"

definition XMLDocument_new :: xml_dom where
  "XMLDocument_new = \<lparr>dn_heap = [Doc \<mapsto> XMLNode_new], unlinked = DynArray_new 10, pools = (\<lambda>_. MemPoolT_new),
     vals = (\<lambda>_. None), attributes = attr_heap_new\<rparr>"

definition upd_node :: "addr \<Rightarrow> (dom_node \<Rightarrow> dom_node) \<Rightarrow> xml_dom \<Rightarrow> xml_dom option" where
  "upd_node a f st = (case dn_heap st a of None \<Rightarrow> None | Some n \<Rightarrow> Some (st\<lparr>dn_heap := (dn_heap st)(a \<mapsto> f n)\<rparr>))"

text \<open>An update behind the test that the pointer is not null.\<close>

definition upd_opt :: "addr option \<Rightarrow> (dom_node \<Rightarrow> dom_node) \<Rightarrow> xml_dom \<Rightarrow> xml_dom option" where
  "upd_opt ptr f st = (case ptr of None \<Rightarrow> Some st | Some a \<Rightarrow> upd_node a f st)"

definition upd_pool :: "addr \<Rightarrow> (item \<Rightarrow> MemPoolT \<Rightarrow> MemPoolT) \<Rightarrow> xml_dom \<Rightarrow> xml_dom" where
  "upd_pool a f st = (case a of Doc \<Rightarrow> st | At k i \<Rightarrow> st\<lparr>pools := (pools st)(k := f i (pools st k))\<rparr>)"

text \<open>A new object of a type, given as its empty value, from a pool.\<close>

definition CreateUnlinkedNode :: "(pool_kind \<Rightarrow> nat) \<Rightarrow> pool_kind \<Rightarrow> node_val \<Rightarrow> xml_dom \<Rightarrow> (addr \<times> xml_dom) option" where
  "CreateUnlinkedNode per_block k v st = do {
     (i, pool) \<leftarrow> Alloc (per_block k) (pools st k);
     us \<leftarrow> Push (At k i) (unlinked st);
     Some (At k i, st\<lparr>dn_heap := (dn_heap st)(At k i \<mapsto> XMLNode_new), unlinked := us, pools := (pools st)(k := pool),
       vals := (vals st)(At k i \<mapsto> v), attributes := (attributes st)\<lparr>rootAttribute := (rootAttribute (attributes st))(At k i := None)\<rparr>\<rparr>)
   }"

fun val_string :: "node_val \<Rightarrow> string" where
  "val_string (V_Element s) = s"
| "val_string (V_Text cdata s) = s"
| "val_string (V_Comment s) = s"
| "val_string (V_Declaration s) = s"
| "val_string (V_Unknown s) = s"

fun with_string :: "string \<Rightarrow> node_val \<Rightarrow> node_val" where
  "with_string s (V_Element _) = V_Element s"
| "with_string s (V_Text cdata _) = V_Text cdata s"
| "with_string s (V_Comment _) = V_Comment s"
| "with_string s (V_Declaration _) = V_Declaration s"
| "with_string s (V_Unknown _) = V_Unknown s"

definition XMLNode_SetValue :: "addr \<Rightarrow> string \<Rightarrow> xml_dom \<Rightarrow> xml_dom option" where
  "XMLNode_SetValue a str st = (if dn_heap st a = None then None
     else Some (st\<lparr>vals := (vals st)(a := map_option (with_string (c_str str)) (vals st a))\<rparr>))"

definition Unlink :: "addr \<Rightarrow> addr \<Rightarrow> xml_dom \<Rightarrow> xml_dom option" where
  "Unlink this child st = do {
     t \<leftarrow> dn_heap st this;
     c \<leftarrow> dn_heap st child;
     st \<leftarrow> if dn_firstChild t = Some child then upd_node this (\<lambda>n. n\<lparr>dn_firstChild := dn_next c\<rparr>) st else Some st;
     st \<leftarrow> if dn_lastChild t = Some child then upd_node this (\<lambda>n. n\<lparr>dn_lastChild := dn_prev c\<rparr>) st else Some st;
     st \<leftarrow> upd_opt (dn_prev c) (\<lambda>n. n\<lparr>dn_next := dn_next c\<rparr>) st;
     st \<leftarrow> upd_opt (dn_next c) (\<lambda>n. n\<lparr>dn_prev := dn_prev c\<rparr>) st;
     upd_node child (\<lambda>n. n\<lparr>dn_next := None, dn_prev := None, dn_parent := None\<rparr>) st
   }"

text \<open>The loop of \<^verbatim>\<open>MarkInUse\<close>: the first place from \<open>i\<close> on that holds the node.\<close>

fun find_unlinked :: "addr \<Rightarrow> nat \<Rightarrow> nat \<Rightarrow> addr DynArray \<Rightarrow> nat option" where
  "find_unlinked node i 0 us = None"
| "find_unlinked node i (Suc n) us = (if da_get i us = Some node then Some i else find_unlinked node (Suc i) n us)"

definition MarkInUse :: "addr \<Rightarrow> xml_dom \<Rightarrow> xml_dom option" where
  "MarkInUse node st = (case find_unlinked node 0 (da_size (unlinked st)) (unlinked st) of
     None \<Rightarrow> Some st
   | Some i \<Rightarrow> map_option (\<lambda>us. st\<lparr>unlinked := us\<rparr>) (SwapRemove i (unlinked st)))"

definition InsertChildPreamble :: "addr \<Rightarrow> xml_dom \<Rightarrow> xml_dom option" where
  "InsertChildPreamble insertThis st = do {
     n \<leftarrow> dn_heap st insertThis;
     (case dn_parent n of
        Some p \<Rightarrow> Unlink p insertThis st
      | None \<Rightarrow> map_option (upd_pool insertThis (\<lambda>_. SetTracked)) (MarkInUse insertThis st))
   }"

text \<open>The links of a new last child, first child, or next sibling.\<close>

definition link_end :: "addr \<Rightarrow> addr \<Rightarrow> xml_dom \<Rightarrow> xml_dom option" where
  "link_end this addThis st = do {
     t \<leftarrow> dn_heap st this;
     st \<leftarrow> (case dn_lastChild t of
         Some l \<Rightarrow> do {
           st \<leftarrow> upd_node l (\<lambda>n. n\<lparr>dn_next := Some addThis\<rparr>) st;
           st \<leftarrow> upd_node addThis (\<lambda>n. n\<lparr>dn_prev := Some l\<rparr>) st;
           st \<leftarrow> upd_node this (\<lambda>n. n\<lparr>dn_lastChild := Some addThis\<rparr>) st;
           upd_node addThis (\<lambda>n. n\<lparr>dn_next := None\<rparr>) st
         }
       | None \<Rightarrow> do {
           st \<leftarrow> upd_node this (\<lambda>n. n\<lparr>dn_firstChild := Some addThis, dn_lastChild := Some addThis\<rparr>) st;
           upd_node addThis (\<lambda>n. n\<lparr>dn_prev := None, dn_next := None\<rparr>) st
         });
     upd_node addThis (\<lambda>n. n\<lparr>dn_parent := Some this\<rparr>) st
   }"

definition link_front :: "addr \<Rightarrow> addr \<Rightarrow> xml_dom \<Rightarrow> xml_dom option" where
  "link_front this addThis st = do {
     t \<leftarrow> dn_heap st this;
     st \<leftarrow> (case dn_firstChild t of
         Some f \<Rightarrow> do {
           st \<leftarrow> upd_node f (\<lambda>n. n\<lparr>dn_prev := Some addThis\<rparr>) st;
           st \<leftarrow> upd_node addThis (\<lambda>n. n\<lparr>dn_next := Some f\<rparr>) st;
           st \<leftarrow> upd_node this (\<lambda>n. n\<lparr>dn_firstChild := Some addThis\<rparr>) st;
           upd_node addThis (\<lambda>n. n\<lparr>dn_prev := None\<rparr>) st
         }
       | None \<Rightarrow> do {
           st \<leftarrow> upd_node this (\<lambda>n. n\<lparr>dn_firstChild := Some addThis, dn_lastChild := Some addThis\<rparr>) st;
           upd_node addThis (\<lambda>n. n\<lparr>dn_prev := None, dn_next := None\<rparr>) st
         });
     upd_node addThis (\<lambda>n. n\<lparr>dn_parent := Some this\<rparr>) st
   }"

definition link_after :: "addr \<Rightarrow> addr \<Rightarrow> addr \<Rightarrow> xml_dom \<Rightarrow> xml_dom option" where
  "link_after this afterThis addThis st = do {
     st \<leftarrow> upd_node addThis (\<lambda>n. n\<lparr>dn_prev := Some afterThis\<rparr>) st;
     a \<leftarrow> dn_heap st afterThis;
     st \<leftarrow> upd_node addThis (\<lambda>n. n\<lparr>dn_next := dn_next a\<rparr>) st;
     q \<leftarrow> dn_next a;
     st \<leftarrow> upd_node q (\<lambda>n. n\<lparr>dn_prev := Some addThis\<rparr>) st;
     st \<leftarrow> upd_node afterThis (\<lambda>n. n\<lparr>dn_next := Some addThis\<rparr>) st;
     upd_node addThis (\<lambda>n. n\<lparr>dn_parent := Some this\<rparr>) st
   }"

definition InsertEndChild :: "addr \<Rightarrow> addr \<Rightarrow> xml_dom \<Rightarrow> xml_dom option" where
  "InsertEndChild this addThis st = do { st \<leftarrow> InsertChildPreamble addThis st; link_end this addThis st }"

definition InsertFirstChild :: "addr \<Rightarrow> addr \<Rightarrow> xml_dom \<Rightarrow> xml_dom option" where
  "InsertFirstChild this addThis st = do { st \<leftarrow> InsertChildPreamble addThis st; link_front this addThis st }"

text \<open>The result says whether the node was accepted.\<close>

definition InsertAfterChild :: "addr \<Rightarrow> addr \<Rightarrow> addr \<Rightarrow> xml_dom \<Rightarrow> (bool \<times> xml_dom) option" where
  "InsertAfterChild this afterThis addThis st = do {
     a \<leftarrow> dn_heap st afterThis;
     if dn_parent a \<noteq> Some this then Some (False, st)
     else if afterThis = addThis then Some (True, st)
     else if dn_next a = None then map_option (Pair True) (InsertEndChild this addThis st)
     else do {
       st \<leftarrow> InsertChildPreamble addThis st;
       map_option (Pair True) (link_after this afterThis addThis st)
     }
   }"

text \<open>
  The destructor of an element, which is empty where there is no attribute, as in all other
  nodes; the return of the item of a node. \<open>DeleteChildren\<close> holds the whole mutual recursion of
  \<^verbatim>\<open>DeleteChildren\<close>, \<^verbatim>\<open>DeleteChild\<close>, \<^verbatim>\<open>DeleteNode\<close> and \<^verbatim>\<open>~XMLNode\<close>; not returning is \<open>None\<close>.
\<close>

definition destroy_attributes :: "addr \<Rightarrow> xml_dom \<Rightarrow> xml_dom option" where
  "destroy_attributes a st = map_option (\<lambda>h. st\<lparr>attributes := h\<rparr>) (DestroyAttributes a (attributes st))"

definition free_node :: "addr \<Rightarrow> xml_dom \<Rightarrow> xml_dom option" where
  "free_node a st = (if dn_heap st a = None \<or> a = Doc then None
     else Some (upd_pool a Free (st\<lparr>dn_heap := (dn_heap st)(a := None)\<rparr>)))"

partial_function (option) DeleteChildren :: "addr \<Rightarrow> xml_dom \<Rightarrow> xml_dom option" where
  "DeleteChildren this st = do {
     t \<leftarrow> dn_heap st this;
     (case dn_firstChild t of
        None \<Rightarrow> upd_node this (\<lambda>n. n\<lparr>dn_firstChild := None, dn_lastChild := None\<rparr>) st
      | Some c \<Rightarrow> do {
          st \<leftarrow> Unlink this c st;
          st \<leftarrow> MarkInUse c st;
          st \<leftarrow> destroy_attributes c st;
          st \<leftarrow> DeleteChildren c st;
          st \<leftarrow> free_node c st;
          DeleteChildren this st
        })
   }"

declare DeleteChildren.simps [code]

definition destroy_node :: "addr \<Rightarrow> xml_dom \<Rightarrow> xml_dom option" where
  "destroy_node node st = do {
     st \<leftarrow> destroy_attributes node st;
     st \<leftarrow> DeleteChildren node st;
     n \<leftarrow> dn_heap st node;
     st \<leftarrow> (case dn_parent n of None \<Rightarrow> Some st | Some p \<Rightarrow> Unlink p node st);
     free_node node st
   }"

definition XMLNode_DeleteNode :: "addr \<Rightarrow> xml_dom \<Rightarrow> xml_dom option" where
  "XMLNode_DeleteNode node st = do { st \<leftarrow> MarkInUse node st; destroy_node node st }"

definition DeleteChild :: "addr \<Rightarrow> addr \<Rightarrow> xml_dom \<Rightarrow> xml_dom option" where
  "DeleteChild this node st = do { st \<leftarrow> Unlink this node st; XMLNode_DeleteNode node st }"

definition XMLDocument_DeleteNode :: "addr \<Rightarrow> xml_dom \<Rightarrow> xml_dom option" where
  "XMLDocument_DeleteNode node st = do {
     n \<leftarrow> dn_heap st node;
     (case dn_parent n of
        Some p \<Rightarrow> DeleteChild p node st
      | None \<Rightarrow> XMLNode_DeleteNode node (upd_pool node (\<lambda>_. SetTracked) st))
   }"

text \<open>\<^verbatim>\<open>Clear\<close>: the children of the document, then whatever is in no tree.\<close>

partial_function (option) delete_unlinked :: "xml_dom \<Rightarrow> xml_dom option" where
  "delete_unlinked st = (if da_size (unlinked st) = 0 then Some st
     else do {
       a \<leftarrow> da_get 0 (unlinked st);
       st \<leftarrow> XMLDocument_DeleteNode a st;
       delete_unlinked st
     })"

declare delete_unlinked.simps [code]

definition XMLDocument_Clear :: "xml_dom \<Rightarrow> xml_dom option" where
  "XMLDocument_Clear st = do { st \<leftarrow> DeleteChildren Doc st; delete_unlinked st }"

section \<open>Forests\<close>

text \<open>Neighbours in a list without repetitions.\<close>

fun nxt :: "'a list \<Rightarrow> 'a \<Rightarrow> 'a option" where
  "nxt (a # b # xs) x = (if x = a then Some b else nxt (b # xs) x)"
| "nxt _ x = None"

definition hdo :: "'a list \<Rightarrow> 'a option" where
  "hdo xs = (case xs of [] \<Rightarrow> None | x # _ \<Rightarrow> Some x)"

definition lasto :: "'a list \<Rightarrow> 'a option" where
  "lasto xs = hdo (rev xs)"

definition prv :: "'a list \<Rightarrow> 'a \<Rightarrow> 'a option" where
  "prv xs x = nxt (rev xs) x"

lemma hdo_simps [simp]: "hdo [] = None" "hdo (x # xs) = Some x" "hdo (as @ b # bs) = (if as = [] then Some b else hdo as)"
  by (simp_all add: hdo_def split: list.splits)

lemma hdo_append: "hdo (as @ bs) = (if as = [] then hdo bs else hdo as)"
  by (cases as) simp_all

lemma lasto_simps [simp]: "lasto [] = None" "lasto (as @ b # bs) = (if bs = [] then Some b else lasto bs)"
  by (simp_all add: lasto_def hdo_append)

lemma lasto_Cons [simp]: "lasto (b # bs) = (if bs = [] then Some b else lasto bs)"
  using lasto_simps(2) [of "[]" b bs] by simp

lemma lasto_append: "lasto (as @ bs) = (if bs = [] then lasto as else lasto bs)"
  by (simp add: lasto_def hdo_append)

lemma hdo_in: "hdo xs = Some x \<Longrightarrow> x \<in> set xs" and lasto_in: "lasto xs = Some x \<Longrightarrow> x \<in> set xs"
proof -
  have h: "hdo ys = Some y \<Longrightarrow> y \<in> set ys" for ys :: "'b list" and y by (cases ys) auto
  show "hdo xs = Some x \<Longrightarrow> x \<in> set xs" by (rule h)
  show "lasto xs = Some x \<Longrightarrow> x \<in> set xs" using h [of "rev xs" x] by (simp add: lasto_def)
qed

lemma nxt_notin: "x \<notin> set xs \<Longrightarrow> nxt xs x = None"
  by (induction xs x rule: nxt.induct) auto

lemma nxt_at: "x \<notin> set as \<Longrightarrow> nxt (as @ x # bs) x = hdo bs"
proof (induction as)
  case Nil
  then show ?case by (cases bs) simp_all
next
  case (Cons a as)
  then show ?case by (cases as) simp_all
qed

lemma nxt_last: "as \<noteq> [] \<Longrightarrow> distinct (as @ bs) \<Longrightarrow> lasto as = Some x \<Longrightarrow> nxt (as @ bs) x = hdo bs"
  using nxt_at [of x "butlast as" bs] by (cases as rule: rev_cases) auto

lemma nxt_insert:
  "distinct (as @ x # bs) \<Longrightarrow> y \<noteq> x \<Longrightarrow> nxt (as @ x # bs) y = (if lasto as = Some y then Some x else nxt (as @ bs) y)"
proof (induction as)
  case Nil
  then show ?case by (cases bs) (auto simp: nxt_notin)
next
  case (Cons a as)
  show ?case
  proof (cases as)
    case Nil
    then show ?thesis using Cons by (cases bs) (auto simp: lasto_def nxt_notin)
  next
    case (Cons b as')
    then have "lasto (a # as) = lasto as" using lasto_append [of "[a]" as] by simp
    then show ?thesis using Cons Cons.IH Cons.prems lasto_in [of as a] by auto
  qed
qed

lemma prv_at: "x \<notin> set bs \<Longrightarrow> prv (as @ x # bs) x = lasto as"
  by (simp add: prv_def lasto_def nxt_at)

lemma prv_first: "bs \<noteq> [] \<Longrightarrow> distinct (as @ bs) \<Longrightarrow> hdo bs = Some x \<Longrightarrow> prv (as @ bs) x = lasto as"
  unfolding prv_def rev_append by (subst nxt_last) (auto simp: lasto_def)

lemma prv_insert:
  assumes "distinct (as @ x # bs)" "y \<noteq> x"
  shows "prv (as @ x # bs) y = (if hdo bs = Some y then Some x else prv (as @ bs) y)"
proof -
  have "distinct (rev bs @ x # rev as)" using assms(1) by auto
  from nxt_insert [OF this assms(2)] show ?thesis by (simp add: prv_def lasto_def)
qed

text \<open>
  A forest gives every address the list of its children. A node has at most one parent, the
  document has none, and no node is below itself.
\<close>

type_synonym forest = "addr \<Rightarrow> addr list"

definition edges :: "forest \<Rightarrow> (addr \<times> addr) set" where
  "edges K = {(c, p). c \<in> set (K p)}"

definition is_forest :: "forest \<Rightarrow> addr set \<Rightarrow> bool" where
  "is_forest K A \<longleftrightarrow> finite A \<and> Doc \<in> A \<and> (\<forall>p. set (K p) \<subseteq> A - {Doc}) \<and> (\<forall>p. p \<notin> A \<longrightarrow> K p = []) \<and> (\<forall>p. distinct (K p)) \<and>
     (\<forall>p q c. c \<in> set (K p) \<longrightarrow> c \<in> set (K q) \<longrightarrow> p = q) \<and> wf (edges K)"

definition par :: "forest \<Rightarrow> addr \<Rightarrow> addr option" where
  "par K c = (if \<exists>p. c \<in> set (K p) then Some (THE p. c \<in> set (K p)) else None)"

definition node_of :: "forest \<Rightarrow> addr \<Rightarrow> dom_node" where
  "node_of K a = \<lparr>dn_parent = par K a, dn_firstChild = hdo (K a), dn_lastChild = lasto (K a),
     dn_prev = Option.bind (par K a) (\<lambda>p. prv (K p) a), dn_next = Option.bind (par K a) (\<lambda>p. nxt (K p) a)\<rparr>"

definition heap_of :: "forest \<Rightarrow> addr set \<Rightarrow> addr \<Rightarrow> dom_node option" where
  "heap_of K A a = (if a \<in> A then Some (node_of K a) else None)"

lemma par_in: "is_forest K A \<Longrightarrow> c \<in> set (K p) \<Longrightarrow> par K c = Some p"
  unfolding par_def is_forest_def by (auto intro!: the_equality)

lemma par_none: "par K c = None \<longleftrightarrow> (\<forall>p. c \<notin> set (K p))"
  by (simp add: par_def)

lemma par_some: "is_forest K A \<Longrightarrow> par K c = Some p \<longleftrightarrow> c \<in> set (K p)"
  by (metis option.inject par_in par_none not_None_eq)

lemma not_own_child: "is_forest K A \<Longrightarrow> p \<notin> set (K p)"
  by (auto simp: is_forest_def edges_def dest!: wf_not_refl [of _ p])

text \<open>Taking a node out of the list of its parent, and putting one in.\<close>

lemma forest_cut:
  assumes "is_forest K A" "K p = as @ c # bs"
  shows "is_forest (K(p := as @ bs)) A"
proof -
  have "edges (K(p := as @ bs)) \<subseteq> edges K" using assms(2) by (auto simp: edges_def split: if_splits)
  moreover have "distinct (as @ c # bs)" using assms by (metis is_forest_def)
  moreover have "set (as @ c # bs) \<subseteq> A - {Doc}" using assms by (metis is_forest_def)
  ultimately show ?thesis using assms unfolding is_forest_def by (auto intro: wf_subset simp: assms(2) split: if_splits)
qed

lemma forest_put:
  assumes "is_forest K A" "K p = as @ bs" "x \<in> A" "x \<noteq> Doc" "p \<in> A" "par K x = None" "(p, x) \<notin> (edges K)\<^sup>*"
  shows "is_forest (K(p := as @ x # bs)) A"
proof -
  have "edges (K(p := as @ x # bs)) = insert (x, p) (edges K)" using assms(2) by (auto simp: edges_def split: if_splits)
  then have "wf (edges (K(p := as @ x # bs)))" using assms(1,7) by (simp add: is_forest_def wf_insert)
  moreover have "distinct (as @ bs)" "set (as @ bs) \<subseteq> A - {Doc}" using assms by (metis is_forest_def)+
  moreover have "x \<notin> set (K q)" for q using assms(6) by (simp add: par_none)
  moreover from this [of p] have "x \<notin> set (as @ bs)" using assms(2) by simp
  ultimately show ?thesis using assms unfolding is_forest_def by (auto split: if_splits)
qed

lemma forest_mem: "is_forest K A \<Longrightarrow> c \<in> set (K p) \<Longrightarrow> c \<in> A \<and> c \<noteq> Doc \<and> p \<in> A"
  unfolding is_forest_def by (metis DiffE empty_iff empty_set insertI1 subsetD)

lemma forest_distinct: "is_forest K A \<Longrightarrow> distinct (K p)"
  by (simp add: is_forest_def)

lemma node_cut:
  assumes "is_forest K A" "K p = as @ c # bs"
  shows "node_of (K(p := as @ bs)) a = (if a = c then (node_of K c)\<lparr>dn_parent := None, dn_prev := None, dn_next := None\<rparr>
     else (node_of K a)\<lparr>dn_firstChild := (if a = p then hdo (as @ bs) else hdo (K a)), dn_lastChild := (if a = p then lasto (as @ bs) else lasto (K a)),
       dn_prev := (if hdo bs = Some a then lasto as else dn_prev (node_of K a)), dn_next := (if lasto as = Some a then hdo bs else dn_next (node_of K a))\<rparr>)"
proof -
  let ?K = "K(p := as @ bs)"
  have F: "is_forest ?K A" using assms by (rule forest_cut)
  have dist: "distinct (as @ c # bs)" using forest_distinct [OF assms(1), of p] assms(2) by simp
  have cp: "c \<noteq> p" using not_own_child [OF assms(1), of p] assms(2) by auto
  show ?thesis
  proof (cases "a = c")
    case True
    have "c \<in> set (K q) \<Longrightarrow> q = p" for q using par_in [OF assms(1), of c q] par_in [OF assms(1), of c p] assms(2) by simp
    then have "c \<notin> set (?K q)" for q using dist by auto
    then have "par ?K c = None" by (simp add: par_none)
    with True cp show ?thesis by (simp add: node_of_def)
  next
    case False
    have mem: "a \<in> set (?K q) \<longleftrightarrow> a \<in> set (K q)" for q using False assms(2) by auto
    then have par: "par ?K a = par K a" by (simp add: par_def)
    have near: "par K a = Some p" if "hdo bs = Some a \<or> lasto as = Some a"
      using that hdo_in [of bs a] lasto_in [of as a] assms by (auto intro!: par_in)
    show ?thesis
    proof (cases "par K a = Some p")
      case True
      then show ?thesis
        using False par nxt_insert [OF dist False] prv_insert [OF dist False] nxt_last [of as bs a] prv_first [of bs as a] dist assms(2)
        by (cases "as = []"; cases "bs = []") (auto simp: node_of_def)
    next
      case other: False
      then show ?thesis using False par near by (cases "par K a") (auto simp: node_of_def)
    qed
  qed
qed

lemma node_put:
  assumes "is_forest K A" "K p = as @ bs" "par K x = None" "x \<noteq> p" "is_forest (K(p := as @ x # bs)) A"
  shows "node_of (K(p := as @ x # bs)) a = (if a = x then (node_of K x)\<lparr>dn_parent := Some p, dn_prev := lasto as, dn_next := hdo bs\<rparr>
     else (node_of K a)\<lparr>dn_firstChild := (if a = p then hdo (as @ x # bs) else hdo (K a)), dn_lastChild := (if a = p then lasto (as @ x # bs) else lasto (K a)),
       dn_prev := (if hdo bs = Some a then Some x else dn_prev (node_of K a)), dn_next := (if lasto as = Some a then Some x else dn_next (node_of K a))\<rparr>)"
proof -
  let ?K = "K(p := as @ x # bs)"
  have dist: "distinct (as @ x # bs)" using forest_distinct [OF assms(5), of p] by simp
  show ?thesis
  proof (cases "a = x")
    case True
    have "par ?K x = Some p" by (rule par_in [OF assms(5)]) simp
    with True assms(4) dist show ?thesis by (simp add: node_of_def nxt_at prv_at)
  next
    case False
    have "a \<in> set (?K q) \<longleftrightarrow> a \<in> set (K q)" for q using False assms(2) by auto
    then have par: "par ?K a = par K a" by (simp add: par_def)
    have near: "par K a = Some p" if "hdo bs = Some a \<or> lasto as = Some a"
      using that hdo_in [of bs a] lasto_in [of as a] assms(1,2) by (auto intro!: par_in)
    show ?thesis
    proof (cases "par K a = Some p")
      case True
      then show ?thesis using False par nxt_insert [OF dist False] prv_insert [OF dist False] assms(2) by (auto simp: node_of_def)
    next
      case other: False
      then show ?thesis using False par near by (cases "par K a") (auto simp: node_of_def)
    qed
  qed
qed

section \<open>The operations on forests\<close>

text \<open>Updates as functions of the address, so that a sequence of them is one function.\<close>

definition mod_heap :: "(addr \<Rightarrow> bool) \<Rightarrow> (dom_node \<Rightarrow> dom_node) \<Rightarrow> xml_dom \<Rightarrow> xml_dom" where
  "mod_heap P f st = st\<lparr>dn_heap := (\<lambda>a. if P a then map_option f (dn_heap st a) else dn_heap st a)\<rparr>"

lemma mod_heap_alive [simp]: "dn_heap (mod_heap P f st) a = None \<longleftrightarrow> dn_heap st a = None"
  by (simp add: mod_heap_def)

lemma mod_heap_fields [simp]: "unlinked (mod_heap P f st) = unlinked st" "pools (mod_heap P f st) = pools st"
  "vals (mod_heap P f st) = vals st" "attributes (mod_heap P f st) = attributes st"
  by (simp_all add: mod_heap_def)

lemma mod_heap_at: "dn_heap (mod_heap P f st) a = (if P a then map_option f (dn_heap st a) else dn_heap st a)"
  by (simp add: mod_heap_def)

lemma dom_eqI: "unlinked s = unlinked t \<and> pools s = pools t \<and> vals s = vals t \<and> attributes s = attributes t \<Longrightarrow> (\<And>a. dn_heap s a = dn_heap t a) \<Longrightarrow> s = (t :: xml_dom)"
  by (simp add: fun_eq_iff)

lemma upd_node_mod: "dn_heap st a \<noteq> None \<Longrightarrow> upd_node a f st = Some (mod_heap (\<lambda>x. x = a) f st)"
  by (auto simp: upd_node_def mod_heap_def fun_upd_def intro!: arg_cong [where f = "\<lambda>h. st\<lparr>dn_heap := h\<rparr>"] ext)

lemma upd_if_mod: "dn_heap st a \<noteq> None \<Longrightarrow> (if b then upd_node a f st else Some st) = Some (mod_heap (\<lambda>x. b \<and> x = a) f st)"
  by (simp add: upd_node_mod, simp add: mod_heap_def)

lemma upd_opt_mod: "(\<And>q. w = Some q \<Longrightarrow> dn_heap st q \<noteq> None) \<Longrightarrow> upd_opt w f st = Some (mod_heap (\<lambda>x. w = Some x) f st)"
  by (cases w) (simp add: upd_opt_def mod_heap_def, simp add: upd_opt_def upd_node_mod eq_commute)

lemma node_of_fields [simp]: "dn_parent (node_of K a) = par K a" "dn_firstChild (node_of K a) = hdo (K a)" "dn_lastChild (node_of K a) = lasto (K a)"
  by (simp_all add: node_of_def)

lemma Unlink_forest:
  assumes "is_forest K A" "K p = as @ c # bs" "dn_heap st = heap_of K A"
  shows "Unlink p c st = Some (st\<lparr>dn_heap := heap_of (K(p := as @ bs)) A\<rparr>)"
proof -
  have dist: "distinct (as @ c # bs)" "p \<notin> set (as @ c # bs)" using forest_distinct [OF assms(1), of p] not_own_child [OF assms(1), of p] assms(2) by simp_all
  have alive: "p \<in> A" "c \<in> A" "\<And>x. x \<in> set as \<Longrightarrow> x \<in> A" "\<And>x. x \<in> set bs \<Longrightarrow> x \<in> A"
    using forest_mem [OF assms(1), of _ p] assms(2) by auto
  have par: "par K c = Some p" using assms(2) by (intro par_in [OF assms(1)]) simp
  have c: "dn_prev (node_of K c) = lasto as" "dn_next (node_of K c) = hdo bs"
    using dist par assms(2) by (simp_all add: node_of_def nxt_at prv_at)
  note cut = node_cut [OF assms(1,2)]
  have live: "dn_heap st x = None \<longleftrightarrow> x \<notin> A" for x by (simp add: assms(3) heap_of_def)
  have near: "lasto as = Some q \<Longrightarrow> q \<in> A" "hdo bs = Some q \<Longrightarrow> q \<in> A" for q using alive lasto_in hdo_in by metis+
  have nodes: "dn_heap st p = Some (node_of K p)" "dn_heap st c = Some (node_of K c)" using alive by (simp_all add: assms(3) heap_of_def)
  have "Unlink p c st = Some (mod_heap (\<lambda>x. x = c) (\<lambda>n. n\<lparr>dn_next := None, dn_prev := None, dn_parent := None\<rparr>)
      (mod_heap (\<lambda>x. hdo bs = Some x) (\<lambda>n. n\<lparr>dn_prev := lasto as\<rparr>) (mod_heap (\<lambda>x. lasto as = Some x) (\<lambda>n. n\<lparr>dn_next := hdo bs\<rparr>)
       (mod_heap (\<lambda>x. lasto (K p) = Some c \<and> x = p) (\<lambda>n. n\<lparr>dn_lastChild := lasto as\<rparr>)
        (mod_heap (\<lambda>x. hdo (K p) = Some c \<and> x = p) (\<lambda>n. n\<lparr>dn_firstChild := hdo bs\<rparr>) st)))))"
    using alive(1,2) near by (simp add: Unlink_def nodes c upd_if_mod upd_opt_mod upd_node_mod live)
  also have "\<dots> = Some (st\<lparr>dn_heap := heap_of (K(p := as @ bs)) A\<rparr>)"
  proof -
    have ends: "hdo bs \<noteq> Some p" "lasto as \<noteq> Some p" "hdo bs \<noteq> Some c" "lasto as \<noteq> Some c" using dist hdo_in lasto_in by fastforce+
    have first: "hdo (as @ bs) = (if hdo (K p) = Some c then hdo bs else hdo (K p))" using dist hdo_in [of as c] by (auto simp: assms(2) hdo_append)
    have last: "lasto (as @ bs) = (if lasto (K p) = Some c then lasto as else lasto (K p))" using dist lasto_in [of bs c] by (auto simp: assms(2) lasto_append)
    have "dn_heap (mod_heap (\<lambda>x. x = c) (\<lambda>n. n\<lparr>dn_next := None, dn_prev := None, dn_parent := None\<rparr>)
      (mod_heap (\<lambda>x. hdo bs = Some x) (\<lambda>n. n\<lparr>dn_prev := lasto as\<rparr>) (mod_heap (\<lambda>x. lasto as = Some x) (\<lambda>n. n\<lparr>dn_next := hdo bs\<rparr>)
       (mod_heap (\<lambda>x. lasto (K p) = Some c \<and> x = p) (\<lambda>n. n\<lparr>dn_lastChild := lasto as\<rparr>)
        (mod_heap (\<lambda>x. hdo (K p) = Some c \<and> x = p) (\<lambda>n. n\<lparr>dn_firstChild := hdo bs\<rparr>) st))))) a = heap_of (K(p := as @ bs)) A a" for a
      unfolding heap_of_def cut first last
      by (cases "a \<in> A"; cases "a = c"; cases "a = p") (use dist ends in \<open>simp_all add: mod_heap_def assms(3) heap_of_def node_of_def\<close>)
    then show ?thesis by (simp add: mod_heap_def)
  qed
  finally show ?thesis .
qed

text \<open>
  Putting a node that has no parent between two lists of siblings. What the three insertions
  write is the same up to the order of the writes.
\<close>

definition put_links :: "addr \<Rightarrow> addr list \<Rightarrow> addr list \<Rightarrow> addr \<Rightarrow> xml_dom \<Rightarrow> xml_dom" where
  "put_links p as bs x st =
     mod_heap (\<lambda>a. a = x) (\<lambda>n. n\<lparr>dn_parent := Some p, dn_prev := lasto as, dn_next := hdo bs\<rparr>)
      (mod_heap (\<lambda>a. hdo bs = Some a) (\<lambda>n. n\<lparr>dn_prev := Some x\<rparr>) (mod_heap (\<lambda>a. lasto as = Some a) (\<lambda>n. n\<lparr>dn_next := Some x\<rparr>)
       (mod_heap (\<lambda>a. as = [] \<and> a = p) (\<lambda>n. n\<lparr>dn_firstChild := Some x\<rparr>) (mod_heap (\<lambda>a. bs = [] \<and> a = p) (\<lambda>n. n\<lparr>dn_lastChild := Some x\<rparr>) st))))"

lemma put_links_forest:
  assumes "is_forest K A" "K p = as @ bs" "par K x = None" "x \<noteq> p" "x \<in> A" "is_forest (K(p := as @ x # bs)) A" "dn_heap st = heap_of K A"
  shows "put_links p as bs x st = st\<lparr>dn_heap := heap_of (K(p := as @ x # bs)) A\<rparr>"
proof -
  have "x \<notin> set (K p)" using assms(3) by (simp add: par_none)
  then have dist: "p \<notin> set (as @ bs)" "x \<notin> set (as @ bs)" using not_own_child [OF assms(1), of p] assms(2) by simp_all
  have ends: "hdo bs \<noteq> Some p" "lasto as \<noteq> Some p" "hdo bs \<noteq> Some x" "lasto as \<noteq> Some x" using dist hdo_in lasto_in by fastforce+
  have first: "hdo (as @ x # bs) = (if as = [] then Some x else hdo (K p))" by (simp add: assms(2) hdo_append)
  have last: "lasto (as @ x # bs) = (if bs = [] then Some x else lasto (K p))" by (simp add: assms(2) lasto_append)
  have "dn_heap (put_links p as bs x st) a = heap_of (K(p := as @ x # bs)) A a" for a
    unfolding heap_of_def node_put [OF assms(1-4,6)] first last put_links_def
    by (cases "a \<in> A"; cases "a = x"; cases "a = p")
       (use assms(4) ends in \<open>simp_all add: mod_heap_def assms(7) heap_of_def node_of_def\<close>)
  then show ?thesis by (simp add: put_links_def mod_heap_def)
qed

lemma put_links_fields [simp]: "unlinked (put_links p as bs x st) = unlinked st" "pools (put_links p as bs x st) = pools st"
  "vals (put_links p as bs x st) = vals st" "attributes (put_links p as bs x st) = attributes st"
  by (simp_all add: put_links_def)

lemma put_links_at:
  assumes "x \<noteq> p" "p \<notin> set (as @ bs)" "x \<notin> set (as @ bs)"
  shows "dn_heap (put_links p as bs x st) a =
    (if a = x then map_option (\<lambda>n. n\<lparr>dn_parent := Some p, dn_prev := lasto as, dn_next := hdo bs\<rparr>) (dn_heap st x)
     else map_option (\<lambda>n. n\<lparr>dn_firstChild := (if as = [] \<and> a = p then Some x else dn_firstChild n), dn_lastChild := (if bs = [] \<and> a = p then Some x else dn_lastChild n),
       dn_prev := (if hdo bs = Some a then Some x else dn_prev n), dn_next := (if lasto as = Some a then Some x else dn_next n)\<rparr>) (dn_heap st a))"
proof -
  have "hdo bs \<noteq> Some x" "lasto as \<noteq> Some x" "hdo bs \<noteq> Some p" "lasto as \<noteq> Some p" using assms hdo_in [of bs] lasto_in [of as] by auto
  with assms(1) show ?thesis by (cases "dn_heap st a"; cases "a = x"; cases "a = p") (simp_all add: put_links_def mod_heap_at)
qed

lemma link_end_put:
  assumes "dn_heap st = heap_of K A" "is_forest K A" "p \<in> A" "x \<in> A" "x \<noteq> p" "x \<notin> set (K p)"
  shows "link_end p x st = Some (put_links p (K p) [] x st)"
proof -
  have live: "dn_heap st a = None \<longleftrightarrow> a \<notin> A" for a by (simp add: assms(1) heap_of_def)
  have p: "dn_heap st p = Some (node_of K p)" using assms(1,3) by (simp add: heap_of_def)
  note at = put_links_at [OF assms(5), of "K p" "[]"]
  have np: "p \<notin> set (K p)" by (rule not_own_child [OF assms(2)])
  show ?thesis
  proof (cases "lasto (K p)")
    case None
    then have Kp: "K p = []" by (cases "K p" rule: rev_cases) auto
    then have "link_end p x st = Some (mod_heap (\<lambda>a. a = x) (\<lambda>n. n\<lparr>dn_parent := Some p\<rparr>)
        (mod_heap (\<lambda>a. a = x) (\<lambda>n. n\<lparr>dn_prev := None, dn_next := None\<rparr>)
          (mod_heap (\<lambda>a. a = p) (\<lambda>n. n\<lparr>dn_firstChild := Some x, dn_lastChild := Some x\<rparr>) st)))"
      using assms(3,4) p by (simp add: link_end_def upd_node_mod live)
    also have "\<dots> = Some (put_links p (K p) [] x st)"
      by (simp, rule dom_eqI, simp, use assms(5) Kp at in \<open>auto simp: mod_heap_at option.map_comp option.map_ident o_def intro!: option.map_cong\<close>)
    finally show ?thesis .
  next
    case (Some l)
    then have l: "l \<in> set (K p)" by (rule lasto_in)
    then have ne: "l \<in> A" "l \<noteq> p" "l \<noteq> x" "K p \<noteq> []" using forest_mem [OF assms(2)] np assms(6) by auto
    then have "link_end p x st = Some (mod_heap (\<lambda>a. a = x) (\<lambda>n. n\<lparr>dn_parent := Some p\<rparr>)
        (mod_heap (\<lambda>a. a = x) (\<lambda>n. n\<lparr>dn_next := None\<rparr>) (mod_heap (\<lambda>a. a = p) (\<lambda>n. n\<lparr>dn_lastChild := Some x\<rparr>)
          (mod_heap (\<lambda>a. a = x) (\<lambda>n. n\<lparr>dn_prev := Some l\<rparr>) (mod_heap (\<lambda>a. a = l) (\<lambda>n. n\<lparr>dn_next := Some x\<rparr>) st)))))"
      using assms(3,4) p Some by (simp add: link_end_def upd_node_mod live)
    also have "\<dots> = Some (put_links p (K p) [] x st)"
      by (simp, rule dom_eqI, simp, use assms(5,6) ne np Some at in \<open>auto simp: mod_heap_at option.map_comp option.map_ident o_def intro!: option.map_cong\<close>)
    finally show ?thesis .
  qed
qed

lemma link_front_put:
  assumes "dn_heap st = heap_of K A" "is_forest K A" "p \<in> A" "x \<in> A" "x \<noteq> p" "x \<notin> set (K p)"
  shows "link_front p x st = Some (put_links p [] (K p) x st)"
proof -
  have live: "dn_heap st a = None \<longleftrightarrow> a \<notin> A" for a by (simp add: assms(1) heap_of_def)
  have p: "dn_heap st p = Some (node_of K p)" using assms(1,3) by (simp add: heap_of_def)
  note at = put_links_at [OF assms(5), of "[]" "K p"]
  have np: "p \<notin> set (K p)" by (rule not_own_child [OF assms(2)])
  show ?thesis
  proof (cases "hdo (K p)")
    case None
    then have Kp: "K p = []" by (cases "K p") auto
    then have "link_front p x st = Some (mod_heap (\<lambda>a. a = x) (\<lambda>n. n\<lparr>dn_parent := Some p\<rparr>)
        (mod_heap (\<lambda>a. a = x) (\<lambda>n. n\<lparr>dn_prev := None, dn_next := None\<rparr>)
          (mod_heap (\<lambda>a. a = p) (\<lambda>n. n\<lparr>dn_firstChild := Some x, dn_lastChild := Some x\<rparr>) st)))"
      using assms(3,4) p by (simp add: link_front_def upd_node_mod live)
    also have "\<dots> = Some (put_links p [] (K p) x st)"
      by (simp, rule dom_eqI, simp, use assms(5) Kp at in \<open>auto simp: mod_heap_at option.map_comp option.map_ident o_def intro!: option.map_cong\<close>)
    finally show ?thesis .
  next
    case (Some f)
    then have f: "f \<in> set (K p)" by (rule hdo_in)
    then have ne: "f \<in> A" "f \<noteq> p" "f \<noteq> x" "K p \<noteq> []" using forest_mem [OF assms(2)] np assms(6) by auto
    then have "link_front p x st = Some (mod_heap (\<lambda>a. a = x) (\<lambda>n. n\<lparr>dn_parent := Some p\<rparr>)
        (mod_heap (\<lambda>a. a = x) (\<lambda>n. n\<lparr>dn_prev := None\<rparr>) (mod_heap (\<lambda>a. a = p) (\<lambda>n. n\<lparr>dn_firstChild := Some x\<rparr>)
          (mod_heap (\<lambda>a. a = x) (\<lambda>n. n\<lparr>dn_next := Some f\<rparr>) (mod_heap (\<lambda>a. a = f) (\<lambda>n. n\<lparr>dn_prev := Some x\<rparr>) st)))))"
      using assms(3,4) p Some by (simp add: link_front_def upd_node_mod live)
    also have "\<dots> = Some (put_links p [] (K p) x st)"
      by (simp, rule dom_eqI, simp, use assms(5,6) ne np Some at in \<open>auto simp: mod_heap_at option.map_comp option.map_ident o_def intro!: option.map_cong\<close>)
    finally show ?thesis .
  qed
qed

lemma link_after_put:
  assumes "dn_heap st = heap_of K A" "is_forest K A" "K p = as @ y # q # bs" "x \<in> A" "x \<noteq> p" "x \<notin> set (K p)"
  shows "link_after p y x st = Some (put_links p (as @ [y]) (q # bs) x st)"
proof -
  have live: "dn_heap st a = None \<longleftrightarrow> a \<notin> A" for a by (simp add: assms(1) heap_of_def)
  have np: "p \<notin> set (K p)" and d: "distinct (K p)" by (rule not_own_child [OF assms(2)], rule forest_distinct [OF assms(2)])
  have mem: "y \<in> A" "q \<in> A" using forest_mem [OF assms(2), of _ p] assms(3) by auto
  have ne: "y \<noteq> x" "q \<noteq> x" "y \<noteq> q" "y \<noteq> p" "q \<noteq> p" using assms(3,6) np d by auto
  have "par K y = Some p" using assms(3) by (intro par_in [OF assms(2)]) simp
  then have y: "dn_next (node_of K y) = Some q" using nxt_at [of y as "q # bs"] d assms(3) by (simp add: node_of_def)
  have yn: "dn_heap (mod_heap (\<lambda>a. a = x) f st) y = Some (node_of K y)" for f
    using mem ne assms(1) by (simp add: mod_heap_at heap_of_def)
  note at = put_links_at [OF assms(5), of "as @ [y]" "q # bs"]
  have "link_after p y x st = Some (mod_heap (\<lambda>a. a = x) (\<lambda>n. n\<lparr>dn_parent := Some p\<rparr>)
      (mod_heap (\<lambda>a. a = y) (\<lambda>n. n\<lparr>dn_next := Some x\<rparr>) (mod_heap (\<lambda>a. a = q) (\<lambda>n. n\<lparr>dn_prev := Some x\<rparr>)
        (mod_heap (\<lambda>a. a = x) (\<lambda>n. n\<lparr>dn_next := Some q\<rparr>) (mod_heap (\<lambda>a. a = x) (\<lambda>n. n\<lparr>dn_prev := Some y\<rparr>) st)))))"
    using mem assms(4) yn y by (simp add: link_after_def upd_node_mod live)
  also have "\<dots> = Some (put_links p (as @ [y]) (q # bs) x st)"
    by (simp, rule dom_eqI, simp, use assms(3,5,6) ne np at in \<open>auto simp: mod_heap_at option.map_comp option.map_ident o_def intro!: option.map_cong\<close>)
  finally show ?thesis .
qed

text \<open>The links are not all of a document: its values and attributes are left alone.\<close>

definition content :: "xml_dom \<Rightarrow> (addr \<Rightarrow> node_val option) \<times> addr attr_heap" where
  "content st = (vals st, attributes st)"

lemma content_simps [simp]: "content (st\<lparr>dn_heap := h\<rparr>) = content st" "content (st\<lparr>unlinked := u\<rparr>) = content st" "content (st\<lparr>pools := ps\<rparr>) = content st"
  by (simp_all add: content_def)

lemma content_upd_node: "upd_node a f st = Some st' \<Longrightarrow> content st' = content st"
  by (auto simp: upd_node_def split: option.splits)

lemma content_upd_opt: "upd_opt a f st = Some st' \<Longrightarrow> content st' = content st"
  by (auto simp: upd_opt_def dest: content_upd_node split: option.splits)

lemma content_upd_pool [simp]: "content (upd_pool a f st) = content st"
  by (simp add: upd_pool_def split: addr.splits)

lemmas content_updates = content_upd_node content_upd_opt

lemma content_Unlink: "Unlink p c st = Some st' \<Longrightarrow> content st' = content st"
  by (auto simp: Unlink_def bind_eq_Some_conv split: if_splits dest!: content_updates)

lemma content_MarkInUse: "MarkInUse a st = Some st' \<Longrightarrow> content st' = content st"
  by (auto simp: MarkInUse_def split: option.splits)

lemma content_Preamble: "InsertChildPreamble a st = Some st' \<Longrightarrow> content st' = content st"
  by (auto simp: InsertChildPreamble_def bind_eq_Some_conv dest: content_Unlink content_MarkInUse split: option.splits)

lemma content_InsertFirstChild: "InsertFirstChild p x st = Some st' \<Longrightarrow> content st' = content st"
  by (auto simp: InsertFirstChild_def link_front_def bind_eq_Some_conv dest!: content_updates content_Preamble split: option.splits)

lemma content_InsertEndChild: "InsertEndChild p x st = Some st' \<Longrightarrow> content st' = content st"
  by (auto simp: InsertEndChild_def link_end_def bind_eq_Some_conv dest!: content_updates content_Preamble split: option.splits)

lemma content_InsertAfterChild: "InsertAfterChild p y x st = Some (b, st') \<Longrightarrow> content st' = content st"
  by (auto simp: InsertAfterChild_def link_after_def bind_eq_Some_conv dest!: content_updates content_Preamble content_InsertEndChild split: if_splits)

end
