(* ===== verification/Xml_Tree.thy ===== *)
theory Xml_Tree
  imports Xml_Nodes
begin

text \<open>
  The operations of \<open>Xml_Nodes\<close> on a whole document: what its state stands for (a forest, the nodes
  in no tree, the items in use, the counters of the pools), that every operation keeps this and
  what it does to the forest, and that clearing a document frees everything.
\<close>

section \<open>The whole state\<close>

text \<open>
  What a state stands for: a forest over the living nodes, the nodes in no tree (all of them but
  those in \<open>X\<close>, which an operation has in hand) in the array, the living nodes as the items in use,
  the counters of the pools, and attributes of living nodes only.
\<close>

definition loose :: "forest \<Rightarrow> addr set \<Rightarrow> addr set" where
  "loose K A = {a \<in> A. a \<noteq> Doc \<and> par K a = None}"

definition in_pool :: "pool_kind \<Rightarrow> addr set \<Rightarrow> item set" where
  "in_pool k A = {i. At k i \<in> A}"

definition array_state :: "xml_dom \<Rightarrow> addr set \<Rightarrow> bool" where
  "array_state st U \<longleftrightarrow> (\<exists>us. da_rep (unlinked st) us \<and> distinct us \<and> set us = U)"

definition dom_state :: "(pool_kind \<Rightarrow> nat) \<Rightarrow> xml_dom \<Rightarrow> forest \<Rightarrow> addr set \<Rightarrow> addr set \<Rightarrow> bool" where
  "dom_state per st K A X \<longleftrightarrow> is_forest K A \<and> dn_heap st = heap_of K A \<and> array_state st (loose K A - X) \<and>
     attr_dom (attributes st) (A - {Doc}) \<and>
     (\<forall>k. pool_rep (per k) (pools st k) (in_pool k A) \<and> nUntracked (pools st k) = int (card (in_pool k (loose K A - X))))"

lemma in_pool_insert: "in_pool k (insert a A) = (case a of Doc \<Rightarrow> in_pool k A | At k' i \<Rightarrow> if k' = k then insert i (in_pool k A) else in_pool k A)"
  by (auto simp: in_pool_def split: addr.splits)

lemma in_pool_remove: "in_pool k (A - {a}) = (case a of Doc \<Rightarrow> in_pool k A | At k' i \<Rightarrow> if k' = k then in_pool k A - {i} else in_pool k A)"
  by (auto simp: in_pool_def split: addr.splits)

lemma in_pool_finite: "finite A \<Longrightarrow> finite (in_pool k A)"
  by (rule finite_subset [of _ "(\<lambda>a. case a of Doc \<Rightarrow> undefined | At k i \<Rightarrow> i) ` A"]) (force simp: in_pool_def image_iff split: addr.splits)+

lemma find_unlinked_some: "find_unlinked a i n d = Some j \<Longrightarrow> da_get j d = Some a"
  by (induction a i n d rule: find_unlinked.induct) (auto split: if_splits)

lemma find_unlinked_none: "find_unlinked a i n d = None \<Longrightarrow> i \<le> j \<Longrightarrow> j < i + n \<Longrightarrow> da_get j d \<noteq> Some a"
proof (induction a i n d rule: find_unlinked.induct)
  case (2 a i n d)
  then show ?case by (cases "j = i") (auto split: if_splits)
qed simp

lemma MarkInUse_state:
  assumes "array_state st U"
  shows "\<exists>d. MarkInUse a st = Some (st\<lparr>unlinked := d\<rparr>) \<and> array_state (st\<lparr>unlinked := d\<rparr>) (U - {a})"
proof -
  obtain us where us: "da_rep (unlinked st) us" "distinct us" "set us = U" using assms by (auto simp: array_state_def)
  have len: "da_size (unlinked st) = length us" using us(1) by (auto simp: da_rep_def)
  show ?thesis
  proof (cases "find_unlinked a 0 (da_size (unlinked st)) (unlinked st)")
    case None
    have "a \<notin> set us"
    proof
      assume "a \<in> set us"
      then obtain j where "j < length us" "us ! j = a" by (auto simp: in_set_conv_nth)
      with find_unlinked_none [OF None, of j] da.rep_get [OF us(1), of j] len show False by simp
    qed
    with None us show ?thesis by (intro exI [of _ "unlinked st"]) (auto simp: MarkInUse_def array_state_def)
  next
    case (Some j)
    then have "da_get j (unlinked st) = Some a" by (rule find_unlinked_some)
    then have j: "j < length us" "us ! j = a" using da.rep_get [OF us(1), of j] by (auto split: if_splits)
    obtain d us' where "SwapRemove j (unlinked st) = Some d" "da_rep d us'" "distinct us'" "set us' = set us - {us ! j}"
      using da.cut_distinct [OF us(1,2) j(1)] by blast
    with Some j us(3) show ?thesis by (auto simp: MarkInUse_def array_state_def)
  qed
qed

lemma array_state_cong [simp]: "array_state (st\<lparr>dn_heap := h\<rparr>) U = array_state st U" "array_state (st\<lparr>pools := ps\<rparr>) U = array_state st U"
  by (simp_all add: array_state_def)

lemma array_state_upd_pool [simp]: "array_state (upd_pool a f st) U = array_state st U" "dn_heap (upd_pool a f st) = dn_heap st"
  "attributes (upd_pool a f st) = attributes st"
  by (simp_all add: upd_pool_def split: addr.splits)

lemma array_state_put [simp]: "array_state (put_links p as bs x st) U = array_state st U"
  by (simp add: array_state_def)

text \<open>A node is taken in hand: off the array and counted.\<close>

lemma take_loose:
  assumes "dom_state per st K A X" "a \<in> loose K A" "a \<notin> X"
  shows "\<exists>st'. map_option (upd_pool a (\<lambda>_. SetTracked)) (MarkInUse a st) = Some st' \<and> dom_state per st' K A (insert a X)"
proof -
  let ?U = "loose K A - X"
  have st: "is_forest K A" "dn_heap st = heap_of K A" "array_state st ?U" "attr_dom (attributes st) (A - {Doc})" and fin: "finite A"
    and pool: "\<And>k. pool_rep (per k) (pools st k) (in_pool k A)" "\<And>k. nUntracked (pools st k) = int (card (in_pool k ?U))"
    using assms(1) by (auto simp: dom_state_def is_forest_def)
  obtain d where d: "MarkInUse a st = Some (st\<lparr>unlinked := d\<rparr>)" "array_state (st\<lparr>unlinked := d\<rparr>) (?U - {a})"
    using MarkInUse_state [OF st(3)] by blast
  obtain k i where a: "a = At k i" using assms(2) by (cases a) (auto simp: loose_def)
  have "finite ?U" using fin by (auto simp: loose_def)
  then have "finite (in_pool k ?U)" by (rule in_pool_finite)
  moreover have "i \<in> in_pool k ?U" using assms(2,3) a by (simp add: in_pool_def)
  ultimately have card: "int (card (in_pool k ?U - {i})) = int (card (in_pool k ?U)) - 1"
    using card_Suc_Diff1 [of "in_pool k ?U" i] by simp
  have eq: "loose K A - insert a X = ?U - {a}" by auto
  have "dom_state per (upd_pool a (\<lambda>_. SetTracked) (st\<lparr>unlinked := d\<rparr>)) K A (insert a X)"
    unfolding dom_state_def eq in_pool_remove using st d pool card
    by (auto simp: upd_pool_def a SetTracked_rep) (simp_all add: SetTracked_def)
  with d show ?thesis by simp
qed

text \<open>Detaching a node: it leaves the list of its parent, if it has one.\<close>

definition detach :: "addr \<Rightarrow> forest \<Rightarrow> forest" where
  "detach x K = (\<lambda>q. remove1 x (K q))"

lemma detach_none: "par K x = None \<Longrightarrow> detach x K = K"
  by (auto simp: detach_def par_none remove1_idem)

lemma detach_cut:
  assumes "is_forest K A" "K p = as @ x # bs"
  shows "detach x K = K(p := as @ bs)"
proof
  fix q
  have d: "distinct (as @ x # bs)" using forest_distinct [OF assms(1), of p] assms(2) by simp
  show "detach x K q = (K(p := as @ bs)) q"
  proof (cases "q = p")
    case True
    then show ?thesis using d assms(2) by (simp add: detach_def remove1_append)
  next
    case False
    have "x \<notin> set (K q)" using par_in [OF assms(1), of x q] par_in [OF assms(1), of x p] assms(2) False by auto
    then show ?thesis using False by (simp add: detach_def remove1_idem)
  qed
qed

lemma par_cases:
  assumes "is_forest K A"
  obtains "par K x = None" | p as bs where "par K x = Some p" "K p = as @ x # bs"
proof (cases "par K x")
  case (Some p)
  then show thesis using par_some [OF assms, of x p] that(2) by (auto dest: split_list)
qed (rule that(1))

lemma detach_forest: "is_forest K A \<Longrightarrow> is_forest (detach x K) A"
  by (rule par_cases [of K A x]) (auto simp: detach_none detach_cut intro: forest_cut)

lemma detach_free: "is_forest K A \<Longrightarrow> par (detach x K) x = None"
  using forest_distinct by (auto simp: par_none detach_def)

lemma detach_loose:
  assumes "is_forest K A" "x \<in> A" "x \<noteq> Doc"
  shows "loose (detach x K) A = insert x (loose K A)"
  using assms detach_free [OF assms(1)] by (auto simp: loose_def par_none detach_def)

lemma detach_edges: "edges (detach x K) \<subseteq> edges K"
  by (auto simp: edges_def detach_def dest: notin_set_remove1 set_remove1_subset [THEN subsetD])

lemma Unlink_state:
  assumes "dom_state per st K A X" "par K x = Some p"
  shows "\<exists>st'. Unlink p x st = Some st' \<and> dom_state per st' (detach x K) A (insert x X)"
proof -
  have st: "is_forest K A" "dn_heap st = heap_of K A" using assms(1) by (auto simp: dom_state_def)
  obtain as bs where K: "K p = as @ x # bs" using par_some [OF st(1), of x p] assms(2) by (auto dest: split_list)
  have x: "x \<in> A" "x \<noteq> Doc" "x \<notin> loose K A" using forest_mem [OF st(1), of x p] K assms(2) by (auto simp: loose_def)
  then have "loose (detach x K) A - insert x X = loose K A - X" using detach_loose [OF st(1) x(1,2)] by auto
  then show ?thesis using assms(1) Unlink_forest [OF st(1) K st(2)] forest_cut [OF st(1) K]
    by (simp add: dom_state_def detach_cut [OF st(1) K])
qed

lemma InsertChildPreamble_state:
  assumes "dom_state per st K A {}" "x \<in> A" "x \<noteq> Doc"
  shows "\<exists>st'. InsertChildPreamble x st = Some st' \<and> dom_state per st' (detach x K) A {x}"
proof -
  have n: "dn_heap st x = Some (node_of K x)" using assms(1,2) by (simp add: dom_state_def heap_of_def)
  show ?thesis
  proof (cases "par K x")
    case None
    then have "x \<in> loose K A" using assms by (simp add: loose_def)
    from take_loose [OF assms(1) this] None n show ?thesis by (simp add: InsertChildPreamble_def detach_none)
  next
    case (Some p)
    with Unlink_state [OF assms(1) Some] n show ?thesis by (simp add: InsertChildPreamble_def)
  qed
qed

lemma put_state:
  assumes "dom_state per st K A (insert x X)" "K p = as @ bs" "x \<in> A" "x \<noteq> Doc" "p \<in> A" "par K x = None" "(p, x) \<notin> (edges K)\<^sup>*" "x \<notin> X"
  shows "dom_state per (put_links p as bs x st) (K(p := as @ x # bs)) A X"
proof -
  have st: "is_forest K A" "dn_heap st = heap_of K A" using assms(1) by (auto simp: dom_state_def)
  have F: "is_forest (K(p := as @ x # bs)) A" using forest_put [OF st(1) assms(2-7)] .
  have "x \<noteq> p" using assms(7) by auto
  note heap = put_links_forest [OF st(1) assms(2,6) this assms(3) F st(2)]
  have "a \<noteq> x \<Longrightarrow> par (K(p := as @ x # bs)) a = par K a" for a
  proof -
    assume "a \<noteq> x"
    then have "a \<in> set ((K(p := as @ x # bs)) q) \<longleftrightarrow> a \<in> set (K q)" for q using assms(2) by simp
    then show ?thesis by (simp add: par_def)
  qed
  moreover have "par (K(p := as @ x # bs)) x = Some p" by (rule par_in [OF F]) simp
  ultimately have "par (K(p := as @ x # bs)) a = (if a = x then Some p else par K a)" for a by simp
  then have "loose (K(p := as @ x # bs)) A - X = loose K A - insert x X" by (auto simp: loose_def split: if_splits)
  then show ?thesis using assms(1) F heap by (simp add: dom_state_def)
qed

section \<open>Insertions\<close>

text \<open>A new parent is not the node or below it.\<close>

definition can_adopt :: "forest \<Rightarrow> addr set \<Rightarrow> addr \<Rightarrow> addr \<Rightarrow> bool" where
  "can_adopt K A p x \<longleftrightarrow> p \<in> A \<and> x \<in> A \<and> x \<noteq> Doc \<and> (p, x) \<notin> (edges K)\<^sup>*"

lemma adopt_detached:
  assumes "is_forest K A" "can_adopt K A p x"
  shows "(p, x) \<notin> (edges (detach x K))\<^sup>*" "x \<noteq> p" "x \<notin> set (detach x K p)"
  using assms rtrancl_mono [OF detach_edges, of x K] detach_free [OF assms(1), of x] by (auto simp: can_adopt_def par_none)

lemma insert_state:
  assumes "dom_state per st K A {}" "can_adopt K A p x" "detach x K p = as @ bs"
    and link: "\<And>st1. dn_heap st1 = heap_of (detach x K) A \<Longrightarrow> link st1 = Some (put_links p as bs x st1)"
  shows "\<exists>st'. Option.bind (InsertChildPreamble x st) link = Some st' \<and> dom_state per st' ((detach x K)(p := as @ x # bs)) A {}"
proof -
  have F: "is_forest K A" using assms(1) by (simp add: dom_state_def)
  have a: "p \<in> A" "x \<in> A" "x \<noteq> Doc" using assms(2) by (simp_all add: can_adopt_def)
  obtain st1 where st1: "InsertChildPreamble x st = Some st1" "dom_state per st1 (detach x K) A {x}"
    using InsertChildPreamble_state [OF assms(1) a(2,3)] by blast
  have "dom_state per (put_links p as bs x st1) ((detach x K)(p := as @ x # bs)) A {}"
    using put_state [OF st1(2) assms(3) a(2,3,1) detach_free [OF F] adopt_detached(1) [OF F assms(2)]] by simp
  with st1 link [of st1] show ?thesis by (simp add: dom_state_def)
qed

lemma InsertEndChild_state:
  assumes "dom_state per st K A {}" "can_adopt K A p x"
  shows "\<exists>st'. InsertEndChild p x st = Some st' \<and> dom_state per st' ((detach x K)(p := detach x K p @ [x])) A {}"
  unfolding InsertEndChild_def
proof (rule insert_state [OF assms])
  fix st1 :: xml_dom assume "dn_heap st1 = heap_of (detach x K) A"
  then show "link_end p x st1 = Some (put_links p (detach x K p) [] x st1)"
    using assms adopt_detached [of K A p x] by (intro link_end_put) (auto simp: dom_state_def can_adopt_def detach_forest)
qed simp

lemma InsertFirstChild_state:
  assumes "dom_state per st K A {}" "can_adopt K A p x"
  shows "\<exists>st'. InsertFirstChild p x st = Some st' \<and> dom_state per st' ((detach x K)(p := x # detach x K p)) A {}"
  unfolding InsertFirstChild_def
proof (rule insert_state [OF assms, of "[]", simplified])
  fix st1 :: xml_dom assume "dn_heap st1 = heap_of (detach x K) A"
  then show "link_front p x st1 = Some (put_links p [] (detach x K p) x st1)"
    using assms adopt_detached [of K A p x] by (intro link_front_put) (auto simp: dom_state_def can_adopt_def detach_forest)
qed simp

text \<open>
  An insertion after a sibling fails only where that sibling is followed by the node itself and
  nothing else: the node is taken out first, and then the code reads the sibling's successor,
  which is gone.
\<close>

lemma next_of:
  assumes "is_forest K A" "K p = as @ y # bs"
  shows "dn_next (node_of K y) = hdo bs" "par K y = Some p" "y \<in> A" "p \<in> A"
proof -
  have d: "distinct (K p)" by (rule forest_distinct [OF assms(1)])
  show par: "par K y = Some p" using assms(2) by (intro par_in [OF assms(1)]) simp
  show "dn_next (node_of K y) = hdo bs" using par d assms(2) by (simp add: node_of_def nxt_at)
  show "y \<in> A" "p \<in> A" using forest_mem [OF assms(1), of y p] assms(2) by simp_all
qed

lemma InsertAfterChild_state:
  assumes "dom_state per st K A {}" "can_adopt K A p x" "y \<noteq> x" "K p = as @ y # bs"
  shows "bs \<noteq> [x] \<Longrightarrow> \<exists>st'. InsertAfterChild p y x st = Some (True, st') \<and>
      dom_state per st' ((detach x K)(p := remove1 x as @ y # x # remove1 x bs)) A {}"
    and "bs = [x] \<Longrightarrow> InsertAfterChild p y x st = None"
proof -
  have F: "is_forest K A" and heap: "dn_heap st = heap_of K A" using assms(1) by (auto simp: dom_state_def)
  have y: "dn_heap st y = Some (node_of K y)" using next_of(3) [OF F assms(4)] heap by (simp add: heap_of_def)
  have d: "distinct (as @ y # bs)" using forest_distinct [OF F, of p] assms(4) by simp
  have Kp: "detach x K p = remove1 x as @ y # remove1 x bs"
  proof (cases "x \<in> set as")
    case True
    then have "x \<notin> set bs" using d by auto
    then show ?thesis using True assms(3,4) by (simp add: detach_def remove1_append remove1_idem)
  next
    case False
    then show ?thesis using assms(3,4) by (simp add: detach_def remove1_append remove1_idem)
  qed
  note adopt = adopt_detached [OF F assms(2)]
  show "\<exists>st'. InsertAfterChild p y x st = Some (True, st') \<and> dom_state per st' ((detach x K)(p := remove1 x as @ y # x # remove1 x bs)) A {}"
    if "bs \<noteq> [x]"
  proof (cases bs)
    case Nil
    with InsertEndChild_state [OF assms(1,2)] y next_of(1,2) [OF F assms(4)] assms(3) Kp show ?thesis
      by (auto simp: InsertAfterChild_def)
  next
    case (Cons q bs')
    have "remove1 x bs \<noteq> []" using that d Cons by auto
    then obtain q' bs'' where r: "remove1 x bs = q' # bs''" by (cases "remove1 x bs") auto
    have "\<exists>st'. Option.bind (InsertChildPreamble x st) (link_after p y x) = Some st' \<and>
        dom_state per st' ((detach x K)(p := (remove1 x as @ [y]) @ x # remove1 x bs)) A {}"
    proof (rule insert_state [OF assms(1,2)])
      show "detach x K p = (remove1 x as @ [y]) @ remove1 x bs" by (simp add: Kp)
      fix st1 :: xml_dom assume "dn_heap st1 = heap_of (detach x K) A"
      then show "link_after p y x st1 = Some (put_links p (remove1 x as @ [y]) (remove1 x bs) x st1)"
        unfolding r using assms(2) adopt Kp r by (intro link_after_put [where K = "detach x K" and A = A]) (auto simp: can_adopt_def intro: detach_forest [OF F])
    qed
    with y next_of(1,2) [OF F assms(4)] assms(3) Cons show ?thesis
      by (auto simp: InsertAfterChild_def Option.bind_eq_Some_conv)
  qed
  show "InsertAfterChild p y x st = None" if "bs = [x]"
  proof -
    have a: "x \<in> A" "x \<noteq> Doc" using assms(2) by (simp_all add: can_adopt_def)
    obtain st1 where st1: "InsertChildPreamble x st = Some st1" "dom_state per st1 (detach x K) A {x}"
      using InsertChildPreamble_state [OF assms(1) a] by blast
    have F1: "is_forest (detach x K) A" by (rule detach_forest [OF F])
    have "dn_next (node_of (detach x K) y) = None" using next_of(1) [OF F1 Kp] that by simp
    moreover have "dn_heap st1 = heap_of (detach x K) A" using st1(2) by (simp add: dom_state_def)
    ultimately have "link_after p y x st1 = None"
      using next_of(3) [OF F assms(4)] a assms(3) by (simp add: link_after_def upd_node_def heap_of_def)
    with y next_of(1,2) [OF F assms(4)] assms(3) that st1 show ?thesis by (simp add: InsertAfterChild_def)
  qed
qed

section \<open>Creation and deletion\<close>

lemma new_state: "dom_state per XMLDocument_new (\<lambda>_. []) {Doc} {}"
proof -
  have "is_forest (\<lambda>_. []) {Doc}" by (simp add: is_forest_def edges_def)
  moreover have "heap_of (\<lambda>_. []) {Doc} = [Doc \<mapsto> XMLNode_new]" by (rule ext) (simp add: heap_of_def node_of_def XMLNode_new_def par_none [THEN iffD2] hdo_def lasto_def)
  moreover have "loose (\<lambda>_. []) {Doc} = {}" "\<And>k. in_pool k {Doc} = {}" "\<And>k. in_pool k {} = {}" by (simp_all add: loose_def in_pool_def)
  moreover have "array_state XMLDocument_new {}" using DynArray_new_list [of 10] by (auto simp: array_state_def da_rep_def XMLDocument_new_def)
  ultimately show ?thesis by (simp add: dom_state_def) (simp add: XMLDocument_new_def pool_rep_new attr_dom_new, simp add: MemPoolT_new_def)
qed

lemma CreateUnlinkedNode_state:
  assumes "dom_state per st K A {}" "0 < per k" "card A < 2147483647 div 2"
  shows "\<exists>i st'. CreateUnlinkedNode per k v st = Some (At k i, st') \<and> At k i \<notin> A \<and> dom_state per st' K (insert (At k i) A) {} \<and>
    attributes st' = attributes st \<and> vals st' = (vals st)(At k i \<mapsto> v)"
proof -
  have st: "is_forest K A" "dn_heap st = heap_of K A" "array_state st (loose K A)" "attr_dom (attributes st) (A - {Doc})"
    and pool: "\<And>k. pool_rep (per k) (pools st k) (in_pool k A)" "\<And>k. nUntracked (pools st k) = int (card (in_pool k (loose K A)))"
    using assms(1) by (simp_all add: dom_state_def)
  obtain i q where q: "Alloc (per k) (pools st k) = Some (i, q)" "i \<notin> in_pool k A" "pool_rep (per k) q (insert i (in_pool k A))"
    "nUntracked q = nUntracked (pools st k) + 1" using Alloc_rep [OF pool(1) assms(2)] by blast
  obtain us where us: "da_rep (unlinked st) us" "distinct us" "set us = loose K A" using st(3) by (auto simp: array_state_def)
  have fin: "finite A" "finite (loose K A)" using st(1) by (auto simp: is_forest_def loose_def)
  have "length us \<le> card A" using distinct_card [OF us(2)] us(3) card_mono [OF fin(1), of "loose K A"] by (auto simp: loose_def)
  then obtain d where d: "Push (At k i) (unlinked st) = Some d" "da_rep d (us @ [At k i])" using da.rep_push [OF us(1), of "At k i"] assms(3) by auto
  let ?a = "At k i" and ?A = "insert (At k i) A"
  have a: "?a \<notin> A" using q(2) by (simp add: in_pool_def)
  have K: "K ?a = []" "par K ?a = None" using st(1) a by (auto simp: is_forest_def par_none)
  have F: "is_forest K ?A" using st(1) by (auto simp: is_forest_def)
  have heap: "(heap_of K A)(?a \<mapsto> XMLNode_new) = heap_of K ?A"
    using K by (auto simp: heap_of_def node_of_def XMLNode_new_def)
  have l: "loose K ?A = insert ?a (loose K A)" using K(2) by (auto simp: loose_def)
  have al: "?a \<notin> loose K A" using a by (simp add: loose_def)
  have root: "(attributes st)\<lparr>rootAttribute := (rootAttribute (attributes st))(?a := None)\<rparr> = attributes st"
    using attr_dom_out [OF st(4), of ?a] a by (simp add: fun_upd_idem)
  have ad: "attr_dom (attributes st) (?A - {Doc})" using st(4) by (rule attr_dom_mono) simp
  let ?st = "st\<lparr>dn_heap := (dn_heap st)(?a \<mapsto> XMLNode_new), unlinked := d, pools := (pools st)(k := q), vals := (vals st)(?a \<mapsto> v), attributes := attributes st\<rparr>"
  have "array_state ?st (loose K ?A)" using d(2) us(2,3) al by (auto simp: array_state_def l)
  moreover have "finite (in_pool k (loose K A))" "i \<notin> in_pool k (loose K A)" using fin(2) al by (auto simp: in_pool_finite) (simp add: in_pool_def)
  ultimately have "dom_state per ?st K ?A {}"
    unfolding dom_state_def Diff_empty l using F heap st(2) pool q(3,4) ad by (simp add: in_pool_insert)
  with q(1) d(1) a root show ?thesis by (simp add: CreateUnlinkedNode_def)
qed

lemma free_state:
  assumes "dom_state per st K A (insert x X)" "x \<in> A" "x \<noteq> Doc" "par K x = None" "K x = []" "x \<notin> X"
    and "rootAttribute (attributes st) x = None"
  shows "\<exists>st'. free_node x st = Some st' \<and> dom_state per st' K (A - {x}) X \<and> content st' = content st"
proof -
  have ad: "attr_dom (attributes st) (A - {x} - {Doc})" using assms(1,7) by (auto simp: dom_state_def intro: attr_dom_mono)
  have st: "is_forest K A" "dn_heap st = heap_of K A" using assms(1) by (simp_all add: dom_state_def)
  obtain k i where x: "x = At k i" using assms(3) by (cases x) auto
  have "is_forest K (A - {x})" using st(1) assms(3,4,5) by (auto simp: is_forest_def par_none)
  moreover have "(heap_of K A)(x := None) = heap_of K (A - {x})" by (auto simp: heap_of_def)
  moreover have "loose K (A - {x}) - X = loose K A - insert x X" by (auto simp: loose_def)
  moreover have "i \<in> in_pool k A" using assms(2) x by (simp add: in_pool_def)
  then have "pool_rep (per k') (((pools st)(k := Free i (pools st k))) k') (in_pool k' (A - {x}))" for k'
    unfolding in_pool_remove using assms(1) x Free_rep [of "per k" "pools st k" "in_pool k A" i] by (auto simp: dom_state_def)
  moreover have "nUntracked (((pools st)(k := Free i (pools st k))) k') = nUntracked (pools st k')" for k' by (simp add: Free_def)
  moreover have "dn_heap st x \<noteq> None" using st(2) assms(2) by (simp add: heap_of_def)
  ultimately show ?thesis using assms(1,3) st ad by (simp add: dom_state_def free_node_def upd_pool_def x content_def)
qed

lemma destroy_attributes_state:
  assumes "dom_state per st K A X"
  shows "\<exists>st'. destroy_attributes a st = Some st' \<and> dom_state per st' K A X \<and>
    rootAttribute (attributes st') = (rootAttribute (attributes st))(a := None) \<and> vals st' = vals st"
proof -
  have "attr_dom (attributes st) (A - {Doc})" using assms by (simp add: dom_state_def)
  from attr_dom_destroy [OF this, of a]
  obtain h where "DestroyAttributes a (attributes st) = Some h" "attr_dom h (A - {Doc})" "rootAttribute h = (rootAttribute (attributes st))(a := None)" by blast
  moreover have "array_state (st\<lparr>attributes := h\<rparr>) U = array_state st U" for U by (simp add: array_state_def)
  ultimately show ?thesis using assms by (simp add: destroy_attributes_def dom_state_def)
qed

text \<open>Everything below a node; what remains when that is gone.\<close>

definition below :: "forest \<Rightarrow> addr \<Rightarrow> addr set" where
  "below K a = {c. (c, a) \<in> (edges K)\<^sup>+}"

definition prune :: "addr \<Rightarrow> forest \<Rightarrow> forest" where
  "prune a K = (\<lambda>q. if q = a \<or> q \<in> below K a then [] else K q)"

lemma below_alive: "is_forest K A \<Longrightarrow> below K a \<subseteq> A - {Doc}"
proof
  fix c assume "is_forest K A" "c \<in> below K a"
  then obtain p where "c \<in> set (K p)" unfolding below_def by (auto elim: converse_tranclE simp: edges_def)
  with \<open>is_forest K A\<close> show "c \<in> A - {Doc}" using forest_mem by blast
qed

lemma below_finite: "is_forest K A \<Longrightarrow> finite (below K a)"
  using below_alive [of K A a] by (auto simp: is_forest_def intro: finite_subset)

lemma below_self: "is_forest K A \<Longrightarrow> a \<notin> below K a"
  by (auto simp: below_def is_forest_def dest: wf_trancl [THEN wf_not_refl])

lemma edges_single: "is_forest K A \<Longrightarrow> single_valued (edges K)"
  by (auto simp: single_valued_def edges_def is_forest_def)

text \<open>The nodes below a node, when its first child is cut off: those below it still, that child, and those below the child.\<close>

lemma below_cut:
  assumes "is_forest K A" "K a = c # bs"
  shows "below K a = below (K(a := bs)) a \<union> insert c (below (K(a := bs)) c)"
    and "c \<notin> below (K(a := bs)) a" and "below (K(a := bs)) a \<inter> below (K(a := bs)) c = {}" and "a \<notin> below (K(a := bs)) c"
proof -
  let ?r = "edges (K(a := bs))"
  have F1: "is_forest (K(a := bs)) A" using forest_cut [OF assms(1), of a "[]" c bs] assms(2) by simp
  have ins: "edges K = insert (c, a) ?r" using assms(2) by (auto simp: edges_def split: if_splits)
  have "wf (edges K)" using assms(1) by (simp add: is_forest_def)
  then have nac: "(a, c) \<notin> ?r\<^sup>*" by (simp add: ins wf_insert)
  then have ca: "c \<noteq> a" by auto
  show "below K a = below (K(a := bs)) a \<union> insert c (below (K(a := bs)) c)"
    by (auto simp: below_def ins trancl_insert rtrancl_eq_or_trancl)
  have "c \<noteq> q \<Longrightarrow> (c, q) \<notin> ?r\<^sup>*" for q
  proof
    assume "c \<noteq> q" "(c, q) \<in> ?r\<^sup>*"
    then obtain p where "c \<in> set ((K(a := bs)) p)" by (auto elim: converse_rtranclE simp: edges_def)
    moreover have "c \<notin> set bs" using forest_distinct [OF assms(1), of a] assms(2) by simp
    moreover have "c \<in> set (K p) \<Longrightarrow> p = a" using par_in [OF assms(1), of c p] par_in [OF assms(1), of c a] assms(2) by simp
    ultimately show False by (auto split: if_splits)
  qed
  then have nca: "(c, a) \<notin> ?r\<^sup>*" using ca by blast
  then show "c \<notin> below (K(a := bs)) a" by (auto simp: below_def dest: trancl_into_rtrancl)
  show "a \<notin> below (K(a := bs)) c" using nac by (auto simp: below_def dest: trancl_into_rtrancl)
  show "below (K(a := bs)) a \<inter> below (K(a := bs)) c = {}"
    using single_valued_confluent [OF edges_single [OF F1]] nac nca by (auto simp: below_def dest!: trancl_into_rtrancl)
qed

lemma prune_below:
  assumes "is_forest K A" "a \<noteq> c" "a \<notin> below K c" "c \<notin> below K a" "below K a \<inter> below K c = {}"
  shows "below (prune c K) a = below K a"
proof
  have "edges (prune c K) \<subseteq> edges K" by (auto simp: edges_def prune_def split: if_splits)
  then show "below (prune c K) a \<subseteq> below K a" by (auto simp: below_def intro: trancl_mono)
  show "below K a \<subseteq> below (prune c K) a"
  proof
    fix x assume "x \<in> below K a"
    then have "(x, a) \<in> (edges K)\<^sup>+" by (simp add: below_def)
    then have "(x, a) \<in> (edges (prune c K))\<^sup>+"
    proof (induction rule: converse_trancl_induct)
      case (base x)
      then show ?case using assms(2,3) by (auto simp: edges_def prune_def)
    next
      case (step x z)
      then have "z \<in> below K a" by (simp add: below_def)
      then have "z \<noteq> c" "z \<notin> below K c" using assms(4,5) by auto
      then have "(x, z) \<in> edges (prune c K)" using step(1) by (auto simp: edges_def prune_def)
      with step show ?case by (meson trancl_into_trancl2)
    qed
    then show "x \<in> below (prune c K) a" by (simp add: below_def)
  qed
qed

lemma prune_twice:
  assumes "is_forest K A" "K a = c # bs"
  shows "prune a (prune c (K(a := bs))) = prune a K" and "below (prune c (K(a := bs))) a = below (K(a := bs)) a"
proof -
  let ?K = "K(a := bs)"
  have F1: "is_forest ?K A" using forest_cut [OF assms(1), of a "[]" c bs] assms(2) by simp
  note cut = below_cut [OF assms]
  have "a \<noteq> c" using not_own_child [OF assms(1), of a] assms(2) by auto
  show b: "below (prune c ?K) a = below ?K a" using prune_below [OF F1 \<open>a \<noteq> c\<close> cut(4,2,3)] .
  show "prune a (prune c ?K) = prune a K" by (rule ext) (auto simp: prune_def [of a] b cut(1), auto simp: prune_def)
qed

lemma MarkInUse_in_hand:
  assumes "dom_state per st K A X" "a \<in> X"
  shows "\<exists>st'. MarkInUse a st = Some st' \<and> dom_state per st' K A X \<and> content st' = content st"
proof -
  have "loose K A - X - {a} = loose K A - X" using assms(2) by auto
  moreover obtain d where "MarkInUse a st = Some (st\<lparr>unlinked := d\<rparr>)" "array_state (st\<lparr>unlinked := d\<rparr>) (loose K A - X - {a})"
    using MarkInUse_state [of st "loose K A - X" a] assms(1) by (auto simp: dom_state_def)
  ultimately show ?thesis using assms(1) by (simp add: dom_state_def)
qed

lemma below_parent: "c \<in> below K a \<Longrightarrow> par K c \<noteq> None"
  unfolding below_def par_none by (auto elim: converse_tranclE simp: edges_def)

lemma prune_sub: "set (prune a K q) \<subseteq> set (K q)"
  by (simp add: prune_def)

lemma loose_prune:
  assumes "X \<subseteq> loose K A"
  shows "X \<subseteq> loose (prune a K) (A - below K a)"
  using assms prune_sub [of a K] below_parent [of _ K a] by (fastforce simp: loose_def par_none)

lemma prune_leaf: "K a = [] \<Longrightarrow> below K a = {} \<and> prune a K = K"
proof -
  assume "K a = []"
  then have "below K a = {}" unfolding below_def by (auto elim: tranclE simp: edges_def)
  with \<open>K a = []\<close> show ?thesis by (auto simp: prune_def)
qed

lemma DeleteChildren_state:
  "dom_state per st K A X \<Longrightarrow> a \<in> A \<Longrightarrow> X \<subseteq> loose K A \<Longrightarrow>
   \<exists>st'. DeleteChildren a st = Some st' \<and> dom_state per st' (prune a K) (A - below K a) X \<and>
     (\<forall>q. q \<notin> below K a \<longrightarrow> rootAttribute (attributes st') q = rootAttribute (attributes st) q) \<and> vals st' = vals st"
proof (induction "card (below K a)" arbitrary: st K A X a rule: less_induct)
  case less
  note st = less.prems(1)
  have F: "is_forest K A" and a: "dn_heap st a = Some (node_of K a)" using less.prems by (auto simp: dom_state_def heap_of_def)
  show ?case
  proof (cases "K a")
    case Nil
    have "upd_node a (\<lambda>n. n\<lparr>dn_firstChild := None, dn_lastChild := None\<rparr>) st = Some st"
      using a Nil less.prems(1) by (auto simp: upd_node_def node_of_def dom_state_def intro!: dom_eqI)
    with prune_leaf [of K a] Nil a st show ?thesis by (subst DeleteChildren.simps) simp
  next
    case (Cons c bs)
    let ?K = "K(a := bs)"
    have c: "par K c = Some a" "c \<in> A" "c \<noteq> Doc" "c \<noteq> a" using Cons F forest_mem [OF F, of c a] not_own_child [OF F, of a] by (auto intro!: par_in)
    have K1: "detach c K = ?K" using detach_cut [OF F, of a "[]"] Cons by simp
    obtain st1 where 1: "Unlink a c st = Some st1" "dom_state per st1 ?K A (insert c X)" using Unlink_state [OF st c(1)] K1 by auto
    have keep: "content st1 = content st" by (rule content_Unlink [OF 1(1)])
    obtain st2' where mk: "MarkInUse c st1 = Some st2'" "dom_state per st2' ?K A (insert c X)" "attributes st2' = attributes st" "vals st2' = vals st"
      using MarkInUse_in_hand [OF 1(2)] keep by (auto simp: content_def)
    obtain st2 where 2: "destroy_attributes c st2' = Some st2" "dom_state per st2 ?K A (insert c X)"
      "rootAttribute (attributes st2) = (rootAttribute (attributes st))(c := None)" "vals st2 = vals st"
      using destroy_attributes_state [OF mk(2), of c] mk(3,4) by auto
    have F1: "is_forest ?K A" using 1(2) by (simp add: dom_state_def)
    note cut = below_cut [OF F Cons] and twice = prune_twice [OF F Cons]
    have X: "c \<notin> X" "insert c X \<subseteq> loose ?K A" using less.prems(3) c detach_loose [OF F c(2,3)] K1 by (auto simp: loose_def)
    have "below ?K c \<subset> below K a" "below ?K a \<subset> below K a" using cut(1,2) below_self [OF F1, of c] by auto
    then have small: "card (below ?K c) < card (below K a)" "card (below ?K a) < card (below K a)"
      using below_finite [OF F, of a] by (auto intro: psubset_card_mono)
    obtain st3 where 3: "DeleteChildren c st2 = Some st3" "dom_state per st3 (prune c ?K) (A - below ?K c) (insert c X)"
      "\<And>q. q \<notin> below ?K c \<Longrightarrow> rootAttribute (attributes st3) q = ((rootAttribute (attributes st))(c := None)) q" "vals st3 = vals st"
      using less.hyps [OF small(1) 2(2) c(2) X(2)] 2(3,4) by force
    have "par (prune c ?K) c = None" using X(2) prune_sub [of c ?K] by (fastforce simp: loose_def par_none)
    moreover have "c \<in> A - below ?K c" "prune c ?K c = []" using c(2) below_self [OF F1] by (auto simp: prune_def)
    moreover have "rootAttribute (attributes st3) c = None" using 3(3) [of c] below_self [OF F1] by simp
    ultimately obtain st4 where 4: "free_node c st3 = Some st4" "dom_state per st4 (prune c ?K) (A - below ?K c - {c}) X" "attributes st4 = attributes st3" "vals st4 = vals st"
      using free_state [OF 3(2) _ c(3) _ _ X(1)] 3(4) unfolding content_def by force
    have "a \<in> A - below ?K c - {c}" using less.prems(2) cut(4) c(4) by auto
    moreover have "X \<subseteq> loose (prune c ?K) (A - below ?K c - {c})" using loose_prune [of X ?K A c] X by (auto simp: loose_def)
    ultimately obtain st5 where 5: "DeleteChildren a st4 = Some st5" "dom_state per st5 (prune a (prune c ?K)) (A - below ?K c - {c} - below (prune c ?K) a) X"
      "\<And>q. q \<notin> below ?K a \<Longrightarrow> rootAttribute (attributes st5) q = rootAttribute (attributes st3) q" "vals st5 = vals st"
      using less.hyps [of "prune c ?K" a, OF _ 4(2)] small(2) twice(2) 4(3,4) by auto
    have roots: "rootAttribute (attributes st5) q = rootAttribute (attributes st) q" if "q \<notin> below K a" for q
      using that 5(3) [of q] 3(3) [of q] cut(1) by auto
    have "A - below ?K c - {c} - below ?K a = A - below K a" using cut(1) by auto
    with 5 twice have "dom_state per st5 (prune a K) (A - below K a) X" by simp
    moreover have "DeleteChildren a st = Some st5" using a Cons 1(1) mk(1) 2(1) 3(1) 4(1) 5(1) by (subst DeleteChildren.simps) simp
    ultimately show ?thesis using roots 5(4) by blast
  qed
qed

lemma destroy_state:
  assumes "dom_state per st K A {x}" "x \<in> A" "x \<noteq> Doc" "par K x = None"
  shows "\<exists>st'. destroy_node x st = Some st' \<and> dom_state per st' (prune x K) (A - insert x (below K x)) {} \<and> vals st' = vals st"
proof -
  have F: "is_forest K A" using assms(1) by (simp add: dom_state_def)
  obtain st1 where 1: "destroy_attributes x st = Some st1" "dom_state per st1 K A {x}" "rootAttribute (attributes st1) x = None" "vals st1 = vals st"
    using destroy_attributes_state [OF assms(1), of x] by auto
  have "{x} \<subseteq> loose K A" using assms(2-4) by (simp add: loose_def)
  then obtain st2 where 2: "DeleteChildren x st1 = Some st2" "dom_state per st2 (prune x K) (A - below K x) {x}" "rootAttribute (attributes st2) x = None" "vals st2 = vals st"
    using DeleteChildren_state [OF 1(2) assms(2)] below_self [OF F] 1(3,4) by metis
  have x: "par (prune x K) x = None" "x \<in> A - below K x" "prune x K x = []"
    using assms(2,4) prune_sub [of x K] below_self [OF F] by (fastforce simp: par_none prune_def)+
  obtain st3 where 3: "free_node x st2 = Some st3" "dom_state per st3 (prune x K) (A - below K x - {x}) {}" "vals st3 = vals st"
    using free_state [OF 2(2) x(2) assms(3) x(1,3) _ 2(3)] 2(4) by (auto simp: content_def)
  have "dn_heap st2 x = Some (node_of (prune x K) x)" using 2(2) x(2) by (simp add: dom_state_def heap_of_def)
  then have "destroy_node x st = Some st3" using 1(1) 2(1) 3(1) x(1) by (simp add: destroy_node_def)
  moreover have "A - below K x - {x} = A - insert x (below K x)" by auto
  ultimately show ?thesis using 3(2,3) by auto
qed

lemma delete_in_hand:
  assumes "dom_state per st K A {x}" "x \<in> A" "x \<noteq> Doc" "par K x = None"
  shows "\<exists>st'. XMLNode_DeleteNode x st = Some st' \<and> dom_state per st' (prune x K) (A - insert x (below K x)) {} \<and> vals st' = vals st"
proof -
  obtain st1 where 1: "MarkInUse x st = Some st1" "dom_state per st1 K A {x}" "vals st1 = vals st" using MarkInUse_in_hand [OF assms(1)] by (auto simp: content_def)
  with destroy_state [OF 1(2) assms(2-4)] show ?thesis by (simp add: XMLNode_DeleteNode_def)
qed

lemma DeleteChild_state:
  assumes "dom_state per st K A {}" "x \<in> set (K p)"
  shows "\<exists>st'. DeleteChild p x st = Some st' \<and> dom_state per st' (prune x (detach x K)) (A - insert x (below (detach x K) x)) {} \<and> vals st' = vals st"
proof -
  have F: "is_forest K A" using assms(1) by (simp add: dom_state_def)
  have x: "par K x = Some p" "x \<in> A" "x \<noteq> Doc" using par_in [OF F assms(2)] forest_mem [OF F assms(2)] by auto
  obtain st1 where "Unlink p x st = Some st1" "dom_state per st1 (detach x K) A {x}" "vals st1 = vals st"
    using Unlink_state [OF assms(1) x(1)] content_Unlink [of p x st] unfolding content_def by fastforce
  with delete_in_hand [OF this(2) x(2,3) detach_free [OF F]] show ?thesis by (simp add: DeleteChild_def)
qed

lemma SetTracked_first: "MarkInUse a (upd_pool b f st) = map_option (upd_pool b f) (MarkInUse a st)"
  by (auto simp: MarkInUse_def upd_pool_def option.map_comp o_def split: addr.splits option.splits intro!: option.map_cong)

lemma XMLDocument_DeleteNode_loose:
  assumes "dom_state per st K A {}" "x \<in> loose K A"
  shows "\<exists>st'. XMLDocument_DeleteNode x st = Some st' \<and> dom_state per st' (prune x K) (A - insert x (below K x)) {} \<and> vals st' = vals st"
proof -
  have x: "x \<in> A" "x \<noteq> Doc" "par K x = None" using assms(2) by (auto simp: loose_def)
  have n: "dn_heap st x = Some (node_of K x)" using assms(1) x(1) by (simp add: dom_state_def heap_of_def)
  obtain st1 where 1: "MarkInUse x (upd_pool x (\<lambda>_. SetTracked) st) = Some st1" "dom_state per st1 K A {x}"
    using take_loose [OF assms] by (auto simp: SetTracked_first)
  moreover have "vals st1 = vals st" using content_MarkInUse [OF 1(1)] by (simp add: content_def upd_pool_def split: addr.splits)
  ultimately show ?thesis using destroy_state [OF 1(2) x] n x(3) by (auto simp: XMLDocument_DeleteNode_def XMLNode_DeleteNode_def)
qed

text \<open>With no child of the document and nothing outside a tree there is only the document.\<close>

lemma only_document:
  assumes "is_forest K A" "K Doc = []" "loose K A = {}"
  shows "A = {Doc}"
proof -
  have "edges K \<subseteq> A \<times> A" using forest_mem [OF assms(1)] unfolding edges_def by blast
  then have "finite (edges K)" using assms(1) by (auto simp: is_forest_def intro: finite_subset)
  moreover have "acyclic (edges K)" using assms(1) by (simp add: is_forest_def wf_acyclic)
  ultimately have "wf ((edges K)\<inverse>)" by (rule finite_acyclic_wf_converse)
  then have "a \<in> A \<longrightarrow> a = Doc" for a
  proof (induction a rule: wf_induct_rule)
    case (less a)
    show ?case
    proof (rule impI, rule ccontr)
      assume a: "a \<in> A" "a \<noteq> Doc"
      then obtain p where "a \<in> set (K p)" using assms(3) by (auto simp: loose_def par_none)
      then have "p \<in> A" "(p, a) \<in> (edges K)\<inverse>" using forest_mem [OF assms(1)] by (auto simp: edges_def)
      then have "p = Doc" using less by blast
      with \<open>a \<in> set (K p)\<close> assms(2) show False by simp
    qed
  qed
  then show ?thesis using assms(1) by (auto simp: is_forest_def)
qed

lemma delete_unlinked_state:
  "dom_state per st K A {} \<Longrightarrow> K Doc = [] \<Longrightarrow> \<exists>st' K'. delete_unlinked st = Some st' \<and> dom_state per st' K' {Doc} {} \<and> vals st' = vals st"
proof (induction "card A" arbitrary: st K A rule: less_induct)
  case less
  have F: "is_forest K A" using less.prems(1) by (simp add: dom_state_def)
  obtain us where us: "da_rep (unlinked st) us" "set us = loose K A" using less.prems(1) by (auto simp: dom_state_def array_state_def)
  have len: "da_size (unlinked st) = length us" using us(1) by (auto simp: da_rep_def)
  show ?case
  proof (cases us)
    case Nil
    then have "A = {Doc}" using only_document [OF F less.prems(2)] us(2) by simp
    with Nil len less.prems(1) show ?thesis by (subst delete_unlinked.simps) auto
  next
    case (Cons a us')
    then have a: "da_get 0 (unlinked st) = Some a" "a \<in> loose K A" using da.rep_get [OF us(1), of 0] us(2) by auto
    obtain st1 where 1: "XMLDocument_DeleteNode a st = Some st1" "dom_state per st1 (prune a K) (A - insert a (below K a)) {}" "vals st1 = vals st"
      using XMLDocument_DeleteNode_loose [OF less.prems(1) a(2)] by blast
    have "card (A - insert a (below K a)) < card A"
      using F a(2) by (intro psubset_card_mono) (auto simp: is_forest_def loose_def)
    moreover have "prune a K Doc = []" using less.prems(2) by (simp add: prune_def)
    ultimately obtain st' K' where "delete_unlinked st1 = Some st'" "dom_state per st' K' {Doc} {}" "vals st' = vals st" using less.hyps 1(2,3) by metis
    with 1(1) a(1) len Cons show ?thesis by (subst delete_unlinked.simps) auto
  qed
qed

lemma Clear_state:
  assumes "dom_state per st K A {}"
  shows "\<exists>st' K'. XMLDocument_Clear st = Some st' \<and> dom_state per st' K' {Doc} {} \<and> vals st' = vals st"
proof -
  have "Doc \<in> A" using assms by (simp add: dom_state_def is_forest_def)
  then obtain st1 where "DeleteChildren Doc st = Some st1" "dom_state per st1 (prune Doc K) (A - below K Doc) {}" "vals st1 = vals st"
    using DeleteChildren_state [OF assms] by blast
  with delete_unlinked_state [of per st1 "prune Doc K"] show ?thesis by (simp add: XMLDocument_Clear_def prune_def [of Doc])
qed

lemma empty_document:
  assumes "dom_state per st K {Doc} {}"
  shows "dn_heap st = [Doc \<mapsto> XMLNode_new]" "da_list (unlinked st) = []" "currentAllocs (pools st k) = 0" "nUntracked (pools st k) = 0"
    "currentAllocs (attributePool (attributes st)) = 0" "nUntracked (attributePool (attributes st)) = 0"
proof -
  show "currentAllocs (attributePool (attributes st)) = 0" "nUntracked (attributePool (attributes st)) = 0"
    using assms attr_dom_empty [of "attributes st"] by (simp_all add: dom_state_def)
  have F: "is_forest K {Doc}" using assms by (simp add: dom_state_def)
  have "K q = []" for q using F by (auto simp: is_forest_def)
  then have K: "K = (\<lambda>_. [])" by auto
  have "dn_heap st = heap_of K {Doc}" using assms by (simp add: dom_state_def)
  also have "\<dots> = [Doc \<mapsto> XMLNode_new]" unfolding K by (rule ext) (simp add: heap_of_def node_of_def XMLNode_new_def par_none [THEN iffD2])
  finally show "dn_heap st = [Doc \<mapsto> XMLNode_new]" .
  have "loose K {Doc} = {}" "in_pool k {Doc} = {}" "in_pool k {} = {}" by (auto simp: loose_def in_pool_def)
  moreover have "pool_rep (per k) (pools st k) (in_pool k {Doc})" "nUntracked (pools st k) = int (card (in_pool k (loose K {Doc})))"
    using assms by (simp_all add: dom_state_def)
  ultimately show "currentAllocs (pools st k) = 0" "nUntracked (pools st k) = 0" by (auto simp: pool_rep_def)
  show "da_list (unlinked st) = []" using assms \<open>loose K {Doc} = {}\<close> by (auto simp: dom_state_def array_state_def da_rep_def)
qed

section \<open>Properties\<close>

text \<open>
  What a program can do with a document: make nodes, set their values and attributes, hang a node
  anywhere but below itself, also one that hangs elsewhere already, and delete a child with all
  that is below it.
\<close>

inductive dom_run :: "(pool_kind \<Rightarrow> nat) \<Rightarrow> xml_dom \<Rightarrow> forest \<Rightarrow> addr set \<Rightarrow> bool" for per where
  run_new: "dom_run per XMLDocument_new (\<lambda>_. []) {Doc}"
| run_create: "dom_run per st K A \<Longrightarrow> card A < 2147483647 div 2 \<Longrightarrow> val_string v = [] \<Longrightarrow> CreateUnlinkedNode per k v st = Some (a, st') \<Longrightarrow> dom_run per st' K (insert a A)"
| run_value: "dom_run per st K A \<Longrightarrow> XMLNode_SetValue a str st = Some st' \<Longrightarrow> dom_run per st' K A"
| run_attribute: "dom_run per st K A \<Longrightarrow> a \<in> A \<Longrightarrow> a \<noteq> Doc \<Longrightarrow> XMLElement_SetAttribute n w a (attributes st) = Some h \<Longrightarrow> dom_run per (st\<lparr>attributes := h\<rparr>) K A"
| run_no_attribute: "dom_run per st K A \<Longrightarrow> XMLElement_DeleteAttribute n a (attributes st) = Some h \<Longrightarrow> dom_run per (st\<lparr>attributes := h\<rparr>) K A"
| run_end: "dom_run per st K A \<Longrightarrow> can_adopt K A p x \<Longrightarrow> InsertEndChild p x st = Some st' \<Longrightarrow>
    dom_run per st' ((detach x K)(p := detach x K p @ [x])) A"
| run_front: "dom_run per st K A \<Longrightarrow> can_adopt K A p x \<Longrightarrow> InsertFirstChild p x st = Some st' \<Longrightarrow>
    dom_run per st' ((detach x K)(p := x # detach x K p)) A"
| run_after: "dom_run per st K A \<Longrightarrow> can_adopt K A p x \<Longrightarrow> y \<noteq> x \<Longrightarrow> K p = as @ y # bs \<Longrightarrow> InsertAfterChild p y x st = Some (True, st') \<Longrightarrow>
    dom_run per st' ((detach x K)(p := remove1 x as @ y # x # remove1 x bs)) A"
| run_delete: "dom_run per st K A \<Longrightarrow> x \<in> set (K p) \<Longrightarrow> DeleteChild p x st = Some st' \<Longrightarrow>
    dom_run per st' (prune x (detach x K)) (A - insert x (below (detach x K) x))"

lemma SetValue_state: "dom_state per st K A X \<Longrightarrow> XMLNode_SetValue a str st = Some st' \<Longrightarrow> dom_state per st' K A X"
  by (auto simp: XMLNode_SetValue_def dom_state_def array_state_def split: if_splits)

lemma attributes_state: "dom_state per st K A X \<Longrightarrow> attr_dom h (A - {Doc}) \<Longrightarrow> dom_state per (st\<lparr>attributes := h\<rparr>) K A X"
  by (simp add: dom_state_def array_state_def)

lemma attr_dom_set: "attr_dom h A \<Longrightarrow> a \<in> A \<Longrightarrow> \<exists>h'. XMLElement_SetAttribute n w a h = Some h' \<and> attr_dom h' A"
  using SetAttribute_state [of h _ n w a] unfolding attr_dom_def by (metis fun_upd_apply)

lemma attr_dom_delete: "attr_dom h A \<Longrightarrow> \<exists>h'. XMLElement_DeleteAttribute n a h = Some h' \<and> attr_dom h' A"
proof -
  assume "attr_dom h A"
  then obtain L where L: "attr_state h L" "\<forall>e. L e \<noteq> [] \<longrightarrow> e \<in> A" by (auto simp: attr_dom_def)
  obtain h' where h': "XMLElement_DeleteAttribute n a h = Some h'" "attr_state h' (L(a := del_pair (c_str n) (L a)))" using DeleteAttribute_state [OF L(1)] by blast
  have "\<forall>e. (L(a := del_pair (c_str n) (L a))) e \<noteq> [] \<longrightarrow> e \<in> A" using L(2) by (auto simp: del_pair_def) (metis filter.simps(1))
  with h' show ?thesis unfolding attr_dom_def by blast
qed

lemma dom_run_state: "dom_run per st K A \<Longrightarrow> (\<And>k. 0 < per k) \<Longrightarrow> dom_state per st K A {}"
proof (induction rule: dom_run.induct)
  case run_new
  show ?case by (rule new_state)
next
  case (run_create st K A v k a st')
  then show ?case using CreateUnlinkedNode_state [of per st K A k v] by auto
next
  case (run_value st K A a str st')
  then show ?case by (blast intro: SetValue_state)
next
  case (run_attribute st K A a n w h)
  then show ?case using attr_dom_set [of "attributes st" "A - {Doc}" a n w] attributes_state [of per st K A "{}" h] by (auto simp: dom_state_def [of _ st])
next
  case (run_no_attribute st K A n a h)
  then show ?case using attr_dom_delete [of "attributes st" "A - {Doc}" n a] attributes_state [of per st K A "{}" h] by (auto simp: dom_state_def [of _ st])
next
  case (run_end st K A p x st')
  then show ?case using InsertEndChild_state [of per st K A p x] by (auto simp: fun_upd_def)
next
  case (run_front st K A p x st')
  then show ?case using InsertFirstChild_state [of per st K A p x] by (auto simp: fun_upd_def)
next
  case (run_after st K A p x y as bs st')
  then show ?case using InsertAfterChild_state [of per st K A p x y as bs] by (cases "bs = [x]") (auto simp: fun_upd_def)
next
  case (run_delete st K A x p st')
  then show ?case using DeleteChild_state [of per st K A x p] by auto
qed

text \<open>Every living node but the document has a value, which is a C string.\<close>

definition vals_ok :: "xml_dom \<Rightarrow> addr set \<Rightarrow> bool" where
  "vals_ok st A \<longleftrightarrow> vals st Doc = None \<and> (\<forall>a \<in> A - {Doc}. \<exists>v. vals st a = Some v \<and> c_str (val_string v) = val_string v)"

lemma val_with_string [simp]: "val_string (with_string s v) = s"
  by (cases v) simp_all

lemma vals_ok_content: "content st' = content st \<Longrightarrow> vals_ok st' A = vals_ok st A"
  by (simp add: vals_ok_def content_def)

lemma dom_run_vals: "dom_run per st K A \<Longrightarrow> (\<And>k. 0 < per k) \<Longrightarrow> vals_ok st A"
proof (induction rule: dom_run.induct)
  case run_new
  show ?case by (simp add: vals_ok_def XMLDocument_new_def)
next
  case (run_create st K A v k a st')
  from CreateUnlinkedNode_state [OF dom_run_state [OF run_create.hyps(1) run_create.prems] run_create.prems run_create.hyps(2), of k v] run_create.hyps(4)
  have "vals st' = (vals st)(a \<mapsto> v)" "a \<noteq> Doc" by auto
  then show ?case using run_create.IH [OF run_create.prems] run_create.hyps(3) by (auto simp: vals_ok_def c_str_def)
next
  case (run_value st K A a str st')
  then show ?case by (fastforce simp: vals_ok_def XMLNode_SetValue_def split: if_splits)
next
  case (run_delete st K A x p st')
  from DeleteChild_state [OF dom_run_state [OF run_delete.hyps(1) run_delete.prems] run_delete.hyps(2)] run_delete.hyps(3)
  have "vals st' = vals st" by auto
  then show ?case using run_delete.IH [OF run_delete.prems] by (auto simp: vals_ok_def)
next
  case (run_end st K A p x st')
  then show ?case using vals_ok_content [OF content_InsertEndChild] by blast
next
  case (run_front st K A p x st')
  then show ?case using vals_ok_content [OF content_InsertFirstChild] by blast
next
  case (run_after st K A p x y as bs st')
  then show ?case using vals_ok_content [OF content_InsertAfterChild] by blast
qed (simp_all add: vals_ok_def)

text \<open>C30: The links of the nodes are a forest of child lists, and the operations are list
  operations on it. Whatever a program has done to a document before, inserting a node at the
  end, at the front or after a sibling takes it out of the list it is in, if any, and puts it in
  its place, deleting a child removes it and all nodes below it, and every other list stays as
  it is; parents, siblings, first and last children agree with the lists again. The operations
  always succeed but for one case of the insertion after a sibling.\<close>

theorem node_operations_refine_forest:
  assumes "dom_run per st K A" "\<And>k. 0 < per k"
  shows "dn_heap st = heap_of K A \<and>
    (can_adopt K A p x \<longrightarrow> (\<exists>st'. InsertEndChild p x st = Some st' \<and> dn_heap st' = heap_of ((detach x K)(p := detach x K p @ [x])) A)) \<and>
    (can_adopt K A p x \<longrightarrow> (\<exists>st'. InsertFirstChild p x st = Some st' \<and> dn_heap st' = heap_of ((detach x K)(p := x # detach x K p)) A)) \<and>
    (can_adopt K A p x \<longrightarrow> y \<noteq> x \<longrightarrow> K p = as @ y # bs \<longrightarrow> bs \<noteq> [x] \<longrightarrow> (\<exists>st'. InsertAfterChild p y x st = Some (True, st') \<and>
       dn_heap st' = heap_of ((detach x K)(p := remove1 x as @ y # x # remove1 x bs)) A)) \<and>
    (x \<in> set (K p) \<longrightarrow> (\<exists>st'. DeleteChild p x st = Some st' \<and> dn_heap st' = heap_of (prune x (detach x K)) (A - insert x (below (detach x K) x))))"
proof -
  have st: "dom_state per st K A {}" using assms by (rule dom_run_state)
  show ?thesis
    using st InsertEndChild_state [OF st] InsertFirstChild_state [OF st] InsertAfterChild_state(1) [OF st] DeleteChild_state [OF st]
    unfolding dom_state_def by meson
qed

text \<open>A document with two children, made by calls.\<close>

lemma two_children: "\<exists>st a b. dom_run (\<lambda>_. 4) st ((\<lambda>_. [])(Doc := [a, b])) {b, a, Doc} \<and> a \<noteq> b \<and> Doc \<noteq> a \<and> Doc \<noteq> b"
proof -
  let ?per = "\<lambda>_ :: pool_kind. 4 :: nat" and ?E = "\<lambda>_ :: addr. [] :: addr list"
  obtain i st1 where 1: "CreateUnlinkedNode ?per elementPool (V_Element []) XMLDocument_new = Some (At elementPool i, st1)"
    using CreateUnlinkedNode_state [OF new_state, of ?per elementPool "V_Element []"] by auto
  have r1: "dom_run ?per st1 ?E {At elementPool i, Doc}" by (rule run_create [OF run_new _ _ 1]) simp_all
  obtain j st2 where 2: "CreateUnlinkedNode ?per elementPool (V_Element []) st1 = Some (At elementPool j, st2)" "At elementPool j \<notin> {At elementPool i, Doc}"
    using CreateUnlinkedNode_state [OF dom_run_state [OF r1], of elementPool "V_Element []"] by auto
  let ?a = "At elementPool i" and ?b = "At elementPool j"
  have r2: "dom_run ?per st2 ?E {?b, ?a, Doc}" by (rule run_create [OF r1 _ _ 2(1)]) simp_all
  have d: "detach x ?E = ?E" for x by (simp add: detach_def)
  have a: "can_adopt ?E {?b, ?a, Doc} Doc ?a" by (auto simp: can_adopt_def edges_def)
  obtain st3 where 3: "InsertEndChild Doc ?a st2 = Some st3" using InsertEndChild_state [OF dom_run_state [OF r2] a] by auto
  from run_end [OF r2 a 3] have r3: "dom_run ?per st3 (?E(Doc := [?a])) {?b, ?a, Doc}" by (simp add: d)
  have "edges (?E(Doc := [?a])) = {(?a, Doc)}" by (auto simp: edges_def split: if_splits)
  then have b: "can_adopt (?E(Doc := [?a])) {?b, ?a, Doc} Doc ?b" by (auto simp: can_adopt_def elim: converse_rtranclE)
  obtain st4 where 4: "InsertEndChild Doc ?b st3 = Some st4" using InsertEndChild_state [OF dom_run_state [OF r3] b] by auto
  have "detach ?b (?E(Doc := [?a])) = ?E(Doc := [?a])" using 2(2) by (auto simp: detach_def)
  with run_end [OF r3 b 4] have "dom_run ?per st4 (?E(Doc := [?a, ?b])) {?b, ?a, Doc}" by simp
  with 2(2) show ?thesis by (intro exI [of _ st4] exI [of _ ?a] exI [of _ ?b]) auto
qed

lemma two_children_adopt:
  assumes "a \<noteq> b" "Doc \<noteq> a" "Doc \<noteq> b"
  shows "can_adopt ((\<lambda>_. [])(Doc := [a, b])) {b, a, Doc} Doc b" "detach b ((\<lambda>_. [])(Doc := [a, b])) = (\<lambda>_. [])(Doc := [a])"
proof -
  have "edges ((\<lambda>_. [])(Doc := [a, b])) = {(a, Doc), (b, Doc)}" by (auto simp: edges_def split: if_splits)
  then show "can_adopt ((\<lambda>_. [])(Doc := [a, b])) {b, a, Doc} Doc b" using assms by (auto simp: can_adopt_def elim: converse_rtranclE)
  show "detach b ((\<lambda>_. [])(Doc := [a, b])) = (\<lambda>_. [])(Doc := [a])" using assms by (auto simp: detach_def)
qed

theorem node_operations_refine_forest_witness:
  "\<exists>st st' a b. dom_run (\<lambda>_. 4) st ((\<lambda>_. [])(Doc := [a, b])) {b, a, Doc} \<and> InsertFirstChild Doc b st = Some st' \<and>
     dn_heap st' = heap_of ((\<lambda>_. [])(Doc := [b, a])) {b, a, Doc}"
proof -
  obtain st a b where run: "dom_run (\<lambda>_. 4) st ((\<lambda>_. [])(Doc := [a, b])) {b, a, Doc}" and ne: "a \<noteq> b" "Doc \<noteq> a" "Doc \<noteq> b"
    using two_children by blast
  have "\<exists>st'. InsertFirstChild Doc b st = Some st' \<and> dn_heap st' = heap_of ((\<lambda>_. [])(Doc := [b, a])) {b, a, Doc}"
    using node_operations_refine_forest [OF run, of Doc b a "[]" "[b]"] two_children_adopt [OF ne] by simp
  with run show ?thesis by blast
qed



text \<open>The one case in which an insertion goes wrong. If a program moves the last child of a node
  behind the child it already stands behind, InsertAfterChild takes it out first and then writes
  through the successor of that sibling, which is null now: the process crashes on a call that
  asks for no change.\<close>

lemma InsertAfterChild_null:
  assumes "dom_run per st K A" "\<And>k. 0 < per k" "K p = as @ [y, x]" "can_adopt K A p x" "y \<noteq> x"
  shows "InsertAfterChild p y x st = None"
  using InsertAfterChild_state(2) [OF dom_run_state [OF assms(1,2)] assms(4,5), of as "[x]"] assms(3) by simp

theorem InsertAfterChild_null_witness:
  "\<exists>st K A a b. dom_run (\<lambda>_. 4) st K A \<and> K Doc = [a, b] \<and> InsertAfterChild Doc a b st = None"
proof -
  obtain st a b where run: "dom_run (\<lambda>_. 4) st ((\<lambda>_. [])(Doc := [a, b])) {b, a, Doc}" and ne: "a \<noteq> b" "Doc \<noteq> a" "Doc \<noteq> b"
    using two_children by blast
  have "InsertAfterChild Doc a b st = None" using InsertAfterChild_null [OF run _ _ two_children_adopt(1) [OF ne] ne(1), of "[]"] by simp
  with run show ?thesis by (intro exI [of _ st] exI [of _ "(\<lambda>_. [])(Doc := [a, b])"] exI [of _ "{b, a, Doc}"] exI [of _ a] exI [of _ b]) simp
qed

end
