(* ===== verification/Xml_Clone.thy ===== *)
theory Xml_Clone
  imports Xml_Tree
begin

text \<open>
  Making nodes with values, comparing and cloning nodes, and copying a document into another one
  (\<^verbatim>\<open>NewElement\<close> and its companions, \<^verbatim>\<open>ShallowEqual\<close>, \<^verbatim>\<open>ShallowClone\<close>, \<^verbatim>\<open>DeepClone\<close>, \<^verbatim>\<open>DeepCopy\<close>,
  the text of an element), on the documents of \<open>Xml_Nodes\<close>. A clone goes from one document, which
  is only read, into another one.
\<close>

section \<open>Operations\<close>

definition new_node :: "(pool_kind \<Rightarrow> nat) \<Rightarrow> pool_kind \<Rightarrow> node_val \<Rightarrow> string \<Rightarrow> xml_dom \<Rightarrow> (addr \<times> xml_dom) option" where
  "new_node per k v str st = do {
     (a, st) \<leftarrow> CreateUnlinkedNode per k v st;
     st \<leftarrow> XMLNode_SetValue a str st;
     Some (a, st)
   }"

definition NewElement :: "(pool_kind \<Rightarrow> nat) \<Rightarrow> string \<Rightarrow> xml_dom \<Rightarrow> (addr \<times> xml_dom) option" where
  "NewElement per name st = new_node per elementPool (V_Element []) name st"

definition NewComment :: "(pool_kind \<Rightarrow> nat) \<Rightarrow> string \<Rightarrow> xml_dom \<Rightarrow> (addr \<times> xml_dom) option" where
  "NewComment per str st = new_node per commentPool (V_Comment []) str st"

definition NewText :: "(pool_kind \<Rightarrow> nat) \<Rightarrow> string \<Rightarrow> xml_dom \<Rightarrow> (addr \<times> xml_dom) option" where
  "NewText per str st = new_node per textPool (V_Text False []) str st"

text \<open>A null pointer stands for the usual declaration.\<close>

definition NewDeclaration :: "(pool_kind \<Rightarrow> nat) \<Rightarrow> string option \<Rightarrow> xml_dom \<Rightarrow> (addr \<times> xml_dom) option" where
  "NewDeclaration per str st = new_node per commentPool (V_Declaration [])
     (case str of Some s \<Rightarrow> s | None \<Rightarrow> ''xml version='' @ [CHR 0x22] @ ''1.0'' @ [CHR 0x22] @ '' encoding='' @ [CHR 0x22] @ ''UTF-8'' @ [CHR 0x22]) st"

definition NewUnknown :: "(pool_kind \<Rightarrow> nat) \<Rightarrow> string \<Rightarrow> xml_dom \<Rightarrow> (addr \<times> xml_dom) option" where
  "NewUnknown per str st = new_node per commentPool (V_Unknown []) str st"

definition SetCData :: "addr \<Rightarrow> bool \<Rightarrow> xml_dom \<Rightarrow> xml_dom option" where
  "SetCData a isCData st = (case vals st a of
     Some (V_Text _ s) \<Rightarrow> Some (st\<lparr>vals := (vals st)(a \<mapsto> V_Text isCData s)\<rparr>)
   | _ \<Rightarrow> None)"

text \<open>The text of an element is that of its first child, if it is a text.\<close>

definition first_text :: "addr \<Rightarrow> xml_dom \<Rightarrow> (addr \<times> string) option option" where
  "first_text a st = do {
     n \<leftarrow> dn_heap st a;
     (case dn_firstChild n of
        None \<Rightarrow> Some None
      | Some c \<Rightarrow> do {
          _ \<leftarrow> dn_heap st c;
          Some (case vals st c of Some (V_Text _ s) \<Rightarrow> Some (c, s) | _ \<Rightarrow> None)
        })
   }"

definition GetText :: "addr \<Rightarrow> xml_dom \<Rightarrow> string option option" where
  "GetText a st = map_option (map_option snd) (first_text a st)"

definition SetText :: "(pool_kind \<Rightarrow> nat) \<Rightarrow> addr \<Rightarrow> string \<Rightarrow> xml_dom \<Rightarrow> xml_dom option" where
  "SetText per a inText st = do {
     f \<leftarrow> first_text a st;
     (case f of
        Some (c, _) \<Rightarrow> XMLNode_SetValue c inText st
      | None \<Rightarrow> do { (x, st) \<leftarrow> NewText per inText st; InsertFirstChild a x st })
   }"

text \<open>The loop over the attributes of two elements: values are compared, and where both lists end.\<close>

partial_function (option) attributes_equal :: "item option \<Rightarrow> addr attr_heap \<Rightarrow> item option \<Rightarrow> addr attr_heap \<Rightarrow> bool option" where
  "attributes_equal ca ha cb hb = (case ca of
     None \<Rightarrow> Some (cb = None)
   | Some i \<Rightarrow> (case cb of
       None \<Rightarrow> Some False
     | Some j \<Rightarrow> do {
         x \<leftarrow> attrs ha i;
         y \<leftarrow> attrs hb j;
         if at_value x \<noteq> at_value y then Some False else attributes_equal (at_next x) ha (at_next y) hb
       }))"

declare attributes_equal.simps [code]

text \<open>\<^verbatim>\<open>ShallowEqual\<close> of all node types: the document, which has no value, equals nothing.\<close>

definition ShallowEqual :: "xml_dom \<Rightarrow> addr \<Rightarrow> xml_dom \<Rightarrow> addr \<Rightarrow> bool option" where
  "ShallowEqual sa a sb b = do {
     _ \<leftarrow> dn_heap sa a;
     _ \<leftarrow> dn_heap sb b;
     (case vals sa a of
        None \<Rightarrow> Some False
      | Some (V_Element s) \<Rightarrow> (case vals sb b of
          Some (V_Element t) \<Rightarrow> if s = t
            then attributes_equal (rootAttribute (attributes sa) a) (attributes sa) (rootAttribute (attributes sb) b) (attributes sb)
            else Some False
        | _ \<Rightarrow> Some False)
      | Some (V_Text _ s) \<Rightarrow> Some (case vals sb b of Some (V_Text _ t) \<Rightarrow> s = t | _ \<Rightarrow> False)
      | Some (V_Comment s) \<Rightarrow> Some (case vals sb b of Some (V_Comment t) \<Rightarrow> s = t | _ \<Rightarrow> False)
      | Some (V_Declaration s) \<Rightarrow> Some (case vals sb b of Some (V_Declaration t) \<Rightarrow> s = t | _ \<Rightarrow> False)
      | Some (V_Unknown s) \<Rightarrow> Some (case vals sb b of Some (V_Unknown t) \<Rightarrow> s = t | _ \<Rightarrow> False))
   }"

text \<open>Cloning; the document has no clone, which is a null pointer.\<close>

partial_function (option) copy_attributes :: "item option \<Rightarrow> addr attr_heap \<Rightarrow> addr \<Rightarrow> xml_dom \<Rightarrow> xml_dom option" where
  "copy_attributes cur src x st = (case cur of
     None \<Rightarrow> Some st
   | Some i \<Rightarrow> do {
       y \<leftarrow> attrs src i;
       h \<leftarrow> XMLElement_SetAttribute (at_name y) (at_value y) x (attributes st);
       copy_attributes (at_next y) src x (st\<lparr>attributes := h\<rparr>)
     })"

declare copy_attributes.simps [code]

definition ShallowClone :: "(pool_kind \<Rightarrow> nat) \<Rightarrow> xml_dom \<Rightarrow> addr \<Rightarrow> xml_dom \<Rightarrow> (addr option \<times> xml_dom) option" where
  "ShallowClone per src a st = do {
     _ \<leftarrow> dn_heap src a;
     (case vals src a of
        None \<Rightarrow> Some (None, st)
      | Some (V_Element s) \<Rightarrow> do {
          (x, st) \<leftarrow> NewElement per s st;
          st \<leftarrow> copy_attributes (rootAttribute (attributes src) a) (attributes src) x st;
          Some (Some x, st)
        }
      | Some (V_Text cdata s) \<Rightarrow> do { (x, st) \<leftarrow> NewText per s st; st \<leftarrow> SetCData x cdata st; Some (Some x, st) }
      | Some (V_Comment s) \<Rightarrow> do { (x, st) \<leftarrow> NewComment per s st; Some (Some x, st) }
      | Some (V_Declaration s) \<Rightarrow> do { (x, st) \<leftarrow> NewDeclaration per (Some s) st; Some (Some x, st) }
      | Some (V_Unknown s) \<Rightarrow> do { (x, st) \<leftarrow> NewUnknown per s st; Some (Some x, st) })
   }"

text \<open>
  The clones of a node and its later siblings, each with all that is below it, are put at the end
  of \<open>p\<close>: the recursion of \<^verbatim>\<open>DeepClone\<close> with its loop over the children, and the loop of \<^verbatim>\<open>DeepCopy\<close>.
\<close>

partial_function (option) clone_siblings :: "(pool_kind \<Rightarrow> nat) \<Rightarrow> xml_dom \<Rightarrow> addr option \<Rightarrow> addr \<Rightarrow> xml_dom \<Rightarrow> xml_dom option" where
  "clone_siblings per src child p st = (case child of
     None \<Rightarrow> Some st
   | Some a \<Rightarrow> do {
       n \<leftarrow> dn_heap src a;
       (c, st) \<leftarrow> ShallowClone per src a st;
       x \<leftarrow> c;
       st \<leftarrow> clone_siblings per src (dn_firstChild n) x st;
       st \<leftarrow> InsertEndChild p x st;
       clone_siblings per src (dn_next n) p st
     })"

declare clone_siblings.simps [code]

definition DeepClone :: "(pool_kind \<Rightarrow> nat) \<Rightarrow> xml_dom \<Rightarrow> addr \<Rightarrow> xml_dom \<Rightarrow> (addr option \<times> xml_dom) option" where
  "DeepClone per src a st = do {
     n \<leftarrow> dn_heap src a;
     (c, st) \<leftarrow> ShallowClone per src a st;
     (case c of
        None \<Rightarrow> Some (None, st)
      | Some x \<Rightarrow> do { st \<leftarrow> clone_siblings per src (dn_firstChild n) x st; Some (Some x, st) })
   }"

definition DeepCopy :: "(pool_kind \<Rightarrow> nat) \<Rightarrow> xml_dom \<Rightarrow> xml_dom \<Rightarrow> xml_dom option" where
  "DeepCopy per src st = do {
     st \<leftarrow> XMLDocument_Clear st;
     n \<leftarrow> dn_heap src Doc;
     clone_siblings per src (dn_firstChild n) Doc st
   }"

section \<open>Trees\<close>

text \<open>
  What a document shows, read off its links: values, attributes, children, siblings. Only an
  element has attributes.
\<close>

datatype dom_tree = Dom node_val "(string \<times> string) list" "dom_tree list"

inductive attr_list :: "addr attr_heap \<Rightarrow> item option \<Rightarrow> (string \<times> string) list \<Rightarrow> bool" for h where
  al_none: "attr_list h None []"
| al_some: "attrs h i = Some x \<Longrightarrow> attr_list h (at_next x) ps \<Longrightarrow> attr_list h (Some i) ((at_name x, at_value x) # ps)"

definition is_element :: "node_val \<Rightarrow> bool" where
  "is_element v = (case v of V_Element _ \<Rightarrow> True | _ \<Rightarrow> False)"

inductive trees_from :: "xml_dom \<Rightarrow> addr option \<Rightarrow> dom_tree list \<Rightarrow> bool" for st where
  tf_none: "trees_from st None []"
| tf_some: "dn_heap st a = Some n \<Longrightarrow> vals st a = Some v \<Longrightarrow>
    (if is_element v then attr_list (attributes st) (rootAttribute (attributes st) a) ps else ps = []) \<Longrightarrow>
    trees_from st (dn_firstChild n) cs \<Longrightarrow> trees_from st (dn_next n) ts \<Longrightarrow> trees_from st (Some a) (Dom v ps cs # ts)"

inductive_cases attr_list_cases: "attr_list h (Some i) ps"

inductive_cases trees_from_None: "trees_from st None ts"
inductive_cases trees_from_Some: "trees_from st (Some a) ts"

definition document_trees :: "xml_dom \<Rightarrow> dom_tree list \<Rightarrow> bool" where
  "document_trees st ts \<longleftrightarrow> trees_from st (Option.bind (dn_heap st Doc) dn_firstChild) ts"

fun nodes :: "dom_tree \<Rightarrow> nat" where
  "nodes (Dom v ps cs) = Suc (sum_list (map nodes cs))"

text \<open>A state with its forest, its living nodes and their attributes.\<close>

definition full_state :: "(pool_kind \<Rightarrow> nat) \<Rightarrow> xml_dom \<Rightarrow> forest \<Rightarrow> addr set \<Rightarrow> (addr \<Rightarrow> (string \<times> string) list) \<Rightarrow> bool" where
  "full_state per st K A L \<longleftrightarrow> dom_state per st K A {} \<and> attr_state (attributes st) L \<and> (\<forall>a. L a \<noteq> [] \<longrightarrow> a \<in> A - {Doc}) \<and> vals_ok st A"

lemma dom_run_full: "dom_run per st K A \<Longrightarrow> (\<And>k. 0 < per k) \<Longrightarrow> \<exists>L. full_state per st K A L"
  using dom_run_state [of per st K A] dom_run_vals [of per st K A] by (auto simp: full_state_def dom_state_def attr_dom_def)

lemma attr_list_chain: "chain (next_of_attr h) r xs \<Longrightarrow> set xs \<subseteq> dom (attrs h) \<Longrightarrow> attr_list h r (map (pair_of h) xs)"
proof (induction xs arbitrary: r)
  case (Cons i xs)
  then obtain x where x: "attrs h i = Some x" by auto
  then have "chain (next_of_attr h) (at_next x) xs" "r = Some i" using Cons.prems(1) next_of_attr_def [of h i] by auto
  with Cons.IH [of "at_next x"] Cons.prems(2) x show ?case by (auto simp: pair_of_def intro: al_some)
qed (auto intro: al_none)

lemma attr_list_state: "attr_state h L \<Longrightarrow> attr_list h (rootAttribute h e) (L e)"
proof -
  assume "attr_state h L"
  then obtain I where I: "attr_items h I" "L e = map (pair_of h) (I e)" unfolding attr_state_def by metis
  have "set (I e) \<subseteq> dom (attrs h)" using attr_item_alive [OF I(1)] by blast
  with attr_list_chain [OF attr_itemsD(1) [OF I(1)], of e] I(2) show ?thesis by simp
qed

lemma attr_list_unique: "attr_list h r ps \<Longrightarrow> attr_list h r qs \<Longrightarrow> ps = qs"
proof (induction arbitrary: qs rule: attr_list.induct)
  case al_none
  then show ?case by (auto elim: attr_list.cases)
next
  case (al_some i x ps)
  from al_some.prems al_some.hyps(1) obtain qs' where "attr_list h (at_next x) qs'" "qs = (at_name x, at_value x) # qs'" by (auto elim: attr_list_cases)
  with al_some.IH show ?case by simp
qed

section \<open>Cloning one node\<close>

lemma new_node_state:
  assumes "full_state per st K A L" "0 < per k" "card A < 2147483647 div 2"
  shows "\<exists>x st'. new_node per k v str st = Some (x, st') \<and> x \<notin> A \<and> x \<noteq> Doc \<and> full_state per st' K (insert x A) L \<and>
    vals st' = (vals st)(x \<mapsto> with_string (c_str str) v)"
proof -
  have st: "dom_state per st K A {}" "attr_state (attributes st) L" "\<forall>a. L a \<noteq> [] \<longrightarrow> a \<in> A - {Doc}" "vals_ok st A"
    using assms(1) by (simp_all add: full_state_def)
  obtain i st1 where 1: "CreateUnlinkedNode per k v st = Some (At k i, st1)" "At k i \<notin> A" "dom_state per st1 K (insert (At k i) A) {}"
    "attributes st1 = attributes st" "vals st1 = (vals st)(At k i \<mapsto> v)" using CreateUnlinkedNode_state [OF st(1) assms(2,3), of v] by blast
  have "dn_heap st1 (At k i) \<noteq> None" using 1(3) by (simp add: dom_state_def heap_of_def)
  then have set: "XMLNode_SetValue (At k i) str st1 = Some (st1\<lparr>vals := (vals st1)(At k i := Some (with_string (c_str str) v))\<rparr>)"
    by (simp add: XMLNode_SetValue_def 1(5))
  let ?st = "st1\<lparr>vals := (vals st1)(At k i := Some (with_string (c_str str) v))\<rparr>"
  have "vals ?st = (vals st)(At k i \<mapsto> with_string (c_str str) v)" by (simp add: 1(5))
  moreover have "vals_ok ?st (insert (At k i) A)" using st(4) by (auto simp: vals_ok_def 1(5))
  then have "full_state per ?st K (insert (At k i) A) L"
    using SetValue_state [OF 1(3) set] st(2,3) by (auto simp: full_state_def 1(4))
  moreover have "new_node per k v str st = Some (At k i, ?st)" using 1(1) set by (simp add: new_node_def)
  ultimately show ?thesis using 1(2) by blast
qed

lemma set_attributes_state:
  assumes "full_state per st K A L" "x \<in> A" "x \<noteq> Doc"
  shows "\<exists>h. XMLElement_SetAttribute n w x (attributes st) = Some h \<and> full_state per (st\<lparr>attributes := h\<rparr>) K A (L(x := set_pair (c_str n) (c_str w) (L x)))"
proof -
  have st: "dom_state per st K A {}" "attr_state (attributes st) L" "\<forall>a. L a \<noteq> [] \<longrightarrow> a \<in> A - {Doc}" "vals_ok st A"
    using assms(1) by (simp_all add: full_state_def)
  let ?L = "L(x := set_pair (c_str n) (c_str w) (L x))"
  obtain h where h: "XMLElement_SetAttribute n w x (attributes st) = Some h" "attr_state h ?L" using SetAttribute_state [OF st(2)] by blast
  have "\<forall>a. ?L a \<noteq> [] \<longrightarrow> a \<in> A - {Doc}" using st(3) assms(2,3) by simp
  moreover from this have "attr_dom h (A - {Doc})" using h(2) unfolding attr_dom_def by blast
  ultimately show ?thesis using h attributes_state [OF st(1)] st(4) by (auto simp: full_state_def vals_ok_def)
qed

text \<open>Copying a list of attributes with different names appends them.\<close>

lemma copy_attributes_state:
  assumes "attr_list src cur ps" "full_state per st K A L" "x \<in> A" "x \<noteq> Doc" "c_pairs (L x @ ps)"
  shows "\<exists>st'. copy_attributes cur src x st = Some st' \<and> full_state per st' K A (L(x := L x @ ps)) \<and> vals st' = vals st"
  using assms
proof (induction arbitrary: st L rule: attr_list.induct)
  case al_none
  then show ?case by (subst copy_attributes.simps) simp
next
  case (al_some i y ps)
  obtain h where h: "XMLElement_SetAttribute (at_name y) (at_value y) x (attributes st) = Some h"
    "full_state per (st\<lparr>attributes := h\<rparr>) K A (L(x := set_pair (c_str (at_name y)) (c_str (at_value y)) (L x)))"
    using set_attributes_state [OF al_some.prems(1-3)] by blast
  have c: "c_str (at_name y) = at_name y" "c_str (at_value y) = at_value y" "at_name y \<notin> fst ` set (L x)" using al_some.prems(4) by (auto simp: c_pairs_def)
  then have s: "set_pair (c_str (at_name y)) (c_str (at_value y)) (L x) = L x @ [(at_name y, at_value y)]" by (simp add: set_pair_def)
  have "c_pairs ((L(x := L x @ [(at_name y, at_value y)])) x @ ps)" using al_some.prems(4) by simp
  from al_some.IH [OF h(2) [unfolded s] al_some.prems(2,3) this] obtain st' where
    st': "copy_attributes (at_next y) src x (st\<lparr>attributes := h\<rparr>) = Some st'" "vals st' = vals (st\<lparr>attributes := h\<rparr>)"
    and full: "full_state per st' K A ((L(x := L x @ [(at_name y, at_value y)]))(x := (L(x := L x @ [(at_name y, at_value y)])) x @ ps))" by blast
  have "full_state per st' K A (L(x := L x @ (at_name y, at_value y) # ps))"
    using full unfolding fun_upd_upd fun_upd_same append_assoc append_Cons append_Nil .
  with st' h(1) al_some.hyps(1) show ?case by (subst copy_attributes.simps) simp
qed

lemma with_string_id: "c_str (val_string v) = val_string v \<Longrightarrow> with_string (c_str (val_string v)) v = v"
  by (cases v) simp_all

lemma full_attrs_new: "full_state per st K A L \<Longrightarrow> x \<notin> A \<Longrightarrow> L x = []"
  by (auto simp: full_state_def)

lemma attr_state_pairs: "attr_state h L \<Longrightarrow> c_pairs (L e)"
  unfolding attr_state_def by blast

lemma SetCData_state:
  assumes "full_state per st K A L" "vals st x = Some (V_Text b s)" "x \<in> A"
  shows "\<exists>st'. SetCData x d st = Some st' \<and> full_state per st' K A L \<and> vals st' = (vals st)(x \<mapsto> V_Text d s)"
proof -
  let ?st = "st\<lparr>vals := (vals st)(x \<mapsto> V_Text d s)\<rparr>"
  have "vals_ok st A" "x \<noteq> Doc" using assms by (auto simp: full_state_def vals_ok_def)
  then have "vals_ok ?st A" using assms(2,3) by (force simp: vals_ok_def)
  moreover have "dom_state per ?st K A {}" using assms(1) by (simp add: full_state_def dom_state_def array_state_def)
  ultimately show ?thesis using assms by (simp add: SetCData_def full_state_def)
qed

lemma ShallowClone_state:
  assumes src: "dn_heap src a \<noteq> None" "vals src a = Some v" "c_str (val_string v) = val_string v" "c_pairs ps"
    "if is_element v then attr_list (attributes src) (rootAttribute (attributes src) a) ps else ps = []"
    and st: "full_state per st K A L" "\<And>k. 0 < per k" "card A < 2147483647 div 2"
  shows "\<exists>x st'. ShallowClone per src a st = Some (Some x, st') \<and> x \<notin> A \<and> x \<noteq> Doc \<and> full_state per st' K (insert x A) (L(x := ps)) \<and> vals st' = (vals st)(x \<mapsto> v)"
proof -
  note new = new_node_state [OF st(1,2,3)]
  obtain n where n: "dn_heap src a = Some n" using src(1) by auto
  have L: "x \<notin> A \<Longrightarrow> L(x := []) = L" for x using full_attrs_new [OF st(1), of x] by auto
  show ?thesis
  proof (cases v)
    case (V_Element s)
    obtain x st1 where x: "NewElement per s st = Some (x, st1)" "x \<notin> A" "x \<noteq> Doc" "full_state per st1 K (insert x A) L" "vals st1 = (vals st)(x \<mapsto> v)"
      using new [of elementPool "V_Element []" s] src(3) V_Element by (auto simp: NewElement_def)
    have l: "attr_list (attributes src) (rootAttribute (attributes src) a) ps" using src(5) V_Element by (simp add: is_element_def)
    have "L x = []" by (rule full_attrs_new [OF st(1) x(2)])
    with copy_attributes_state [OF l x(4) _ x(3)] src(4) obtain st2 where
      "copy_attributes (rootAttribute (attributes src) a) (attributes src) x st1 = Some st2" "full_state per st2 K (insert x A) (L(x := ps))" "vals st2 = vals st1" by auto
    with n src(2) V_Element x show ?thesis by (simp add: ShallowClone_def)
  next
    case (V_Text d s)
    obtain x st1 where x: "NewText per s st = Some (x, st1)" "x \<notin> A" "x \<noteq> Doc" "full_state per st1 K (insert x A) L" "vals st1 = (vals st)(x \<mapsto> V_Text False s)"
      using new [of textPool "V_Text False []" s] src(3) V_Text by (auto simp: NewText_def)
    then obtain st2 where "SetCData x d st1 = Some st2" "full_state per st2 K (insert x A) L" "vals st2 = (vals st)(x \<mapsto> v)"
      using SetCData_state [OF x(4), of x False s d] V_Text by auto
    with n src(2,5) V_Text x(1-3) L show ?thesis by (simp add: ShallowClone_def is_element_def)
  next
    case (V_Comment s)
    then show ?thesis using new [of commentPool "V_Comment []" s] n src(2,3,5) L by (auto simp: ShallowClone_def NewComment_def is_element_def)
  next
    case (V_Declaration s)
    then show ?thesis using new [of commentPool "V_Declaration []" s] n src(2,3,5) L by (auto simp: ShallowClone_def NewDeclaration_def is_element_def)
  next
    case (V_Unknown s)
    then show ?thesis using new [of commentPool "V_Unknown []" s] n src(2,3,5) L by (auto simp: ShallowClone_def NewUnknown_def is_element_def)
  qed
qed

section \<open>Cloning whole trees\<close>

text \<open>Nodes of a set \<open>S\<close> that make up trees, over the forest, the values and the attribute lists.\<close>

fun tree_at :: "addr set \<Rightarrow> forest \<Rightarrow> (addr \<Rightarrow> node_val option) \<Rightarrow> (addr \<Rightarrow> (string \<times> string) list) \<Rightarrow> addr \<Rightarrow> dom_tree \<Rightarrow> bool"
  and trees_at :: "addr set \<Rightarrow> forest \<Rightarrow> (addr \<Rightarrow> node_val option) \<Rightarrow> (addr \<Rightarrow> (string \<times> string) list) \<Rightarrow> addr list \<Rightarrow> dom_tree list \<Rightarrow> bool" where
  "tree_at S K V L x (Dom v ps cs) \<longleftrightarrow> x \<in> S \<and> V x = Some v \<and> L x = ps \<and> (\<not> is_element v \<longrightarrow> ps = []) \<and> trees_at S K V L (K x) cs"
| "trees_at S K V L [] ts \<longleftrightarrow> ts = []"
| "trees_at S K V L (x # xs) [] \<longleftrightarrow> False"
| "trees_at S K V L (x # xs) (t # ts) \<longleftrightarrow> tree_at S K V L x t \<and> trees_at S K V L xs ts"

lemma tree_at_frame:
  assumes "S \<subseteq> S'" "\<And>q. q \<in> S \<Longrightarrow> K' q = K q \<and> V' q = V q \<and> L' q = L q"
  shows "tree_at S K V L x t \<Longrightarrow> tree_at S' K' V' L' x t" and "trees_at S K V L xs ts \<Longrightarrow> trees_at S' K' V' L' xs ts"
  using assms by (induction S K V L x t and S K V L xs ts rule: tree_at_trees_at.induct) auto

lemma full_heap: "full_state per st K A L \<Longrightarrow> dn_heap st = heap_of K A"
  by (simp add: full_state_def dom_state_def)

lemma trees_at_from:
  assumes "full_state per st K A L" "S \<subseteq> A"
  shows "V = vals st \<Longrightarrow> tree_at S K V L x t \<Longrightarrow> \<forall>v ps cs. t = Dom v ps cs \<longrightarrow> trees_from st (hdo (K x)) cs"
    and "V = vals st \<Longrightarrow> trees_at S K V L bs ts \<Longrightarrow> K p = as @ bs \<Longrightarrow> trees_from st (hdo bs) ts"
  using assms
proof (induction S K V L x t and S K V L bs ts arbitrary: and p as rule: tree_at_trees_at.induct)
  case (1 S K V L x v ps cs)
  then show ?case by (metis append_Nil dom_tree.inject tree_at.simps)
next
  case (2 S K V L ts)
  then show ?case by (simp add: tf_none)
next
  case (3 S K V L x xs)
  then show ?case by simp
next
  case (4 S K V L x xs t ts)
  obtain v ps cs where t: "t = Dom v ps cs" by (cases t)
  have F: "is_forest K A" using 4(6) by (simp add: full_state_def dom_state_def)
  have x: "x \<in> A" "vals st x = Some v" "L x = ps" "\<not> is_element v \<longrightarrow> ps = []" and tr: "tree_at S K V L x t" "trees_at S K V L xs ts"
    using 4(3,4,7) t by auto
  have n: "dn_heap st x = Some (node_of K x)" using full_heap [OF 4(6)] x(1) by (simp add: heap_of_def)
  have nx: "dn_next (node_of K x) = hdo xs" using next_of(1) [OF F] 4(5) by simp
  have "attr_list (attributes st) (rootAttribute (attributes st) x) ps" using 4(6) x(3) attr_list_state unfolding full_state_def by blast
  then have at: "if is_element v then attr_list (attributes st) (rootAttribute (attributes st) x) ps else ps = []" using x(4) by simp
  have "trees_from st (dn_firstChild (node_of K x)) cs" using 4(1) [OF 4(3) tr(1) 4(6,7)] t by simp
  moreover have "trees_from st (dn_next (node_of K x)) ts" unfolding nx using 4(2) [OF 4(3) tr(2) _ 4(6,7), of p "as @ [x]"] 4(5) by simp
  ultimately show ?case using tf_some [OF n x(2) at] t by simp
qed

text \<open>A forest that has grown: new trees at the end of \<open>p\<close>, whose nodes are all new; the old nodes are as before.\<close>

definition grown :: "addr \<Rightarrow> addr list \<Rightarrow> forest \<Rightarrow> addr set \<Rightarrow> forest \<Rightarrow> addr set \<Rightarrow> bool" where
  "grown p xs K A K' A' \<longleftrightarrow> A \<subseteq> A' \<and> K' p = K p @ xs \<and> (\<forall>q \<in> A. q \<noteq> p \<longrightarrow> K' q = K q) \<and>
     (\<forall>q \<in> A' - A. set (K' q) \<subseteq> A' - A) \<and> set xs \<subseteq> A' - A"

definition same_on :: "addr set \<Rightarrow> xml_dom \<Rightarrow> (addr \<Rightarrow> (string \<times> string) list) \<Rightarrow> xml_dom \<Rightarrow> (addr \<Rightarrow> (string \<times> string) list) \<Rightarrow> bool" where
  "same_on A st L st' L' \<longleftrightarrow> (\<forall>a \<in> A. L' a = L a \<and> vals st' a = vals st a)"

lemma new_not_below:
  assumes "\<And>q. q \<in> A' - A \<Longrightarrow> set (K q) \<subseteq> A' - A" "x \<in> A' - A" "p \<in> A"
  shows "(p, x) \<notin> (edges K)\<^sup>*"
proof
  assume "(p, x) \<in> (edges K)\<^sup>*"
  then have "p \<in> A' - A" using assms(2) by (induction rule: converse_rtrancl_induct) (use assms(1) in \<open>auto simp: edges_def\<close>)
  with assms(3) show False by simp
qed

text \<open>A new node with its new trees below it is put at the end of an old node.\<close>

lemma InsertEndChild_grown:
  assumes "full_state per st K A1 L1" "grown x ys K1 (insert x A) K A1" "x \<notin> A" "x \<noteq> Doc" "p \<in> A" "K1 x = []" "\<And>q. x \<notin> set (K1 q)" "is_forest K1 (insert x A)"
  shows "\<exists>st'. InsertEndChild p x st = Some st' \<and> full_state per st' (K(p := K p @ [x])) A1 L1 \<and> vals st' = vals st \<and> attributes st' = attributes st"
proof -
  have g: "insert x A \<subseteq> A1" "K x = ys" "\<And>q. q \<in> A \<Longrightarrow> K q = K1 q" "\<And>q. q \<in> A1 - insert x A \<Longrightarrow> set (K q) \<subseteq> A1 - insert x A" "set ys \<subseteq> A1 - insert x A"
    using assms(2,3,6) by (auto simp: grown_def)
  have F: "is_forest K A1" using assms(1) by (simp add: full_state_def dom_state_def)
  have "x \<notin> set (K q)" for q
  proof (cases "q \<in> A1")
    case True
    then consider "q \<in> A" | "q = x" | "q \<in> A1 - insert x A" by blast
    then show ?thesis using g assms(7) by cases auto
  next
    case False
    then show ?thesis using F by (simp add: is_forest_def)
  qed
  then have par: "par K x = None" by (simp add: par_none)
  have closed: "set (K q) \<subseteq> A1 - A" if "q \<in> A1 - A" for q using that g(2,4,5) by (cases "q = x") auto
  have "can_adopt K A1 p x"
    using new_not_below [where x = x and p = p, OF closed] assms(3,4,5) g(1) by (auto simp: can_adopt_def)
  moreover have "dom_state per st K A1 {}" using assms(1) by (simp add: full_state_def)
  ultimately obtain st' where st': "InsertEndChild p x st = Some st'" "dom_state per st' (K(p := K p @ [x])) A1 {}"
    using InsertEndChild_state [of per st K A1 p x] by (auto simp: detach_none [OF par])
  have c: "content st' = content st" by (rule content_InsertEndChild [OF st'(1)])
  then have "full_state per st' (K(p := K p @ [x])) A1 L1"
    using assms(1) st'(2) vals_ok_content [OF c, of A1] by (simp add: full_state_def content_def)
  with st'(1) c show ?thesis by (auto simp: content_def)
qed

lemma clone_siblings_state:
  assumes "trees_from src c ts" "full_state per src Ks As Ls" "\<And>k. 0 < per k"
    and "full_state per st K A L" "p \<in> A" "card A + sum_list (map nodes ts) < 2147483647 div 2"
  shows "\<exists>st' K' A' L' xs. clone_siblings per src c p st = Some st' \<and> full_state per st' K' A' L' \<and> card A' = card A + sum_list (map nodes ts) \<and>
    grown p xs K A K' A' \<and> same_on A st L st' L' \<and> trees_at (A' - A) K' (vals st') L' xs ts"
  using assms
proof (induction arbitrary: st K A L p rule: trees_from.induct)
  case tf_none
  then have "is_forest K A" by (simp add: full_state_def dom_state_def)
  then show ?case using tf_none by (subst clone_siblings.simps) (fastforce simp: grown_def same_on_def)
next
  case (tf_some a n v ps cs ts)
  have fin: "finite A" and F: "is_forest K A" using tf_some.prems(3) by (auto simp: full_state_def dom_state_def is_forest_def)
  have a: "a \<in> As" "a \<noteq> Doc" "c_str (val_string v) = val_string v" "c_pairs ps"
  proof -
    have src: "dn_heap src = heap_of Ks As" "vals_ok src As" "attr_state (attributes src) Ls" using tf_some.prems(1) by (auto simp: full_state_def dom_state_def)
    show "a \<in> As" using tf_some.hyps(1) src(1) by (simp add: heap_of_def split: if_splits)
    moreover show "a \<noteq> Doc" using tf_some.hyps(2) src(2) by (auto simp: vals_ok_def)
    ultimately have "\<exists>w. vals src a = Some w \<and> c_str (val_string w) = val_string w" using src(2) by (simp add: vals_ok_def)
    then show "c_str (val_string v) = val_string v" using tf_some.hyps(2) by simp
    have "attr_list (attributes src) (rootAttribute (attributes src) a) ps \<Longrightarrow> ps = Ls a" using attr_list_unique [OF attr_list_state [OF src(3)]] by blast
    then show "c_pairs ps" using tf_some.hyps(3) attr_state_pairs [OF src(3), of a] by (auto simp: c_pairs_def split: if_splits)
  qed
  obtain x st1 where 1: "ShallowClone per src a st = Some (Some x, st1)" "x \<notin> A" "x \<noteq> Doc" "full_state per st1 K (insert x A) (L(x := ps))" "vals st1 = (vals st)(x \<mapsto> v)"
    using ShallowClone_state [of src a v ps per st K A L, OF _ tf_some.hyps(2) a(3,4) tf_some.hyps(3) tf_some.prems(3)] tf_some.hyps(1) tf_some.prems(2,5) by auto
  have Kx: "K x = []" using F 1(2) by (simp add: is_forest_def)
  have xK: "x \<notin> set (K q)" for q using forest_mem [OF F, of x q] 1(2) by blast
  have F1: "is_forest K (insert x A)" using 1(4) by (simp add: full_state_def dom_state_def)
  note K1 = Kx xK F1
  have small: "card (insert x A) + sum_list (map nodes cs) < 2147483647 div 2" using tf_some.prems(5) fin 1(2) by simp
  obtain st2 K2 A2 L2 ys where 2: "clone_siblings per src (dn_firstChild n) x st1 = Some st2" "full_state per st2 K2 A2 L2"
    "card A2 = card (insert x A) + sum_list (map nodes cs)" "grown x ys K (insert x A) K2 A2" "same_on (insert x A) st1 (L(x := ps)) st2 L2"
    "trees_at (A2 - insert x A) K2 (vals st2) L2 ys cs"
    using tf_some.IH(1) [OF tf_some.prems(1,2) 1(4) insertI1 small] by blast
  obtain st3 where 3: "InsertEndChild p x st2 = Some st3" "full_state per st3 (K2(p := K2 p @ [x])) A2 L2" "vals st3 = vals st2"
    using InsertEndChild_grown [OF 2(2,4) 1(2,3) tf_some.prems(4) K1] by blast
  have pA: "p \<in> A2" "p \<noteq> x" using 2(4) tf_some.prems(4) 1(2) by (auto simp: grown_def)
  have small2: "card A2 + sum_list (map nodes ts) < 2147483647 div 2" using tf_some.prems(5) fin 1(2) 2(3) by simp
  obtain st4 K4 A4 L4 zs where 4: "clone_siblings per src (dn_next n) p st3 = Some st4" "full_state per st4 K4 A4 L4"
    "card A4 = card A2 + sum_list (map nodes ts)" "grown p zs (K2(p := K2 p @ [x])) A2 K4 A4" "same_on A2 st3 L2 st4 L4"
    "trees_at (A4 - A2) K4 (vals st4) L4 zs ts"
    using tf_some.IH(2) [OF tf_some.prems(1,2) 3(2) pA(1) small2] by blast
  have run: "clone_siblings per src (Some a) p st = Some st4" using tf_some.hyps(1) 1(1) 2(1) 3(1) 4(1) by (subst clone_siblings.simps) simp
  have sub: "insert x A \<subseteq> A2" "A2 \<subseteq> A4" using 2(4) 4(4) by (auto simp: grown_def)
  have K4: "\<And>q. q \<in> A2 \<Longrightarrow> q \<noteq> p \<Longrightarrow> K4 q = K2 q" "K2 x = ys" "\<And>q. q \<in> A \<Longrightarrow> K2 q = K q" "K4 p = K p @ x # zs" "set ys \<subseteq> A2 - insert x A" "set zs \<subseteq> A4 - A2"
    using 2(4) 4(4) K1(1) 1(2) tf_some.prems(4) pA(2) by (auto simp: grown_def)
  have "grown p (x # zs) K A K4 A4"
  proof -
    have "set (K4 q) \<subseteq> A4 - A" if "q \<in> A4 - A" for q
    proof -
      from that consider "q \<in> A4 - A2" | "q = x" | "q \<in> A2 - insert x A" by blast
      then show ?thesis
      proof cases
        case 1
        then have "set (K4 q) \<subseteq> A4 - A2" using 4(4) unfolding grown_def by blast
        then show ?thesis using sub by auto
      next
        case 2
        then show ?thesis using K4(1) [of x] K4(2,5) sub pA(2) by auto
      next
        case 3
        then have "q \<noteq> p" using tf_some.prems(4) by auto
        then have "K4 q = K2 q" using K4(1) 3 by simp
        moreover have "set (K2 q) \<subseteq> A2 - insert x A" using 2(4) 3 unfolding grown_def by blast
        ultimately show ?thesis using sub by auto
      qed
    qed
    then show ?thesis using K4 sub 1(2) tf_some.prems(4) by (auto simp: grown_def)
  qed
  moreover have same: "same_on A st L st4 L4" using 2(5) 4(5) 1(2,5) 3(3) sub by (auto simp: same_on_def)
  moreover have "trees_at (A4 - A) K4 (vals st4) L4 (x # zs) (Dom v ps cs # ts)"
  proof -
    have agree: "K4 q = K2 q \<and> vals st4 q = vals st2 q \<and> L4 q = L2 q" if "q \<in> A2 - insert x A" for q
      using that K4(1) [of q] tf_some.prems(4) 4(5) 3(3) by (auto simp: same_on_def)
    have "trees_at (A4 - A) K4 (vals st4) L4 ys cs" by (rule tree_at_frame(2) [OF _ agree 2(6)]) (use sub in auto)
    moreover have "K4 x = ys" "vals st4 x = Some v" "L4 x = ps" "x \<in> A4 - A"
      using K4(1) [of x] K4(2) pA(2) sub 1(2,5) 2(5) 3(3) 4(5) by (auto simp: same_on_def)
    moreover have "trees_at (A4 - A) K4 (vals st4) L4 zs ts" by (rule tree_at_frame(2) [OF _ _ 4(6)]) (use sub in auto)
    ultimately show ?thesis using tf_some.hyps(3) by auto
  qed
  moreover have "card A4 = card A + sum_list (map nodes (Dom v ps cs # ts))" using 4(3) 2(3) fin 1(2) by simp
  ultimately show ?case using run 4(2) by blast
qed

text \<open>The links of a document always show trees.\<close>

lemma document_shows_trees:
  assumes "full_state per st K A L"
  shows "K p = as @ bs \<Longrightarrow> \<exists>ts. trees_from st (hdo bs) ts"
proof -
  have F: "is_forest K A" using assms by (simp add: full_state_def dom_state_def)
  then have "wf (edges K)" by (simp add: is_forest_def)
  then have "\<forall>as bs. K p = as @ bs \<longrightarrow> (\<exists>ts. trees_from st (hdo bs) ts)"
  proof (induction p rule: wf_induct_rule)
    case (less p)
    show ?case
    proof (intro allI impI)
      fix as bs assume "K p = as @ bs"
      then show "\<exists>ts. trees_from st (hdo bs) ts"
      proof (induction bs arbitrary: as)
        case Nil
        then show ?case by (auto intro: tf_none)
      next
        case (Cons x bs)
        obtain ts where ts: "trees_from st (hdo bs) ts" using Cons.IH [of "as @ [x]"] Cons.prems by auto
        have x: "x \<in> A" "x \<noteq> Doc" using forest_mem [OF F, of x p] Cons.prems by auto
        then obtain v where v: "vals st x = Some v" using assms by (auto simp: full_state_def vals_ok_def)
        have "(x, p) \<in> edges K" using Cons.prems by (simp add: edges_def)
        then obtain cs where cs: "trees_from st (hdo (K x)) cs" using less [of x] by (metis append_Nil)
        have n: "dn_heap st x = Some (node_of K x)" using full_heap [OF assms] x(1) by (simp add: heap_of_def)
        have nx: "dn_next (node_of K x) = hdo bs" using next_of(1) [OF F Cons.prems] .
        have al: "attr_list (attributes st) (rootAttribute (attributes st) x) (L x)" using assms attr_list_state unfolding full_state_def by blast
        have "\<exists>ps. if is_element v then attr_list (attributes st) (rootAttribute (attributes st) x) ps else ps = []"
          using al by (cases "is_element v") auto
        then obtain ps where "if is_element v then attr_list (attributes st) (rootAttribute (attributes st) x) ps else ps = []" by blast
        from tf_some [OF n v this] cs ts nx show ?case by auto
      qed
    qed
  qed
  then show "K p = as @ bs \<Longrightarrow> \<exists>ts. trees_from st (hdo bs) ts" by blast
qed

lemma document_first: "full_state per st K A L \<Longrightarrow> Option.bind (dn_heap st Doc) dn_firstChild = hdo (K Doc)"
proof -
  assume st: "full_state per st K A L"
  then have "Doc \<in> A" by (simp add: full_state_def dom_state_def is_forest_def)
  with full_heap [OF st] show ?thesis by (simp add: heap_of_def)
qed

lemma cleared_full:
  assumes "dom_state per st K {Doc} {}" "vals st Doc = None"
  shows "full_state per st K {Doc} (\<lambda>_. [])"
proof -
  obtain L where L: "attr_state (attributes st) L" "\<forall>e. L e \<noteq> [] \<longrightarrow> e \<in> {Doc} - {Doc}" using assms(1) by (auto simp: dom_state_def attr_dom_def)
  then have "L = (\<lambda>_. [])" by auto
  with L assms show ?thesis by (simp add: full_state_def vals_ok_def)
qed

lemma DeepCopy_state:
  assumes "full_state per src Ks As Ls" "full_state per st K A L" "\<And>k. 0 < per k" "document_trees src ts" "Suc (sum_list (map nodes ts)) < 2147483647 div 2"
  shows "\<exists>st' K' A' L'. DeepCopy per src st = Some st' \<and> full_state per st' K' A' L' \<and> document_trees st' ts \<and> card A' = Suc (sum_list (map nodes ts)) \<and>
    trees_at (A' - {Doc}) K' (vals st') L' (K' Doc) ts"
proof -
  have st: "dom_state per st K A {}" "vals st Doc = None" using assms(2) by (auto simp: full_state_def vals_ok_def)
  obtain st1 K1 where 1: "XMLDocument_Clear st = Some st1" "dom_state per st1 K1 {Doc} {}" "vals st1 = vals st" using Clear_state [OF st(1)] by blast
  have full: "full_state per st1 K1 {Doc} (\<lambda>_. [])" using cleared_full [OF 1(2)] 1(3) st(2) by simp
  have "is_forest K1 {Doc}" using 1(2) by (simp add: dom_state_def)
  then have K1: "K1 Doc = []" by (auto simp: is_forest_def)
  obtain n where n: "dn_heap src Doc = Some n" "trees_from src (dn_firstChild n) ts"
    using assms(1,4) full_heap [OF assms(1)] by (auto simp: document_trees_def full_state_def dom_state_def is_forest_def heap_of_def)
  have small: "card {Doc} + sum_list (map nodes ts) < 2147483647 div 2" using assms(5) by simp
  obtain st2 K2 A2 L2 xs where 2: "clone_siblings per src (dn_firstChild n) Doc st1 = Some st2" "full_state per st2 K2 A2 L2"
    "card A2 = card {Doc} + sum_list (map nodes ts)" "grown Doc xs K1 {Doc} K2 A2" "trees_at (A2 - {Doc}) K2 (vals st2) L2 xs ts"
    using clone_siblings_state [OF n(2) assms(1,3) full insertI1 small] by blast
  have K2: "K2 Doc = xs" using 2(4) K1 by (simp add: grown_def)
  have "trees_from st2 (hdo xs) ts" using trees_at_from(2) [OF 2(2) _ refl 2(5), of Doc "[]"] K2 by auto
  then have "document_trees st2 ts" using document_first [OF 2(2)] K2 by (simp add: document_trees_def)
  with 1(1) n(1) 2 K2 show ?thesis by (auto simp: DeepCopy_def)
qed

section \<open>Comparing and texts\<close>

lemma attributes_equal_lists:
  "attr_list ha ca ps \<Longrightarrow> attr_list hb cb qs \<Longrightarrow> attributes_equal ca ha cb hb = Some (map snd ps = map snd qs)"
proof (induction arbitrary: cb qs rule: attr_list.induct)
  case al_none
  then show ?case by (subst attributes_equal.simps) (auto elim: attr_list.cases)
next
  case (al_some i x ps)
  show ?case
  proof (cases cb)
    case None
    then show ?thesis using al_some.prems by (subst attributes_equal.simps) (auto elim: attr_list.cases)
  next
    case (Some j)
    then obtain y qs' where "attrs hb j = Some y" "attr_list hb (at_next y) qs'" "qs = (at_name y, at_value y) # qs'"
      using al_some.prems by (auto elim: attr_list_cases)
    with al_some.IH al_some.hyps(1) Some show ?thesis by (subst attributes_equal.simps) auto
  qed
qed

lemma ShallowEqual_element:
  assumes "full_state per sa Ka A La" "full_state per sb Kb B Lb" "a \<in> A" "b \<in> B" "vals sa a = Some (V_Element s)" "vals sb b = Some v"
  shows "ShallowEqual sa a sb b = Some (v = V_Element s \<and> map snd (La a) = map snd (Lb b))"
proof -
  have "dn_heap sa a \<noteq> None" "dn_heap sb b \<noteq> None" using assms(1-4) by (auto simp: full_heap heap_of_def)
  moreover have "attr_list (attributes sa) (rootAttribute (attributes sa) a) (La a)" "attr_list (attributes sb) (rootAttribute (attributes sb) b) (Lb b)"
    using assms(1,2) attr_list_state unfolding full_state_def by blast+
  ultimately show ?thesis using assms(5,6) attributes_equal_lists by (cases v) (fastforce simp: ShallowEqual_def)+
qed

text \<open>The clone of a node is equal to it, also by the library's own test.\<close>

lemma ShallowClone_equal:
  assumes "full_state per src Ks As Ls" "a \<in> As" "vals src a = Some v"
    and "full_state per st' K A (L(x := if is_element v then Ls a else []))" "x \<in> A" "vals st' x = Some v"
  shows "ShallowEqual src a st' x = Some True"
proof (cases v)
  case (V_Element s)
  then show ?thesis using ShallowEqual_element [OF assms(1,4,2,5) assms(3) [unfolded V_Element] assms(6)] by (simp add: is_element_def)
qed (use assms full_heap [OF assms(1)] full_heap [OF assms(4)] in \<open>auto simp: ShallowEqual_def heap_of_def\<close>)

text \<open>The text that was set is the text that is got.\<close>

lemma SetText_GetText:
  assumes "full_state per st K A L" "\<And>k. 0 < per k" "card A < 2147483647 div 2" "a \<in> A"
  shows "\<exists>st'. SetText per a s st = Some st' \<and> GetText a st' = Some (Some (c_str s))"
proof -
  have F: "is_forest K A" using assms(1) by (simp add: full_state_def dom_state_def)
  have n: "dn_heap st a = Some (node_of K a)" using full_heap [OF assms(1)] assms(4) by (simp add: heap_of_def)
  have ch: "dn_heap st c = Some (node_of K c)" if "hdo (K a) = Some c" for c
    using forest_mem [OF F hdo_in [OF that]] full_heap [OF assms(1)] by (simp add: heap_of_def)
  show ?thesis
  proof (cases "\<exists>c d r. hdo (K a) = Some c \<and> vals st c = Some (V_Text d r)")
    case True
    then obtain c d r where c: "hdo (K a) = Some c" "vals st c = Some (V_Text d r)" by blast
    with n ch [OF c(1)] show ?thesis by (simp add: SetText_def GetText_def first_text_def XMLNode_SetValue_def)
  next
    case False
    then have none: "first_text a st = Some None"
      using n ch by (cases "hdo (K a)") (auto simp: first_text_def split: option.splits node_val.splits)
    obtain x st1 where 1: "NewText per s st = Some (x, st1)" "x \<notin> A" "x \<noteq> Doc" "full_state per st1 K (insert x A) L" "vals st1 = (vals st)(x \<mapsto> V_Text False (c_str s))"
      using new_node_state [OF assms(1,2,3), of textPool "V_Text False []" s] by (auto simp: NewText_def)
    have "set (K q) \<subseteq> {x}" if "q \<in> insert x A - A" for q using that F 1(2) by (auto simp: is_forest_def)
    then have "(a, x) \<notin> (edges K)\<^sup>*" using new_not_below [of "insert x A" A K x a] F 1(2) assms(4) by (fastforce simp: is_forest_def)
    then have ad: "can_adopt K (insert x A) a x" using 1(3) assms(4) by (simp add: can_adopt_def)
    have "dom_state per st1 K (insert x A) {}" using 1(4) by (simp add: full_state_def)
    from InsertFirstChild_state [OF this ad] obtain st2 where 2: "InsertFirstChild a x st1 = Some st2"
      "dom_state per st2 ((detach x K)(a := x # detach x K a)) (insert x A) {}" by blast
    have "dn_heap st2 = heap_of ((detach x K)(a := x # detach x K a)) (insert x A)" using 2(2) by (simp add: dom_state_def)
    then have "\<exists>m. dn_heap st2 a = Some m \<and> dn_firstChild m = Some x" "dn_heap st2 x \<noteq> None" using assms(4) by (simp_all add: heap_of_def)
    moreover have "vals st2 = vals st1" using content_InsertFirstChild [OF 2(1)] by (simp add: content_def)
    ultimately have "GetText a st2 = Some (Some (c_str s))" using 1(5) by (auto simp: GetText_def first_text_def)
    with none 1(1) 2(1) show ?thesis by (simp add: SetText_def)
  qed
qed

section \<open>Properties\<close>

text \<open>C32: Copying a document makes an equal document. Take two documents that a program has worked
  on in any way and copy the first into the second: what the first one shows (the trees of its
  nodes with their values, attributes in order, and children in order) is well defined, and, if
  its nodes fit into the array of loose nodes, the copy succeeds without touching a freed node,
  the second document shows exactly the same afterwards, and nothing of what it held before is left:
  the nodes in use are the document and those of the trees.\<close>

theorem deep_copy_shows_the_same:
  assumes "dom_run per src Ks As" "dom_run per st K A" "\<And>k. 0 < per k"
  shows "\<exists>ts. document_trees src ts \<and> (Suc (sum_list (map nodes ts)) < 2147483647 div 2 \<longrightarrow>
    (\<exists>st'. DeepCopy per src st = Some st' \<and> document_trees st' ts \<and> card (dom (dn_heap st')) = Suc (sum_list (map nodes ts))))"
proof -
  obtain Ls L where full: "full_state per src Ks As Ls" "full_state per st K A L" using dom_run_full [OF assms(1,3)] dom_run_full [OF assms(2,3)] by blast
  obtain ts where ts: "document_trees src ts" using document_shows_trees [OF full(1), of Doc "[]"] document_first [OF full(1)] by (auto simp: document_trees_def)
  have "\<exists>st'. DeepCopy per src st = Some st' \<and> document_trees st' ts \<and> card (dom (dn_heap st')) = Suc (sum_list (map nodes ts))"
    if small: "Suc (sum_list (map nodes ts)) < 2147483647 div 2"
  proof -
    obtain st' K' A' L' where st': "DeepCopy per src st = Some st'" "full_state per st' K' A' L'" "document_trees st' ts" "card A' = Suc (sum_list (map nodes ts))"
      using DeepCopy_state [OF full assms(3) ts small] by blast
    have "dom (dn_heap st') = A'" unfolding full_heap [OF st'(2)] by (auto simp: heap_of_def split: if_splits)
    with st' show ?thesis by auto
  qed
  with ts show ?thesis by blast
qed

text \<open>A document with two children, as \<open>Xml_Tree\<close> makes it, copied into a new one.\<close>

lemma two_children_trees:
  assumes "dom_run (\<lambda>_. 4) st ((\<lambda>_. [])(Doc := [a, b])) {b, a, Doc}" "a \<noteq> b" "Doc \<noteq> a" "Doc \<noteq> b" "document_trees st ts"
  shows "length ts = 2 \<and> sum_list (map nodes ts) = 2"
proof -
  let ?K = "(\<lambda>_. [])(Doc := [a, b]) :: forest" and ?A = "{b, a, Doc}"
  obtain L where full: "full_state (\<lambda>_. 4) st ?K ?A L" using dom_run_full [OF assms(1)] by auto
  have F: "is_forest ?K ?A" using full by (simp add: full_state_def dom_state_def)
  have nx: "dn_next (node_of ?K a) = Some b" "dn_next (node_of ?K b) = None" using next_of(1) [OF F, of Doc "[]" a "[b]"] next_of(1) [OF F, of Doc "[a]" b "[]"] by simp_all
  have n: "dn_heap st a = Some (node_of ?K a)" "dn_heap st b = Some (node_of ?K b)" using full_heap [OF full] by (simp_all add: heap_of_def)
  have "trees_from st (Some a) ts" using assms(5) document_first [OF full] by (simp add: document_trees_def)
  then obtain v ps cs us where 1: "ts = Dom v ps cs # us" "trees_from st None cs" "trees_from st (Some b) us"
    using n nx assms(3) by (auto elim!: trees_from_Some)
  then obtain w qs ds vs where 2: "us = Dom w qs ds # vs" "trees_from st None ds" "trees_from st None vs" using n nx assms(4) by (auto elim!: trees_from_Some)
  from 1 2 show ?thesis by (auto elim!: trees_from_None)
qed

theorem deep_copy_shows_the_same_witness:
  "\<exists>src st' ts. DeepCopy (\<lambda>_. 4) src XMLDocument_new = Some st' \<and> document_trees src ts \<and> document_trees st' ts \<and> length ts = 2"
proof -
  obtain src a b where run: "dom_run (\<lambda>_. 4) src ((\<lambda>_. [])(Doc := [a, b])) {b, a, Doc}" and ne: "a \<noteq> b" "Doc \<noteq> a" "Doc \<noteq> b"
    using two_children by blast
  from deep_copy_shows_the_same [OF run run_new] obtain ts where ts: "document_trees src ts" "Suc (sum_list (map nodes ts)) < 2147483647 div 2 \<longrightarrow>
    (\<exists>st'. DeepCopy (\<lambda>_. 4) src XMLDocument_new = Some st' \<and> document_trees st' ts \<and> card (dom (dn_heap st')) = Suc (sum_list (map nodes ts)))" by auto
  with two_children_trees [OF run ne ts(1)] show ?thesis by auto
qed

text \<open>C34: Whether two elements are equal is decided by their names and by the values of their
  attributes in order; the names of the attributes are never compared. In every document a
  program can make, two elements of one name are equal for ShallowEqual exactly if the lists of
  their attribute values are, whatever the attributes are called.\<close>

theorem ShallowEqual_ignores_attribute_names:
  assumes "dom_run per st K A" "\<And>k. 0 < per k" "a \<in> A" "b \<in> A" "vals st a = Some (V_Element s)" "vals st b = Some (V_Element s)"
    and "attr_list (attributes st) (rootAttribute (attributes st) a) ps" "attr_list (attributes st) (rootAttribute (attributes st) b) qs"
  shows "ShallowEqual st a st b = Some (map snd ps = map snd qs)"
proof -
  obtain L where full: "full_state per st K A L" using dom_run_full [OF assms(1,2)] by blast
  then have "attr_list (attributes st) (rootAttribute (attributes st) e) (L e)" for e using attr_list_state unfolding full_state_def by blast
  then have "L a = ps" "L b = qs" using attr_list_unique assms(7,8) by blast+
  with ShallowEqual_element [OF full full assms(3-6)] show ?thesis by simp
qed

lemma dom_run_new_node: "dom_run per st K A \<Longrightarrow> card A < 2147483647 div 2 \<Longrightarrow> val_string v = [] \<Longrightarrow> new_node per k v s st = Some (x, st') \<Longrightarrow> dom_run per st' K (insert x A)"
proof -
  assume run: "dom_run per st K A" "card A < 2147483647 div 2" "val_string v = []" and new: "new_node per k v s st = Some (x, st')"
  then obtain st1 where "CreateUnlinkedNode per k v st = Some (x, st1)" "XMLNode_SetValue x s st1 = Some st'" by (auto simp: new_node_def bind_eq_Some_conv)
  then show ?thesis using run_value [OF run_create [OF run]] by blast
qed

theorem ShallowEqual_ignores_attribute_names_witness:
  "\<exists>st a b. ShallowEqual st a st b = Some True \<and> XMLElement_Attribute ''x'' None a (attributes st) = Some (Some ''1'') \<and>
     XMLElement_Attribute ''x'' None b (attributes st) = Some None"
proof -
  let ?per = "\<lambda>_ :: pool_kind. 4 :: nat" and ?E = "\<lambda>_ :: addr. [] :: addr list" and ?N = "\<lambda>_ :: addr. [] :: (string \<times> string) list"
  have "full_state ?per XMLDocument_new ?E {Doc} ?N" by (rule cleared_full [OF new_state]) (simp add: XMLDocument_new_def)
  from new_node_state [OF this, of elementPool "V_Element []" "''e''"] obtain a st1 where
    1: "new_node ?per elementPool (V_Element []) ''e'' XMLDocument_new = Some (a, st1)" "a \<noteq> Doc" "full_state ?per st1 ?E {a, Doc} ?N" "vals st1 a = Some (V_Element ''e'')"
    by (auto simp: c_str_def)
  have r1: "dom_run ?per st1 ?E {a, Doc}" by (rule dom_run_new_node [OF run_new _ _ 1(1)]) simp_all
  from new_node_state [OF 1(3), of elementPool "V_Element []" "''e''"] 1(2) obtain b st2 where
    2: "new_node ?per elementPool (V_Element []) ''e'' st1 = Some (b, st2)" "b \<noteq> Doc" "b \<noteq> a" "full_state ?per st2 ?E {b, a, Doc} ?N"
      "vals st2 a = Some (V_Element ''e'')" "vals st2 b = Some (V_Element ''e'')"
    using 1(4) by (auto simp: c_str_def)
  have r2: "dom_run ?per st2 ?E {b, a, Doc}" by (rule dom_run_new_node [OF r1 _ _ 2(1)]) (use 1(2) in simp_all)
  obtain h3 where 3: "XMLElement_SetAttribute ''x'' ''1'' a (attributes st2) = Some h3" "full_state ?per (st2\<lparr>attributes := h3\<rparr>) ?E {b, a, Doc} (?N(a := [(''x'', ''1'')]))"
    using set_attributes_state [OF 2(4) _ 1(2), of "''x''" "''1''"] by (auto simp: c_str_def set_pair_def)
  have r3: "dom_run ?per (st2\<lparr>attributes := h3\<rparr>) ?E {b, a, Doc}" by (rule run_attribute [OF r2 _ 1(2) 3(1)]) simp
  let ?L = "?N(a := [(''x'', ''1'')], b := [(''y'', ''1'')])"
  obtain h4 where 4: "XMLElement_SetAttribute ''y'' ''1'' b h3 = Some h4" "full_state ?per (st2\<lparr>attributes := h4\<rparr>) ?E {b, a, Doc} ?L"
    using set_attributes_state [OF 3(2) _ 2(2), of "''y''" "''1''"] 2(3) by (auto simp: c_str_def set_pair_def)
  have "dom_run ?per (st2\<lparr>attributes := h3\<rparr>\<lparr>attributes := h4\<rparr>) ?E {b, a, Doc}" by (rule run_attribute [OF r3 _ 2(2)]) (use 4(1) in simp_all)
  then have r4: "dom_run ?per (st2\<lparr>attributes := h4\<rparr>) ?E {b, a, Doc}" by simp
  have al: "attr_state h4 ?L" using 4(2) by (simp add: full_state_def)
  have "ShallowEqual (st2\<lparr>attributes := h4\<rparr>) a (st2\<lparr>attributes := h4\<rparr>) b = Some (map snd [(''x'', ''1'')] = map snd [(''y'', ''1'')])"
    by (rule ShallowEqual_ignores_attribute_names [OF r4, of a b "''e''"]) (use 2(3,5,6) attr_list_state [OF al, of a] attr_list_state [OF al, of b] in simp_all)
  moreover have "XMLElement_Attribute ''x'' None a h4 = Some (Some ''1'')" "XMLElement_Attribute ''x'' None b h4 = Some None"
    using Attribute_state [OF al, of "''x''" None a] Attribute_state [OF al, of "''x''" None b] 2(3) by (simp_all add: c_str_def)
  ultimately show ?thesis by (intro exI [of _ "st2\<lparr>attributes := h4\<rparr>"] exI [of _ a] exI [of _ b]) simp
qed

end
