(* ===== verification/Spec2Isabelle.thy ===== *)
theory Spec2Isabelle
  imports Cluster X_Logger Thrift_Transport Thrift_Values Thrift_Concurrent Json_Writer Json_Edit Json_Memory Xml_Printer Xml_Clone
begin

text \<open>
  \<^bold>\<open>The program.\<close> A cluster of data collection nodes. Each node (\<^verbatim>\<open>DcNode/src\<close>) reads an XML
  configuration, registers at the server over Thrift and then sends a heartbeat every thirty seconds;
  it offers one remote method, \<^verbatim>\<open>ClusterWork\<close>, which posts its argument to an ActiveMQ queue. The
  server (\<^verbatim>\<open>DcServer/src\<close>) keeps the table of nodes, drops those it has not heard of for a
  minute, and has an HTTP front end: the JSON body of a POST request goes to the next node in turn
  by \<^verbatim>\<open>ClusterWork\<close>, and a JSON reply goes back. Both stand on a portability layer with a thread pool
  (\<^verbatim>\<open>utils/src\<close>), a message queue library (\<^verbatim>\<open>mq/src\<close>), a log wrapper (\<^verbatim>\<open>xlogger/src\<close>), and on the
  header-only parts of Thrift and rapidjson and the copy of tinyxml2 that the repository contains.

  \<^bold>\<open>Theories, from the wire up.\<close>

  \<^item> \<open>Dc_Prelude\<close>: integer types, return codes, strings as bytes, C++ division, list idioms, and the
    collections \<open>reader_ok\<close>, \<open>reader_fin\<close>, \<open>writer_ok\<close>, \<open>wire_simps\<close>.

  \<^item> \<open>Thrift_Binary\<close> (\<^verbatim>\<open>TBinaryProtocol.tcc\<close>, \<^verbatim>\<open>TProtocol.h\<close>): readers and writers with the byte
    counts the code returns, size limits, \<^verbatim>\<open>skip\<close>, the recursion limit. Every reader is exact (its
    count is what it consumed) and total. The locale \<open>wire_codec\<close> is the contract of a writer with
    its reader. \<open>Thrift_Values\<close>: the other writers, and that \<^verbatim>\<open>skip\<close> takes exactly one written
    value of any type, so unknown fields do no harm. \<open>Thrift_Transport\<close>
    (\<^verbatim>\<open>TBufferTransports.h\<close>): buffered reading delivers what reading at once would.

  \<^item> \<open>Thrift_Common\<close> (\<^verbatim>\<open>common_types.cpp\<close>) and \<open>Thrift_Rpc\<close> (\<^verbatim>\<open>Regist.cpp\<close>, \<^verbatim>\<open>Request.cpp\<close>,
    \<^verbatim>\<open>TDispatchProcessor.h\<close>): the generated structs, stubs and processors. The locale
    \<open>rpc_method\<close>, built on two codecs, shows once that a call runs the handler on its argument and
    returns its result; the three methods are its interpretations. \<open>Thrift_Concurrent\<close>: the
    clients that share a connection, whose threads get their own replies in every interleaving.

  \<^item> \<open>Rapid_Json\<close>, \<open>Json_Reader\<close>, \<open>Json_Document\<close>, \<open>Json_Text\<close> (\<^verbatim>\<open>reader.h\<close>, \<^verbatim>\<open>document.h\<close>,
    \<^verbatim>\<open>encodings.h\<close>, \<^verbatim>\<open>strtod.h\<close>, \<^verbatim>\<open>writer.h\<close>): lookups and string writer; the complete default
    reader as a sender of events; the document's stack, and that parsing is total (locale
    \<open>value_parser\<close>); the text of a value is read back, integers exactly. \<open>Json_Itoa\<close> (\<^verbatim>\<open>itoa.h\<close>):
    the digit tables print the decimal notation and stay in their buffers. \<open>Json_Writer\<close>: the whole
    writer and the document as its source; what it writes the reader reads back. \<open>Json_Value\<close>,
    \<open>Json_Compare\<close>, \<open>Json_Edit\<close> (\<^verbatim>\<open>document.h\<close>): values as the code stores them, with flags,
    short strings and blocks of slots; \<open>stands_for\<close> relates a value to its document; getters,
    setters, the operations on arrays and objects as operations on lists, copying and
    \<^verbatim>\<open>operator==\<close>. \<open>Json_Memory\<close>
    (\<^verbatim>\<open>allocators.h\<close>, \<^verbatim>\<open>stack.h\<close>, \<^verbatim>\<open>stringbuffer.h\<close>): the pool below a document keeps the blocks of
    its client apart, the buffer below the writer holds what was written.

  \<^item> \<open>Dc_Server\<close> (\<^verbatim>\<open>DcServer.cpp\<close>): the table and its handlers, one function for each locked
    section, and the locale \<open>node_registry\<close>, interpreted on the table. \<open>Dc_Threads\<close>: the step
    relation \<open>dc_step\<close> over all threads of the server, reachable states, the invariant, refinement
    of a map from address to last contact, causes of removal, round robin, request outcomes.

  \<^item> \<open>Swartz_Utils\<close>, \<open>Work_Queue\<close>, \<open>Thread_Pool\<close> (\<^verbatim>\<open>swartz_*.cpp\<close>): semaphores, mutexes, threads,
    atomics; the task queue as a linked list on a heap, refining a list (locale \<open>fifo_queue\<close>); workers,
    dispatch and destroy as programs with a counter, \<open>tp_step\<close> interleaves them.

  \<^item> \<open>Http_Server\<close> (\<^verbatim>\<open>HttpServer.cpp\<close>): routing, replies, life cycle, start of the whole server.

  \<^item> \<open>Mq_Uri\<close>, \<open>Mq_Connection\<close>, \<open>Mq_Mgr\<close> (\<^verbatim>\<open>MqMgr.cpp\<close>, \<^verbatim>\<open>MqConnection.cpp\<close>,
    \<^verbatim>\<open>libactivemq.cpp\<close>): URLs, connections with producers and consumers and the reconnect loop, the
    manager's cache of pointers over a heap.

  \<^item> \<open>Xml_Parser\<close>, \<open>Xml_Text\<close>, \<open>Xml_Layout\<close>, \<open>Xml_Config\<close> (\<^verbatim>\<open>tinyxml2.cpp\<close>, \<^verbatim>\<open>localconfig.cpp\<close>): from
    the bytes of a file to the tree (locale \<open>element_reader\<close>) and to the node's settings; every layout of
    a document, with white space where the markup allows it, is parsed to the document.
    \<open>Xml_Printer\<close>: the printer, whose output is such a layout. \<open>Xml_Pool\<close>, \<open>Xml_Attributes\<close>,
    \<open>Xml_Nodes\<close>, \<open>Xml_Tree\<close>: the links of the nodes on a heap, the array of loose nodes (locale
    \<open>list_array\<close>), the attribute lists and the pools; the operations refine those of a forest of child
    lists and of lists of names and values, and clearing a document frees everything. \<open>Xml_Clone\<close>:
    making, comparing and cloning nodes; a copy of a document shows the same trees.

  \<^item> \<open>Node_Server\<close> (\<^verbatim>\<open>NodeServer.cpp\<close>, \<^verbatim>\<open>dp.cpp\<close>, \<^verbatim>\<open>main.cpp\<close>): the node over the message queue
    library (locale \<open>message_service\<close>, interpreted on the manager). \<open>X_Logger\<close> (\<^verbatim>\<open>xlogger.cpp\<close>).

  \<^item> \<open>Cluster\<close> and this theory: nodes and server put together, each being the other's peer on the
    network, down to the bytes.

  \<^bold>\<open>State and operations.\<close> A class is a record with the fields of the class, a method a function
  on it; a struct's \<^verbatim>\<open>__isset\<close> flags are fields. What another component decides is an argument of
  the operation: the outcome of a POSIX or ActiveMQ or libevent call, the tick of the clock, the
  network peer, the type \<^verbatim>\<open>double\<close> with its operations (\<open>fpu\<close>), the reader and writer of
  \<^verbatim>\<open>TApplicationException\<close>. Exceptions and error codes are values; undefined behaviour (null or freed
  pointers, failed assertions) is \<open>None\<close> or a failure of its own, never a silent default. Pointers
  that alias (queue items, producers) live in heaps. Threads are step relations whose steps are the
  sections between shared accesses.

  \<^bold>\<open>Bounds and fuel.\<close> Words keep their width where the code depends on it: byte counts, sequence
  numbers, sizes, type codes and the digit loops of the JSON reader. The field loop of a struct has
  fuel one more than the length of the input, and each turn consumes a byte. \<^verbatim>\<open>skip\<close> recurses on the
  code's own limit. The JSON and the XML parser recurse on the length of the text, which each level
  shortens; \<open>Json_Document\<close> and \<open>Xml_Text\<close> show that the fuel is never the outcome. Deleting XML
  nodes is a partial function on the links, which \<open>Xml_Tree\<close> shows to return. The reconnect loop
  and the periodic loops of node and server, which need not end, run on the list of what happens in
  each turn.

  \<^bold>\<open>Not modelled.\<close> Code that is only a binary library here: sockets, framing and the non-blocking
  server of Thrift, libevent, ActiveMQ, log4cxx, POSIX; they are arguments. Code the programs
  never call: other parse flags and encodings of rapidjson, its schema and pointer parts, the
  conversions of its values to \<^verbatim>\<open>float\<close>; XML attributes and texts as numbers, but for integers; Windows branches. Also
  left out: log output of the programs, allocation failure except where the code tests for it,
  line numbers in XML errors. The exponent of a JSON number and the counts of members the reader keeps
  and of elements are unbounded integers. The counter of the round robin is an integer too; it
  stays at or below the number of nodes.
\<close>

section \<open>Nodes and server\<close>

text \<open>C2: The cluster heals itself over the wire. Whatever a node believes and whatever the
  server's table holds, after two turns of the node's heartbeat thread against a live server the
  node is registered and the server has just heard of it, as long as the entry the first turn may
  have made was not removed in between. The turns run the node's code, the generated stubs, the
  binary protocol, the processor and the server's handlers; the port in the table is the
  configured one.\<close>

theorem cluster_recovers_in_two_turns:
  assumes "length (NodeIp (ns_nodeInfo st)) \<le> 2147483647"
    and "node_turn xread xwrite t1 t2 (st, sv) = (st1, sv1)"
    and "last_seen sv1 (info_key (ns_nodeInfo st)) \<noteq> None \<longrightarrow> last_seen sv1' (info_key (ns_nodeInfo st)) \<noteq> None"
    and "node_turn xread xwrite t3 t4 (st1, sv1') = (st2, sv2)"
  shows "ns_bregister_ok st2 \<and> last_seen sv2 (info_key (ns_nodeInfo st)) = Some t4"
proof -
  note t1 = node_turn_effect [OF assms(1,2)]
  have i: "ns_nodeInfo st1 = ns_nodeInfo st" using t1(1) by simp
  with assms(1) have "length (NodeIp (ns_nodeInfo st1)) \<le> 2147483647" by simp
  note t2 = node_turn_effect [OF this assms(4)]
  have "ns_bregister_ok st2" using t1 t2(1) i assms(3) by (auto split: if_splits)
  with t2(2) i show ?thesis by simp
qed

definition plain_xwrite :: "app_error \<Rightarrow> string \<Rightarrow> writer" where
  "plain_xwrite e m = writeFieldStop"

theorem cluster_recovers_in_two_turns_witness:
  "\<exists>st1 sv1 st2 sv2. node_turn (rthrow TTransportException) plain_xwrite 5 6 (demo_node\<lparr>ns_bregister_ok := True\<rparr>, DcServer_new) = (st1, sv1) \<and>
    node_turn (rthrow TTransportException) plain_xwrite 7 8 (st1, sv1) = (st2, sv2) \<and> ns_bregister_ok st2"
proof -
  let ?n = "demo_node\<lparr>ns_bregister_ok := True\<rparr>" and ?x = "rthrow TTransportException"
  obtain st1 sv1 where 1: "node_turn ?x plain_xwrite 5 6 (?n, DcServer_new) = (st1, sv1)"
    by (cases "node_turn ?x plain_xwrite 5 6 (?n, DcServer_new)")
  obtain st2 sv2 where 2: "node_turn ?x plain_xwrite 7 8 (st1, sv1) = (st2, sv2)"
    by (cases "node_turn ?x plain_xwrite 7 8 (st1, sv1)")
  have "length (NodeIp (ns_nodeInfo ?n)) \<le> 2147483647"
    by (simp add: demo_node_info dcnode_info_def NODE_INFO_new_def)
  from cluster_recovers_in_two_turns [OF this 1 _ 2] 1 2 show ?thesis by simp
qed

text \<open>One turn, exactly. A node that is not registered registers and is stamped; one that
  is registered stays so exactly when the server still knows it, and is then stamped; otherwise
  it falls back to unregistered and the server's table does not change. No other entry of the
  table is touched, and nothing else of the node.\<close>

lemma heartbeat_turn_over_the_wire:
  assumes "length (NodeIp (ns_nodeInfo st)) \<le> 2147483647" and "node_turn xread xwrite t1 t2 (st, sv) = (st', sv')"
  shows "st' = st\<lparr>ns_bregister_ok := \<not> ns_bregister_ok st \<or> info_key (ns_nodeInfo st) \<in> dom (last_seen sv)\<rparr> \<and>
    last_seen sv' = (if ns_bregister_ok st' then (last_seen sv)(info_key (ns_nodeInfo st) \<mapsto> t2) else last_seen sv)"
  using node_turn_effect [OF assms] by blast

theorem heartbeat_turn_over_the_wire_witness:
  "\<not> ns_bregister_ok (fst (node_turn (rthrow TTransportException) plain_xwrite 5 6 (demo_node\<lparr>ns_bregister_ok := True\<rparr>, DcServer_new)))"
proof -
  let ?n = "demo_node\<lparr>ns_bregister_ok := True\<rparr>" and ?x = "rthrow TTransportException"
  obtain st1 sv1 where 1: "node_turn ?x plain_xwrite 5 6 (?n, DcServer_new) = (st1, sv1)"
    by (cases "node_turn ?x plain_xwrite 5 6 (?n, DcServer_new)")
  have "length (NodeIp (ns_nodeInfo ?n)) \<le> 2147483647"
    by (simp add: demo_node_info dcnode_info_def NODE_INFO_new_def)
  from heartbeat_turn_over_the_wire [OF this 1] show ?thesis by (simp add: 1 last_seen_new)
qed



text \<open>C7: No message can break the table. For any bytes whatsoever the registration service
  comes to an end, and the server's state afterwards is what it was, or the result of exactly one
  registration or one heartbeat; the table's invariant survives.\<close>

theorem any_bytes_are_harmless:
  assumes "\<And>e m. xwrite e m \<noteq> Inl Loop_Budget_Exhausted" and "table_ok sv"
  shows "fst (server_process xwrite now bs sv) \<noteq> Inl Loop_Budget_Exhausted \<and>
    (let sv' = snd (server_process xwrite now bs sv) in table_ok sv' \<and>
      (sv' = sv \<or> (\<exists>ci. sv' = snd (RegisterWork ci now sv)) \<or> (\<exists>hb. sv' = snd (HeartBeatWork hb now sv))))"
proof -
  let ?I = "\<lambda>sv'. table_ok sv' \<and> (sv' = sv \<or> (\<exists>ci. sv' = snd (RegisterWork ci now sv)) \<or> (\<exists>hb. sv' = snd (HeartBeatWork hb now sv)))"
  have "?I (snd (RegistProcessor_process TBinaryProtocol xwrite (RegistHandler now) bs sv))"
    by (rule RegistProcessor_keeps)
      (use assms(2) table_ok_intros in \<open>auto simp: RegistHandler_def Let_def case_prod_beta\<close>)
  then show ?thesis
    using RegistProcessor_not_budget [OF assms(1)] by (simp add: server_process_def Let_def)
qed

theorem any_bytes_are_harmless_witness:
  "table_ok (snd (server_process plain_xwrite 5 [1, 2, 3] DcServer_new))"
proof -
  have x: "plain_xwrite e m \<noteq> Inl Loop_Budget_Exhausted" for e m
    by (simp add: plain_xwrite_def writeFieldStop_def writeByte_def wreturn_def)
  from any_bytes_are_harmless [OF x table_ok_new] show ?thesis by (simp add: Let_def)
qed

end
